(* ===== verification/Prelude.thy ===== *)
theory Prelude
  imports
    Complex_Main
    "HOL-Library.Word"
    "HOL-Library.AList"
    "HOL-Library.Sublist"
    "HOL-Library.List_Lexorder"
    "HOL-Library.Char_ord"
begin

unbundle bit_operations_syntax

text \<open>
  Shared vocabulary of the development.

  \<^item> Machine integers that the code keeps unsigned are words (\<open>u8\<close>, \<open>u16\<close>, \<open>u32\<close>,
    \<open>u64\<close>). Signed \<open>int\<close>, \<open>int32_t\<close> and \<open>int64_t\<close> values, whose overflow is undefined
    in C++, are \<open>int\<close>; \<open>size_t\<close> container sizes are \<open>nat\<close>.
  \<^item> \<open>f32\<close> is an IEEE single-precision value: a finite value is the rational it denotes
    (the two zeros, which compare equal, are one value), next to the infinities and NaN.
  \<^item> The two dictionary classes of the standard library. \<open>std::unordered_map\<close> is an
    association list with distinct keys, whose list order is the (unspecified) iteration
    order; \<open>std::map\<close> is an association list sorted by key. The locale \<open>dictionary\<close>
    states the laws both have, and it is interpreted for both.
  \<^item> The locale \<open>checked_run\<close> lifts an invariant from the events of a component to its runs; the queue
    and the sender interpret it.
\<close>

section \<open>Automation\<close>

named_theorems dict_simps \<open>what a lookup returns after an update of a dictionary\<close>
named_theorems wf_intros \<open>operations keep the well-formedness of their component\<close>

section \<open>Machine integers and floats\<close>

type_synonym u8 = "8 word"
type_synonym u16 = "16 word"
type_synonym u32 = "32 word"
type_synonym u64 = "64 word"

datatype f32 = Fin rat | PInf | NInf | NaN

fun f32_less :: "f32 \<Rightarrow> f32 \<Rightarrow> bool" where
  "f32_less (Fin a) (Fin b) = (a < b)"
| "f32_less (Fin _) PInf = True"
| "f32_less NInf (Fin _) = True"
| "f32_less NInf PInf = True"
| "f32_less _ _ = False"

lemma f32_less_irrefl [simp]: "\<not> f32_less x x"
  by (cases x) auto

lemma f32_less_trans: "f32_less x y \<Longrightarrow> f32_less y z \<Longrightarrow> f32_less x z"
  by (cases x; cases y; cases z) auto

lemma f32_not_less_trans:
  "\<not> f32_less x y \<Longrightarrow> \<not> f32_less y z \<Longrightarrow> y \<noteq> NaN \<Longrightarrow> \<not> f32_less x z"
  by (cases x; cases y; cases z) auto

lemma f32_less_asym: "f32_less a b \<Longrightarrow> \<not> f32_less b a"
  by (cases a; cases b) auto

lemma f32_less_NaN [simp]: "\<not> f32_less NaN x" "\<not> f32_less x NaN"
  by (cases x; simp)+

text \<open>\<open>std::max\<close> on floats: the second argument only if the first is less.\<close>

definition f32_max :: "f32 \<Rightarrow> f32 \<Rightarrow> f32" where
  "f32_max a b = (if f32_less a b then b else a)"

text \<open>\<open>std::min\<close>: the second argument only if it is less.\<close>

definition f32_min :: "f32 \<Rightarrow> f32 \<Rightarrow> f32" where
  "f32_min a b = (if f32_less b a then b else a)"

section \<open>Bytes of a machine word\<close>

lemma bit_byte: "bit (0xFF :: int) n \<longleftrightarrow> n < 8"
proof -
  have "(0xFF :: int) = mask 8" by (simp add: mask_eq_exp_minus_1)
  then show ?thesis by (simp only: bit_mask_iff) auto
qed

text \<open>Byte \<open>i\<close> of a number, counted from the least significant one.\<close>

definition byte_of :: "nat \<Rightarrow> 'a::len word \<Rightarrow> u8" where
  "byte_of i v = ucast (drop_bit (8 * i) v AND 0xFF)"

lemma word_cat_bytes [simp]:
  "word_cat (byte_of (Suc 0) v) (byte_of 0 v) = (v :: u16)"
  "word_cat (word_cat (byte_of 3 w) (byte_of 2 w) :: u16) (word_cat (byte_of (Suc 0) w) (byte_of 0 w) :: u16)
     = (w :: u32)"
  unfolding byte_of_def
  by (rule bit_word_eqI, auto simp: bit_word_cat_iff bit_simps bit_byte)+

section \<open>Runs\<close>

text \<open>
  A component driven by a sequence of events, each of which may end in undefined behaviour. Once every event
  is known to succeed on the states of an invariant and to keep it, so does every run.
\<close>

locale checked_run =
  fixes step :: "'e \<Rightarrow> 's \<Rightarrow> 'err + 's"
    and run :: "'e list \<Rightarrow> 's \<Rightarrow> 'err + 's"
    and inv :: "'s \<Rightarrow> bool"
  assumes run_Nil: "run [] s = Inr s"
    and run_Cons: "run (e # es) s = (case step e s of Inl err \<Rightarrow> Inl err | Inr s' \<Rightarrow> run es s')"
    and step_inv: "inv s \<Longrightarrow> \<exists>s'. step e s = Inr s' \<and> inv s'"
begin

lemma run_inv: "inv s \<Longrightarrow> \<exists>s'. run es s = Inr s' \<and> inv s'"
proof (induction es arbitrary: s)
  case Nil
  then show ?case by (simp add: run_Nil)
next
  case (Cons e es)
  from step_inv [OF Cons.prems, of e] obtain s' where "step e s = Inr s'" "inv s'" by blast
  with Cons.IH show ?case by (simp add: run_Cons)
qed

end

section \<open>Dictionaries\<close>

locale dictionary =
  fixes look :: "'m \<Rightarrow> 'k \<Rightarrow> 'v option"
    and put :: "'k \<Rightarrow> 'v \<Rightarrow> 'm \<Rightarrow> 'm"
    and del :: "'k \<Rightarrow> 'm \<Rightarrow> 'm"
    and wf :: "'m \<Rightarrow> bool"
  assumes look_put: "wf m \<Longrightarrow> look (put k v m) = (look m)(k \<mapsto> v)"
    and look_del: "wf m \<Longrightarrow> look (del k m) = (look m)(k := None)"
    and wf_put: "wf m \<Longrightarrow> wf (put k v m)"
    and wf_del: "wf m \<Longrightarrow> wf (del k m)"
begin

lemma wf_fold_put: "wf m \<Longrightarrow> wf (fold (\<lambda>x. put (key x) (val x)) xs m)"
  by (induction xs arbitrary: m) (simp_all add: wf_put)

lemma look_fold_put:
  "wf m \<Longrightarrow> look (fold (\<lambda>x. put (key x) (val x)) xs m) =
     look m ++ map_of (rev (map (\<lambda>x. (key x, val x)) xs))"
proof (induction xs arbitrary: m)
  case Nil
  then show ?case by simp
next
  case (Cons x xs)
  have "look (fold (\<lambda>x. put (key x) (val x)) (x # xs) m)
      = look (put (key x) (val x) m) ++ map_of (rev (map (\<lambda>x. (key x, val x)) xs))"
    using Cons.IH [OF wf_put [OF Cons.prems]] by simp
  also have "\<dots> = look m ++ map_of (rev (map (\<lambda>x. (key x, val x)) (x # xs)))"
    using Cons.prems by (simp add: look_put)
  finally show ?case .
qed

lemma look_put_del: "wf m \<Longrightarrow> look (put k v (del k m)) = (look m)(k \<mapsto> v)"
  by (simp add: look_put look_del wf_del)

end

subsection \<open>Unordered maps\<close>

definition distinct_keys :: "('k \<times> 'v) list \<Rightarrow> bool" where
  "distinct_keys m \<longleftrightarrow> distinct (map fst m)"

lemma distinct_keys_Nil [simp]: "distinct_keys []"
  by (simp add: distinct_keys_def)

lemma distinct_keys_Cons [simp]:
  "distinct_keys (p # m) \<longleftrightarrow> fst p \<notin> fst ` set m \<and> distinct_keys m"
  by (simp add: distinct_keys_def)

lemma distinct_keys_filter [wf_intros]: "distinct_keys m \<Longrightarrow> distinct_keys (filter P m)"
  by (simp add: distinct_keys_def distinct_map_filter)

interpretation umap: dictionary map_of AList.update AList.delete distinct_keys
proof
  fix m :: "('k \<times> 'v) list" and k v
  show "map_of (AList.update k v m) = (map_of m)(k \<mapsto> v)"
    by (rule update_conv')
  show "map_of (AList.delete k m) = (map_of m)(k := None)"
    by (rule delete_conv')
  assume "distinct_keys m"
  then show "distinct_keys (AList.update k v m)"
    by (simp add: distinct_keys_def distinct_update)
  from \<open>distinct_keys m\<close> show "distinct_keys (AList.delete k m)"
    by (simp add: distinct_keys_def distinct_delete)
qed

lemmas umap_look [dict_simps] = update_conv' delete_conv'

declare umap.wf_put [wf_intros] umap.wf_del [wf_intros]

lemma map_of_distinct_iff:
  "distinct_keys m \<Longrightarrow> map_of m k = Some v \<longleftrightarrow> (k, v) \<in> set m"
  by (simp add: distinct_keys_def)

lemma map_of_filter_distinct:
  "distinct_keys m \<Longrightarrow>
    map_of (filter P m) k = (case map_of m k of None \<Rightarrow> None | Some v \<Rightarrow> if P (k, v) then Some v else None)"
proof (induction m)
  case Nil
  then show ?case by simp
next
  case (Cons p m)
  obtain k' v' where p: "p = (k', v')" by (cases p)
  have "map_of m k' = None" if "k' \<notin> fst ` set m"
    using that by (simp add: map_of_eq_None_iff)
  with Cons p show ?case by auto
qed

subsection \<open>Ordered maps\<close>

fun omap_put :: "'k::linorder \<Rightarrow> 'v \<Rightarrow> ('k \<times> 'v) list \<Rightarrow> ('k \<times> 'v) list" where
  "omap_put k v [] = [(k, v)]"
| "omap_put k v (p # m) =
     (if k < fst p then (k, v) # p # m
      else if k = fst p then (k, v) # m
      else p # omap_put k v m)"

definition sorted_keys :: "('k::linorder \<times> 'v) list \<Rightarrow> bool" where
  "sorted_keys m \<longleftrightarrow> sorted_wrt (<) (map fst m)"

lemma sorted_keys_Nil [simp]: "sorted_keys []"
  by (simp add: sorted_keys_def)

lemma sorted_keys_Cons [simp]:
  "sorted_keys (p # m) \<longleftrightarrow> (\<forall>q \<in> set m. fst p < fst q) \<and> sorted_keys m"
  by (auto simp: sorted_keys_def)

lemma set_omap_put_subset: "set (omap_put k v m) \<subseteq> insert (k, v) (set m)"
  by (induction m) auto

lemma fst_omap_put: "fst ` set (omap_put k v m) = insert k (fst ` set m)"
  by (induction m) auto

lemma sorted_keys_distinct: "sorted_keys m \<Longrightarrow> distinct_keys m"
  by (induction m) auto

lemma sorted_keys_filter: "sorted_keys m \<Longrightarrow> sorted_keys (filter P m)"
  by (induction m) auto

lemma map_of_omap_put: "sorted_keys m \<Longrightarrow> map_of (omap_put k v m) = (map_of m)(k \<mapsto> v)"
proof (induction m)
  case Nil
  then show ?case by simp
next
  case (Cons p m)
  then show ?case by (cases p) (auto simp: fun_eq_iff)
qed

lemma sorted_keys_omap_put: "sorted_keys m \<Longrightarrow> sorted_keys (omap_put k v m)"
proof (induction m)
  case Nil
  then show ?case by simp
next
  case (Cons p m)
  have "\<forall>q \<in> set (omap_put k v m). fst p < fst q" if "fst p < k"
    using set_omap_put_subset [of k v m] Cons.prems that by auto
  with Cons show ?case by auto
qed

interpretation omap: dictionary map_of omap_put AList.delete sorted_keys
proof
  fix m :: "('k::linorder \<times> 'v) list" and k v
  show "map_of (AList.delete k m) = (map_of m)(k := None)"
    by (rule delete_conv')
  assume m: "sorted_keys m"
  show "map_of (omap_put k v m) = (map_of m)(k \<mapsto> v)"
    using m by (rule map_of_omap_put)
  show "sorted_keys (omap_put k v m)"
    using m by (rule sorted_keys_omap_put)
  show "sorted_keys (AList.delete k m)"
    using m by (simp add: AList.delete_eq sorted_keys_filter)
qed

declare omap.wf_put [wf_intros] omap.wf_del [wf_intros] sorted_keys_filter [wf_intros]

section \<open>Searching lists\<close>

lemma find_Some_split:
  "List.find P xs = Some x \<Longrightarrow> \<exists>ys zs. xs = ys @ x # zs \<and> P x \<and> (\<forall>y \<in> set ys. \<not> P y)"
proof (induction xs)
  case Nil
  then show ?case by simp
next
  case (Cons a xs)
  show ?case
  proof (cases "P a")
    case True
    with Cons.prems show ?thesis by (intro exI [of _ "[]"] exI [of _ xs]) simp
  next
    case False
    with Cons obtain ys zs where "xs = ys @ x # zs" "P x" "\<forall>y \<in> set ys. \<not> P y" by auto
    with False show ?thesis by (intro exI [of _ "a # ys"] exI [of _ zs]) simp
  qed
qed

lemma find_None_all: "List.find P xs = None \<longleftrightarrow> (\<forall>x \<in> set xs. \<not> P x)"
  by (auto simp: find_None_iff)

lemma find_rev_Some_split:
  assumes "List.find P (rev xs) = Some x"
  shows "\<exists>ys zs. xs = ys @ x # zs \<and> P x \<and> (\<forall>z \<in> set zs. \<not> P z)"
proof -
  from find_Some_split [OF assms] obtain as bs
    where "rev xs = as @ x # bs" "P x" "\<forall>y \<in> set as. \<not> P y" by blast
  moreover from this have "xs = rev bs @ x # rev as"
    by (metis rev_append rev_rev_ident append.assoc rev.simps(2) append_Cons append_Nil)
  ultimately show ?thesis by (intro exI [of _ "rev bs"] exI [of _ "rev as"]) simp
qed

lemma upt_split_Cons:
  assumes "[0..<n] = ks @ k # js"
  shows "k < n" and "ks = [0..<k]"
proof -
  have len: "length ks < n" using arg_cong [OF assms, of length] by simp
  have "k = [0..<n] ! length ks" by (simp add: assms)
  with len have k: "k = length ks" by simp
  have "ks = take (length ks) [0..<n]" by (simp add: assms)
  with len k show "k < n" and "ks = [0..<k]" by simp_all
qed

end
