(* ===== verification/Messages.thy ===== *)
theory Messages
  imports Prelude
begin

text \<open>
  The protobuf messages of \<open>third_party/protocol/protobufs/media-agent\<close> as records: one
  field per field of the \<open>.proto\<close> file, in its order. A \<open>oneof\<close> is a datatype, a submessage whose presence the
  code asks for (\<open>has_tracker\<close>) an option, and a submessage it only reads the record itself,
  since proto3 reads an absent one as the default instance. Strings are byte strings.

  The code compares messages with \<open>MessageDifferencer::Equals\<close> of the protobuf library. It
  is a parameter of the definitions that call it: the record \<open>differencer\<close> holds the two
  instances of \<open>isSameProtoMessage\<close> the program uses. It is not assumed to be the equality of
  HOL, because the library's comparison of a NaN field with itself is false.
\<close>

section \<open>types.proto\<close>

record Box =
  bx_cx :: f32
  bx_cy :: f32
  bx_width :: f32
  bx_height :: f32
  bx_angle :: f32

record Point2D =
  pt_x :: f32
  pt_y :: f32

datatype RoiMode = ROI_MODE_UNKNOWN | ROI_INCLUDE | ROI_EXCLUDE

datatype RoiShape = ShapeUnset | ShapeRect Box | ShapePoly "Point2D list"

record RoiArea =
  ro_enabled :: bool
  ro_mode :: RoiMode
  ro_shape :: RoiShape

section \<open>media-agent.proto\<close>

record DetectionObject =
  ob_object_id :: u32
  ob_class_id :: u32
  ob_class_name :: string
  ob_confidence :: f32
  ob_bbox :: Box

record AlarmInfo =
  ai_alarm_id :: string
  ai_stream_id :: string
  ai_timestamp_ms :: int
  ai_algorithm_id :: string
  ai_level :: int
  ai_confidence :: f32
  ai_target :: "DetectionObject list"
  ai_description :: string
  ai_snapshot_name :: string
  ai_record_name :: string

record HeartBeat =
  hb_agent_id :: string
  hb_uptime_s :: int
  hb_stream_count :: int

record AlgorithmConfig =
  al_algorithm_id :: string
  al_model_path :: string
  al_threshold :: f32
  al_alarm_level :: int
  al_start_date :: int
  al_end_date :: int
  al_rois :: "RoiArea list"

record TrackerConfig =
  tk_enabled :: bool
  tk_tracker_type :: string
  tk_min_thresh :: f32
  tk_high_thresh :: f32
  tk_max_iou_distance :: f32
  tk_high_thresh_person :: f32
  tk_high_thresh_motorbike :: f32
  tk_max_age :: int
  tk_n_init :: int

record StreamConfig =
  sc_enabled :: bool
  sc_stream_id :: string
  sc_rtsp_url :: string
  sc_new_rtsp_url :: string
  sc_reconnect_interval_s :: int
  sc_alarm_snapshot_dir :: string
  sc_alarm_record_dir :: string
  sc_alarm_record_duration_s :: int
  sc_alarm_dedup_interval_s :: int
  sc_algorithms :: "AlgorithmConfig list"
  sc_tracker :: "TrackerConfig option"

record AgentConfig =
  ag_agent_id :: string
  ag_config_id :: int
  ag_streams :: "StreamConfig list"

record ConfigAck =
  ack_agent_id :: string
  ack_success :: bool
  ack_message :: string

datatype MessageType =
  MSG_UNKNOWN | MSG_HEARTBEAT | MSG_CONFIG | MSG_CONFIG_ACK | MSG_DETECTION | MSG_ALARM

text \<open>The detection body is never built or read by the program, so it carries nothing here.\<close>

datatype EnvelopeBody =
  BodyUnset | BodyHeartBeat HeartBeat | BodyConfig AgentConfig | BodyConfigAck ConfigAck
| BodyDetection | BodyAlarm AlarmInfo

record Envelope =
  env_version :: int
  env_type :: MessageType
  env_seq :: u32
  env_body :: EnvelopeBody

definition PROTO_VERSION_CURRENT :: int where
  "PROTO_VERSION_CURRENT = 10700"

section \<open>Default instances\<close>

definition default_Box :: Box where
  "default_Box = \<lparr>bx_cx = Fin 0, bx_cy = Fin 0, bx_width = Fin 0, bx_height = Fin 0, bx_angle = Fin 0\<rparr>"

definition default_AlgorithmConfig :: AlgorithmConfig where
  "default_AlgorithmConfig =
     \<lparr>al_algorithm_id = [], al_model_path = [], al_threshold = Fin 0, al_alarm_level = 0,
      al_start_date = 0, al_end_date = 0, al_rois = []\<rparr>"

definition default_TrackerConfig :: TrackerConfig where
  "default_TrackerConfig =
     \<lparr>tk_enabled = False, tk_tracker_type = [], tk_min_thresh = Fin 0, tk_high_thresh = Fin 0,
      tk_max_iou_distance = Fin 0, tk_high_thresh_person = Fin 0, tk_high_thresh_motorbike = Fin 0,
      tk_max_age = 0, tk_n_init = 0\<rparr>"

definition default_StreamConfig :: StreamConfig where
  "default_StreamConfig =
     \<lparr>sc_enabled = False, sc_stream_id = [], sc_rtsp_url = [], sc_new_rtsp_url = [],
      sc_reconnect_interval_s = 0, sc_alarm_snapshot_dir = [], sc_alarm_record_dir = [],
      sc_alarm_record_duration_s = 0, sc_alarm_dedup_interval_s = 0, sc_algorithms = [],
      sc_tracker = None\<rparr>"

section \<open>The message comparison of the protobuf library\<close>

record differencer =
  same_algorithm :: "AlgorithmConfig \<Rightarrow> AlgorithmConfig \<Rightarrow> bool"
  same_tracker :: "TrackerConfig \<Rightarrow> TrackerConfig \<Rightarrow> bool"

end
