(* ===== verification/StreamTypes.thy ===== *)
theory StreamTypes
  imports Messages
begin

text \<open>
  The data that moves through the pipeline: \<open>pipeline/StreamTypes.h\<close>, \<open>common/DmaImage.h\<close> and
  the fields of FFmpeg's \<open>AVPacket\<close> the program reads or writes. A \<open>shared_ptr\<close> that may be
  null is an option. An \<open>AVPacket\<close> without data and one of size 0 are both the empty byte list:
  the code tests them together everywhere. \<open>AV_NOPTS_VALUE\<close> is the smallest \<open>int64_t\<close>.
\<close>

datatype MediaType = Video | Audio

datatype InferState = Idle | Selected | Running | Done | Dropped

definition AV_NOPTS_VALUE :: int where
  "AV_NOPTS_VALUE = - (2 ^ 63)"

record AVPacket =
  av_data :: "u8 list"
  av_pts :: int
  av_dts :: int
  av_duration :: int
  av_stream_index :: int
  av_key_flag :: bool
  av_pos :: int

text \<open>\<open>allocated\<close> says whether \<open>av_packet_clone\<close> succeeds; the second overload takes a pointer that may be null.\<close>

definition clonePacket :: "bool \<Rightarrow> AVPacket \<Rightarrow> AVPacket option" where
  "clonePacket allocated packet = (if allocated then Some packet else None)"

definition clonePacket_ptr :: "bool \<Rightarrow> AVPacket option \<Rightarrow> AVPacket option" where
  "clonePacket_ptr allocated packet = (case packet of None \<Rightarrow> None | Some p \<Rightarrow> clonePacket allocated p)"

record DmaImage =
  di_fd :: int
  di_virt_addr :: "u8 list option"
  di_size :: nat
  di_width :: int
  di_height :: int
  di_width_stride :: int
  di_height_stride :: int

datatype MppCodingType =
  MPP_VIDEO_CodingUnused | MPP_VIDEO_CodingAVC | MPP_VIDEO_CodingHEVC
| MPP_VIDEO_CodingVP8 | MPP_VIDEO_CodingVP9

record EncodedPacket =
  ep_media_type :: MediaType
  ep_packet :: "AVPacket option"
  ep_stream_index :: int
  ep_pts :: int
  ep_dts :: int
  ep_duration :: int
  ep_timestamp_ms :: int
  ep_is_keyframe :: bool
  ep_frame_id :: int
  ep_enqueue_mono_ms :: int

record FrameBundle =
  fb_stream_id :: string
  fb_frame_id :: int
  fb_pts :: int
  fb_dts :: int
  fb_duration :: int
  fb_timestamp_ms :: int
  fb_is_keyframe :: bool
  fb_width :: int
  fb_height :: int
  fb_source_fps :: int
  fb_source_bitrate :: int
  fb_source_coding :: MppCodingType
  fb_source_codec_id :: int
  fb_decoded_image :: "DmaImage option"
  fb_infer_state :: InferState

record FrameInferenceResult =
  fr_stream_id :: string
  fr_frame_id :: int
  fr_pts :: int
  fr_algorithm_id :: string
  fr_objects :: "DetectionObject list"
  fr_alarm_objects :: "DetectionObject list"
  fr_infer_start_mono_ms :: int
  fr_infer_done_mono_ms :: int
  fr_expire_at_mono_ms :: int

text \<open>The values a default-constructed object has.\<close>

definition new_EncodedPacket :: EncodedPacket where
  "new_EncodedPacket =
     \<lparr>ep_media_type = Video, ep_packet = None, ep_stream_index = -1, ep_pts = -1, ep_dts = -1,
      ep_duration = 0, ep_timestamp_ms = 0, ep_is_keyframe = False, ep_frame_id = -1,
      ep_enqueue_mono_ms = 0\<rparr>"

definition new_FrameBundle :: FrameBundle where
  "new_FrameBundle =
     \<lparr>fb_stream_id = [], fb_frame_id = -1, fb_pts = -1, fb_dts = -1, fb_duration = 0,
      fb_timestamp_ms = 0, fb_is_keyframe = False, fb_width = 0, fb_height = 0,
      fb_source_fps = 25, fb_source_bitrate = 0, fb_source_coding = MPP_VIDEO_CodingUnused,
      fb_source_codec_id = 0, fb_decoded_image = None, fb_infer_state = Idle\<rparr>"

definition new_FrameInferenceResult :: FrameInferenceResult where
  "new_FrameInferenceResult =
     \<lparr>fr_stream_id = [], fr_frame_id = -1, fr_pts = -1, fr_algorithm_id = [], fr_objects = [],
      fr_alarm_objects = [], fr_infer_start_mono_ms = 0, fr_infer_done_mono_ms = 0,
      fr_expire_at_mono_ms = 0\<rparr>"

end
