(* ===== verification/Float32.thy ===== *)
theory Float32
  imports Prelude "HOL-Library.Log_Nat"
begin

text \<open>
  The single-precision arithmetic the program uses. \<open>rnd32\<close> is the IEEE 754 rounding of an exact
  result to the nearest \<open>float\<close>, ties to even, with gradual underflow and overflow to infinity; an
  operation on finite values rounds its exact result. \<open>std::round\<close>, \<open>std::fmod\<close> and \<open>std::clamp\<close>
  are exact. Converting a \<open>float\<close> that is not representable to an integer is undefined in
  C++: such a conversion is \<open>None\<close>.
\<close>

section \<open>Rounding\<close>

definition pow2 :: "int \<Rightarrow> rat" where
  "pow2 e = (if 0 \<le> e then 2 ^ nat e else 1 / 2 ^ nat (- e))"

text \<open>The exponent of a positive rational.\<close>

definition ilog2 :: "rat \<Rightarrow> int" where
  "ilog2 x =
     (case quotient_of x of
        (p, q) \<Rightarrow>
          let e = int (floorlog 2 (nat p)) - int (floorlog 2 (nat q))
          in if pow2 e \<le> x then e else e - 1)"

definition rnd_even :: "rat \<Rightarrow> int" where
  "rnd_even x =
     (let f = \<lfloor>x\<rfloor>; r = x - of_int f
      in if r < 1 / 2 then f else if 1 / 2 < r then f + 1 else if even f then f else f + 1)"

definition rnd_unit :: "rat \<Rightarrow> rat" where
  "rnd_unit x = pow2 (max (ilog2 \<bar>x\<bar>) (-126) - 23)"

definition rnd32 :: "rat \<Rightarrow> f32" where
  "rnd32 x =
     (if x = 0 then Fin 0
      else let y = of_int (rnd_even (x / rnd_unit x)) * rnd_unit x
           in if 2 ^ 128 \<le> \<bar>y\<bar> then (if 0 < x then PInf else NInf) else Fin y)"

section \<open>Operations\<close>

fun f32_mul_const :: "f32 \<Rightarrow> rat \<Rightarrow> f32" where
  "f32_mul_const (Fin a) c = rnd32 (a * c)"
| "f32_mul_const x c = (if 0 < c then x else NaN)"

fun f32_div_const :: "f32 \<Rightarrow> rat \<Rightarrow> f32" where
  "f32_div_const (Fin a) c = rnd32 (a / c)"
| "f32_div_const x c = (if 0 < c then x else NaN)"

fun f32_add_const :: "f32 \<Rightarrow> rat \<Rightarrow> f32" where
  "f32_add_const (Fin a) c = rnd32 (a + c)"
| "f32_add_const x c = x"

definition rat_trunc :: "rat \<Rightarrow> int" where
  "rat_trunc x = (if 0 \<le> x then \<lfloor>x\<rfloor> else \<lceil>x\<rceil>)"

fun f32_fmod_const :: "f32 \<Rightarrow> rat \<Rightarrow> f32" where
  "f32_fmod_const (Fin a) c = Fin (a - c * of_int (rat_trunc (a / c)))"
| "f32_fmod_const x c = NaN"

text \<open>\<open>std::round\<close>: halves away from zero.\<close>

definition rat_round :: "rat \<Rightarrow> int" where
  "rat_round x = (if 0 \<le> x then \<lfloor>x + 1 / 2\<rfloor> else \<lceil>x - 1 / 2\<rceil>)"

fun f32_round :: "f32 \<Rightarrow> f32" where
  "f32_round (Fin a) = Fin (of_int (rat_round a))"
| "f32_round x = x"

text \<open>\<open>std::clamp\<close> compares with \<open><\<close>, so a NaN passes through.\<close>

definition f32_clamp :: "f32 \<Rightarrow> f32 \<Rightarrow> f32 \<Rightarrow> f32" where
  "f32_clamp v lo hi = (if f32_less v lo then lo else if f32_less hi v then hi else v)"

text \<open>Conversion to an unsigned integer of the given number of bits.\<close>

fun f32_to_unsigned :: "nat \<Rightarrow> f32 \<Rightarrow> int option" where
  "f32_to_unsigned bits (Fin a) =
     (if 0 \<le> rat_trunc a \<and> rat_trunc a < 2 ^ bits then Some (rat_trunc a) else None)"
| "f32_to_unsigned bits _ = None"

fun f32_neg :: "f32 \<Rightarrow> f32" where
  "f32_neg (Fin a) = Fin (- a)"
| "f32_neg PInf = NInf"
| "f32_neg NInf = PInf"
| "f32_neg NaN = NaN"

fun f32_add :: "f32 \<Rightarrow> f32 \<Rightarrow> f32" where
  "f32_add (Fin a) (Fin b) = rnd32 (a + b)"
| "f32_add (Fin a) y = y"
| "f32_add x (Fin b) = x"
| "f32_add PInf PInf = PInf"
| "f32_add NInf NInf = NInf"
| "f32_add _ _ = NaN"

definition f32_sub :: "f32 \<Rightarrow> f32 \<Rightarrow> f32" where
  "f32_sub x y = f32_add x (f32_neg y)"

text \<open>
  The product, and the quotient by a positive divisor (the sign of a zero divisor, which the quotient would need, is not kept).
\<close>

fun f32_mul :: "f32 \<Rightarrow> f32 \<Rightarrow> f32" where
  "f32_mul (Fin a) (Fin b) = rnd32 (a * b)"
| "f32_mul NaN y = NaN"
| "f32_mul x NaN = NaN"
| "f32_mul x y =
     (if f32_less x (Fin 0) \<and> f32_less (Fin 0) y \<or> f32_less (Fin 0) x \<and> f32_less y (Fin 0) then NInf
      else if x = Fin 0 \<or> y = Fin 0 then NaN else PInf)"

fun f32_div_pos :: "f32 \<Rightarrow> f32 \<Rightarrow> f32" where
  "f32_div_pos (Fin a) (Fin b) = rnd32 (a / b)"
| "f32_div_pos (Fin a) PInf = Fin 0"
| "f32_div_pos PInf (Fin b) = PInf"
| "f32_div_pos NInf (Fin b) = NInf"
| "f32_div_pos _ _ = NaN"

text \<open>\<open>static_cast<float>\<close> of an \<open>int\<close>.\<close>

definition f32_of_int :: "int \<Rightarrow> f32" where
  "f32_of_int n = rnd32 (of_int n)"

text \<open>Conversion to \<open>int\<close>.\<close>

fun f32_to_int32 :: "f32 \<Rightarrow> int option" where
  "f32_to_int32 (Fin a) =
     (if - (2 ^ 31) \<le> rat_trunc a \<and> rat_trunc a < 2 ^ 31 then Some (rat_trunc a) else None)"
| "f32_to_int32 _ = None"

section \<open>The error of rounding\<close>

lemma pow2_pos [simp]: "0 < pow2 e"
  by (simp add: pow2_def)

lemma pow2_nz [simp]: "pow2 e \<noteq> 0"
  using pow2_pos [of e] by linarith

lemma pow2_powi: "pow2 e = 2 powi e"
  by (simp add: pow2_def power_int_def inverse_eq_divide power_one_over)

lemma pow2_add: "pow2 (a + b) = pow2 a * pow2 b"
  by (simp add: pow2_powi power_int_add)

lemma pow2_mono: "a \<le> b \<Longrightarrow> pow2 a \<le> pow2 b"
  by (simp add: pow2_powi power_int_increasing)

lemma floorlog_lower: "0 < n \<Longrightarrow> pow2 (int (floorlog 2 n) - 1) \<le> of_nat n"
proof -
  assume n: "0 < n"
  define k where "k = floorlog 2 n"
  have "2 ^ (k - 1) \<le> n \<and> n < 2 ^ k \<and> 0 < k"
    using floorlog_bounds [of n 2] floorlog_eq_zero_iff [of 2 n] n by (simp add: k_def)
  then have "rat_of_nat (2 ^ (k - 1)) \<le> of_nat n" "0 < k" by (simp_all only: of_nat_le_iff)
  then show ?thesis by (simp add: k_def [symmetric] pow2_def nat_diff_distrib)
qed

lemma floorlog_upper: "of_nat n < pow2 (int (floorlog 2 n))"
proof (cases "n = 0")
  case False
  then have "n < 2 ^ floorlog 2 n" using floorlog_bounds [of n 2] by simp
  then have "rat_of_nat n < of_nat (2 ^ floorlog 2 n)" by (simp only: of_nat_less_iff)
  then show ?thesis by (simp add: pow2_def)
qed simp

lemma ilog2_lower:
  assumes "0 < x"
  shows "pow2 (ilog2 x) \<le> x"
proof -
  obtain p q where pq: "quotient_of x = (p, q)" by (cases "quotient_of x")
  have q: "0 < q" and x: "x = of_int p / of_int q"
    using quotient_of_denom_pos [OF pq] quotient_of_div [OF pq] by simp_all
  have p: "0 < p" using assms x q by (simp add: zero_less_divide_iff)
  define a b where "a = int (floorlog 2 (nat p))" and "b = int (floorlog 2 (nat q))"
  have "pow2 (a - 1) \<le> of_int p" "of_int q < pow2 b"
    using floorlog_lower [of "nat p"] floorlog_upper [of "nat q"] p q by (simp_all add: a_def b_def)
  moreover have "pow2 (a - b - 1) * pow2 b = pow2 (a - 1)" by (simp add: pow2_add [symmetric])
  ultimately have "pow2 (a - b - 1) * of_int q \<le> of_int p"
    using mult_left_mono [of "of_int q" "pow2 b" "pow2 (a - b - 1)"] pow2_pos [of "a - b - 1"] by linarith
  then have "pow2 (a - b - 1) \<le> x" using q by (simp add: x pos_le_divide_eq)
  then show ?thesis by (simp add: ilog2_def pq Let_def a_def b_def)
qed

lemma rnd_even_error: "\<bar>of_int (rnd_even x) - x\<bar> \<le> 1 / 2"
proof -
  have "of_int \<lfloor>x\<rfloor> \<le> x" "x < of_int \<lfloor>x\<rfloor> + 1" using floor_correct [of x] by simp_all
  then show ?thesis unfolding rnd_even_def Let_def abs_le_iff by (simp; linarith)
qed

lemma rnd_unit_bound:
  assumes "x \<noteq> 0" "\<bar>x\<bar> \<le> B" "pow2 (-126) \<le> B"
  shows "rnd_unit x \<le> B / 2 ^ 23"
proof -
  have "pow2 (max (ilog2 \<bar>x\<bar>) (-126)) \<le> B"
    using ilog2_lower [of "\<bar>x\<bar>"] assms by (auto simp: max_def)
  moreover have "rnd_unit x * 2 ^ 23 = pow2 (max (ilog2 \<bar>x\<bar>) (-126))"
    using pow2_add [of "max (ilog2 \<bar>x\<bar>) (-126) - 23" 23] by (simp add: rnd_unit_def pow2_def [of 23])
  ultimately show ?thesis by (simp add: field_simps)
qed

lemma rnd_grid_error: "0 < u \<Longrightarrow> \<bar>of_int (rnd_even (x / u)) * u - x\<bar> \<le> u / 2"
proof -
  assume u: "0 < u"
  then have "\<bar>of_int (rnd_even (x / u)) * u - x\<bar> = \<bar>of_int (rnd_even (x / u)) - x / u\<bar> * u"
    by (simp add: left_diff_distrib abs_mult_pos)
  also have "\<dots> \<le> 1 / 2 * u" using rnd_even_error u by (intro mult_right_mono) simp_all
  finally show ?thesis by simp
qed

text \<open>Below the overflow threshold the rounded value is finite and within half a unit.\<close>

lemma rnd32_error:
  assumes "\<bar>x\<bar> \<le> B" "pow2 (-126) \<le> B" "B \<le> 2 ^ 127"
  shows "\<exists>y. rnd32 x = Fin y \<and> \<bar>y - x\<bar> \<le> B / 2 ^ 24"
proof (cases "x = 0")
  case True
  moreover have "0 \<le> B" using assms(1) by linarith
  ultimately show ?thesis by (simp add: rnd32_def)
next
  case False
  define u where "u = rnd_unit x"
  define y where "y = of_int (rnd_even (x / u)) * u"
  have u: "0 < u" "u \<le> B / 2 ^ 23"
    using rnd_unit_bound [OF False assms(1,2)] by (simp_all add: u_def rnd_unit_def)
  have err: "\<bar>y - x\<bar> \<le> B / 2 ^ 24" using rnd_grid_error [OF u(1), of x] u(2) by (simp add: y_def)
  moreover have "\<bar>y\<bar> \<le> \<bar>y - x\<bar> + \<bar>x\<bar>" using abs_triangle_ineq [of "y - x" x] by simp
  moreover have "B / 2 ^ 24 + B < 2 ^ 128" using assms(3) by simp
  ultimately have "\<bar>y\<bar> < 2 ^ 128" using assms(1) by linarith
  then have "rnd32 x = Fin y" using False by (simp add: rnd32_def y_def u_def Let_def)
  with err show ?thesis by blast
qed

lemma rnd32_nonneg: "0 \<le> x \<Longrightarrow> rnd32 x = Fin y \<Longrightarrow> 0 \<le> y"
proof (cases "x = 0")
  case False
  assume x: "0 \<le> x" and y: "rnd32 x = Fin y"
  have u: "0 < rnd_unit x" by (simp add: rnd_unit_def)
  have "0 \<le> \<lfloor>x / rnd_unit x\<rfloor>" using x u by simp
  then have "0 \<le> rnd_even (x / rnd_unit x)" by (simp add: rnd_even_def Let_def)
  with u y False show "0 \<le> y" by (auto simp: rnd32_def Let_def split: if_splits)
qed (simp add: rnd32_def)

lemma rat_round_error: "\<bar>of_int (rat_round x) - x\<bar> \<le> 1 / 2"
  using floor_correct [of "x + 1/2"] ceiling_correct [of "x - 1/2"]
  unfolding rat_round_def abs_le_iff by (cases "0 \<le> x"; simp; linarith)

lemma rat_round_nonneg: "0 \<le> x \<Longrightarrow> 0 \<le> rat_round x"
  by (simp add: rat_round_def)

lemma rat_round_le: "0 \<le> x \<Longrightarrow> x < of_int n + 1 / 2 \<Longrightarrow> rat_round x \<le> n"
  by (simp add: rat_round_def floor_le_iff)

lemma rat_trunc_of_int [simp]: "rat_trunc (of_int n) = n"
  by (simp add: rat_trunc_def)

end
