(* ===== verification/SeiInjector.thy ===== *)
theory SeiInjector
  imports StreamTypes Float32 "HOL-Library.Monad_Syntax"
begin

unbundle bit_operations_syntax

text \<open>
  \<open>src/stream/SeiInjector.cpp\<close>: detections and overlay texts are written into a binary payload
  (MSP V1, \<open>docs/metadata-over-sei-protocol.txt\<close>), wrapped into an H.264 or H.265 SEI message with
  emulation prevention, and put in front of the access unit, either with an Annex B start code or
  with a length prefix.

  \<^item> Bytes are \<open>u8\<close>; a \<open>std::vector<uint8_t>\<close> is a list, and a function that appends returns the
    longer list.
  \<^item> \<open>None\<close> is undefined behaviour: the quantisers convert a \<open>float\<close> that may be NaN to an integer.
  \<^item> \<open>av_new_packet\<close> and \<open>av_packet_copy_props\<close> may fail; whether they succeed is a parameter.
\<close>

section \<open>Data\<close>

datatype SeiCodecType = H264 | H265

record SeiTextOsdItem =
  st_flags :: u8
  st_style :: u8
  st_x :: f32
  st_y :: f32
  st_width :: f32
  st_height :: f32
  st_text :: string
  st_reserved :: u8
  st_text_color :: u32
  st_bg_color :: u32

record SeiMessageContext =
  sx_stream_id :: string
  sx_frame_id :: int
  sx_pts :: int
  sx_reused_cached_result :: bool
  sx_result_expire_at_mono_ms :: int
  sx_algorithm_id :: string
  sx_bbox_items :: "DetectionObject list"
  sx_text_osd_items :: "SeiTextOsdItem list"

definition hasItems :: "SeiMessageContext \<Rightarrow> bool" where
  "hasItems context \<longleftrightarrow> sx_bbox_items context \<noteq> [] \<or> sx_text_osd_items context \<noteq> []"

definition kAnnexBStartCode :: "u8 list" where
  "kAnnexBStartCode = [0, 0, 0, 1]"

definition kVersion :: u8 where
  "kVersion = 1"

definition kMspItemTypeBbox :: u8 where
  "kMspItemTypeBbox = 1"

definition kMspItemTypeTextOsd :: u8 where
  "kMspItemTypeTextOsd = 2"

definition kSeiUuid :: "u8 list" where
  "kSeiUuid = [0x4D, 0x45, 0x54, 0x41, 0x44, 0x41, 0x54, 0x41,
               0x53, 0x45, 0x49, 0x42, 0x59, 0x43, 0x48, 0x42]"

text \<open>The bytes of a \<open>std::string\<close>.\<close>

definition byte_of_char :: "char \<Rightarrow> u8" where
  "byte_of_char c = of_nat (of_char c)"

section \<open>Bytes\<close>

definition isAnnexB :: "u8 list \<Rightarrow> bool" where
  "isAnnexB data \<longleftrightarrow>
     (if length data < 4 then False
      else (data ! 0 = 0 \<and> data ! 1 = 0 \<and> data ! 2 = 0 \<and> data ! 3 = 1) \<or>
           (data ! 0 = 0 \<and> data ! 1 = 0 \<and> data ! 2 = 1))"

definition appendNalLength :: "u8 list \<Rightarrow> nat \<Rightarrow> nat \<Rightarrow> u8 list" where
  "appendNalLength out value nal_length_size =
     out @ map (\<lambda>i. of_nat (drop_bit (i * 8) value AND 0xFF)) (rev [0..<nal_length_size])"

definition appendBeU16 :: "u8 list \<Rightarrow> u16 \<Rightarrow> u8 list" where
  "appendBeU16 out value = out @ [ucast (drop_bit 8 value AND 0xFF), ucast (value AND 0xFF)]"

definition appendBeU32 :: "u8 list \<Rightarrow> u32 \<Rightarrow> u8 list" where
  "appendBeU32 out value =
     out @ [ucast (drop_bit 24 value AND 0xFF), ucast (drop_bit 16 value AND 0xFF),
            ucast (drop_bit 8 value AND 0xFF), ucast (value AND 0xFF)]"

section \<open>Quantisation\<close>

definition quantizeUnitToU16 :: "f32 \<Rightarrow> u16 option" where
  "quantizeUnitToU16 v =
     (let clamped = f32_clamp v (Fin 0) (Fin 1);
          scaled = f32_round (f32_mul_const clamped 65535)
      in map_option of_int (f32_to_unsigned 16 scaled))"

definition quantizeUnitToU8 :: "f32 \<Rightarrow> u8 option" where
  "quantizeUnitToU8 v =
     (let clamped = f32_clamp v (Fin 0) (Fin 1);
          scaled = f32_round (f32_mul_const clamped 255)
      in map_option of_int (f32_to_unsigned 8 scaled))"

definition quantizeAngleToU16 :: "f32 \<Rightarrow> u16 option" where
  "quantizeAngleToU16 angle_degrees =
     (let normalized = f32_fmod_const angle_degrees 360;
          normalized = (if f32_less normalized (Fin 0) then f32_add_const normalized 360 else normalized);
          scaled = f32_round (f32_mul_const (f32_div_const normalized 360) 65535)
      in map_option of_int (f32_to_unsigned 16 scaled))"

section \<open>Items of the payload\<close>

definition detectionTypeToUtf8 :: "DetectionObject \<Rightarrow> string" where
  "detectionTypeToUtf8 object = (if ob_class_name object = [] then ''unknown'' else ob_class_name object)"

definition osdTextToUtf8 :: "SeiTextOsdItem \<Rightarrow> string" where
  "osdTextToUtf8 item = st_text item"

definition appendMspBboxItem :: "u8 list \<Rightarrow> DetectionObject \<Rightarrow> u8 list option" where
  "appendMspBboxItem payload object =
     (let kFixedBboxPayloadSize = (18::nat);
          full_type_name = detectionTypeToUtf8 object;
          max_type_length = 255 - kFixedBboxPayloadSize;
          type_length = min (length full_type_name) max_type_length;
          payload = payload @ [kMspItemTypeBbox];
          payload = payload @ [of_nat (kFixedBboxPayloadSize + type_length)];
          payload = appendBeU16 payload (ucast (min (ob_object_id object) 65535));
          payload = payload @ [of_nat type_length];
          box = ob_bbox object
      in do {
           confidence \<leftarrow> quantizeUnitToU8 (ob_confidence object);
           cx \<leftarrow> quantizeUnitToU16 (bx_cx box);
           cy \<leftarrow> quantizeUnitToU16 (bx_cy box);
           width \<leftarrow> quantizeUnitToU16 (bx_width box);
           height \<leftarrow> quantizeUnitToU16 (bx_height box);
           angle \<leftarrow> quantizeAngleToU16 (bx_angle box);
           let payload = payload @ [confidence];
           let payload = appendBeU16 payload cx;
           let payload = appendBeU16 payload cy;
           let payload = appendBeU16 payload width;
           let payload = appendBeU16 payload height;
           let payload = appendBeU16 payload angle;
           let payload = appendBeU32 payload 0;
           Some (payload @ map byte_of_char (take type_length full_type_name))
         })"

definition appendMspTextOsdItem :: "u8 list \<Rightarrow> SeiTextOsdItem \<Rightarrow> u8 list option" where
  "appendMspTextOsdItem payload item =
     (let kFixedTextOsdPayloadSize = (20::nat);
          full_text = osdTextToUtf8 item;
          max_text_length = 255 - kFixedTextOsdPayloadSize;
          text_length = min (length full_text) max_text_length;
          payload = payload @ [kMspItemTypeTextOsd];
          payload = payload @ [of_nat (kFixedTextOsdPayloadSize + text_length)];
          payload = payload @ [st_flags item];
          payload = payload @ [st_style item]
      in do {
           x \<leftarrow> quantizeUnitToU16 (st_x item);
           y \<leftarrow> quantizeUnitToU16 (st_y item);
           width \<leftarrow> quantizeUnitToU16 (st_width item);
           height \<leftarrow> quantizeUnitToU16 (st_height item);
           let payload = appendBeU16 payload x;
           let payload = appendBeU16 payload y;
           let payload = appendBeU16 payload width;
           let payload = appendBeU16 payload height;
           let payload = payload @ [of_nat text_length];
           let payload = payload @ [st_reserved item];
           let payload = appendBeU32 payload (st_text_color item);
           let payload = appendBeU32 payload (st_bg_color item);
           Some (payload @ map byte_of_char (take text_length full_text))
         })"

text \<open>The loops over the items: they end when the counter has reached 255.\<close>

fun append_msp_items ::
  "(u8 list \<Rightarrow> 'a \<Rightarrow> u8 list option) \<Rightarrow> 'a list \<Rightarrow> u8 list \<times> u8 \<Rightarrow> (u8 list \<times> u8) option"
where
  "append_msp_items append_item [] (payload, item_count) = Some (payload, item_count)"
| "append_msp_items append_item (item # items) (payload, item_count) =
     (if item_count < 255
      then (case append_item payload item of
              None \<Rightarrow> None
            | Some payload' \<Rightarrow> append_msp_items append_item items (payload', item_count + 1))
      else Some (payload, item_count))"

definition buildMspV1UserDataPayload :: "SeiMessageContext \<Rightarrow> u8 list option" where
  "buildMspV1UserDataPayload context =
     (let max_item_count = 255;
          bbox_count = min (length (sx_bbox_items context)) max_item_count;
          text_osd_count = min (length (sx_text_osd_items context)) max_item_count;
          payload = kSeiUuid @ [kVersion, 0, 0];
          item_count_index = length payload;
          payload = payload @ [0]
      in do {
           (payload, item_count) \<leftarrow>
             append_msp_items appendMspBboxItem (take bbox_count (sx_bbox_items context)) (payload, 0);
           (payload, item_count) \<leftarrow>
             append_msp_items appendMspTextOsdItem (take text_osd_count (sx_text_osd_items context))
               (payload, item_count);
           Some (payload[item_count_index := item_count])
         })"

section \<open>SEI message and NAL unit\<close>

fun appendSeiLength :: "u8 list \<Rightarrow> nat \<Rightarrow> u8 list" where
  "appendSeiLength rbsp value =
     (if value \<ge> 0xFF then appendSeiLength (rbsp @ [0xFF]) (value - 0xFF)
      else rbsp @ [of_nat value])"

declare appendSeiLength.simps [simp del]

fun ebsp_loop :: "nat \<Rightarrow> u8 list \<Rightarrow> u8 list" where
  "ebsp_loop zero_count [] = []"
| "ebsp_loop zero_count (byte # bytes) =
     (if zero_count \<ge> 2 \<and> byte \<le> 3
      then 3 # byte # ebsp_loop (if byte = 0 then 1 else 0) bytes
      else byte # ebsp_loop (if byte = 0 then zero_count + 1 else 0) bytes)"

definition toEbsp :: "u8 list \<Rightarrow> u8 list" where
  "toEbsp rbsp = ebsp_loop 0 rbsp"

definition sei_rbsp :: "u8 list \<Rightarrow> u8 list" where
  "sei_rbsp payload = appendSeiLength (appendSeiLength [] 5) (length payload) @ payload @ [0x80]"

definition buildH264SeiNal :: "u8 list \<Rightarrow> u8 list" where
  "buildH264SeiNal payload = [0x06] @ toEbsp (sei_rbsp payload)"

definition buildH265SeiNal :: "u8 list \<Rightarrow> u8 list" where
  "buildH265SeiNal payload = [push_bit 1 39, 0x01] @ toEbsp (sei_rbsp payload)"

definition toAnnexBNal :: "u8 list \<Rightarrow> u8 list" where
  "toAnnexBNal nal_unit = kAnnexBStartCode @ nal_unit"

definition toLengthPrefixedNal :: "u8 list \<Rightarrow> int \<Rightarrow> u8 list" where
  "toLengthPrefixedNal nal_unit nal_length_size =
     (if nal_length_size < 1 \<or> nal_length_size > 4 then []
      else let max_nal_size = (if nal_length_size = 4 then 2 ^ 32 - 1
                               else 2 ^ (nat nal_length_size * 8) - 1)
           in if length nal_unit > max_nal_size then []
              else appendNalLength [] (length nal_unit) (nat nal_length_size) @ nal_unit)"

section \<open>Injection\<close>

text \<open>
  \<open>av_new_packet\<close> gets the size of the new packet; \<open>av_packet_copy_props\<close> copies every property of
  a packet except its data. The result is the returned flag and the output packet.
\<close>

record packet_library =
  pl_allocate :: "nat \<Rightarrow> bool"
  pl_copy_props :: "AVPacket \<Rightarrow> bool"

definition sei_inject ::
  "packet_library \<Rightarrow> EncodedPacket \<Rightarrow> SeiCodecType \<Rightarrow> int \<Rightarrow> SeiMessageContext \<Rightarrow>
   (bool \<times> AVPacket option) option"
where
  "sei_inject lib source_packet codec_type nal_length_size context =
     (case ep_packet source_packet of
        None \<Rightarrow> Some (False, None)
      | Some source \<Rightarrow>
          if av_data source = [] then Some (False, Some source)
          else if \<not> hasItems context then Some (True, Some source)
          else do {
            payload \<leftarrow> buildMspV1UserDataPayload context;
            if payload = [] then Some (False, Some source)
            else
              let sei_nal_unit = (if codec_type = H265 then buildH265SeiNal payload
                                  else buildH264SeiNal payload);
                  sei_nal = (if isAnnexB (av_data source) then toAnnexBNal sei_nal_unit
                             else toLengthPrefixedNal sei_nal_unit nal_length_size)
              in if sei_nal = [] then Some (False, Some source)
                 else if \<not> pl_allocate lib (length sei_nal + length (av_data source))
                 then Some (False, Some source)
                 else if \<not> pl_copy_props lib source then Some (False, Some source)
                 else Some (True, Some (source\<lparr>av_data := sei_nal @ av_data source\<rparr>))
          })"

end
