(* ===== verification/Muxing.thy ===== *)
theory Muxing
  imports StreamTypes
begin

text \<open>
  \<open>src/stream/Utils.cpp\<close>, the description of input streams and the output streams built from it, and
  \<open>src/stream/RtspPublisher.cpp\<close>, which sends packets to an RTSP server.

  FFmpeg is not part of the repository's sources. Its arithmetic is the record \<open>av_library\<close> of
  parameters; what its calls return when a muxer is opened is the record \<open>open_result\<close>, one per attempt; what the calls of one
  write return is \<open>write_result\<close>. An open muxer is the record \<open>mux_context\<close>, which remembers the packets it took.
  \<open>avformat_write_header\<close> may set the time base of every stream (its documentation says so).
\<close>

section \<open>Stream descriptions\<close>

record AVRational =
  rat_num :: int
  rat_den :: int

record StreamCodecParams =
  scp_codec_id :: int
  scp_time_base :: AVRational
  scp_fps :: int
  scp_bit_rate :: int
  scp_width :: int
  scp_height :: int
  scp_extradata :: "u8 list"

record RtspStreamSpec = StreamCodecParams +
  rs_media_type :: MediaType
  rs_input_stream_index :: int
  rs_sample_rate :: int
  rs_channels :: int

datatype AVMediaType = AVMEDIA_TYPE_VIDEO | AVMEDIA_TYPE_AUDIO

record AVCodecParameters =
  cp_codec_type :: AVMediaType
  cp_codec_id :: int
  cp_codec_tag :: int
  cp_bit_rate :: int
  cp_width :: int
  cp_height :: int
  cp_sample_rate :: int
  cp_channels :: int
  cp_extradata :: "u8 list"

text \<open>The frame rate is left alone for an audio stream.\<close>

record AVStream =
  as_index :: nat
  as_id :: int
  as_time_base :: AVRational
  as_avg_frame_rate :: "AVRational option"
  as_codecpar :: AVCodecParameters

record OutputStreamState =
  os_spec :: RtspStreamSpec
  os_stream :: AVStream

definition normalizedTimeBase :: "AVRational \<Rightarrow> AVRational" where
  "normalizedTimeBase time_base =
     (if rat_num time_base \<le> 0 \<or> rat_den time_base \<le> 0 then \<lparr>rat_num = 1, rat_den = 1000\<rparr> else time_base)"

definition sameStreamCodecParams :: "'a StreamCodecParams_scheme \<Rightarrow> 'b StreamCodecParams_scheme \<Rightarrow> bool" where
  "sameStreamCodecParams left right \<longleftrightarrow>
     scp_codec_id left = scp_codec_id right \<and>
     rat_num (scp_time_base left) = rat_num (scp_time_base right) \<and>
     rat_den (scp_time_base left) = rat_den (scp_time_base right) \<and>
     scp_fps left = scp_fps right \<and> scp_bit_rate left = scp_bit_rate right \<and>
     scp_width left = scp_width right \<and> scp_height left = scp_height right \<and>
     scp_extradata left = scp_extradata right"

section \<open>Opening a muxer\<close>

record open_result =
  op_alloc :: bool
  op_new_stream :: "nat \<Rightarrow> bool"
  op_mallocz :: "nat \<Rightarrow> bool"
  op_nofile :: bool
  op_avio_open :: bool
  op_header :: "(nat \<Rightarrow> AVRational) option"

record mux_context =
  mx_streams :: nat
  mx_packets :: "AVPacket list"

text \<open>\<open>copyExtradata\<close> with a codec parameter object; \<open>ok\<close> says whether \<open>av_mallocz\<close> gives memory.\<close>

definition copyExtradata :: "bool \<Rightarrow> u8 list \<Rightarrow> AVCodecParameters \<Rightarrow> bool \<times> AVCodecParameters" where
  "copyExtradata ok source codecpar =
     (if source = [] then (True, codecpar\<lparr>cp_extradata := []\<rparr>)
      else if \<not> ok then (False, codecpar)
      else (True, codecpar\<lparr>cp_extradata := source\<rparr>))"

fun avMediaTypeFrom :: "MediaType \<Rightarrow> AVMediaType" where
  "avMediaTypeFrom Audio = AVMEDIA_TYPE_AUDIO"
| "avMediaTypeFrom Video = AVMEDIA_TYPE_VIDEO"

definition output_codecpar :: "RtspStreamSpec \<Rightarrow> AVCodecParameters" where
  "output_codecpar spec =
     \<lparr>cp_codec_type = avMediaTypeFrom (rs_media_type spec), cp_codec_id = scp_codec_id spec, cp_codec_tag = 0,
      cp_bit_rate = scp_bit_rate spec, cp_width = scp_width spec, cp_height = scp_height spec,
      cp_sample_rate = rs_sample_rate spec, cp_channels = rs_channels spec, cp_extradata = []\<rparr>"

text \<open>The stream number \<open>n\<close> of the context; \<open>None\<close>: the function returns false.\<close>

definition addOutputStream :: "open_result \<Rightarrow> nat \<Rightarrow> RtspStreamSpec \<Rightarrow> OutputStreamState option" where
  "addOutputStream r n spec =
     (if \<not> op_new_stream r n then None
      else case copyExtradata (op_mallocz r n) (scp_extradata spec) (output_codecpar spec) of
             (False, _) \<Rightarrow> None
           | (True, codecpar) \<Rightarrow>
               Some \<lparr>os_spec = spec,
                     os_stream = \<lparr>as_index = n, as_id = rs_input_stream_index spec,
                       as_time_base = normalizedTimeBase (scp_time_base spec),
                       as_avg_frame_rate =
                         (if rs_media_type spec = Video
                          then Some \<lparr>rat_num = (if scp_fps spec > 0 then scp_fps spec else 25), rat_den = 1\<rparr>
                          else None),
                       as_codecpar = codecpar\<rparr>\<rparr>)"

type_synonym stream_map = "(int \<times> OutputStreamState) list"

text \<open>\<open>emplace\<close> keeps the entry that is there.\<close>

definition emplace_stream :: "int \<Rightarrow> OutputStreamState \<Rightarrow> stream_map \<Rightarrow> stream_map" where
  "emplace_stream k st states = (if map_of states k = None then AList.update k st states else states)"

fun add_streams :: "open_result \<Rightarrow> nat \<Rightarrow> RtspStreamSpec list \<Rightarrow> stream_map \<Rightarrow> stream_map option" where
  "add_streams r n [] states = Some states"
| "add_streams r n (spec # specs) states =
     (case addOutputStream r n spec of
        None \<Rightarrow> None
      | Some st \<Rightarrow> add_streams r (Suc n) specs (emplace_stream (rs_input_stream_index spec) st states))"

definition buildOutputStreamMap :: "open_result \<Rightarrow> RtspStreamSpec list \<Rightarrow> stream_map option" where
  "buildOutputStreamMap r specs = add_streams r 0 specs []"

definition set_time_bases :: "(nat \<Rightarrow> AVRational) \<Rightarrow> stream_map \<Rightarrow> stream_map" where
  "set_time_bases tb states =
     map (\<lambda>(k, st). (k, st\<lparr>os_stream := (os_stream st)\<lparr>as_time_base := tb (as_index (os_stream st))\<rparr>\<rparr>)) states"

text \<open>
  The sequence of calls \<open>openLocked\<close> and \<open>openRecording\<close> share: allocate the context, build the streams,
  open the output unless the format needs none, write the header. Every failure frees what was made.
\<close>

definition open_muxer :: "open_result \<Rightarrow> RtspStreamSpec list \<Rightarrow> (mux_context \<times> stream_map) option" where
  "open_muxer r specs =
     (if \<not> op_alloc r then None
      else case buildOutputStreamMap r specs of
             None \<Rightarrow> None
           | Some states \<Rightarrow>
               if \<not> op_nofile r \<and> \<not> op_avio_open r then None
               else (case op_header r of
                       None \<Rightarrow> None
                     | Some tb \<Rightarrow> Some (\<lparr>mx_streams = length specs, mx_packets = []\<rparr>, set_time_bases tb states)))"

section \<open>Packets\<close>

record av_library =
  av_rescale_q :: "int \<Rightarrow> AVRational \<Rightarrow> AVRational \<Rightarrow> int"
  av_packet_rescale_ts :: "AVPacket \<Rightarrow> AVRational \<Rightarrow> AVRational \<Rightarrow> AVPacket"

record write_result =
  wr_ref :: bool
  wr_write :: bool

section \<open>RtspPublisher\<close>

record RtspPublisher =
  rp_stream_id :: string
  rp_output_url :: string
  rp_input_streams :: "RtspStreamSpec list"
  rp_streams :: stream_map
  rp_format_context :: "mux_context option"
  rp_configured :: bool

definition new_RtspPublisher :: RtspPublisher where
  "new_RtspPublisher =
     \<lparr>rp_stream_id = [], rp_output_url = [], rp_input_streams = [], rp_streams = [],
      rp_format_context = None, rp_configured = False\<rparr>"

definition rp_closeLocked :: "RtspPublisher \<Rightarrow> RtspPublisher" where
  "rp_closeLocked p = p\<lparr>rp_format_context := None, rp_streams := [], rp_configured := False\<rparr>"

definition rp_openLocked :: "open_result \<Rightarrow> RtspPublisher \<Rightarrow> bool \<times> RtspPublisher" where
  "rp_openLocked r p =
     (if rp_output_url p = [] \<or> rp_input_streams p = [] then (False, p)
      else case open_muxer r (rp_input_streams p) of
             None \<Rightarrow> (False, p)
           | Some (context, states) \<Rightarrow>
               (True, p\<lparr>rp_format_context := Some context, rp_streams := states, rp_configured := True\<rparr>))"

definition rp_configure ::
  "open_result \<Rightarrow> string \<Rightarrow> string \<Rightarrow> RtspStreamSpec list \<Rightarrow> RtspPublisher \<Rightarrow> bool \<times> RtspPublisher"
where
  "rp_configure r stream_id output_url input_streams p =
     (let p' = (rp_closeLocked p)\<lparr>rp_stream_id := stream_id, rp_output_url := output_url,
                                  rp_input_streams := input_streams\<rparr>
      in if output_url = [] \<or> input_streams = [] then (False, p') else rp_openLocked r p')"

text \<open>The packet handed to the muxer: the new index, no position, times in the base of the stream.\<close>

definition rp_mux_packet :: "av_library \<Rightarrow> OutputStreamState \<Rightarrow> AVPacket \<Rightarrow> AVPacket" where
  "rp_mux_packet lib st packet =
     av_packet_rescale_ts lib (packet\<lparr>av_stream_index := int (as_index (os_stream st)), av_pos := -1\<rparr>)
       (scp_time_base (os_spec st)) (as_time_base (os_stream st))"

definition rp_writePacketLocked ::
  "av_library \<Rightarrow> write_result \<Rightarrow> AVPacket \<Rightarrow> RtspPublisher \<Rightarrow> bool \<times> RtspPublisher"
where
  "rp_writePacketLocked lib w packet p =
     (case map_of (rp_streams p) (av_stream_index packet) of
        None \<Rightarrow> (False, p)
      | Some st \<Rightarrow>
          if \<not> wr_ref w \<or> \<not> wr_write w then (False, p)
          else (True, p\<lparr>rp_format_context :=
                  map_option (\<lambda>c. c\<lparr>mx_packets := mx_packets c @ [rp_mux_packet lib st packet]\<rparr>)
                    (rp_format_context p)\<rparr>))"

text \<open>The results of the first write, of the attempt to open again, and of the second write.\<close>

definition rp_writePacket ::
  "av_library \<Rightarrow> write_result \<Rightarrow> open_result \<Rightarrow> write_result \<Rightarrow> AVPacket \<Rightarrow> RtspPublisher \<Rightarrow> bool \<times> RtspPublisher"
where
  "rp_writePacket lib w r w' packet p =
     (if \<not> rp_configured p \<or> rp_format_context p = None then (False, p)
      else case rp_writePacketLocked lib w packet p of
             (True, p') \<Rightarrow> (True, p')
           | (False, p') \<Rightarrow>
               (case rp_openLocked r (rp_closeLocked p') of
                  (False, p'') \<Rightarrow> (False, p'')
                | (True, p'') \<Rightarrow> rp_writePacketLocked lib w' packet p''))"

definition rp_close :: "RtspPublisher \<Rightarrow> RtspPublisher" where
  "rp_close p = (rp_closeLocked p)\<lparr>rp_output_url := [], rp_input_streams := []\<rparr>"

end
