(* ===== verification/Decoder.thy ===== *)
theory Decoder
  imports StreamTypes "HOL-Library.Multiset" "HOL-Library.Monad_Syntax"
begin

text \<open>
  \<open>src/stream/MppDecoder.cpp\<close>, the wrapper around Rockchip's MPP decoder. MPP is a
  parameter: what its calls return is given with each operation. \<open>mpp_frame\<close> holds what the getters of
  a frame return, and a handle that tells frames apart; the model records which handles are given back with
  \<open>mpp_frame_deinit\<close>. The loop of \<open>drainFrames\<close> ends only if the decoder runs out of frames, so it is a
  \<open>partial_function\<close>: not returning is the value \<open>None\<close>.
\<close>

section \<open>Frames\<close>

record mpp_buffer =
  mb_fd :: int
  mb_ptr :: "u8 list option"
  mb_size :: nat

record mpp_frame =
  mf_handle :: nat
  mf_pts :: int
  mf_dts :: int
  mf_eos :: bool
  mf_errinfo :: u32
  mf_discard :: bool
  mf_info_change :: bool
  mf_buf_size :: nat
  mf_width :: int
  mf_height :: int
  mf_hor_stride :: int
  mf_ver_stride :: int
  mf_buffer :: "mpp_buffer option"

text \<open>The bits of the error word (\<open>MPP_FRAME_ERR_...\<close> of \<open>mpp_frame.h\<close>) and their names in the log.\<close>

definition error_flags :: "(u32 \<times> string) list" where
  "error_flags =
     [(0x1, ''unknown''), (0x2, ''unsupported''), (0x10, ''dec_invalid''), (0x100, ''dec_hw_err''),
      (0x200, ''dec_miss_ref'')]"

definition append_flag :: "string \<Rightarrow> string \<Rightarrow> string" where
  "append_flag name text = (if text \<noteq> [] then text @ ''|'' else text) @ name"

definition frameErrInfoToString :: "u32 \<Rightarrow> string" where
  "frameErrInfoToString errinfo =
     (if errinfo = 0 then ''none''
      else let text = fold (\<lambda>(flag, name) text. if and errinfo flag \<noteq> 0 then append_flag name text else text) error_flags []
           in if text = [] then ''unmapped'' else text)"

text \<open>The codec numbers of FFmpeg.\<close>

record codec_ids =
  id_h264 :: int
  id_hevc :: int
  id_vp8 :: int
  id_vp9 :: int

definition avCodecIdToMppCoding :: "codec_ids \<Rightarrow> int \<Rightarrow> MppCodingType" where
  "avCodecIdToMppCoding ids codec_id =
     (if codec_id = id_h264 ids then MPP_VIDEO_CodingAVC
      else if codec_id = id_hevc ids then MPP_VIDEO_CodingHEVC
      else if codec_id = id_vp8 ids then MPP_VIDEO_CodingVP8
      else if codec_id = id_vp9 ids then MPP_VIDEO_CodingVP9
      else MPP_VIDEO_CodingUnused)"

section \<open>State\<close>

record MppDecoder =
  md_ctx :: bool
  md_frame_buffer_group :: bool
  md_frame_buffer_size :: nat
  md_frame_buffer_count :: int
  md_stream_id :: string

definition new_MppDecoder :: MppDecoder where
  "new_MppDecoder =
     \<lparr>md_ctx = False, md_frame_buffer_group = False, md_frame_buffer_size = 0, md_frame_buffer_count = 0,
      md_stream_id = []\<rparr>"

definition kDecoderFrameBufferCount :: int where
  "kDecoderFrameBufferCount = 24"

section \<open>The buffer group\<close>

record group_result =
  gr_get :: bool
  gr_limit :: bool
  gr_control :: bool

definition required_buffer_size :: "mpp_frame \<Rightarrow> nat" where
  "required_buffer_size frame =
     (if mf_buf_size frame = 0 then nat (mf_hor_stride frame) * nat (mf_ver_stride frame) * 2
      else mf_buf_size frame)"

definition configureFrameBufferGroup :: "group_result \<Rightarrow> mpp_frame \<Rightarrow> MppDecoder \<Rightarrow> bool \<times> MppDecoder" where
  "configureFrameBufferGroup g frame d =
     (if \<not> md_ctx d then (False, d)
      else if \<not> md_frame_buffer_group d \<and> \<not> gr_get g then (False, d)
      else let d1 = d\<lparr>md_frame_buffer_group := True\<rparr>;
               needs_limit = md_frame_buffer_size d1 \<noteq> required_buffer_size frame \<or>
                 md_frame_buffer_count d1 \<noteq> kDecoderFrameBufferCount
           in if needs_limit \<and> \<not> gr_limit g then (False, d1)
              else let d2 = (if needs_limit
                             then d1\<lparr>md_frame_buffer_size := required_buffer_size frame,
                                     md_frame_buffer_count := kDecoderFrameBufferCount\<rparr>
                             else d1)
                   in (gr_control g, d2))"

definition releaseFrameBufferGroup :: "MppDecoder \<Rightarrow> MppDecoder" where
  "releaseFrameBufferGroup d =
     d\<lparr>md_frame_buffer_group := False, md_frame_buffer_size := 0, md_frame_buffer_count := 0\<rparr>"

definition md_destroy :: "MppDecoder \<Rightarrow> MppDecoder" where
  "md_destroy d = releaseFrameBufferGroup (d\<lparr>md_ctx := False\<rparr>)"

section \<open>init\<close>

datatype put_result = PutOk | PutBufferFull | PutError

record init_result =
  ir_create :: bool
  ir_init :: bool
  ir_packet_init :: bool
  ir_put :: put_result

definition md_init :: "init_result \<Rightarrow> u8 list \<Rightarrow> string \<Rightarrow> MppDecoder \<Rightarrow> bool \<times> MppDecoder" where
  "md_init r extradata stream_id d =
     (let d0 = d\<lparr>md_stream_id := stream_id\<rparr>
      in if \<not> ir_create r then (False, d0)
         else if \<not> ir_init r then (False, d0\<lparr>md_ctx := False\<rparr>)
         else let d1 = d0\<lparr>md_ctx := True\<rparr>
              in if extradata \<noteq> [] \<and> (\<not> ir_packet_init r \<or> ir_put r = PutError) then (False, md_destroy d1)
                 else (True, d1))"

section \<open>drainFrames\<close>

text \<open>What the loop has done: the frames for the caller, and the handles given back.\<close>

record drained =
  dr_out :: "mpp_frame list"
  dr_deinit :: "nat list"
  dr_decoder :: MppDecoder
  dr_calls :: nat

text \<open>
  One turn for a frame the decoder returned: true if the loop goes on. \<open>get i\<close> below is what call \<open>i\<close> of
  \<open>decode_get_frame\<close> returns, \<open>None\<close> for an error or no frame.
\<close>

definition drain_turn :: "mpp_frame \<Rightarrow> group_result \<Rightarrow> drained \<Rightarrow> bool \<times> drained" where
  "drain_turn frame g s =
     (let s = s\<lparr>dr_calls := Suc (dr_calls s)\<rparr>
      in if mf_info_change frame
         then (case configureFrameBufferGroup g frame (dr_decoder s) of
                 (ok, d) \<Rightarrow>
                   (ok \<and> \<not> mf_eos frame, s\<lparr>dr_deinit := dr_deinit s @ [mf_handle frame], dr_decoder := d\<rparr>))
         else if \<not> mf_eos frame \<and> mf_errinfo frame = 0 \<and> \<not> mf_discard frame
         then (True, s\<lparr>dr_out := dr_out s @ [frame]\<rparr>)
         else (\<not> mf_eos frame, s\<lparr>dr_deinit := dr_deinit s @ [mf_handle frame]\<rparr>))"

partial_function (option) drain_loop :: "(nat \<Rightarrow> (mpp_frame \<times> group_result) option) \<Rightarrow> drained \<Rightarrow> drained option" where
  "drain_loop get s =
     (case get (dr_calls s) of
        None \<Rightarrow> Some s
      | Some fg \<Rightarrow>
          (case drain_turn (fst fg) (snd fg) s of
             (goes_on, s') \<Rightarrow> if goes_on then drain_loop get s' else Some s'))"

declare drain_loop.simps [code]

definition drainFrames ::
  "(nat \<Rightarrow> (mpp_frame \<times> group_result) option) \<Rightarrow> mpp_frame list \<Rightarrow> MppDecoder \<Rightarrow> drained option"
where
  "drainFrames get out d = drain_loop get \<lparr>dr_out = out, dr_deinit = [], dr_decoder = d, dr_calls = 0\<rparr>"

section \<open>submitPacket\<close>

record submit_result =
  su_packet_init :: bool
  su_put :: put_result
  su_get :: "nat \<Rightarrow> (mpp_frame \<times> group_result) option"

text \<open>The result, the frames, the handles given back, the decoder.\<close>

definition submitPacket ::
  "submit_result \<Rightarrow> mpp_frame list \<Rightarrow> MppDecoder \<Rightarrow> (bool \<times> mpp_frame list \<times> nat list \<times> MppDecoder) option"
where
  "submitPacket r out_frames d =
     (if \<not> md_ctx d then Some (False, out_frames, [], d)
      else if \<not> su_packet_init r then Some (False, out_frames, [], d)
      else if su_put r = PutError then Some (False, out_frames, [], d)
      else case drainFrames (su_get r) out_frames d of
             None \<Rightarrow> None
           | Some s \<Rightarrow> Some (True, dr_out s, dr_deinit s, dr_decoder s))"

section \<open>Lemmas\<close>

text \<open>The handles of the frames the first \<open>n\<close> calls returned.\<close>

definition got :: "(nat \<Rightarrow> (mpp_frame \<times> group_result) option) \<Rightarrow> nat \<Rightarrow> nat list" where
  "got get n = map (\<lambda>fg. mf_handle (fst fg)) (List.map_filter get [0..<n])"

lemma got_Suc: "got get (Suc n) = got get n @ (case get n of None \<Rightarrow> [] | Some fg \<Rightarrow> [mf_handle (fst fg)])"
  by (simp add: got_def List.map_filter_def split: option.split)

definition handles_kept :: "(nat \<Rightarrow> (mpp_frame \<times> group_result) option) \<Rightarrow> mpp_frame list \<Rightarrow> drained \<Rightarrow> bool" where
  "handles_kept get out s \<longleftrightarrow>
     mset (map mf_handle (dr_out s)) + mset (dr_deinit s) = mset (map mf_handle out) + mset (got get (dr_calls s))"

lemma drain_turn_keeps:
  assumes "get (dr_calls s) = Some fg" "handles_kept get out s" "drain_turn (fst fg) (snd fg) s = (b, s')"
  shows "handles_kept get out s' \<and> dr_calls s' = Suc (dr_calls s)"
  using assms by (auto simp: drain_turn_def Let_def handles_kept_def got_Suc split: if_splits prod.splits)

lemma drain_loop_terminates:
  assumes "dr_calls s \<le> n" "get n = None" "handles_kept get out s"
  shows "\<exists>s'. drain_loop get s = Some s' \<and> handles_kept get out s' \<and> dr_calls s' \<le> n"
  using assms
proof (induction "n - dr_calls s" arbitrary: s)
  case 0
  then have "get (dr_calls s) = None" by simp
  with 0 show ?case by (subst drain_loop.simps) simp
next
  case (Suc k)
  show ?case
  proof (cases "get (dr_calls s)")
    case None
    with Suc show ?thesis by (subst drain_loop.simps) simp
  next
    case (Some fg)
    obtain b s1 where turn: "drain_turn (fst fg) (snd fg) s = (b, s1)" by (cases "drain_turn (fst fg) (snd fg) s")
    note keep = drain_turn_keeps [OF Some Suc.prems(3) turn]
    show ?thesis
    proof (cases b)
      case True
      have "k = n - dr_calls s1" "dr_calls s1 \<le> n" using Suc.hyps(2) keep by simp_all
      from Suc.hyps(1) [OF this Suc.prems(2)] keep Some turn True show ?thesis
        by (subst drain_loop.simps) simp
    next
      case False
      with Some turn keep Suc.hyps(2) show ?thesis by (subst drain_loop.simps) simp
    qed
  qed
qed

section \<open>Properties\<close>

text \<open>
  C35. If the decoder ever runs out of frames, at call \<open>n\<close>, \<open>drainFrames\<close> returns, after at most \<open>n\<close> frames, and every frame it got
  is either handed to the caller or given back with \<open>mpp_frame_deinit\<close>, exactly once and never both; the frames the
  caller already had stay in the list.
\<close>

theorem drain_terminates_without_leak:
  assumes "get n = None"
  shows "\<exists>s. drainFrames get out d = Some s \<and> dr_calls s \<le> n \<and>
    mset (map mf_handle (dr_out s)) + mset (dr_deinit s) = mset (map mf_handle out) + mset (got get (dr_calls s))"
  using drain_loop_terminates [of "\<lparr>dr_out = out, dr_deinit = [], dr_decoder = d, dr_calls = 0\<rparr>" n get out] assms
  by (auto simp: drainFrames_def handles_kept_def got_def)

definition ex_mpp_frame :: "nat \<Rightarrow> mpp_frame" where
  "ex_mpp_frame h = \<lparr>mf_handle = h, mf_pts = int h, mf_dts = int h, mf_eos = False, mf_errinfo = 0, mf_discard = h = 1,
     mf_info_change = False, mf_buf_size = 0, mf_width = 64, mf_height = 64, mf_hor_stride = 64, mf_ver_stride = 64,
     mf_buffer = None\<rparr>"

theorem drain_terminates_without_leak_witness:
  "\<exists>s. drainFrames (\<lambda>i. if i < 3 then Some (ex_mpp_frame i, \<lparr>gr_get = True, gr_limit = True, gr_control = True\<rparr>) else None)
     [] new_MppDecoder = Some s \<and> dr_calls s \<le> 3"
  using drain_terminates_without_leak [of
    "\<lambda>i. if i < 3 then Some (ex_mpp_frame i, \<lparr>gr_get = True, gr_limit = True, gr_control = True\<rparr>) else None" 3 "[]" new_MppDecoder]
  by auto

end
