(* ===== verification/PipelineUtils.thy ===== *)
theory PipelineUtils
  imports SeiInjector Muxing Decoder
begin

text \<open>
  \<open>src/pipeline/Utils.cpp\<close>: the choices the pipeline makes from configurations and stream descriptions,
  and the message that goes into the SEI of a packet. The numbers of FFmpeg's codec ids are the parameter
  \<open>codec_ids\<close>; the local time \<open>makeOsdTimeText\<close> formats is an argument.
\<close>

section \<open>Overlay texts\<close>

datatype MspOsdAlignType = kOsdAlignLeft | kOsdAlignCenter | kOsdAlignRight

fun align_bits :: "MspOsdAlignType \<Rightarrow> u8" where
  "align_bits kOsdAlignLeft = 0"
| "align_bits kOsdAlignCenter = 1"
| "align_bits kOsdAlignRight = 2"

datatype MspAnchorType = kMspAnchorTopLeft | kMspAnchorTopRight | kMspAnchorBottomLeft | kMspAnchorBottomRight

fun anchor_bits :: "MspAnchorType \<Rightarrow> u8" where
  "anchor_bits kMspAnchorTopLeft = 0"
| "anchor_bits kMspAnchorTopRight = 1"
| "anchor_bits kMspAnchorBottomLeft = 2"
| "anchor_bits kMspAnchorBottomRight = 3"

definition osd_flags :: "MspOsdAlignType \<Rightarrow> MspAnchorType \<Rightarrow> u8" where
  "osd_flags align anchor = align_bits align OR push_bit 2 1 OR push_bit 3 0 OR push_bit 4 (anchor_bits anchor)"

text \<open>\<open>%Y-%m-%d %H:%M:%S\<close> of the local time.\<close>

record local_time =
  lt_year :: nat
  lt_month :: nat
  lt_day :: nat
  lt_hour :: nat
  lt_minute :: nat
  lt_second :: nat

fun padded :: "nat \<Rightarrow> nat \<Rightarrow> string" where
  "padded 0 n = []"
| "padded (Suc width) n = padded width (n div 10) @ [char_of (48 + n mod 10)]"

definition makeOsdTimeText :: "local_time \<Rightarrow> string" where
  "makeOsdTimeText t =
     padded 4 (lt_year t) @ ''-'' @ padded 2 (lt_month t) @ ''-'' @ padded 2 (lt_day t) @ '' '' @
     padded 2 (lt_hour t) @ '':'' @ padded 2 (lt_minute t) @ '':'' @ padded 2 (lt_second t)"

text \<open>The bytes of the literal in UTF-8.\<close>

definition location_text :: string where
  "location_text = ''Chengdu'' @ [CHR 0x0A] @
     [CHR 0xE9, CHR 0xAB, CHR 0x98, CHR 0xE6, CHR 0x96, CHR 0xB0] @ [CHR 0x0A] @
     [CHR 0xE8, CHR 0xBD, CHR 0xAF, CHR 0xE4, CHR 0xBB, CHR 0xB6, CHR 0xE5, CHR 0x9B, CHR 0xAD]"

definition top_left_time :: "local_time \<Rightarrow> SeiTextOsdItem" where
  "top_left_time t =
     \<lparr>st_flags = osd_flags kOsdAlignLeft kMspAnchorTopLeft, st_style = 0, st_x = rnd32 (2 / 100),
      st_y = rnd32 (4 / 100), st_width = rnd32 (28 / 100), st_height = rnd32 (5 / 100),
      st_text = makeOsdTimeText t, st_reserved = 0, st_text_color = 0xFFFFFFFF, st_bg_color = 0\<rparr>"

definition bottom_right_location :: SeiTextOsdItem where
  "bottom_right_location =
     \<lparr>st_flags = osd_flags kOsdAlignRight kMspAnchorBottomRight, st_style = 0, st_x = rnd32 (98 / 100),
      st_y = rnd32 (95 / 100), st_width = Fin 0, st_height = Fin 0, st_text = location_text, st_reserved = 0,
      st_text_color = 0xFFFFFFFF, st_bg_color = 0\<rparr>"

definition buildSeiMessageContext ::
  "local_time \<Rightarrow> string \<Rightarrow> int \<Rightarrow> int \<Rightarrow> string \<Rightarrow> DetectionObject list \<Rightarrow> bool \<Rightarrow> int \<Rightarrow> SeiMessageContext"
where
  "buildSeiMessageContext t stream_id frame_id pts algorithm_id bbox_items reused_cached_result expire_at_mono_ms =
     \<lparr>sx_stream_id = stream_id, sx_frame_id = frame_id, sx_pts = pts,
      sx_reused_cached_result = reused_cached_result, sx_result_expire_at_mono_ms = expire_at_mono_ms,
      sx_algorithm_id = algorithm_id, sx_bbox_items = bbox_items,
      sx_text_osd_items = [top_left_time t, bottom_right_location]\<rparr>"

section \<open>Choices\<close>

definition selectAlarmConfig :: "StreamConfig \<Rightarrow> string \<Rightarrow> AlgorithmConfig" where
  "selectAlarmConfig stream_config algorithm_id =
     (case (if algorithm_id \<noteq> [] then List.find (\<lambda>a. al_algorithm_id a = algorithm_id) (sc_algorithms stream_config)
            else None) of
        Some algorithm \<Rightarrow> algorithm
      | None \<Rightarrow> (case sc_algorithms stream_config of [] \<Rightarrow> default_AlgorithmConfig | a # _ \<Rightarrow> a))"

definition seiCodecTypeFromFrame :: "FrameBundle option \<Rightarrow> SeiCodecType" where
  "seiCodecTypeFromFrame frame =
     (case frame of
        Some f \<Rightarrow> if fb_source_coding f = MPP_VIDEO_CodingHEVC then H265 else H264
      | None \<Rightarrow> H264)"

text \<open>The byte that holds the prefix size.\<close>

definition nal_size_byte :: "u8 list \<Rightarrow> nat \<Rightarrow> int" where
  "nal_size_byte extradata offset =
     (let nal_length_size = uint ((extradata ! offset) AND 3) + 1
      in if nal_length_size \<ge> 1 \<and> nal_length_size \<le> 4 then nal_length_size else 0)"

definition parseNalLengthSizeFromExtradata :: "SeiCodecType \<Rightarrow> u8 list \<Rightarrow> int" where
  "parseNalLengthSizeFromExtradata codec_type extradata =
     (if extradata = [] \<or> hd extradata \<noteq> 1 then 0
      else case codec_type of
             H264 \<Rightarrow> if length extradata < 5 then 0 else nal_size_byte extradata 4
           | H265 \<Rightarrow> if length extradata < 22 then 0 else nal_size_byte extradata 21)"

fun videoNalLengthSizeFromSpecs :: "codec_ids \<Rightarrow> RtspStreamSpec list \<Rightarrow> int" where
  "videoNalLengthSizeFromSpecs ids [] = 0"
| "videoNalLengthSizeFromSpecs ids (spec # specs) =
     (if rs_media_type spec \<noteq> Video then videoNalLengthSizeFromSpecs ids specs
      else if scp_codec_id spec = id_h264 ids then parseNalLengthSizeFromExtradata H264 (scp_extradata spec)
      else if scp_codec_id spec = id_hevc ids then parseNalLengthSizeFromExtradata H265 (scp_extradata spec)
      else 0)"

section \<open>Lemmas\<close>

lemma buildSei_hasItems [simp]:
  "hasItems (buildSeiMessageContext t stream_id frame_id pts algorithm_id objects reused expire)"
  by (simp add: hasItems_def buildSeiMessageContext_def)

lemma nal_size_byte_range: "1 \<le> nal_size_byte extradata offset" "nal_size_byte extradata offset \<le> 4"
proof -
  have "(extradata ! offset) AND 3 \<le> 3" by (rule word_and_le1)
  then have "uint ((extradata ! offset) AND 3) \<le> 3" by (simp add: word_le_def)
  then show "1 \<le> nal_size_byte extradata offset" "nal_size_byte extradata offset \<le> 4"
    by (simp_all add: nal_size_byte_def Let_def)
qed

lemma parseNal_range: "0 \<le> parseNalLengthSizeFromExtradata c e" "parseNalLengthSizeFromExtradata c e \<le> 4"
  using nal_size_byte_range [of e 4] nal_size_byte_range [of e 21]
  by (auto simp: parseNalLengthSizeFromExtradata_def split: SeiCodecType.splits)

lemma find_in_set: "List.find P xs = Some x \<Longrightarrow> x \<in> set xs"
  by (induction xs) (auto split: if_splits)

lemma selectAlarmConfig_member:
  "sc_algorithms cfg \<noteq> [] \<Longrightarrow> selectAlarmConfig cfg algorithm_id \<in> set (sc_algorithms cfg)"
  by (auto simp: selectAlarmConfig_def dest: find_in_set split: option.splits list.splits)

end
