(* ===== verification/Config.thy ===== *)
theory Config
  imports Prelude
begin

text \<open>
  \<open>src/common/Config.cpp\<close>, \<open>src/common/Config.h\<close>: the configuration of the program, read from a JSON document.

  A document is a value of nlohmann::json: an object is a \<open>std::map\<close>, an integer that the parser read is unsigned if
  it is not negative, and a float is the rational number it denotes. What the library does with such a value is
  written out (\<open>contains\<close>, \<open>get<int>\<close>, \<open>get<std::string>\<close>, assignment through \<open>operator[]\<close>); its
  parser and \<open>dump\<close> and the file system are arguments.
\<close>

section \<open>Data\<close>

record SocketConfig =
  so_socket_path :: string
  so_send_queue_size :: int
  so_heartbeat_interval_s :: int
  so_agent_id :: string

record PipelineConfig =
  pl_num_infer_threads :: int
  pl_frame_queue_size :: int
  pl_statistics_interval_s :: int

record LogConfig =
  lg_level :: string
  lg_output :: string
  lg_log_dir :: string
  lg_max_file_mb :: int
  lg_max_files :: int

record AppConfig =
  app_log :: LogConfig
  app_socket :: SocketConfig
  app_pipeline :: PipelineConfig

text \<open>The member initialisers.\<close>

definition new_SocketConfig :: SocketConfig where
  "new_SocketConfig = \<lparr>so_socket_path = ''/tmp/media_agent.sock'', so_send_queue_size = 100,
     so_heartbeat_interval_s = 10, so_agent_id = []\<rparr>"

definition new_LogConfig :: LogConfig where
  "new_LogConfig = \<lparr>lg_level = ''info'', lg_output = ''file'', lg_log_dir = ''log'', lg_max_file_mb = 50, lg_max_files = 5\<rparr>"

definition new_PipelineConfig :: PipelineConfig where
  "new_PipelineConfig = \<lparr>pl_num_infer_threads = 3, pl_frame_queue_size = 200, pl_statistics_interval_s = 5\<rparr>"

definition new_AppConfig :: AppConfig where
  "new_AppConfig = \<lparr>app_log = new_LogConfig, app_socket = new_SocketConfig, app_pipeline = new_PipelineConfig\<rparr>"

datatype json =
    JNull
  | JBoolean bool
  | JNumberInteger int
  | JNumberUnsigned nat
  | JNumberFloat rat
  | JString string
  | JArray "json list"
  | JObject "(string \<times> json) list"

datatype config_error = CannotOpen | ParseError | TypeError | UndefinedConversion

definition and_then :: "'e + 'a \<Rightarrow> ('a \<Rightarrow> 'e + 'b) \<Rightarrow> 'e + 'b" where
  "and_then x f = (case x of Inl e \<Rightarrow> Inl e | Inr v \<Rightarrow> f v)"

lemma and_then_Inr [simp]: "and_then (Inr v) f = f v" "and_then (Inl e) f = Inl e"
  by (simp_all add: and_then_def)

lemma and_then_eq_Inr: "and_then x f = Inr z \<longleftrightarrow> (\<exists>v. x = Inr v \<and> f v = Inr z)"
  by (simp add: and_then_def split: sum.splits)

section \<open>Reading a JSON value\<close>

text \<open>\<open>static_cast<int>\<close>: a 64-bit integer wraps, a float is truncated, which is undefined out of range.\<close>

definition wrap_int :: "int \<Rightarrow> int" where
  "wrap_int n = (n + 2 ^ 31) mod 2 ^ 32 - 2 ^ 31"

definition in_int :: "int \<Rightarrow> bool" where
  "in_int n \<longleftrightarrow> - (2 ^ 31) \<le> n \<and> n < 2 ^ 31"

definition truncate_rat :: "rat \<Rightarrow> int" where
  "truncate_rat x = (if x < 0 then - \<lfloor>- x\<rfloor> else \<lfloor>x\<rfloor>)"

fun get_int :: "json \<Rightarrow> config_error + int" where
  "get_int (JNumberUnsigned n) = Inr (wrap_int (int n))"
| "get_int (JNumberInteger n) = Inr (wrap_int n)"
| "get_int (JNumberFloat x) = (if in_int (truncate_rat x) then Inr (truncate_rat x) else Inl UndefinedConversion)"
| "get_int (JBoolean b) = Inr (if b then 1 else 0)"
| "get_int _ = Inl TypeError"

fun get_string :: "json \<Rightarrow> config_error + string" where
  "get_string (JString s) = Inr s"
| "get_string _ = Inl TypeError"

text \<open>The element under a key, if the value is an object that contains it.\<close>

fun element :: "string \<Rightarrow> json \<Rightarrow> json option" where
  "element key (JObject m) = map_of m key"
| "element key _ = None"

definition jget :: "(json \<Rightarrow> config_error + 'a) \<Rightarrow> json \<Rightarrow> string \<Rightarrow> 'a \<Rightarrow> config_error + 'a" where
  "jget get j key def =
     (case element key j of
        None \<Rightarrow> Inr def
      | Some v \<Rightarrow> if v = JNull then Inr def else get v)"

section \<open>Parsing the configuration\<close>

definition parseSocket :: "json \<Rightarrow> config_error + SocketConfig" where
  "parseSocket j =
     and_then (jget get_string j ''socket_path'' ''/tmp/media_agent.sock'') (\<lambda>path.
     and_then (jget get_int j ''send_queue_size'' 100) (\<lambda>send_queue_size.
     and_then (jget get_int j ''heartbeat_interval_s'' 10) (\<lambda>heartbeat.
     and_then (jget get_string j ''agent_id'' ''agent_001'') (\<lambda>agent_id.
       Inr \<lparr>so_socket_path = path, so_send_queue_size = send_queue_size, so_heartbeat_interval_s = heartbeat,
            so_agent_id = agent_id\<rparr>))))"

definition parsePipeline :: "json \<Rightarrow> config_error + PipelineConfig" where
  "parsePipeline j =
     and_then (jget get_int j ''num_infer_threads'' 3) (\<lambda>threads.
     and_then (jget get_int j ''frame_queue_size'' 200) (\<lambda>queue.
     and_then (jget get_int j ''statistics_interval_s'' 5) (\<lambda>interval.
       Inr \<lparr>pl_num_infer_threads = threads, pl_frame_queue_size = queue, pl_statistics_interval_s = interval\<rparr>)))"

definition parseLog :: "json \<Rightarrow> config_error + LogConfig" where
  "parseLog j =
     and_then (jget get_string j ''level'' ''info'') (\<lambda>level.
     and_then (jget get_string j ''output'' ''file'') (\<lambda>out.
     and_then (jget get_string j ''log_dir'' ''log'') (\<lambda>dir.
     and_then (jget get_int j ''max_file_mb'' 50) (\<lambda>max_file_mb.
     and_then (jget get_int j ''max_files'' 5) (\<lambda>max_files.
       Inr \<lparr>lg_level = level, lg_output = out, lg_log_dir = dir, lg_max_file_mb = max_file_mb, lg_max_files = max_files\<rparr>)))))"

text \<open>A section that is not there keeps the member initialisers.\<close>

definition parse_section :: "(json \<Rightarrow> config_error + 'a) \<Rightarrow> json \<Rightarrow> string \<Rightarrow> 'a \<Rightarrow> config_error + 'a" where
  "parse_section parse doc key initial =
     (case element key doc of None \<Rightarrow> Inr initial | Some v \<Rightarrow> parse v)"

definition parseJson :: "json \<Rightarrow> config_error + AppConfig" where
  "parseJson doc =
     and_then (parse_section parseLog doc ''log'' new_LogConfig) (\<lambda>log_config.
     and_then (parse_section parseSocket doc ''socket'' new_SocketConfig) (\<lambda>socket.
     and_then (parse_section parsePipeline doc ''pipeline'' new_PipelineConfig) (\<lambda>pipeline.
       Inr \<lparr>app_log = log_config, app_socket = socket, app_pipeline = pipeline\<rparr>)))"

definition loadFromFile ::
  "(string \<Rightarrow> string option) \<Rightarrow> (string \<Rightarrow> json option) \<Rightarrow> string \<Rightarrow> config_error + AppConfig"
where
  "loadFromFile open_file read_json path =
     (case open_file path of
        None \<Rightarrow> Inl CannotOpen
      | Some content \<Rightarrow> (case read_json content of None \<Rightarrow> Inl ParseError | Some doc \<Rightarrow> parseJson doc))"

definition loadFromString :: "(string \<Rightarrow> json option) \<Rightarrow> string \<Rightarrow> config_error + AppConfig" where
  "loadFromString parse json_str =
     (case parse json_str of None \<Rightarrow> Inl ParseError | Some doc \<Rightarrow> parseJson doc)"

section \<open>Writing the configuration\<close>

text \<open>\<open>operator[]\<close> turns null into an object and adds a null element for a new key.\<close>

fun members :: "json \<Rightarrow> (string \<times> json) list" where
  "members (JObject m) = m"
| "members _ = []"

definition assign :: "string \<times> string \<times> json \<Rightarrow> json \<Rightarrow> json" where
  "assign entry j =
     (case entry of (part, key, v) \<Rightarrow>
        let inner = (case element part j of None \<Rightarrow> JNull | Some i \<Rightarrow> i)
        in JObject (omap_put part (JObject (omap_put key v (members inner))) (members j)))"

definition toJson :: "AppConfig \<Rightarrow> json" where
  "toJson c = fold assign
     [(''log'', ''level'', JString (lg_level (app_log c))),
      (''log'', ''output'', JString (lg_output (app_log c))),
      (''log'', ''log_dir'', JString (lg_log_dir (app_log c))),
      (''socket'', ''socket_path'', JString (so_socket_path (app_socket c))),
      (''socket'', ''heartbeat_interval_s'', JNumberInteger (so_heartbeat_interval_s (app_socket c))),
      (''pipeline'', ''num_infer_threads'', JNumberInteger (pl_num_infer_threads (app_pipeline c))),
      (''pipeline'', ''frame_queue_size'', JNumberInteger (pl_frame_queue_size (app_pipeline c))),
      (''pipeline'', ''statistics_interval_s'', JNumberInteger (pl_statistics_interval_s (app_pipeline c)))]
     JNull"

definition toJsonString :: "(json \<Rightarrow> string) \<Rightarrow> AppConfig \<Rightarrow> string" where
  "toJsonString dump c = dump (toJson c)"

text \<open>What the parser reads from a dumped value: the same, with non-negative integers unsigned.\<close>

fun reparsed :: "json \<Rightarrow> json" where
  "reparsed (JNumberInteger n) = (if 0 \<le> n then JNumberUnsigned (nat n) else JNumberInteger n)"
| "reparsed (JArray js) = JArray (map reparsed js)"
| "reparsed (JObject m) = JObject (map (\<lambda>(key, v). (key, reparsed v)) m)"
| "reparsed j = j"

section \<open>Properties\<close>

lemma wrap_int_in_range [simp]: "in_int n \<Longrightarrow> wrap_int n = n"
  by (simp add: in_int_def wrap_int_def)

lemma in_int_wrap [simp]: "in_int (wrap_int n)"
  by (simp add: in_int_def wrap_int_def)

lemma get_int_reparsed: "in_int n \<Longrightarrow> get_int (reparsed (JNumberInteger n)) = Inr n" "reparsed (JNumberInteger n) \<noteq> JNull"
  by simp_all

lemma get_int_range: "get_int v = Inr n \<Longrightarrow> in_int n"
  by (cases v rule: get_int.cases) (auto split: if_splits simp: in_int_def [of 0] in_int_def [of 1])

text \<open>
  C37. Reading back a written configuration: every written field survives, for every value an \<open>int\<close> can have, but the agent id, the
  capacity of the send queue and the limits of the log files are not written and come back as the defaults. The hypothesis
  is what the library documents, that parsing a dumped value gives that value.
\<close>

theorem config_round_trip:
  assumes "parse (dump (toJson c)) = Some (reparsed (toJson c))"
    and "in_int (so_heartbeat_interval_s (app_socket c))" "in_int (pl_num_infer_threads (app_pipeline c))"
      "in_int (pl_frame_queue_size (app_pipeline c))" "in_int (pl_statistics_interval_s (app_pipeline c))"
  shows "loadFromString parse (toJsonString dump c) =
    Inr (c\<lparr>app_log := (app_log c)\<lparr>lg_max_file_mb := 50, lg_max_files := 5\<rparr>,
           app_socket := (app_socket c)\<lparr>so_send_queue_size := 100, so_agent_id := ''agent_001''\<rparr>\<rparr>)"
proof -
  have doc: "toJson c = JObject
    [(''log'', JObject [(''level'', JString (lg_level (app_log c))), (''log_dir'', JString (lg_log_dir (app_log c))),
        (''output'', JString (lg_output (app_log c)))]),
     (''pipeline'', JObject [(''frame_queue_size'', JNumberInteger (pl_frame_queue_size (app_pipeline c))),
        (''num_infer_threads'', JNumberInteger (pl_num_infer_threads (app_pipeline c))),
        (''statistics_interval_s'', JNumberInteger (pl_statistics_interval_s (app_pipeline c)))]),
     (''socket'', JObject [(''heartbeat_interval_s'', JNumberInteger (so_heartbeat_interval_s (app_socket c))),
        (''socket_path'', JString (so_socket_path (app_socket c)))])]"
    by (simp add: toJson_def assign_def Let_def)
  obtain lg so pl where c: "c = \<lparr>app_log = lg, app_socket = so, app_pipeline = pl\<rparr>" by (cases c)
  show ?thesis using assms(2-5)
    unfolding loadFromString_def toJsonString_def assms(1) unfolding doc
    by (cases lg; cases so; cases pl)
      (simp add: c parseJson_def parse_section_def parseLog_def parseSocket_def parsePipeline_def jget_def
        get_int_reparsed del: reparsed.simps(1) get_int.simps(1,2))
qed

theorem config_round_trip_witness:
  "\<exists>parse dump. loadFromString parse (toJsonString dump (new_AppConfig\<lparr>app_socket := new_SocketConfig\<lparr>so_send_queue_size := 7\<rparr>\<rparr>)) =
     Inr (new_AppConfig\<lparr>app_socket := new_SocketConfig\<lparr>so_agent_id := ''agent_001''\<rparr>\<rparr>)"
proof -
  let ?c = "new_AppConfig\<lparr>app_socket := new_SocketConfig\<lparr>so_send_queue_size := 7\<rparr>\<rparr>"
  let ?dump = "\<lambda>j. if j = toJson ?c then ''{}'' else []"
  let ?parse = "\<lambda>s. if s = ''{}'' then Some (reparsed (toJson ?c)) else None"
  have "loadFromString ?parse (toJsonString ?dump ?c) =
    Inr (?c\<lparr>app_log := (app_log ?c)\<lparr>lg_max_file_mb := 50, lg_max_files := 5\<rparr>,
            app_socket := (app_socket ?c)\<lparr>so_send_queue_size := 100, so_agent_id := ''agent_001''\<rparr>\<rparr>)"
    by (rule config_round_trip) (simp_all add: new_AppConfig_def new_SocketConfig_def new_PipelineConfig_def in_int_def)
  then show ?thesis
    by (intro exI [of _ ?parse] exI [of _ ?dump]) (simp add: new_AppConfig_def new_SocketConfig_def new_LogConfig_def)
qed

text \<open>The settings the program knows, each with its section, and whether it is a text.\<close>

definition known_settings :: "(string \<times> string \<times> bool) list" where
  "known_settings =
     [(''log'', ''level'', True), (''log'', ''output'', True), (''log'', ''log_dir'', True),
      (''log'', ''max_file_mb'', False), (''log'', ''max_files'', False),
      (''socket'', ''socket_path'', True), (''socket'', ''send_queue_size'', False),
      (''socket'', ''heartbeat_interval_s'', False), (''socket'', ''agent_id'', True),
      (''pipeline'', ''num_infer_threads'', False), (''pipeline'', ''frame_queue_size'', False),
      (''pipeline'', ''statistics_interval_s'', False)]"

definition value_fits :: "bool \<Rightarrow> json \<Rightarrow> bool" where
  "value_fits text_setting v \<longleftrightarrow>
     v = JNull \<or>
     (case v of
        JString s \<Rightarrow> text_setting
      | JNumberUnsigned n \<Rightarrow> \<not> text_setting
      | JNumberInteger n \<Rightarrow> \<not> text_setting
      | JNumberFloat x \<Rightarrow> \<not> text_setting \<and> in_int (truncate_rat x)
      | JBoolean b \<Rightarrow> \<not> text_setting
      | _ \<Rightarrow> False)"

definition setting_of :: "json \<Rightarrow> string \<Rightarrow> string \<Rightarrow> json option" where
  "setting_of doc part key = (case element part doc of None \<Rightarrow> None | Some s \<Rightarrow> element key s)"

definition setting_fits :: "json \<Rightarrow> string \<times> string \<times> bool \<Rightarrow> bool" where
  "setting_fits doc entry =
     (case entry of (part, key, text_setting) \<Rightarrow>
        (case setting_of doc part key of None \<Rightarrow> True | Some v \<Rightarrow> value_fits text_setting v))"

lemma jget_int_ok: "(\<exists>n. jget get_int j key d = Inr n) \<longleftrightarrow> (case element key j of None \<Rightarrow> True | Some v \<Rightarrow> value_fits False v)"
  by (auto simp: jget_def value_fits_def split: option.splits json.splits)

lemma jget_string_ok: "(\<exists>n. jget get_string j key d = Inr n) \<longleftrightarrow> (case element key j of None \<Rightarrow> True | Some v \<Rightarrow> value_fits True v)"
  by (auto simp: jget_def value_fits_def split: option.splits json.splits)

lemma jget_int_range: "jget get_int j key d = Inr n \<Longrightarrow> in_int d \<Longrightarrow> in_int n"
  by (auto simp: jget_def split: option.splits if_splits dest: get_int_range)

lemma parse_section_ok:
  "(\<exists>c. parse_section parse doc part initial = Inr c) \<longleftrightarrow>
     (case element part doc of None \<Rightarrow> True | Some s \<Rightarrow> \<exists>c. parse s = Inr c)"
  by (auto simp: parse_section_def split: option.splits)

lemma ex_and_then: "(\<exists>z. and_then x f = Inr z) \<longleftrightarrow> (\<exists>v. x = Inr v \<and> (\<exists>z. f v = Inr z))"
  by (auto simp: and_then_eq_Inr)

lemma parse_sections_ok:
  "(\<exists>c. parseLog s = Inr c) \<longleftrightarrow>
     (\<exists>n. jget get_string s ''level'' ''info'' = Inr n) \<and> (\<exists>n. jget get_string s ''output'' ''file'' = Inr n) \<and>
     (\<exists>n. jget get_string s ''log_dir'' ''log'' = Inr n) \<and> (\<exists>n. jget get_int s ''max_file_mb'' 50 = Inr n) \<and>
     (\<exists>n. jget get_int s ''max_files'' 5 = Inr n)"
  "(\<exists>c. parseSocket s = Inr c) \<longleftrightarrow>
     (\<exists>n. jget get_string s ''socket_path'' ''/tmp/media_agent.sock'' = Inr n) \<and> (\<exists>n. jget get_int s ''send_queue_size'' 100 = Inr n) \<and>
     (\<exists>n. jget get_int s ''heartbeat_interval_s'' 10 = Inr n) \<and> (\<exists>n. jget get_string s ''agent_id'' ''agent_001'' = Inr n)"
  "(\<exists>c. parsePipeline s = Inr c) \<longleftrightarrow>
     (\<exists>n. jget get_int s ''num_infer_threads'' 3 = Inr n) \<and> (\<exists>n. jget get_int s ''frame_queue_size'' 200 = Inr n) \<and>
     (\<exists>n. jget get_int s ''statistics_interval_s'' 5 = Inr n)"
  by (auto simp: parseLog_def parseSocket_def parsePipeline_def and_then_eq_Inr)

lemma parseJson_ok:
  "(\<exists>c. parseJson doc = Inr c) \<longleftrightarrow>
     (\<exists>c. parse_section parseLog doc ''log'' new_LogConfig = Inr c) \<and>
     (\<exists>c. parse_section parseSocket doc ''socket'' new_SocketConfig = Inr c) \<and>
     (\<exists>c. parse_section parsePipeline doc ''pipeline'' new_PipelineConfig = Inr c)"
  by (auto simp: parseJson_def and_then_eq_Inr)

text \<open>
  A document is accepted exactly if each of the twelve known settings that is there and not null has a value of its kind (a text
  or a number or truth value; a float must fit an \<open>int\<close>); what else the document holds has no influence, and every
  number of an accepted configuration is in the range of \<open>int\<close>.
\<close>

theorem config_accepted_iff:
  "((\<exists>c. parseJson doc = Inr c) \<longleftrightarrow> list_all (setting_fits doc) known_settings) \<and>
   (\<forall>c. parseJson doc = Inr c \<longrightarrow>
      list_all in_int [lg_max_file_mb (app_log c), lg_max_files (app_log c), so_send_queue_size (app_socket c),
        so_heartbeat_interval_s (app_socket c), pl_num_infer_threads (app_pipeline c),
        pl_frame_queue_size (app_pipeline c), pl_statistics_interval_s (app_pipeline c)])"
proof (intro conjI allI impI)
  have conj: "(case x of None \<Rightarrow> True | Some s \<Rightarrow> P s \<and> Q s) \<longleftrightarrow> (case x of None \<Rightarrow> True | Some s \<Rightarrow> P s) \<and> (case x of None \<Rightarrow> True | Some s \<Rightarrow> Q s)"
    for x :: "json option" and P Q by (cases x) auto
  have fits: "setting_fits doc (part, key, b) =
      (case element part doc of None \<Rightarrow> True | Some s \<Rightarrow> (case element key s of None \<Rightarrow> True | Some v \<Rightarrow> value_fits b v))" for part key b
    by (simp add: setting_fits_def setting_of_def split: option.split)
  show "(\<exists>c. parseJson doc = Inr c) \<longleftrightarrow> list_all (setting_fits doc) known_settings"
    unfolding known_settings_def list.pred_inject fits parseJson_ok parse_section_ok parse_sections_ok jget_int_ok jget_string_ok conj
    by (simp only: conj_assoc simp_thms list.pred_inject fits)
next
  fix c
  assume "parseJson doc = Inr c"
  moreover have "in_int 50" "in_int 5" "in_int 100" "in_int 10" "in_int 3" "in_int 200" by (simp_all add: in_int_def)
  ultimately show "list_all in_int [lg_max_file_mb (app_log c), lg_max_files (app_log c), so_send_queue_size (app_socket c),
        so_heartbeat_interval_s (app_socket c), pl_num_infer_threads (app_pipeline c),
        pl_frame_queue_size (app_pipeline c), pl_statistics_interval_s (app_pipeline c)]"
    by (auto simp: parseJson_def parse_section_def parseLog_def parseSocket_def parsePipeline_def and_then_eq_Inr
        new_LogConfig_def new_SocketConfig_def new_PipelineConfig_def dest!: jget_int_range split: option.splits)
qed

theorem config_accepted_iff_witness:
  "parseJson (JObject [(''pipeline'', JObject [(''num_infer_threads'', JString ''3'')])]) = Inl TypeError \<and>
   (\<exists>c. parseJson (JArray []) = Inr c \<and> in_int (pl_num_infer_threads (app_pipeline c)))"
proof -
  have "\<exists>c. parseJson (JArray []) = Inr c"
    using config_accepted_iff [of "JArray []"] by (simp add: known_settings_def setting_fits_def setting_of_def)
  moreover have "parseJson (JObject [(''pipeline'', JObject [(''num_infer_threads'', JString ''3'')])]) = Inl TypeError"
    by (simp add: parseJson_def parse_section_def parsePipeline_def jget_def)
  ultimately show ?thesis using config_accepted_iff [of "JArray []"] by auto
qed

end
