(* ===== verification/ConfigFilter.thy ===== *)
theory ConfigFilter
  imports Messages
begin

text \<open>
  \<open>src/pipeline/ConfigFilter.cpp\<close>: the configurations a server has pushed (one
  \<open>AgentConfig\<close> per \<open>config_id\<close>, kept in a \<open>std::map\<close>) are merged into one
  \<open>StreamConfig\<close> per stream. Later configurations, in the order of the map, override earlier ones.

  The warnings about conflicts are log output and are not modelled; the fields that only feed
  them (\<open>algorithm_source_config_id_by_id\<close>, \<open>tracker_source_config_id\<close>) are kept.
  Comparing messages is the parameter \<open>differencer\<close>.
\<close>

section \<open>Views and comparisons\<close>

record TransportStreamConfigView =
  tv_enabled :: bool
  tv_stream_id :: string
  tv_rtsp_url :: string
  tv_new_rtsp_url :: string
  tv_reconnect_interval_s :: int
  tv_alarm_snapshot_dir :: string
  tv_alarm_record_dir :: string
  tv_alarm_record_duration_s :: int

record DetectorConfigView =
  dv_algorithms :: "AlgorithmConfig list"

record DetectorRuntimeConfigView =
  rv_algorithms :: "AlgorithmConfig list"
  rv_alarm_dedup_interval_s :: int
  rv_has_tracker :: bool
  rv_tracker :: TrackerConfig

definition detector_view_eq :: "differencer \<Rightarrow> DetectorConfigView \<Rightarrow> DetectorConfigView \<Rightarrow> bool" where
  "detector_view_eq d a b = list_all2 (same_algorithm d) (dv_algorithms a) (dv_algorithms b)"

definition runtime_view_eq ::
  "differencer \<Rightarrow> DetectorRuntimeConfigView \<Rightarrow> DetectorRuntimeConfigView \<Rightarrow> bool"
where
  "runtime_view_eq d a b =
     (if rv_alarm_dedup_interval_s a \<noteq> rv_alarm_dedup_interval_s b \<or> rv_has_tracker a \<noteq> rv_has_tracker b
      then False
      else if \<not> list_all2 (same_algorithm d) (rv_algorithms a) (rv_algorithms b) then False
      else if \<not> rv_has_tracker a then True
      else same_tracker d (rv_tracker a) (rv_tracker b))"

definition makeTransportStreamConfigView :: "StreamConfig \<Rightarrow> TransportStreamConfigView" where
  "makeTransportStreamConfigView config =
     \<lparr>tv_enabled = sc_enabled config, tv_stream_id = sc_stream_id config,
      tv_rtsp_url = sc_rtsp_url config, tv_new_rtsp_url = sc_new_rtsp_url config,
      tv_reconnect_interval_s = sc_reconnect_interval_s config,
      tv_alarm_snapshot_dir = sc_alarm_snapshot_dir config,
      tv_alarm_record_dir = sc_alarm_record_dir config,
      tv_alarm_record_duration_s = sc_alarm_record_duration_s config\<rparr>"

definition makeDetectorConfigView :: "StreamConfig \<Rightarrow> DetectorConfigView" where
  "makeDetectorConfigView config = \<lparr>dv_algorithms = sc_algorithms config\<rparr>"

definition makeDetectorRuntimeConfigView :: "StreamConfig \<Rightarrow> DetectorRuntimeConfigView" where
  "makeDetectorRuntimeConfigView config =
     \<lparr>rv_algorithms = sc_algorithms config,
      rv_alarm_dedup_interval_s = sc_alarm_dedup_interval_s config,
      rv_has_tracker = (sc_tracker config \<noteq> None),
      rv_tracker = (case sc_tracker config of None \<Rightarrow> default_TrackerConfig | Some t \<Rightarrow> t)\<rparr>"

definition makeTransportStreamConfig :: "StreamConfig \<Rightarrow> StreamConfig" where
  "makeTransportStreamConfig config =
     default_StreamConfig
       \<lparr>sc_enabled := sc_enabled config, sc_stream_id := sc_stream_id config,
        sc_rtsp_url := sc_rtsp_url config, sc_new_rtsp_url := sc_new_rtsp_url config,
        sc_reconnect_interval_s := sc_reconnect_interval_s config,
        sc_alarm_snapshot_dir := sc_alarm_snapshot_dir config,
        sc_alarm_record_dir := sc_alarm_record_dir config,
        sc_alarm_record_duration_s := sc_alarm_record_duration_s config,
        sc_alarm_dedup_interval_s := sc_alarm_dedup_interval_s config\<rparr>"

definition isSameTransportStreamConfig :: "StreamConfig \<Rightarrow> StreamConfig \<Rightarrow> bool" where
  "isSameTransportStreamConfig lhs rhs \<longleftrightarrow>
     makeTransportStreamConfigView lhs = makeTransportStreamConfigView rhs"

definition isSameRuntimeStreamConfig :: "differencer \<Rightarrow> StreamConfig \<Rightarrow> StreamConfig \<Rightarrow> bool" where
  "isSameRuntimeStreamConfig d lhs rhs \<longleftrightarrow>
     isSameTransportStreamConfig lhs rhs \<and>
     runtime_view_eq d (makeDetectorRuntimeConfigView lhs) (makeDetectorRuntimeConfigView rhs)"

definition hasDetectorConfigChanged :: "differencer \<Rightarrow> StreamConfig \<Rightarrow> StreamConfig \<Rightarrow> bool" where
  "hasDetectorConfigChanged d lhs rhs \<longleftrightarrow>
     \<not> detector_view_eq d (makeDetectorConfigView lhs) (makeDetectorConfigView rhs)"

section \<open>Merging\<close>

record StreamMergeState =
  sm_has_base_config :: bool
  sm_base_config_source_config_id :: int
  sm_base_config :: StreamConfig
  sm_algorithms :: "AlgorithmConfig list"
  sm_algorithm_index_by_id :: "(string \<times> nat) list"
  sm_algorithm_source_config_id_by_id :: "(string \<times> int) list"
  sm_tracker_config :: "TrackerConfig option"
  sm_tracker_disable_config :: "TrackerConfig option"
  sm_tracker_source_config_id :: "int option"
  sm_tracker_explicitly_disabled :: bool

definition new_StreamMergeState :: StreamMergeState where
  "new_StreamMergeState =
     \<lparr>sm_has_base_config = False, sm_base_config_source_config_id = 0,
      sm_base_config = default_StreamConfig, sm_algorithms = [], sm_algorithm_index_by_id = [],
      sm_algorithm_source_config_id_by_id = [], sm_tracker_config = None,
      sm_tracker_disable_config = None, sm_tracker_source_config_id = None,
      sm_tracker_explicitly_disabled = False\<rparr>"

text \<open>One turn of the loop of \<open>mergeAlgorithms\<close>.\<close>

definition merge_algorithm :: "int \<Rightarrow> AlgorithmConfig \<Rightarrow> StreamMergeState \<Rightarrow> StreamMergeState" where
  "merge_algorithm source_config_id algorithm state =
     (if al_algorithm_id algorithm = []
      then state\<lparr>sm_algorithms := sm_algorithms state @ [algorithm]\<rparr>
      else
        (case map_of (sm_algorithm_index_by_id state) (al_algorithm_id algorithm) of
           None \<Rightarrow>
             state\<lparr>sm_algorithm_index_by_id :=
                     omap_put (al_algorithm_id algorithm) (length (sm_algorithms state))
                       (sm_algorithm_index_by_id state),
                   sm_algorithm_source_config_id_by_id :=
                     omap_put (al_algorithm_id algorithm) source_config_id
                       (sm_algorithm_source_config_id_by_id state),
                   sm_algorithms := sm_algorithms state @ [algorithm]\<rparr>
         | Some i \<Rightarrow>
             state\<lparr>sm_algorithm_source_config_id_by_id :=
                     omap_put (al_algorithm_id algorithm) source_config_id
                       (sm_algorithm_source_config_id_by_id state),
                   sm_algorithms := (sm_algorithms state)[i := algorithm]\<rparr>))"

definition mergeAlgorithms :: "StreamConfig \<Rightarrow> int \<Rightarrow> StreamMergeState \<Rightarrow> StreamMergeState" where
  "mergeAlgorithms stream_config source_config_id state =
     fold (merge_algorithm source_config_id) (sc_algorithms stream_config) state"

definition hasMergedTrackerConfig :: "StreamMergeState \<Rightarrow> bool" where
  "hasMergedTrackerConfig state \<longleftrightarrow>
     sm_tracker_explicitly_disabled state \<or> sm_tracker_config state \<noteq> None"

definition currentMergedTrackerConfig :: "StreamMergeState \<Rightarrow> TrackerConfig" where
  "currentMergedTrackerConfig state =
     (if sm_tracker_explicitly_disabled state
      then (case sm_tracker_disable_config state of
              Some t \<Rightarrow> t
            | None \<Rightarrow> default_TrackerConfig\<lparr>tk_enabled := False\<rparr>)
      else (case sm_tracker_config state of Some t \<Rightarrow> t | None \<Rightarrow> default_TrackerConfig))"

definition mergeTracker :: "StreamConfig \<Rightarrow> StreamMergeState \<Rightarrow> StreamMergeState" where
  "mergeTracker stream_config state =
     (case sc_tracker stream_config of
        None \<Rightarrow> state
      | Some t \<Rightarrow>
          if \<not> tk_enabled t
          then state\<lparr>sm_tracker_explicitly_disabled := True, sm_tracker_disable_config := Some t,
                     sm_tracker_config := None\<rparr>
          else state\<lparr>sm_tracker_explicitly_disabled := False, sm_tracker_disable_config := None,
                     sm_tracker_config := Some t\<rparr>)"

definition finalizeMergedStreamConfig :: "StreamMergeState \<Rightarrow> StreamConfig" where
  "finalizeMergedStreamConfig state =
     (sm_base_config state)
       \<lparr>sc_algorithms := sm_algorithms state,
        sc_tracker :=
          (if sm_tracker_explicitly_disabled state
           then (case sm_tracker_disable_config state of
                   Some t \<Rightarrow> Some t
                 | None \<Rightarrow> Some (default_TrackerConfig\<lparr>tk_enabled := False\<rparr>))
           else sm_tracker_config state)\<rparr>"

text \<open>The streams the merge takes into account.\<close>

definition mergeable :: "StreamConfig \<Rightarrow> bool" where
  "mergeable stream \<longleftrightarrow> sc_enabled stream \<and> sc_stream_id stream \<noteq> [] \<and> sc_rtsp_url stream \<noteq> []"

text \<open>The body of the inner loop of \<open>buildMergedStreams\<close> on the state of one stream.\<close>

definition merge_into_state :: "int \<Rightarrow> StreamConfig \<Rightarrow> StreamMergeState \<Rightarrow> StreamMergeState" where
  "merge_into_state config_id stream state =
     (let state = state\<lparr>sm_base_config := makeTransportStreamConfig stream, sm_has_base_config := True,
                        sm_base_config_source_config_id := config_id\<rparr>;
          state = mergeAlgorithms stream config_id state;
          state = mergeTracker stream state
      in if sc_tracker stream \<noteq> None
         then state\<lparr>sm_tracker_source_config_id := Some config_id\<rparr> else state)"

definition merge_stream ::
  "int \<Rightarrow> StreamConfig \<Rightarrow> (string \<times> StreamMergeState) list \<Rightarrow> (string \<times> StreamMergeState) list"
where
  "merge_stream config_id stream states =
     (if \<not> sc_enabled stream then states
      else if sc_stream_id stream = [] then states
      else if sc_rtsp_url stream = [] then states
      else let state = (case map_of states (sc_stream_id stream) of
                          None \<Rightarrow> new_StreamMergeState | Some state \<Rightarrow> state)
           in omap_put (sc_stream_id stream) (merge_into_state config_id stream state) states)"

definition merge_agent ::
  "AgentConfig \<Rightarrow> (string \<times> StreamMergeState) list \<Rightarrow> (string \<times> StreamMergeState) list"
where
  "merge_agent agent_config states =
     fold (merge_stream (ag_config_id agent_config)) (ag_streams agent_config) states"

definition buildMergedStreams :: "(int \<times> AgentConfig) list \<Rightarrow> (string \<times> StreamConfig) list" where
  "buildMergedStreams configs =
     map (\<lambda>(stream_id, state). (stream_id, finalizeMergedStreamConfig state))
       (fold (\<lambda>(config_id, agent_config). merge_agent agent_config) configs [])"

section \<open>Specification of the merge\<close>

text \<open>
  The configurations of one stream, in the order in which the merge sees them: by the key of the
  map first, by position inside an \<open>AgentConfig\<close> second.
\<close>

definition configs_of :: "string \<Rightarrow> (int \<times> AgentConfig) list \<Rightarrow> StreamConfig list" where
  "configs_of stream_id configs =
     filter (\<lambda>s. mergeable s \<and> sc_stream_id s = stream_id)
       (concat (map (\<lambda>(_, a). ag_streams a) configs))"

text \<open>
  Of the algorithms with the same non-empty id the last one is used, at the place of the first;
  algorithms without an id are all kept.
\<close>

fun first_places :: "string set \<Rightarrow> AlgorithmConfig list \<Rightarrow> AlgorithmConfig list" where
  "first_places seen [] = []"
| "first_places seen (a # as) =
     (if al_algorithm_id a = [] then a # first_places seen as
      else if al_algorithm_id a \<in> seen then first_places seen as
      else a # first_places (insert (al_algorithm_id a) seen) as)"

definition latest_with :: "AlgorithmConfig list \<Rightarrow> AlgorithmConfig \<Rightarrow> AlgorithmConfig" where
  "latest_with as a =
     (if al_algorithm_id a = [] then a
      else last (a # filter (\<lambda>b. al_algorithm_id b = al_algorithm_id a) as))"

definition latest_algorithms :: "AlgorithmConfig list \<Rightarrow> AlgorithmConfig list" where
  "latest_algorithms as = map (latest_with as) (first_places {} as)"

text \<open>The last element that is present.\<close>

definition latest_some :: "'a option list \<Rightarrow> 'a option" where
  "latest_some xs = last (None # filter (\<lambda>x. x \<noteq> None) xs)"

definition merged_spec :: "StreamConfig list \<Rightarrow> StreamConfig option" where
  "merged_spec ss =
     (if ss = [] then None
      else Some ((makeTransportStreamConfig (last ss))
             \<lparr>sc_algorithms := latest_algorithms (concat (map sc_algorithms ss)),
              sc_tracker := latest_some (map sc_tracker ss)\<rparr>))"

section \<open>The list of algorithms\<close>

abbreviation alg_ids :: "AlgorithmConfig list \<Rightarrow> string set" where
  "alg_ids as \<equiv> al_algorithm_id ` set as"

lemma first_places_snoc:
  "first_places seen (as @ [a]) = first_places seen as @
     (if al_algorithm_id a = [] \<or> al_algorithm_id a \<notin> seen \<union> alg_ids as then [a] else [])"
  by (induction seen as rule: first_places.induct) auto

lemma first_places_ids:
  "x \<noteq> [] \<Longrightarrow> x \<in> alg_ids (first_places seen as) \<longleftrightarrow> x \<in> alg_ids as \<and> x \<notin> seen"
  by (induction seen as rule: first_places.induct) auto

lemma latest_with_id [simp]: "al_algorithm_id (latest_with as a) = al_algorithm_id a"
proof -
  let ?same = "filter (\<lambda>b. al_algorithm_id b = al_algorithm_id a) as"
  have "last (a # ?same) \<in> set (a # ?same)" by (rule last_in_set) simp
  then show ?thesis by (auto simp: latest_with_def)
qed

lemma latest_algorithms_ids:
  "x \<noteq> [] \<Longrightarrow> x \<in> alg_ids (latest_algorithms as) \<longleftrightarrow> x \<in> alg_ids as"
  using first_places_ids [of x "{}" as] by (simp add: latest_algorithms_def image_image)

lemma latest_with_snoc:
  "latest_with (as @ [a]) b =
     (if al_algorithm_id a \<noteq> [] \<and> al_algorithm_id b = al_algorithm_id a then a else latest_with as b)"
  by (auto simp: latest_with_def)

lemma latest_algorithms_snoc:
  "latest_algorithms (as @ [a]) =
     (if al_algorithm_id a = [] \<or> al_algorithm_id a \<notin> alg_ids as then latest_algorithms as @ [a]
      else map (\<lambda>b. if al_algorithm_id b = al_algorithm_id a then a else b) (latest_algorithms as))"
proof (cases "al_algorithm_id a = [] \<or> al_algorithm_id a \<notin> alg_ids as")
  case True
  have "latest_with (as @ [a]) b = latest_with as b" if "b \<in> set (first_places {} as)" for b
    using that True first_places_ids [of "al_algorithm_id b" "{}" as]
    by (auto simp: latest_with_snoc)
  moreover have "latest_with (as @ [a]) a = a"
    by (simp add: latest_with_snoc) (simp add: latest_with_def)
  ultimately show ?thesis using True by (simp add: latest_algorithms_def first_places_snoc)
next
  case False
  then show ?thesis by (simp add: latest_algorithms_def first_places_snoc latest_with_snoc)
qed

text \<open>The index of \<open>StreamMergeState\<close> points to the only algorithm with that id.\<close>

definition index_ok :: "(string \<times> nat) list \<Rightarrow> AlgorithmConfig list \<Rightarrow> bool" where
  "index_ok index as \<longleftrightarrow> sorted_keys index \<and>
     (\<forall>i n. map_of index i = Some n \<longleftrightarrow> i \<noteq> [] \<and> n < length as \<and> al_algorithm_id (as ! n) = i)"

lemma index_okD:
  assumes "index_ok index as"
  shows "map_of index i = Some n \<longleftrightarrow> i \<noteq> [] \<and> n < length as \<and> al_algorithm_id (as ! n) = i"
  using assms unfolding index_ok_def by blast

lemma alg_ids_conv_nth: "i \<in> alg_ids as \<longleftrightarrow> (\<exists>n < length as. al_algorithm_id (as ! n) = i)"
  by (force simp: in_set_conv_nth image_iff)

lemma index_ok_None:
  assumes "index_ok index as" "i \<noteq> []"
  shows "map_of index i = None \<longleftrightarrow> i \<notin> alg_ids as"
proof -
  have "map_of index i = None \<longleftrightarrow> (\<forall>n. map_of index i \<noteq> Some n)" by (cases "map_of index i") auto
  then show ?thesis using assms(2) unfolding index_okD [OF assms(1)] alg_ids_conv_nth by blast
qed

lemma index_ok_unique:
  assumes "index_ok index as" "n < length as" "m < length as"
    "al_algorithm_id (as ! n) = al_algorithm_id (as ! m)" "al_algorithm_id (as ! n) \<noteq> []"
  shows "n = m"
proof -
  have "map_of index (al_algorithm_id (as ! n)) = Some n" "map_of index (al_algorithm_id (as ! n)) = Some m"
    unfolding index_okD [OF assms(1)] using assms by simp_all
  then show ?thesis by simp
qed

lemma index_ok_update:
  assumes "index_ok index as" "map_of index (al_algorithm_id a) = Some n"
  shows "as[n := a] = map (\<lambda>b. if al_algorithm_id b = al_algorithm_id a then a else b) as"
    and "index_ok index (as[n := a])"
proof -
  have n: "n < length as" "al_algorithm_id (as ! n) = al_algorithm_id a" "al_algorithm_id a \<noteq> []"
    using assms(2) unfolding index_okD [OF assms(1)] by simp_all
  show "as[n := a] = map (\<lambda>b. if al_algorithm_id b = al_algorithm_id a then a else b) as"
  proof (rule nth_equalityI)
    fix m assume "m < length (as[n := a])"
    then have m: "m < length as" by simp
    have "al_algorithm_id (as ! m) = al_algorithm_id a \<longleftrightarrow> m = n"
      using index_ok_unique [OF assms(1) n(1) m] n by auto
    with m n(1) show "as[n := a] ! m = map (\<lambda>b. if al_algorithm_id b = al_algorithm_id a then a else b) as ! m"
      by simp
  qed simp
  have "al_algorithm_id (as[n := a] ! m) = al_algorithm_id (as ! m)" if "m < length as" for m
    using n that by (auto simp: nth_list_update)
  then have "map_of index i = Some m \<longleftrightarrow>
      i \<noteq> [] \<and> m < length (as[n := a]) \<and> al_algorithm_id (as[n := a] ! m) = i" for i m
    unfolding index_okD [OF assms(1)] by auto
  then show "index_ok index (as[n := a])" using assms(1) by (simp add: index_ok_def)
qed

lemma index_ok_append:
  assumes "index_ok index as" "al_algorithm_id a \<noteq> []" "map_of index (al_algorithm_id a) = None"
  shows "index_ok (omap_put (al_algorithm_id a) (length as) index) (as @ [a])"
proof -
  have fresh: "al_algorithm_id a \<notin> alg_ids as" using index_ok_None [OF assms(1,2)] assms(3) by simp
  have "map_of (omap_put (al_algorithm_id a) (length as) index) i = Some n \<longleftrightarrow>
      i \<noteq> [] \<and> n < length (as @ [a]) \<and> al_algorithm_id ((as @ [a]) ! n) = i" for i n
    using assms fresh index_okD [OF assms(1), of i n] unfolding alg_ids_conv_nth
    by (auto simp: index_ok_def map_of_omap_put nth_append less_Suc_eq)
  then show ?thesis using assms(1) by (simp add: index_ok_def sorted_keys_omap_put)
qed

lemma index_ok_append_empty:
  assumes "index_ok index as" "al_algorithm_id a = []"
  shows "index_ok index (as @ [a])"
proof -
  have "map_of index i = Some n \<longleftrightarrow>
      i \<noteq> [] \<and> n < length (as @ [a]) \<and> al_algorithm_id ((as @ [a]) ! n) = i" for i n
    unfolding index_okD [OF assms(1)] using assms(2) by (auto simp: nth_append less_Suc_eq)
  then show ?thesis using assms(1) by (simp add: index_ok_def)
qed

definition algorithms_ok :: "AlgorithmConfig list \<Rightarrow> StreamMergeState \<Rightarrow> bool" where
  "algorithms_ok as state \<longleftrightarrow>
     sm_algorithms state = latest_algorithms as \<and>
     index_ok (sm_algorithm_index_by_id state) (latest_algorithms as)"

lemma algorithms_ok_step:
  assumes "algorithms_ok as state"
  shows "algorithms_ok (as @ [a]) (merge_algorithm c a state)"
proof (cases "al_algorithm_id a = []")
  case True
  with assms index_ok_append_empty [of _ "latest_algorithms as"] show ?thesis
    by (auto simp: algorithms_ok_def merge_algorithm_def latest_algorithms_snoc)
next
  case False
  have algs: "sm_algorithms state = latest_algorithms as"
    and idx: "index_ok (sm_algorithm_index_by_id state) (latest_algorithms as)"
    using assms unfolding algorithms_ok_def by blast+
  have known: "al_algorithm_id a \<in> alg_ids as \<longleftrightarrow> al_algorithm_id a \<in> alg_ids (latest_algorithms as)"
    using latest_algorithms_ids [OF False, of as] by simp
  show ?thesis
  proof (cases "map_of (sm_algorithm_index_by_id state) (al_algorithm_id a)")
    case None
    with index_ok_None [OF idx False] known have "al_algorithm_id a \<notin> alg_ids as" by simp
    with None idx algs False index_ok_append [OF idx False None] show ?thesis
      by (simp add: algorithms_ok_def merge_algorithm_def latest_algorithms_snoc)
  next
    case (Some n)
    with index_ok_None [OF idx False] known have "al_algorithm_id a \<in> alg_ids as" by simp
    with Some idx algs False index_ok_update [OF idx Some] show ?thesis
      by (simp add: algorithms_ok_def merge_algorithm_def latest_algorithms_snoc)
  qed
qed

lemma algorithms_ok_merge:
  "algorithms_ok as state \<Longrightarrow> algorithms_ok (as @ sc_algorithms s) (mergeAlgorithms s c state)"
proof -
  have "algorithms_ok (as @ bs) (fold (merge_algorithm c) bs state)" if "algorithms_ok as state" for as bs state
    using that
  proof (induction bs arbitrary: as state)
    case (Cons b bs)
    from Cons.IH [OF algorithms_ok_step [OF Cons.prems]] show ?case by simp
  qed simp
  then show "algorithms_ok as state \<Longrightarrow> ?thesis" by (simp add: mergeAlgorithms_def)
qed

section \<open>One stream\<close>

lemma latest_some_snoc: "latest_some (xs @ [x]) = (if x = None then latest_some xs else x)"
  by (auto simp: latest_some_def)

definition tracker_ok :: "TrackerConfig option \<Rightarrow> StreamMergeState \<Rightarrow> bool" where
  "tracker_ok t state \<longleftrightarrow>
     (if sm_tracker_explicitly_disabled state
      then t \<noteq> None \<and> sm_tracker_disable_config state = t
      else sm_tracker_config state = t)"

definition merge_ok :: "StreamConfig list \<Rightarrow> StreamMergeState \<Rightarrow> bool" where
  "merge_ok ss state \<longleftrightarrow>
     (ss \<noteq> [] \<longrightarrow> sm_base_config state = makeTransportStreamConfig (last ss)) \<and>
     algorithms_ok (concat (map sc_algorithms ss)) state \<and>
     tracker_ok (latest_some (map sc_tracker ss)) state"

lemma merge_ok_new: "merge_ok [] new_StreamMergeState"
  by (simp add: merge_ok_def algorithms_ok_def tracker_ok_def new_StreamMergeState_def
      latest_algorithms_def latest_some_def index_ok_def)

lemma merge_algorithm_frame:
  "sm_base_config (merge_algorithm c a state) = sm_base_config state"
  "sm_tracker_config (merge_algorithm c a state) = sm_tracker_config state"
  "sm_tracker_disable_config (merge_algorithm c a state) = sm_tracker_disable_config state"
  "sm_tracker_explicitly_disabled (merge_algorithm c a state) = sm_tracker_explicitly_disabled state"
  by (simp_all add: merge_algorithm_def split: option.splits)

lemma mergeAlgorithms_frame:
  "sm_base_config (mergeAlgorithms s c state) = sm_base_config state"
  "tracker_ok t (mergeAlgorithms s c state) = tracker_ok t state"
proof -
  have "sm_base_config (fold (merge_algorithm c) as state) = sm_base_config state \<and>
      tracker_ok t (fold (merge_algorithm c) as state) = tracker_ok t state" for as
    by (induction as arbitrary: state) (simp_all add: merge_algorithm_frame tracker_ok_def)
  then show "sm_base_config (mergeAlgorithms s c state) = sm_base_config state"
    "tracker_ok t (mergeAlgorithms s c state) = tracker_ok t state"
    by (simp_all add: mergeAlgorithms_def)
qed

lemma mergeTracker_ok:
  "tracker_ok t state \<Longrightarrow>
     tracker_ok (if sc_tracker s = None then t else sc_tracker s) (mergeTracker s state)"
  "algorithms_ok as (mergeTracker s state) = algorithms_ok as state"
  "sm_base_config (mergeTracker s state) = sm_base_config state"
  by (auto simp: mergeTracker_def tracker_ok_def algorithms_ok_def split: option.splits)

lemma merge_ok_step:
  assumes "merge_ok ss state"
  shows "merge_ok (ss @ [s]) (merge_into_state c s state)"
proof -
  define s1 where "s1 = state\<lparr>sm_base_config := makeTransportStreamConfig s, sm_has_base_config := True,
                        sm_base_config_source_config_id := c\<rparr>"
  define s3 where "s3 = mergeTracker s (mergeAlgorithms s c s1)"
  have "algorithms_ok (concat (map sc_algorithms ss)) s1" "tracker_ok (latest_some (map sc_tracker ss)) s1"
    using assms by (simp_all add: merge_ok_def algorithms_ok_def tracker_ok_def s1_def split: if_splits)
  then have "merge_ok (ss @ [s]) s3"
    by (simp add: merge_ok_def s3_def mergeTracker_ok mergeAlgorithms_frame algorithms_ok_merge
        latest_some_snoc s1_def)
  moreover have "merge_into_state c s state =
      (if sc_tracker s \<noteq> None then s3\<lparr>sm_tracker_source_config_id := Some c\<rparr> else s3)"
    by (simp add: merge_into_state_def s1_def s3_def Let_def)
  moreover have "merge_ok rs (x\<lparr>sm_tracker_source_config_id := o'\<rparr>) = merge_ok rs x" for rs x o'
    by (simp add: merge_ok_def algorithms_ok_def tracker_ok_def)
  ultimately show ?thesis by simp
qed

lemma finalize_merge_ok:
  assumes "merge_ok ss state" "ss \<noteq> []"
  shows "merged_spec ss = Some (finalizeMergedStreamConfig state)"
  using assms
  by (auto simp: merged_spec_def finalizeMergedStreamConfig_def merge_ok_def algorithms_ok_def
      tracker_ok_def makeTransportStreamConfig_def split: option.splits if_splits)

section \<open>All streams\<close>

definition of_stream :: "string \<Rightarrow> StreamConfig list \<Rightarrow> StreamConfig list" where
  "of_stream i all = filter (\<lambda>s. mergeable s \<and> sc_stream_id s = i) all"

definition states_ok :: "StreamConfig list \<Rightarrow> (string \<times> StreamMergeState) list \<Rightarrow> bool" where
  "states_ok all states \<longleftrightarrow> sorted_keys states \<and>
     (\<forall>i. (map_of states i = None \<longleftrightarrow> of_stream i all = []) \<and>
          (\<forall>state. map_of states i = Some state \<longrightarrow> merge_ok (of_stream i all) state))"

lemma states_okD:
  assumes "states_ok all states"
  shows "sorted_keys states" "map_of states i = None \<longleftrightarrow> of_stream i all = []"
    "map_of states i = Some state \<Longrightarrow> merge_ok (of_stream i all) state"
  using assms unfolding states_ok_def by blast+

lemma states_ok_step:
  assumes "states_ok all states"
  shows "states_ok (all @ [s]) (merge_stream c s states)"
proof (cases "mergeable s")
  case True
  define state where "state = (case map_of states (sc_stream_id s) of None \<Rightarrow> new_StreamMergeState | Some x \<Rightarrow> x)"
  have "merge_ok (of_stream (sc_stream_id s) all) state"
    using states_okD(2,3) [OF assms, of "sc_stream_id s"] merge_ok_new
    by (cases "map_of states (sc_stream_id s)") (auto simp: state_def)
  from merge_ok_step [OF this] have "merge_ok (of_stream (sc_stream_id s) (all @ [s])) (merge_into_state c s state)"
    using True by (simp add: of_stream_def)
  moreover have "of_stream i (all @ [s]) = of_stream i all" if "i \<noteq> sc_stream_id s" for i
    using that by (simp add: of_stream_def)
  moreover have "of_stream (sc_stream_id s) (all @ [s]) \<noteq> []" using True by (simp add: of_stream_def)
  moreover have "merge_stream c s states = omap_put (sc_stream_id s) (merge_into_state c s state) states"
    using True by (simp add: merge_stream_def mergeable_def state_def Let_def)
  ultimately show ?thesis
    using states_okD [OF assms]
    by (simp add: states_ok_def map_of_omap_put sorted_keys_omap_put)
next
  case False
  then have "merge_stream c s states = states" by (auto simp: merge_stream_def mergeable_def)
  moreover from False have "of_stream i (all @ [s]) = of_stream i all" for i by (simp add: of_stream_def)
  ultimately show ?thesis using assms by (simp add: states_ok_def)
qed

lemma states_ok_agent:
  assumes "states_ok all states"
  shows "states_ok (all @ ag_streams a) (merge_agent a states)"
proof -
  have "states_ok (all @ ss) (fold (merge_stream c) ss states)" if "states_ok all states" for all ss states c
    using that
  proof (induction ss arbitrary: all states)
    case (Cons s ss)
    from Cons.IH [OF states_ok_step [OF Cons.prems]] show ?case by simp
  qed simp
  with assms show ?thesis by (simp add: merge_agent_def)
qed

lemma states_ok_all:
  "states_ok all states \<Longrightarrow>
     states_ok (all @ concat (map (\<lambda>(_, a). ag_streams a) configs))
       (fold (\<lambda>(config_id, agent_config). merge_agent agent_config) configs states)"
proof (induction configs arbitrary: all states)
  case (Cons c configs)
  obtain k a where c: "c = (k, a)" by (cases c)
  from Cons.IH [OF states_ok_agent [OF Cons.prems, of a]] show ?case by (simp add: c)
qed simp

lemma map_of_map_value: "map_of (map (\<lambda>(k, v). (k, f v)) m) i = map_option f (map_of m i)"
  by (induction m) auto

lemma buildMergedStreams_refines:
  shows "sorted_keys (buildMergedStreams configs)"
    and "map_of (buildMergedStreams configs) i = merged_spec (configs_of i configs)"
proof -
  define states where
    "states = fold (\<lambda>(config_id, agent_config). merge_agent agent_config) configs []"
  have "states_ok [] []" by (simp add: states_ok_def of_stream_def)
  from states_ok_all [OF this, of configs]
  have ok: "states_ok (concat (map (\<lambda>(_, a). ag_streams a) configs)) states" by (simp add: states_def)
  have build: "buildMergedStreams configs = map (\<lambda>(i, state). (i, finalizeMergedStreamConfig state)) states"
    by (simp add: buildMergedStreams_def states_def)
  show "sorted_keys (buildMergedStreams configs)"
    using states_okD(1) [OF ok] by (simp add: build sorted_keys_def case_prod_unfold comp_def)
  have occ: "configs_of i configs = of_stream i (concat (map (\<lambda>(_, a). ag_streams a) configs))"
    by (simp add: configs_of_def of_stream_def)
  show "map_of (buildMergedStreams configs) i = merged_spec (configs_of i configs)"
  proof (cases "map_of states i")
    case None
    then show ?thesis using states_okD(2) [OF ok, of i]
      by (simp add: build map_of_map_value occ merged_spec_def)
  next
    case (Some state)
    then have "configs_of i configs \<noteq> []" using states_okD(2) [OF ok, of i] occ by auto
    with finalize_merge_ok [OF states_okD(3) [OF ok Some]] Some show ?thesis
      by (simp add: build map_of_map_value occ)
  qed
qed

lemma first_places_distinct:
  "distinct (filter (\<lambda>i. i \<noteq> []) (map al_algorithm_id (first_places seen as)))"
proof (induction seen as rule: first_places.induct)
  case (2 seen a as)
  then show ?case using first_places_ids [of "al_algorithm_id a" "insert (al_algorithm_id a) seen" as] by auto
qed simp

lemma first_places_subset: "set (first_places seen as) \<subseteq> set as"
  by (induction seen as rule: first_places.induct) auto

lemma latest_with_in: "a \<in> set as \<Longrightarrow> latest_with as a \<in> set as"
proof -
  assume a: "a \<in> set as"
  have "last (a # filter (\<lambda>b. al_algorithm_id b = al_algorithm_id a) as)
      \<in> set (a # filter (\<lambda>b. al_algorithm_id b = al_algorithm_id a) as)"
    by (rule last_in_set) simp
  with a show ?thesis by (auto simp: latest_with_def)
qed

lemma latest_algorithms_distinct:
  "distinct (filter (\<lambda>i. i \<noteq> []) (map al_algorithm_id (latest_algorithms as)))"
  using first_places_distinct [of "{}" as] by (simp add: latest_algorithms_def comp_def)

lemma latest_algorithms_subset: "set (latest_algorithms as) \<subseteq> set as"
  using first_places_subset [of "{}" as] latest_with_in by (auto simp: latest_algorithms_def)

lemma makeTransport_simps [simp]:
  "sc_enabled (makeTransportStreamConfig s) = sc_enabled s"
  "sc_stream_id (makeTransportStreamConfig s) = sc_stream_id s"
  "sc_rtsp_url (makeTransportStreamConfig s) = sc_rtsp_url s"
  "isSameTransportStreamConfig (makeTransportStreamConfig s) s"
  by (simp_all add: makeTransportStreamConfig_def isSameTransportStreamConfig_def
      makeTransportStreamConfigView_def)

section \<open>Properties\<close>

definition ex_algorithm :: "string \<Rightarrow> int \<Rightarrow> AlgorithmConfig" where
  "ex_algorithm i level = default_AlgorithmConfig\<lparr>al_algorithm_id := i, al_alarm_level := level\<rparr>"

definition ex_stream :: "string \<Rightarrow> string \<Rightarrow> AlgorithmConfig list \<Rightarrow> StreamConfig" where
  "ex_stream i url as = default_StreamConfig\<lparr>sc_enabled := True, sc_stream_id := i, sc_rtsp_url := url,
     sc_algorithms := as\<rparr>"

definition ex_configs :: "(int \<times> AgentConfig) list" where
  "ex_configs =
     [(1, \<lparr>ag_agent_id = ''a'', ag_config_id = 1,
           ag_streams = [ex_stream ''cam'' ''rtsp:1'' [ex_algorithm ''fire'' 1, ex_algorithm ''smoke'' 1]]\<rparr>),
      (2, \<lparr>ag_agent_id = ''a'', ag_config_id = 2,
           ag_streams = [ex_stream ''cam'' ''rtsp:2'' [ex_algorithm ''fire'' 2]]\<rparr>)]"

lemmas ex_config_defs = ex_configs_def ex_stream_def ex_algorithm_def default_StreamConfig_def
  default_AlgorithmConfig_def

text \<open>
  C6. \<open>buildMergedStreams\<close> computes, sorted by stream id, exactly one entry per stream id that some
  enabled stream configuration with a non-empty id and url names; its transport part is that of the last such
  configuration in the order of the map, its tracker the last one given, and its algorithms are
  those of all the configurations, where among algorithms with the same id the last one
  takes the place of the first.
\<close>

theorem merge_latest_wins:
  "sorted_keys (buildMergedStreams configs) \<and>
   (\<forall>i. map_of (buildMergedStreams configs) i = merged_spec (configs_of i configs))"
  using buildMergedStreams_refines by blast

text \<open>
  A merged stream is always usable: it is enabled, stored under its own non-empty id and has a
  url; every algorithm in it was configured for that stream, every algorithm id
  configured for the stream is present, and no non-empty algorithm id occurs twice.
\<close>

theorem merged_streams_usable:
  assumes "map_of (buildMergedStreams configs) i = Some s"
  shows "sc_enabled s \<and> sc_stream_id s = i \<and> i \<noteq> [] \<and> sc_rtsp_url s \<noteq> [] \<and>
    distinct (filter (\<lambda>a. a \<noteq> []) (map al_algorithm_id (sc_algorithms s))) \<and>
    (\<forall>a \<in> set (sc_algorithms s). \<exists>c \<in> set (configs_of i configs). a \<in> set (sc_algorithms c)) \<and>
    (\<forall>c \<in> set (configs_of i configs). \<forall>a \<in> set (sc_algorithms c). al_algorithm_id a \<noteq> [] \<longrightarrow>
       al_algorithm_id a \<in> alg_ids (sc_algorithms s))"
proof -
  let ?cs = "configs_of i configs" and ?as = "concat (map sc_algorithms (configs_of i configs))"
  from assms have "merged_spec ?cs = Some s" by (simp add: buildMergedStreams_refines(2))
  then have cs: "?cs \<noteq> []" and s: "s = (makeTransportStreamConfig (last ?cs))
      \<lparr>sc_algorithms := latest_algorithms ?as, sc_tracker := latest_some (map sc_tracker ?cs)\<rparr>"
    by (auto simp: merged_spec_def split: if_splits)
  have "last ?cs \<in> set ?cs" using cs by simp
  then have "mergeable (last ?cs)" "sc_stream_id (last ?cs) = i" by (auto simp: configs_of_def)
  then have "sc_enabled s \<and> sc_stream_id s = i \<and> i \<noteq> [] \<and> sc_rtsp_url s \<noteq> []"
    by (auto simp: s mergeable_def)
  moreover have "a \<in> set ?as" if "a \<in> set (sc_algorithms s)" for a
    using that latest_algorithms_subset [of ?as] by (auto simp: s)
  moreover have "al_algorithm_id a \<in> alg_ids (sc_algorithms s)"
    if "a \<in> set ?as" "al_algorithm_id a \<noteq> []" for a
    using that latest_algorithms_ids [of "al_algorithm_id a" ?as] by (simp add: s)
  ultimately show ?thesis
    using latest_algorithms_distinct [of ?as] by (auto simp: s)
qed

theorem merged_streams_usable_witness:
  "\<exists>s. map_of (buildMergedStreams ex_configs) ''cam'' = Some s \<and> sc_rtsp_url s = ''rtsp:2'' \<and>
     sc_algorithms s = [ex_algorithm ''fire'' 2, ex_algorithm ''smoke'' 1] \<and>
     distinct (filter (\<lambda>a. a \<noteq> []) (map al_algorithm_id (sc_algorithms s)))"
proof -
  obtain s where s: "map_of (buildMergedStreams ex_configs) ''cam'' = Some s"
    "sc_rtsp_url s = ''rtsp:2''" "sc_algorithms s = [ex_algorithm ''fire'' 2, ex_algorithm ''smoke'' 1]"
    by (simp add: buildMergedStreams_refines(2) ex_config_defs configs_of_def mergeable_def
        merged_spec_def latest_algorithms_def latest_with_def makeTransportStreamConfig_def)
  with merged_streams_usable [OF s(1)] show ?thesis by blast
qed

text \<open>
  The comparison that decides whether a running stream must be touched looks at everything:
  when the message comparison is equality of messages (no NaN fields), two configurations are the
  same at run time exactly when they are equal, and a change of the algorithms is always one of the changes it sees.
\<close>

theorem same_runtime_complete:
  assumes "\<And>a b. same_algorithm d a b \<longleftrightarrow> a = b" "\<And>a b. same_tracker d a b \<longleftrightarrow> a = b"
  shows "(isSameRuntimeStreamConfig d lhs rhs \<longleftrightarrow> lhs = rhs) \<and>
    (hasDetectorConfigChanged d lhs rhs \<longrightarrow> \<not> isSameRuntimeStreamConfig d lhs rhs)"
proof -
  have alg: "same_algorithm d = (=)" using assms(1) by (simp add: fun_eq_iff)
  show ?thesis
    by (cases lhs; cases rhs)
      (auto simp: isSameRuntimeStreamConfig_def isSameTransportStreamConfig_def runtime_view_eq_def
        makeTransportStreamConfigView_def makeDetectorRuntimeConfigView_def hasDetectorConfigChanged_def
        detector_view_eq_def makeDetectorConfigView_def alg assms(2) list.rel_eq split: option.splits)
qed

theorem same_runtime_complete_witness:
  "\<not> isSameRuntimeStreamConfig \<lparr>same_algorithm = (=), same_tracker = (=)\<rparr>
       (ex_stream ''cam'' ''rtsp:1'' []) (ex_stream ''cam'' ''rtsp:1'' [ex_algorithm ''fire'' 1])"
proof -
  have "ex_stream ''cam'' ''rtsp:1'' [] \<noteq> ex_stream ''cam'' ''rtsp:1'' [ex_algorithm ''fire'' 1]"
    by (simp add: ex_config_defs)
  then show ?thesis
    using same_runtime_complete [of "\<lparr>same_algorithm = (=), same_tracker = (=)\<rparr>"
        "ex_stream ''cam'' ''rtsp:1'' []" "ex_stream ''cam'' ''rtsp:1'' [ex_algorithm ''fire'' 1]"] by simp
qed

end
