(* ===== verification/ThreadSafeQueue.thy ===== *)
theory ThreadSafeQueue
  imports Prelude
begin

text \<open>
  \<open>src/common/ThreadSafeQueue.h\<close>: the bounded queue between threads, which drops its
  oldest element when it is full. Every method holds \<open>mutex_\<close>, so each is one atomic
  operation on the record \<open>tsq\<close>. \<open>std::queue::pop\<close> on an empty queue is undefined
  behaviour; \<open>push\<close> reaches it when the capacity is 0, and the model returns it as
  the error \<open>PopOnEmptyQueue\<close>. A call of \<open>pop\<close> is modelled at the moment its wait ends:
  the state is the one in which the predicate is tested last, and \<open>Blocked\<close> says that a
  wait without a time limit goes on.
\<close>

section \<open>State and operations\<close>

datatype tsq_error = PopOnEmptyQueue

datatype 'a pop_outcome = Blocked | Returned "'a option"

record 'a tsq =
  tsq_queue :: "'a list"
  tsq_max_size :: nat
  tsq_stopped :: bool
  tsq_drop_count :: u64

definition tsq_new :: "nat \<Rightarrow> 'a tsq" where
  "tsq_new max_size =
     \<lparr>tsq_queue = [], tsq_max_size = max_size, tsq_stopped = False, tsq_drop_count = 0\<rparr>"

definition tsq_drop_oldest :: "'a tsq \<Rightarrow> tsq_error + 'a tsq" where
  "tsq_drop_oldest q =
     (if length (tsq_queue q) \<ge> tsq_max_size q
      then (case tsq_queue q of
              [] \<Rightarrow> Inl PopOnEmptyQueue
            | _ # xs \<Rightarrow> Inr (q\<lparr>tsq_queue := xs, tsq_drop_count := tsq_drop_count q + 1\<rparr>))
      else Inr q)"

definition tsq_push :: "'a \<Rightarrow> 'a tsq \<Rightarrow> tsq_error + (bool \<times> 'a tsq)" where
  "tsq_push item q =
     (if tsq_stopped q then Inr (False, q)
      else case tsq_drop_oldest q of
             Inl e \<Rightarrow> Inl e
           | Inr q' \<Rightarrow> Inr (True, q'\<lparr>tsq_queue := tsq_queue q' @ [item]\<rparr>))"

definition tsq_pop :: "nat \<Rightarrow> 'a tsq \<Rightarrow> 'a pop_outcome \<times> 'a tsq" where
  "tsq_pop timeout_ms q =
     (if tsq_queue q = [] \<and> \<not> tsq_stopped q
      then (if timeout_ms = 0 then (Blocked, q) else (Returned None, q))
      else case tsq_queue q of
             [] \<Rightarrow> (Returned None, q)
           | x # xs \<Rightarrow> (Returned (Some x), q\<lparr>tsq_queue := xs\<rparr>))"

definition tsq_stop :: "'a tsq \<Rightarrow> 'a tsq" where
  "tsq_stop q = q\<lparr>tsq_stopped := True\<rparr>"

definition tsq_reset :: "'a tsq \<Rightarrow> 'a tsq" where
  "tsq_reset q = q\<lparr>tsq_queue := [], tsq_stopped := False, tsq_drop_count := 0\<rparr>"

definition tsq_clear :: "'a tsq \<Rightarrow> 'a tsq" where
  "tsq_clear q = q\<lparr>tsq_queue := []\<rparr>"

definition tsq_size :: "'a tsq \<Rightarrow> nat" where
  "tsq_size q = length (tsq_queue q)"

definition tsq_empty :: "'a tsq \<Rightarrow> bool" where
  "tsq_empty q \<longleftrightarrow> tsq_queue q = []"

definition tsq_dropCount :: "'a tsq \<Rightarrow> u64" where
  "tsq_dropCount q = tsq_drop_count q"

lemmas tsq_defs = tsq_drop_oldest_def tsq_push_def tsq_pop_def tsq_stop_def tsq_reset_def
  tsq_clear_def

section \<open>Runs: any interleaving of calls\<close>

datatype 'a tsq_op = Push 'a | Pop nat | Stop | Reset | Clear

text \<open>
  A run records, next to the queue, the elements \<open>push\<close> accepted and the elements \<open>pop\<close>
  returned, both in order of time.
\<close>

fun tsq_step ::
  "'a tsq_op \<Rightarrow> 'a tsq \<times> 'a list \<times> 'a list \<Rightarrow> tsq_error + ('a tsq \<times> 'a list \<times> 'a list)"
where
  "tsq_step (Push x) (q, ins, outs) =
     (case tsq_push x q of
        Inl e \<Rightarrow> Inl e
      | Inr (ok, q') \<Rightarrow> Inr (q', if ok then ins @ [x] else ins, outs))"
| "tsq_step (Pop t) (q, ins, outs) =
     (case tsq_pop t q of
        (Returned (Some x), q') \<Rightarrow> Inr (q', ins, outs @ [x])
      | (_, q') \<Rightarrow> Inr (q', ins, outs))"
| "tsq_step Stop (q, ins, outs) = Inr (tsq_stop q, ins, outs)"
| "tsq_step Reset (q, ins, outs) = Inr (tsq_reset q, ins, outs)"
| "tsq_step Clear (q, ins, outs) = Inr (tsq_clear q, ins, outs)"

fun tsq_run ::
  "'a tsq_op list \<Rightarrow> 'a tsq \<times> 'a list \<times> 'a list \<Rightarrow> tsq_error + ('a tsq \<times> 'a list \<times> 'a list)"
where
  "tsq_run [] s = Inr s"
| "tsq_run (x # ops) s = (case tsq_step x s of Inl e \<Rightarrow> Inl e | Inr s' \<Rightarrow> tsq_run ops s')"

definition tsq_wf :: "'a tsq \<Rightarrow> bool" where
  "tsq_wf q \<longleftrightarrow> 0 < tsq_max_size q \<and> length (tsq_queue q) \<le> tsq_max_size q"

lemma tsq_new_wf [wf_intros]: "0 < n \<Longrightarrow> tsq_wf (tsq_new n)"
  by (simp add: tsq_wf_def tsq_new_def)

lemma tsq_push_ok:
  assumes "tsq_wf q"
  shows "\<exists>ok q'. tsq_push x q = Inr (ok, q') \<and> tsq_wf q' \<and> ok = (\<not> tsq_stopped q) \<and>
           tsq_max_size q' = tsq_max_size q \<and>
           (if ok then suffix (tsq_queue q') (tsq_queue q @ [x]) else q' = q)"
proof (cases "tsq_queue q")
  case Nil
  with assms show ?thesis by (auto simp: tsq_defs tsq_wf_def)
next
  case (Cons y ys)
  then have "suffix (ys @ [x]) (tsq_queue q @ [x])"
    by (auto simp: suffix_def)
  with Cons assms show ?thesis by (auto simp: tsq_defs tsq_wf_def)
qed

lemma tsq_pop_wf [wf_intros]: "tsq_wf q \<Longrightarrow> tsq_wf (snd (tsq_pop t q))"
  by (auto simp: tsq_defs tsq_wf_def split: list.splits)

lemma tsq_stop_wf [wf_intros]: "tsq_wf q \<Longrightarrow> tsq_wf (tsq_stop q)"
  and tsq_reset_wf [wf_intros]: "tsq_wf q \<Longrightarrow> tsq_wf (tsq_reset q)"
  and tsq_clear_wf [wf_intros]: "tsq_wf q \<Longrightarrow> tsq_wf (tsq_clear q)"
  by (simp_all add: tsq_defs tsq_wf_def)

lemma tsq_pop_returned:
  "tsq_pop t q = (Returned (Some x), q') \<Longrightarrow>
     tsq_queue q = x # tsq_queue q' \<and> tsq_max_size q' = tsq_max_size q"
  by (auto simp: tsq_defs split: list.splits if_splits)

lemma tsq_pop_nothing:
  "tsq_pop t q = (r, q') \<Longrightarrow> (\<And>x. r \<noteq> Returned (Some x)) \<Longrightarrow> q' = q"
  by (auto simp: tsq_defs split: list.splits if_splits)

subsection \<open>The order of what goes through\<close>

text \<open>
  What the users of the queue rely on: a put that succeeds keeps a suffix of the contents with the new element at the end,
  and a get takes the first element. Then what was taken so far, followed by what is
  still inside, stays a subsequence of what was put.
\<close>

locale lossy_fifo =
  fixes put :: "'a \<Rightarrow> 'q \<Rightarrow> 'err + bool \<times> 'q"
    and get :: "nat \<Rightarrow> 'q \<Rightarrow> 'a pop_outcome \<times> 'q"
    and contents :: "'q \<Rightarrow> 'a list"
    and wf :: "'q \<Rightarrow> bool"
  assumes put_contents: "wf q \<Longrightarrow> put x q = Inr (ok, q') \<Longrightarrow>
      if ok then suffix (contents q') (contents q @ [x]) else contents q' = contents q"
    and get_contents: "wf q \<Longrightarrow> get t q = (Returned (Some x), q') \<Longrightarrow> contents q = x # contents q'"
begin

lemma put_order:
  assumes "wf q" "put x q = Inr (ok, q')" "subseq (taken @ contents q) ins"
  shows "subseq (taken @ contents q') (if ok then ins @ [x] else ins)"
proof (cases ok)
  case True
  then have "suffix (contents q') (contents q @ [x])" using put_contents [OF assms(1,2)] by (simp only: if_True)
  then have "subseq (taken @ contents q') (taken @ contents q @ [x])"
    by (simp only: subseq_append' suffix_imp_subseq)
  moreover have "subseq (taken @ contents q @ [x]) (ins @ [x])"
    using assms(3) by (metis append.assoc subseq_append)
  ultimately show ?thesis using True by (auto intro: subseq_order.order_trans)
qed (use put_contents [OF assms(1,2)] assms(3) in simp)

lemma get_order:
  assumes "wf q" "get t q = (Returned (Some x), q')" "subseq (taken @ contents q) ins"
  shows "subseq ((taken @ [x]) @ contents q') ins"
  using get_contents [OF assms(1,2)] assms(3) by simp

end

interpretation tsq_fifo: lossy_fifo tsq_push tsq_pop tsq_queue tsq_wf
proof
  fix q q' :: "'a tsq" and x ok
  assume "tsq_wf q" "tsq_push x q = Inr (ok, q')"
  then show "if ok then suffix (tsq_queue q') (tsq_queue q @ [x]) else tsq_queue q' = tsq_queue q"
    using tsq_push_ok [of q x] by (auto split: if_splits)
qed (simp add: tsq_pop_returned)

text \<open>
  The invariant of a run: the queue is within its capacity, and what was delivered
  followed by what is still queued is a subsequence of what was accepted.
\<close>

definition tsq_run_inv :: "nat \<Rightarrow> 'a tsq \<times> 'a list \<times> 'a list \<Rightarrow> bool" where
  "tsq_run_inv n = (\<lambda>(q, ins, outs). tsq_wf q \<and> tsq_max_size q = n \<and> subseq (outs @ tsq_queue q) ins)"

lemma tsq_push_step_inv:
  assumes "tsq_run_inv n (q, ins, outs)"
  shows "\<exists>s'. tsq_step (Push x) (q, ins, outs) = Inr s' \<and> tsq_run_inv n s'"
proof -
  from assms have q: "tsq_wf q" "tsq_max_size q = n" "subseq (outs @ tsq_queue q) ins"
    by (simp_all add: tsq_run_inv_def)
  obtain ok q' where push: "tsq_push x q = Inr (ok, q')" and "tsq_wf q'" "tsq_max_size q' = n"
    using tsq_push_ok [OF q(1), of x] q(2) by auto
  with tsq_fifo.put_order [OF q(1) push q(3)] show ?thesis by (simp add: tsq_run_inv_def)
qed

lemma tsq_pop_step_inv:
  assumes "tsq_run_inv n (q, ins, outs)"
  shows "\<exists>s'. tsq_step (Pop t) (q, ins, outs) = Inr s' \<and> tsq_run_inv n s'"
proof -
  obtain r q' where pop: "tsq_pop t q = (r, q')" by (cases "tsq_pop t q")
  from assms have q: "tsq_wf q" "tsq_max_size q = n" "subseq (outs @ tsq_queue q) ins"
    by (simp_all add: tsq_run_inv_def)
  have wf': "tsq_wf q'" using tsq_pop_wf [OF q(1), of t] pop by simp
  show ?thesis
  proof (cases "\<exists>x. r = Returned (Some x)")
    case True
    then obtain x where r: "r = Returned (Some x)" ..
    with tsq_fifo.get_order [OF q(1) _ q(3), of t x q'] tsq_pop_returned [of t q x q'] pop q(2) wf' show ?thesis
      by (simp add: tsq_run_inv_def)
  next
    case False
    then have "q' = q" using pop by (auto intro: tsq_pop_nothing)
    with False pop assms show ?thesis
      by (cases r) (auto simp: tsq_run_inv_def split: option.splits)
  qed
qed

lemma subseq_appendD1: "subseq (xs @ ys) zs \<Longrightarrow> subseq xs zs"
  by (blast dest: list_emb_appendD intro: list_emb_append2 list_emb_prefix)

lemma tsq_step_inv:
  assumes "tsq_run_inv n s"
  shows "\<exists>s'. tsq_step x s = Inr s' \<and> tsq_run_inv n s'"
proof -
  obtain q ins outs where s: "s = (q, ins, outs)" by (cases s) auto
  show ?thesis
  proof (cases x)
    case (Push y)
    from tsq_push_step_inv [OF assms [unfolded s], of y] show ?thesis
      unfolding s Push .
  next
    case (Pop t)
    from tsq_pop_step_inv [OF assms [unfolded s], of t] show ?thesis
      unfolding s Pop .
  next
    case Stop
    then show ?thesis using assms s
      by (simp add: tsq_run_inv_def tsq_stop_wf) (simp add: tsq_stop_def)
  next
    case Reset
    then show ?thesis using assms s subseq_appendD1 [of outs "tsq_queue q" ins]
      by (simp add: tsq_run_inv_def tsq_reset_wf) (simp add: tsq_reset_def)
  next
    case Clear
    then show ?thesis using assms s subseq_appendD1 [of outs "tsq_queue q" ins]
      by (simp add: tsq_run_inv_def tsq_clear_wf) (simp add: tsq_clear_def)
  qed
qed

interpretation tsq_runs: checked_run tsq_step tsq_run "tsq_run_inv n" for n
  by unfold_locales (simp, simp, rule tsq_step_inv)

text \<open>A burst of pushes keeps the newest elements.\<close>

lemma tsq_run_pushes:
  assumes "tsq_wf q" "\<not> tsq_stopped q"
  shows "\<exists>q'. tsq_run (map Push xs) (q, ins, outs) = Inr (q', ins @ xs, outs) \<and>
     tsq_queue q' = drop (length (tsq_queue q @ xs) - tsq_max_size q) (tsq_queue q @ xs) \<and>
     tsq_drop_count q' = tsq_drop_count q + of_nat (length (tsq_queue q @ xs) - tsq_max_size q) \<and>
     \<not> tsq_stopped q'"
  using assms
proof (induction xs arbitrary: q ins)
  case Nil
  then show ?case by (simp add: tsq_wf_def)
next
  case (Cons x xs)
  show ?case
  proof (cases "length (tsq_queue q) < tsq_max_size q")
    case True
    define q1 where "q1 = q\<lparr>tsq_queue := tsq_queue q @ [x]\<rparr>"
    have push: "tsq_push x q = Inr (True, q1)"
      using True Cons.prems by (simp add: tsq_defs q1_def)
    have "tsq_wf q1" "\<not> tsq_stopped q1"
      using True Cons.prems by (auto simp: q1_def tsq_wf_def)
    from Cons.IH [OF this, of "ins @ [x]"] push show ?thesis
      by (simp add: q1_def)
  next
    case False
    then obtain y ys where ys: "tsq_queue q = y # ys" and full: "length (tsq_queue q) = tsq_max_size q"
      using Cons.prems by (cases "tsq_queue q") (auto simp: tsq_wf_def)
    define q1 where "q1 = q\<lparr>tsq_queue := ys @ [x], tsq_drop_count := tsq_drop_count q + 1\<rparr>"
    have push: "tsq_push x q = Inr (True, q1)"
      using ys full Cons.prems by (simp add: tsq_defs q1_def)
    have "tsq_wf q1" "\<not> tsq_stopped q1"
      using ys full Cons.prems by (auto simp: q1_def tsq_wf_def)
    note q1 = this
    have max: "tsq_max_size q = Suc (length ys)" using full ys by simp
    from Cons.IH [OF q1, of "ins @ [x]"] push ys show ?thesis
      by (auto simp: q1_def max)
  qed
qed

section \<open>Properties\<close>

text \<open>
  C34. Whatever sequence of \<open>push\<close>, \<open>pop\<close>, \<open>stop\<close>, \<open>reset\<close> and \<open>clear\<close> the threads make
  on a fresh queue of positive capacity, no call reaches undefined behaviour, the queue
  never holds more than its capacity, and the elements \<open>pop\<close> delivered, followed by the ones
  still queued, are a subsequence of the accepted ones: no element is duplicated, invented
  or overtaken.
\<close>

theorem tsq_fifo_bounded:
  assumes "0 < n"
  shows "\<exists>q ins outs. tsq_run ops (tsq_new n, [], []) = Inr (q, ins, outs) \<and>
           length (tsq_queue q) \<le> n \<and> subseq (outs @ tsq_queue q) ins"
proof -
  have "tsq_run_inv n (tsq_new n, [], [])"
    using assms by (simp add: tsq_run_inv_def tsq_new_wf) (simp add: tsq_new_def)
  from tsq_runs.run_inv [OF this, of ops] show ?thesis
    by (auto simp: tsq_run_inv_def tsq_wf_def)
qed

theorem tsq_fifo_bounded_witness:
  "0 < (2::nat) \<and>
   (\<exists>q ins outs. tsq_run [Push (1::nat), Push 2, Push 3, Pop 0] (tsq_new 2, [], []) = Inr (q, ins, outs) \<and>
      length (tsq_queue q) \<le> 2 \<and> subseq (outs @ tsq_queue q) ins)"
  using tsq_fifo_bounded [of 2 "[Push (1::nat), Push 2, Push 3, Pop 0]"] by simp

text \<open>
  A burst of pushes into a running queue keeps exactly the newest elements that fit:
  the queue becomes the last \<open>max_size\<close> elements of its old content followed by the burst,
  and the drop counter grows (modulo \<open>2 ^ 64\<close>) by the number of elements that were discarded.
\<close>

theorem tsq_push_burst_keeps_newest:
  assumes "tsq_wf q" "\<not> tsq_stopped q"
  shows "\<exists>q'. tsq_run (map Push xs) (q, [], []) = Inr (q', xs, []) \<and>
     tsq_queue q' = drop (length (tsq_queue q @ xs) - tsq_max_size q) (tsq_queue q @ xs) \<and>
     tsq_dropCount q' = tsq_dropCount q + of_nat (length (tsq_queue q @ xs) - tsq_max_size q)"
  using tsq_run_pushes [OF assms, of xs "[]" "[]"] by (auto simp: tsq_dropCount_def)

theorem tsq_push_burst_keeps_newest_witness:
  "tsq_wf (tsq_new 2 :: nat tsq) \<and> \<not> tsq_stopped (tsq_new 2 :: nat tsq) \<and>
   (\<exists>q'. tsq_run (map Push [1, 2, 3]) (tsq_new 2, [], []) = Inr (q', [1, 2, 3], []) \<and>
      tsq_queue q' = [2, 3::nat] \<and> tsq_dropCount q' = 1)"
proof -
  have h: "tsq_wf (tsq_new 2 :: nat tsq)" "\<not> tsq_stopped (tsq_new 2 :: nat tsq)"
    by (simp_all add: tsq_wf_def tsq_new_def)
  show ?thesis
    using h tsq_push_burst_keeps_newest [OF h, of "[1, 2, 3]"]
    by (simp add: tsq_new_def tsq_dropCount_def)
qed

text \<open>
  A queue created with capacity 0 (which \<open>send_queue_size\<close> of the configuration allows)
  runs into undefined behaviour on its first \<open>push\<close>: \<open>std::queue::pop\<close> is called on an empty
  queue. No other capacity can reach it from a fresh queue.
\<close>

theorem tsq_zero_capacity_undefined:
  "tsq_push x (tsq_new n) = Inl PopOnEmptyQueue \<longleftrightarrow> n = 0"
  by (simp add: tsq_defs tsq_new_def)

end
