(* ===== verification/SocketSender.thy ===== *)
theory SocketSender
  imports ThreadSafeQueue
begin

text \<open>
  \<open>src/ipc/SocketSender.cpp\<close>: the transport over a Unix domain socket. A frame is the magic
  number and the length, both big endian, and the payload; outgoing payloads wait in a bounded
  queue for the sending thread, which reconnects with a growing delay.

  The operating system is the environment. One call of \<open>send\<close> or \<open>recv\<close> is one event of a list the functions
  consume: how many bytes it moved, or how it failed; running out of events means the call has not
  returned. \<open>recv\<close> reads from the bytes the peer has written.
\<close>

section \<open>Constants\<close>

definition kMagic :: u32 where
  "kMagic = 0xDEADBEEF"

definition kMaxFrameSize :: nat where
  "kMaxFrameSize = 4 * 1024 * 1024"

definition kInitRetryDelayMs :: int where
  "kInitRetryDelayMs = 1000"

definition kMaxRetryDelayMs :: int where
  "kMaxRetryDelayMs = 30000"

text \<open>\<open>htonl\<close>: the bytes of the number in network order; \<open>ntohl\<close> reads them back.\<close>

definition htonl_bytes :: "u32 \<Rightarrow> u8 list" where
  "htonl_bytes v = [byte_of 3 v, byte_of 2 v, byte_of 1 v, byte_of 0 v]"

fun ntohl_bytes :: "u8 list \<Rightarrow> u32" where
  "ntohl_bytes (a # b # c # d # _) = word_cat (word_cat a b :: u16) (word_cat c d :: u16)"
| "ntohl_bytes _ = 0"

section \<open>Sending\<close>

text \<open>
  The outcome of one turn of the loop of \<open>writeAll\<close>: \<open>send\<close> accepted so many bytes (at most what it
  was given), it failed, or \<open>fd_\<close> was already closed.
\<close>

datatype send_event = Accepted nat | SendFailed | SendNoSocket

text \<open>
  The result of \<open>writeAll\<close> (\<open>None\<close> while \<open>send\<close> has not returned), the bytes handed to the socket, and the
  events that are left.
\<close>

fun writeAll :: "send_event list \<Rightarrow> u8 list \<Rightarrow> bool option \<times> u8 list \<times> send_event list" where
  "writeAll events [] = (Some True, [], events)"
| "writeAll [] (b # bs) = (None, [], [])"
| "writeAll (SendNoSocket # events) (b # bs) = (Some False, [], events)"
| "writeAll (SendFailed # events) (b # bs) = (Some False, [], events)"
| "writeAll (Accepted n # events) (b # bs) =
     (if n = 0 then (Some False, [], events)
      else case writeAll events (drop n (b # bs)) of
             (result, out, rest) \<Rightarrow> (result, take n (b # bs) @ out, rest))"

definition sendRaw :: "send_event list \<Rightarrow> u8 list \<Rightarrow> bool option \<times> u8 list \<times> send_event list" where
  "sendRaw events data =
     (case writeAll events (htonl_bytes kMagic) of
        (Some True, out1, events1) \<Rightarrow>
          (case writeAll events1 (htonl_bytes (of_nat (length data))) of
             (Some True, out2, events2) \<Rightarrow>
               (case writeAll events2 data of
                  (result, out3, events3) \<Rightarrow> (result, out1 @ out2 @ out3, events3))
           | (result, out2, events2) \<Rightarrow> (result, out1 @ out2, events2))
      | (result, out1, events1) \<Rightarrow> (result, out1, events1))"

section \<open>Receiving\<close>

text \<open>
  One turn of the loop of \<open>readAll\<close>: \<open>recv\<close> returned, giving at most so many bytes (none if the peer has
  closed and nothing is left), it was interrupted, it failed, or \<open>fd_\<close> was already closed.
\<close>

datatype recv_event = Delivered nat | RecvInterrupted | RecvFailed | RecvNoSocket

datatype 'a read_result = ReadBlocked | ReadFailed | ReadOk 'a

text \<open>The second argument holds the bytes of the peer that are not read yet.\<close>

fun readAll :: "recv_event list \<Rightarrow> u8 list \<Rightarrow> nat \<Rightarrow> u8 list read_result \<times> recv_event list \<times> u8 list" where
  "readAll events inp 0 = (ReadOk [], events, inp)"
| "readAll [] inp (Suc n) = (ReadBlocked, [], inp)"
| "readAll (RecvNoSocket # events) inp (Suc n) = (ReadFailed, events, inp)"
| "readAll (RecvFailed # events) inp (Suc n) = (ReadFailed, events, inp)"
| "readAll (RecvInterrupted # events) inp (Suc n) = readAll events inp (Suc n)"
| "readAll (Delivered k # events) inp (Suc n) =
     (let got = take (min k (Suc n)) inp
      in if got = [] then (ReadFailed, events, inp)
         else case readAll events (drop (length got) inp) (Suc n - length got) of
                (ReadOk bs, rest) \<Rightarrow> (ReadOk (got @ bs), rest)
              | (result, rest) \<Rightarrow> (result, rest))"

text \<open>One turn of \<open>recvLoop\<close> on a connected socket; a failure leads to \<open>disconnectSocket\<close>.\<close>

definition recvFrame :: "recv_event list \<Rightarrow> u8 list \<Rightarrow> u8 list read_result \<times> recv_event list \<times> u8 list" where
  "recvFrame events inp =
     (case readAll events inp 4 of
        (ReadOk magic_bytes, events1, inp1) \<Rightarrow>
          (case readAll events1 inp1 4 of
             (ReadOk length_bytes, events2, inp2) \<Rightarrow>
               (let magic = ntohl_bytes magic_bytes; len = unat (ntohl_bytes length_bytes)
                in if magic \<noteq> kMagic then (ReadFailed, events2, inp2)
                   else if len = 0 \<or> len > kMaxFrameSize then (ReadFailed, events2, inp2)
                   else readAll events2 inp2 len)
           | (result, rest) \<Rightarrow> (result, rest))
      | (result, rest) \<Rightarrow> (result, rest))"

text \<open>
  The payloads given to the callback on one connection, up to the given number of turns of the
  loop, and how the last turn ended (\<open>ReadOk\<close> when the number is used up).
\<close>

fun recvLoop :: "nat \<Rightarrow> recv_event list \<Rightarrow> u8 list \<Rightarrow> u8 list list \<times> unit read_result" where
  "recvLoop 0 events inp = ([], ReadOk ())"
| "recvLoop (Suc turns) events inp =
     (case recvFrame events inp of
        (ReadOk payload, events', inp') \<Rightarrow>
          (case recvLoop turns events' inp' of (payloads, result) \<Rightarrow> (payload # payloads, result))
      | (ReadFailed, _) \<Rightarrow> ([], ReadFailed)
      | (ReadBlocked, _) \<Rightarrow> ([], ReadBlocked))"

section \<open>The sending thread\<close>

text \<open>\<open>ss_retry_delay_ms\<close> is the local variable of \<open>sendLoop\<close>.\<close>

record SocketSender =
  ss_queue :: "u8 list tsq"
  ss_connected :: bool
  ss_ever_connected :: bool
  ss_running :: bool
  ss_stop_flag :: bool
  ss_sent_count :: u64
  ss_failed_count :: u64
  ss_reconnect_count :: u64
  ss_retry_delay_ms :: int

definition new_SocketSender :: "nat \<Rightarrow> SocketSender" where
  "new_SocketSender send_queue_size =
     \<lparr>ss_queue = tsq_new send_queue_size, ss_connected = False, ss_ever_connected = False,
      ss_running = False, ss_stop_flag = False, ss_sent_count = 0, ss_failed_count = 0,
      ss_reconnect_count = 0, ss_retry_delay_ms = kInitRetryDelayMs\<rparr>"

definition ss_start :: "SocketSender \<Rightarrow> bool \<times> SocketSender" where
  "ss_start s =
     (if ss_running s then (True, s)
      else (True, s\<lparr>ss_stop_flag := False, ss_running := True, ss_retry_delay_ms := kInitRetryDelayMs\<rparr>))"

definition ss_stop :: "SocketSender \<Rightarrow> SocketSender" where
  "ss_stop s =
     s\<lparr>ss_stop_flag := True, ss_queue := tsq_stop (ss_queue s), ss_connected := False,
       ss_running := False\<rparr>"

definition sendFrame :: "u8 list \<Rightarrow> SocketSender \<Rightarrow> tsq_error + (bool \<times> SocketSender)" where
  "sendFrame data s =
     (case tsq_push data (ss_queue s) of
        Inl e \<Rightarrow> Inl e
      | Inr (ok, q) \<Rightarrow> Inr (ok, s\<lparr>ss_queue := q\<rparr>))"

text \<open>The parameter says whether \<open>socket\<close> and \<open>connect\<close> succeed.\<close>

definition connectSocket :: "bool \<Rightarrow> SocketSender \<Rightarrow> bool \<times> SocketSender" where
  "connectSocket ok s =
     (if \<not> ok then (False, s)
      else (True, s\<lparr>ss_connected := True,
                    ss_reconnect_count := (if ss_ever_connected s then ss_reconnect_count s + 1
                                           else ss_reconnect_count s),
                    ss_ever_connected := True\<rparr>))"

definition disconnectSocket :: "SocketSender \<Rightarrow> SocketSender" where
  "disconnectSocket s = s\<lparr>ss_connected := False\<rparr>"

text \<open>What one turn of \<open>sendLoop\<close> did.\<close>

datatype send_turn =
  LoopEnded | WaitedForRetry int | NothingQueued | FrameSent "u8 list" | FrameLost "u8 list" "u8 list"
| StillSending "u8 list"

text \<open>The part of a turn after a connection is there: take a payload and write it.\<close>

definition send_queued :: "send_event list \<Rightarrow> SocketSender \<Rightarrow> send_turn \<times> SocketSender" where
  "send_queued events s =
     (case tsq_pop 500 (ss_queue s) of
        (Returned (Some item), q) \<Rightarrow>
          (case sendRaw events item of
             (Some True, out, _) \<Rightarrow>
               (FrameSent item, s\<lparr>ss_queue := q, ss_sent_count := ss_sent_count s + 1\<rparr>)
           | (Some False, out, _) \<Rightarrow>
               (FrameLost item out,
                disconnectSocket (s\<lparr>ss_queue := q, ss_failed_count := ss_failed_count s + 1\<rparr>))
           | (None, out, _) \<Rightarrow> (StillSending item, s\<lparr>ss_queue := q\<rparr>))
      | (_, q) \<Rightarrow> (NothingQueued, s\<lparr>ss_queue := q\<rparr>))"

text \<open>
  One turn: the environment decides whether a connection can be made and what the calls of
  \<open>send\<close> return.
\<close>

definition sendLoop_turn :: "bool \<Rightarrow> send_event list \<Rightarrow> SocketSender \<Rightarrow> send_turn \<times> SocketSender" where
  "sendLoop_turn can_connect events s =
     (if ss_stop_flag s then (LoopEnded, s)
      else if \<not> ss_connected s
      then (case connectSocket can_connect s of
              (False, s1) \<Rightarrow>
                (WaitedForRetry (ss_retry_delay_ms s1),
                 s1\<lparr>ss_retry_delay_ms := min (ss_retry_delay_ms s1 * 2) kMaxRetryDelayMs\<rparr>)
            | (True, s1) \<Rightarrow> send_queued events (s1\<lparr>ss_retry_delay_ms := kInitRetryDelayMs\<rparr>))
      else send_queued events s)"

section \<open>Frames\<close>

definition frame_bytes :: "u8 list \<Rightarrow> u8 list" where
  "frame_bytes data = htonl_bytes kMagic @ htonl_bytes (of_nat (length data)) @ data"

lemma htonl_length [simp]: "length (htonl_bytes v) = 4"
  by (simp add: htonl_bytes_def)

lemma ntohl_htonl [simp]: "ntohl_bytes (htonl_bytes v) = v"
  by (simp add: htonl_bytes_def)

lemma writeAll_spec:
  "writeAll events data = (result, out, rest) \<Longrightarrow>
     prefix out data \<and> (result = Some True \<longleftrightarrow> out = data)"
proof (induction events data arbitrary: out rule: writeAll.induct)
  case (5 n events b bs)
  show ?case
  proof (cases "n = 0")
    case True
    with "5.prems" show ?thesis by auto
  next
    case False
    with "5.prems" obtain o' where w: "writeAll events (drop n (b # bs)) = (result, o', rest)"
      and out: "out = take n (b # bs) @ o'" by (auto split: prod.splits)
    from "5.IH" [OF False w] have ih: "prefix o' (drop n (b # bs))" "result = Some True \<longleftrightarrow> o' = drop n (b # bs)"
      by blast+
    have "b # bs = take n (b # bs) @ drop n (b # bs)" by simp
    with ih show ?thesis unfolding out by (metis same_append_eq same_prefix_prefix)
  qed
qed auto

lemma sendRaw_spec:
  assumes "sendRaw events data = (result, out, rest)"
  shows "prefix out (frame_bytes data) \<and> (result = Some True \<longleftrightarrow> out = frame_bytes data)"
proof -
  obtain r1 o1 e1 where w1: "writeAll events (htonl_bytes kMagic) = (r1, o1, e1)" by (metis prod_cases3)
  obtain r2 o2 e2 where w2: "writeAll e1 (htonl_bytes (of_nat (length data))) = (r2, o2, e2)" by (metis prod_cases3)
  obtain r3 o3 e3 where w3: "writeAll e2 data = (r3, o3, e3)" by (metis prod_cases3)
  note s1 = writeAll_spec [OF w1] and s2 = writeAll_spec [OF w2] and s3 = writeAll_spec [OF w3]
  show ?thesis
  proof (cases "r1 = Some True")
    case False
    with s1 have "strict_prefix o1 (htonl_bytes kMagic)" by (simp add: strict_prefix_def)
    from prefix_length_less [OF this] have "o1 \<noteq> frame_bytes data" by (auto simp: frame_bytes_def)
    moreover have "(result, out) = (r1, o1)"
      using assms False by (auto simp: sendRaw_def w1 split: option.splits bool.splits)
    ultimately show ?thesis using s1 False by (auto simp: frame_bytes_def)
  next
    case True
    note r1 = this
    show ?thesis
    proof (cases "r2 = Some True")
      case False
      with s2 have "strict_prefix o2 (htonl_bytes (of_nat (length data)))" by (simp add: strict_prefix_def)
      from prefix_length_less [OF this] have "length o2 < 4" by simp
      then have "htonl_bytes kMagic @ o2 \<noteq> frame_bytes data" by (auto simp: frame_bytes_def)
      moreover have "(result, out) = (r2, htonl_bytes kMagic @ o2)"
        using assms False r1 s1 by (auto simp: sendRaw_def w1 w2 split: option.splits bool.splits)
      ultimately show ?thesis using s2 False by (auto simp: frame_bytes_def)
    next
      case True
      with assms r1 s1 s2 s3 show ?thesis by (auto simp: sendRaw_def w1 w2 w3 frame_bytes_def)
    qed
  qed
qed

section \<open>Reading frames back\<close>

lemma readAll_take:
  "readAll events inp n = (ReadOk bs, rest, inp') \<Longrightarrow> bs = take n inp \<and> inp' = drop n inp \<and> length bs = n"
proof (induction events inp n arbitrary: bs rule: readAll.induct)
  case (6 k events inp n)
  let ?got = "take (min k (Suc n)) inp"
  from "6.prems" obtain more where got: "?got \<noteq> []"
    and r: "readAll events (drop (length ?got) inp) (Suc n - length ?got) = (ReadOk more, rest, inp')"
    and bs: "bs = ?got @ more"
    by (auto simp: Let_def split: if_splits read_result.splits prod.splits)
  from "6.IH" [OF refl got r] have ih: "more = take (Suc n - length ?got) (drop (length ?got) inp)"
    "inp' = drop (Suc n - length ?got) (drop (length ?got) inp)" "length more = Suc n - length ?got" by blast+
  have "length ?got \<le> Suc n" by simp
  moreover have "?got = take (length ?got) inp" by (metis append_eq_conv_conj append_take_drop_id)
  ultimately show ?case using ih bs
    by (metis add.commute append_take_drop_id drop_drop le_add_diff_inverse length_append take_add)
qed auto

text \<open>A frame within the size the receiver accepts.\<close>

definition frame_ok :: "u8 list \<Rightarrow> bool" where
  "frame_ok data \<longleftrightarrow> data \<noteq> [] \<and> length data \<le> kMaxFrameSize"

lemma frame_ok_length: "frame_ok data \<Longrightarrow> unat (of_nat (length data) :: u32) = length data"
  by (simp add: frame_ok_def kMaxFrameSize_def unat_of_nat)

text \<open>Whatever the environment does, a frame that is read is the frame that was sent.\<close>

lemma prefix_append_split:
  "prefix (a @ b) (c @ d) \<Longrightarrow> length a = length c \<Longrightarrow> a = c \<and> prefix b d"
  by (auto simp: prefix_def)

lemma recvFrame_sound:
  assumes "recvFrame events inp = (ReadOk payload, rest, inp')" "prefix inp (frame_bytes d @ tail)" "frame_ok d"
  shows "payload = d \<and> inp = frame_bytes d @ inp' \<and> prefix inp' tail"
proof -
  obtain m e1 i1 where r1: "readAll events inp 4 = (ReadOk m, e1, i1)"
    using assms(1) by (auto simp: recvFrame_def split: read_result.splits prod.splits)
  obtain l e2 i2 where r2: "readAll e1 i1 4 = (ReadOk l, e2, i2)"
    using assms(1) r1 by (auto simp: recvFrame_def split: read_result.splits prod.splits)
  note t1 = readAll_take [OF r1] and t2 = readAll_take [OF r2]
  have len: "length m = 4" "length l = 4" using t1 t2 by blast+
  from t1 t2 have inp: "inp = m @ l @ i2" by (metis append_take_drop_id)
  have frame: "frame_bytes d @ tail = htonl_bytes kMagic @ htonl_bytes (of_nat (length d)) @ d @ tail"
    by (simp add: frame_bytes_def)
  have m: "m = htonl_bytes kMagic" "prefix (l @ i2) (htonl_bytes (of_nat (length d)) @ d @ tail)"
    using prefix_append_split [of m "l @ i2"] assms(2) len(1) unfolding inp frame by simp_all
  have l: "l = htonl_bytes (of_nat (length d))" and i2: "prefix i2 (d @ tail)"
    using prefix_append_split [OF m(2)] len(2) by simp_all
  have r3: "readAll e2 i2 (length d) = (ReadOk payload, rest, inp')"
    using assms(1) r1 r2 m l frame_ok_length [OF assms(3)] assms(3)
    by (auto simp: recvFrame_def frame_ok_def Let_def split: if_splits)
  note t3 = readAll_take [OF r3]
  have i2': "i2 = payload @ inp'" using t3 by simp
  have "length payload = length d" using t3 by blast
  with prefix_append_split [of payload inp' d tail] i2 [unfolded i2']
  have "payload = d \<and> prefix inp' tail" by blast
  moreover have "inp = frame_bytes payload @ inp'" if "payload = d"
    unfolding inp m(1) l i2' that frame_bytes_def by simp
  ultimately show ?thesis by blast
qed

lemma recvLoop_sound:
  assumes "prefix inp (concat (map frame_bytes ds))" "\<forall>d \<in> set ds. frame_ok d"
  shows "prefix (fst (recvLoop turns events inp)) ds"
  using assms
proof (induction turns arbitrary: events inp ds)
  case (Suc turns)
  show ?case
  proof (cases "recvFrame events inp")
    case (fields r e' i')
    show ?thesis
    proof (cases r)
      case (ReadOk payload)
      with fields have r: "recvFrame events inp = (ReadOk payload, e', i')" by simp
      show ?thesis
      proof (cases ds)
        case Nil
        with Suc.prems(1) r show ?thesis
          using readAll_take [of events "[]" 4]
          by (auto simp: recvFrame_def split: read_result.splits prod.splits)
      next
        case (Cons d ds')
        from recvFrame_sound [OF r, of d "concat (map frame_bytes ds')"] Suc.prems Cons
        have "payload = d" "prefix i' (concat (map frame_bytes ds'))" by simp_all
        with Suc.IH [of i' ds' e'] Suc.prems(2) Cons r show ?thesis
          by (auto split: prod.splits)
      qed
    qed (simp_all add: fields)
  qed
qed simp

text \<open>When nothing fails, every frame arrives.\<close>

definition good_events :: "recv_event list \<Rightarrow> bool" where
  "good_events events \<longleftrightarrow> (\<forall>e \<in> set events. e = RecvInterrupted \<or> (\<exists>k > 0. e = Delivered k))"

definition deliveries :: "recv_event list \<Rightarrow> nat" where
  "deliveries events = length (filter (\<lambda>e. e \<noteq> RecvInterrupted) events)"

lemma readAll_complete:
  assumes "good_events events" "n \<le> length inp" "n \<le> deliveries events"
  shows "\<exists>rest. readAll events inp n = (ReadOk (take n inp), rest, drop n inp) \<and> good_events rest \<and>
           deliveries events \<le> deliveries rest + n"
  using assms
proof (induction events inp n rule: readAll.induct)
  case (6 k events inp n)
  let ?got = "take (min k (Suc n)) inp"
  have k: "0 < k" using "6.prems"(1) by (simp add: good_events_def)
  with "6.prems"(2) have got: "?got \<noteq> []" "1 \<le> length ?got" "length ?got \<le> Suc n" by (cases inp; simp)+
  have ok: "good_events events" "deliveries (Delivered k # events) = Suc (deliveries events)"
    using "6.prems"(1) by (simp_all add: good_events_def deliveries_def)
  have fits: "Suc n - length ?got \<le> length (drop (length ?got) inp)" "Suc n - length ?got \<le> deliveries events"
    using "6.prems"(2,3) got(2) ok(2) by (auto simp del: length_take)
  obtain rest where
    r: "readAll events (drop (length ?got) inp) (Suc n - length ?got) =
        (ReadOk (take (Suc n - length ?got) (drop (length ?got) inp)), rest,
         drop (Suc n - length ?got) (drop (length ?got) inp))"
    and rest: "good_events rest" "deliveries events \<le> deliveries rest + (Suc n - length ?got)"
    using "6.IH" [OF refl got(1) ok(1) fits] by blast
  have "?got = take (length ?got) inp" by (metis append_eq_conv_conj append_take_drop_id)
  then have "?got @ take (Suc n - length ?got) (drop (length ?got) inp) = take (Suc n) inp"
    using got(3) by (metis le_add_diff_inverse take_add)
  moreover have "drop (Suc n - length ?got) (drop (length ?got) inp) = drop (Suc n) inp"
    using got(3) by simp
  ultimately have "readAll (Delivered k # events) inp (Suc n) = (ReadOk (take (Suc n) inp), rest, drop (Suc n) inp)"
    using got(1) r by (simp add: Let_def)
  with rest got(2,3) ok(2) show ?case by auto
qed (auto simp: good_events_def deliveries_def)

lemma frame_length: "length (frame_bytes d) = 8 + length d"
  by (simp add: frame_bytes_def)

lemma recvFrame_complete:
  assumes "good_events events" "frame_ok d" "8 + length d \<le> deliveries events"
  shows "\<exists>rest. recvFrame events (frame_bytes d @ inp) = (ReadOk d, rest, inp) \<and> good_events rest \<and>
           deliveries events \<le> deliveries rest + (8 + length d)"
proof -
  let ?m = "htonl_bytes kMagic" and ?l = "htonl_bytes (of_nat (length d))"
  obtain e1 where e1: "readAll events (?m @ ?l @ d @ inp) 4 = (ReadOk ?m, e1, ?l @ d @ inp)" "good_events e1"
    "deliveries events \<le> deliveries e1 + 4"
    using readAll_complete [OF assms(1), of 4 "?m @ ?l @ d @ inp"] assms(3) by auto
  obtain e2 where e2: "readAll e1 (?l @ d @ inp) 4 = (ReadOk ?l, e2, d @ inp)" "good_events e2"
    "deliveries e1 \<le> deliveries e2 + 4"
    using readAll_complete [OF e1(2), of 4 "?l @ d @ inp"] e1(3) assms(3) by auto
  obtain e3 where e3: "readAll e2 (d @ inp) (length d) = (ReadOk d, e3, inp)" "good_events e3"
    "deliveries e2 \<le> deliveries e3 + length d"
    using readAll_complete [OF e2(2), of "length d" "d @ inp"] e1(3) e2(3) assms(3) by auto
  have "recvFrame events (frame_bytes d @ inp) = (ReadOk d, e3, inp)"
    using e1(1) e2(1) e3(1) assms(2) frame_ok_length [OF assms(2)]
    by (simp add: recvFrame_def frame_bytes_def frame_ok_def)
  with e1(3) e2(3) e3(2,3) show ?thesis by auto
qed

lemma recvLoop_complete:
  assumes "good_events events" "\<forall>d \<in> set ds. frame_ok d"
    "length (concat (map frame_bytes ds)) \<le> deliveries events"
  shows "recvLoop (length ds) events (concat (map frame_bytes ds)) = (ds, ReadOk ())"
  using assms
proof (induction ds arbitrary: events)
  case (Cons d ds)
  have "8 + length d \<le> deliveries events" using Cons.prems(3) by (simp add: frame_length)
  with recvFrame_complete [OF Cons.prems(1), of d "concat (map frame_bytes ds)"] Cons.prems(2)
  obtain rest where r: "recvFrame events (frame_bytes d @ concat (map frame_bytes ds)) =
      (ReadOk d, rest, concat (map frame_bytes ds))" "good_events rest"
    "deliveries events \<le> deliveries rest + (8 + length d)" by auto
  from Cons.IH [OF r(2)] r(3) Cons.prems(2,3) r(1) show ?case by (simp add: frame_length)
qed simp

section \<open>Runs of the sending thread\<close>

text \<open>Calls of \<open>sendFrame\<close> by other threads between the turns of the loop.\<close>

datatype sender_event = Submit "u8 list" | Turn bool "send_event list"

text \<open>
  A run records the payloads \<open>sendFrame\<close> accepted, those the loop took out of the queue with the bytes it
  gave to the socket, and the waits before the next attempt to connect.
\<close>

record sender_log =
  lg_accepted :: "u8 list list"
  lg_taken :: "(u8 list \<times> bool) list"
  lg_waits :: "int list"

fun sender_step :: "sender_event \<Rightarrow> SocketSender \<times> sender_log \<Rightarrow> tsq_error + (SocketSender \<times> sender_log)" where
  "sender_step (Submit data) (s, l) =
     (case sendFrame data s of
        Inl e \<Rightarrow> Inl e
      | Inr (ok, s') \<Rightarrow> Inr (s', if ok then l\<lparr>lg_accepted := lg_accepted l @ [data]\<rparr> else l))"
| "sender_step (Turn can_connect events) (s, l) =
     (case sendLoop_turn can_connect events s of
        (FrameSent item, s') \<Rightarrow> Inr (s', l\<lparr>lg_taken := lg_taken l @ [(item, True)]\<rparr>)
      | (FrameLost item _, s') \<Rightarrow> Inr (s', l\<lparr>lg_taken := lg_taken l @ [(item, False)]\<rparr>)
      | (WaitedForRetry ms, s') \<Rightarrow> Inr (s', l\<lparr>lg_waits := lg_waits l @ [ms]\<rparr>)
      | (_, s') \<Rightarrow> Inr (s', l))"

fun sender_run :: "sender_event list \<Rightarrow> SocketSender \<times> sender_log \<Rightarrow> tsq_error + (SocketSender \<times> sender_log)" where
  "sender_run [] x = Inr x"
| "sender_run (e # es) x = (case sender_step e x of Inl err \<Rightarrow> Inl err | Inr y \<Rightarrow> sender_run es y)"

definition new_sender :: "nat \<Rightarrow> SocketSender \<times> sender_log" where
  "new_sender n = (snd (ss_start (new_SocketSender n)), \<lparr>lg_accepted = [], lg_taken = [], lg_waits = []\<rparr>)"

definition sender_inv :: "SocketSender \<times> sender_log \<Rightarrow> bool" where
  "sender_inv x \<longleftrightarrow>
     tsq_wf (ss_queue (fst x)) \<and>
     subseq (map fst (lg_taken (snd x)) @ tsq_queue (ss_queue (fst x))) (lg_accepted (snd x)) \<and>
     ss_sent_count (fst x) = of_nat (length (filter snd (lg_taken (snd x)))) \<and>
     ss_failed_count (fst x) = of_nat (length (filter (\<lambda>t. \<not> snd t) (lg_taken (snd x)))) \<and>
     kInitRetryDelayMs \<le> ss_retry_delay_ms (fst x) \<and> ss_retry_delay_ms (fst x) \<le> kMaxRetryDelayMs \<and>
     (\<forall>ms \<in> set (lg_waits (snd x)). kInitRetryDelayMs \<le> ms \<and> ms \<le> kMaxRetryDelayMs)"

lemma tsq_pop_cases:
  obtains (item) x xs where "tsq_queue q = x # xs" "tsq_pop 500 q = (Returned (Some x), q\<lparr>tsq_queue := xs\<rparr>)"
  | (none) "tsq_pop 500 q = (Returned None, q)"
  by (cases "tsq_queue q") (auto simp: tsq_pop_def)

lemma sender_inv_submit:
  assumes "sender_inv (s, l)"
  shows "\<exists>y. sender_step (Submit data) (s, l) = Inr y \<and> sender_inv y"
proof -
  from assms have q: "tsq_wf (ss_queue s)" "subseq (map fst (lg_taken l) @ tsq_queue (ss_queue s)) (lg_accepted l)"
    by (simp_all add: sender_inv_def)
  obtain ok q where push: "tsq_push data (ss_queue s) = Inr (ok, q)" "tsq_wf q"
    using tsq_push_ok [OF q(1), of data] by blast
  from tsq_fifo.put_order [OF q(1) push(1) q(2)] push assms show ?thesis
    by (cases ok) (simp_all add: sendFrame_def sender_inv_def)
qed

lemma double_delay:
  "kInitRetryDelayMs \<le> d \<Longrightarrow> kInitRetryDelayMs \<le> d * 2" "kInitRetryDelayMs \<le> kMaxRetryDelayMs"
  by (simp_all add: kInitRetryDelayMs_def kMaxRetryDelayMs_def)

lemma sender_inv_queued:
  assumes "sender_inv (s, l)"
  shows "\<exists>y. (case send_queued events s of
        (FrameSent item, s') \<Rightarrow> Inr (s', l\<lparr>lg_taken := lg_taken l @ [(item, True)]\<rparr>)
      | (FrameLost item _, s') \<Rightarrow> Inr (s', l\<lparr>lg_taken := lg_taken l @ [(item, False)]\<rparr>)
      | (WaitedForRetry ms, s') \<Rightarrow> Inr (s', l\<lparr>lg_waits := lg_waits l @ [ms]\<rparr>)
      | (_, s') \<Rightarrow> Inr (s', l)) = (Inr y :: tsq_error + SocketSender \<times> sender_log) \<and> sender_inv y"
proof (cases rule: tsq_pop_cases [of "ss_queue s"])
  case (item x xs)
  obtain r out rest where raw: "sendRaw events x = (r, out, rest)" by (metis prod_cases3)
  have wf: "tsq_wf (ss_queue s\<lparr>tsq_queue := xs\<rparr>)"
    using assms item(1) by (simp add: sender_inv_def tsq_wf_def)
  have "subseq (map fst (lg_taken l) @ xs) (map fst (lg_taken l) @ x # xs)"
    by (simp only: subseq_append') (rule list_emb_Cons, simp)
  then have "subseq (map fst (lg_taken l) @ xs) (lg_accepted l)"
    using assms item(1) unfolding sender_inv_def by (auto intro: subseq_order.order_trans)
  with wf assms item raw show ?thesis
    by (cases r) (auto simp: send_queued_def sender_inv_def disconnectSocket_def split: bool.splits)
next
  case none
  with assms show ?thesis by (simp add: send_queued_def sender_inv_def)
qed

lemma sender_inv_turn:
  assumes "sender_inv (s, l)"
  shows "\<exists>y. sender_step (Turn c events) (s, l) = Inr y \<and> sender_inv y"
proof -
  consider (stop) "ss_stop_flag s"
    | (wait) "\<not> ss_stop_flag s" "\<not> ss_connected s" "\<not> c"
    | (go) "\<not> ss_stop_flag s" "ss_connected s \<or> c" by blast
  then show ?thesis
  proof cases
    case stop
    with assms show ?thesis by (simp add: sendLoop_turn_def)
  next
    case wait
    with assms show ?thesis
      by (simp add: sendLoop_turn_def connectSocket_def sender_inv_def double_delay)
  next
    case go
    define s2 where "s2 = (if ss_connected s then s
        else (snd (connectSocket True s))\<lparr>ss_retry_delay_ms := kInitRetryDelayMs\<rparr>)"
    have inv2: "sender_inv (s2, l)"
      using assms by (simp add: s2_def connectSocket_def sender_inv_def kInitRetryDelayMs_def kMaxRetryDelayMs_def)
    have "sendLoop_turn c events s = send_queued events s2"
      using go by (auto simp: sendLoop_turn_def connectSocket_def s2_def)
    with sender_inv_queued [OF inv2, of events] show ?thesis by simp
  qed
qed

lemma sender_inv_step: "sender_inv x \<Longrightarrow> \<exists>y. sender_step e x = Inr y \<and> sender_inv y"
  using sender_inv_submit sender_inv_turn by (cases x; cases e) blast+

interpretation sender_runs: checked_run sender_step sender_run sender_inv
  by unfold_locales (simp, simp, rule sender_inv_step)

lemma sender_inv_new: "0 < n \<Longrightarrow> sender_inv (new_sender n)"
  by (simp add: new_sender_def ss_start_def new_SocketSender_def sender_inv_def tsq_new_wf
      kInitRetryDelayMs_def kMaxRetryDelayMs_def) (simp add: tsq_new_def)

lemma backoff:
  assumes "\<not> ss_stop_flag s" "\<not> ss_connected s" "ss_retry_delay_ms s = min (1000 * 2 ^ k) 30000"
  shows "\<exists>s'. sender_run (map (\<lambda>ev. Turn False ev) evs) (s, l) =
      Inr (s', l\<lparr>lg_waits := lg_waits l @ map (\<lambda>i. min (1000 * 2 ^ (k + i)) 30000) [0..<length evs]\<rparr>)"
  using assms
proof (induction evs arbitrary: s l k)
  case (Cons ev evs)
  let ?s = "s\<lparr>ss_retry_delay_ms := min (1000 * 2 ^ Suc k) 30000\<rparr>"
  let ?l = "l\<lparr>lg_waits := lg_waits l @ [min (1000 * 2 ^ k) 30000]\<rparr>"
  have step: "sender_step (Turn False ev) (s, l) = Inr (?s, ?l)"
    using Cons.prems by (simp add: sendLoop_turn_def connectSocket_def kMaxRetryDelayMs_def min_def)
  have shift: "map (\<lambda>i. min (1000 * 2 ^ (k + i)) 30000 :: int) [0..<Suc (length evs)] =
      min (1000 * 2 ^ k) 30000 # map (\<lambda>i. min (1000 * 2 ^ (Suc k + i)) 30000) [0..<length evs]"
    by (simp only: map_upt_Suc) simp
  from Cons.IH [of ?s "Suc k" ?l] Cons.prems step show ?case
    by (simp only: list.map length_Cons sender_run.simps shift) simp
qed simp

section \<open>Properties\<close>



text \<open>
  C18. Every interleaving of \<open>sendFrame\<close> with turns of \<open>sendLoop\<close>, on a queue of positive capacity, avoids
  undefined behaviour. The payloads the loop takes out are a subsequence, in order, of those
  \<open>sendFrame\<close> accepted, so each is written at most once; \<open>sent_count\<close> and \<open>failed_count\<close> count
  the ones written completely and the ones lost (modulo 2^64); and every wait before a new attempt
  lies between 1 and 30 seconds.
\<close>

theorem sender_at_most_once:
  assumes "0 < send_queue_size"
  shows "\<exists>s l. sender_run es (new_sender send_queue_size) = Inr (s, l) \<and>
    subseq (map fst (lg_taken l)) (lg_accepted l) \<and>
    ss_sent_count s = of_nat (length (filter snd (lg_taken l))) \<and>
    ss_failed_count s = of_nat (length (filter (\<lambda>t. \<not> snd t) (lg_taken l))) \<and>
    (\<forall>ms \<in> set (lg_waits l). 1000 \<le> ms \<and> ms \<le> 30000)"
proof -
  from sender_runs.run_inv [OF sender_inv_new [OF assms]] obtain y where
    y: "sender_run es (new_sender send_queue_size) = Inr y" "sender_inv y" by blast
  have "subseq (map fst (lg_taken (snd y))) (map fst (lg_taken (snd y)) @ tsq_queue (ss_queue (fst y)))"
    by (simp add: prefix_imp_subseq)
  with y(2) have "subseq (map fst (lg_taken (snd y))) (lg_accepted (snd y))"
    unfolding sender_inv_def by (blast intro: subseq_order.order_trans)
  with y show ?thesis
    by (cases y) (simp add: sender_inv_def kInitRetryDelayMs_def kMaxRetryDelayMs_def)
qed

theorem sender_at_most_once_witness:
  "\<exists>s l. sender_run [Submit [1], Turn False [], Submit [2], Turn True [Accepted 9, Accepted 9, Accepted 9], Turn True [SendFailed]]
       (new_sender 4) = Inr (s, l) \<and> lg_taken l = [([1], True), ([2], False)] \<and> ss_failed_count s = 1"
proof -
  define es where "es = [Submit [1], Turn False [], Submit [2],
      Turn True [Accepted 9, Accepted 9, Accepted 9], Turn True [SendFailed]]"
  have "(0::nat) < 4" by simp
  from sender_at_most_once [OF this, of es] obtain s l where
    run: "sender_run es (new_sender 4) = Inr (s, l)"
    and failed: "ss_failed_count s = of_nat (length (filter (\<lambda>t. \<not> snd t) (lg_taken l)))" by blast
  have "lg_taken l = [([1], True), ([2], False)]"
    using run by (auto simp: es_def new_sender_def ss_start_def new_SocketSender_def tsq_new_def sendFrame_def
        tsq_push_def tsq_drop_oldest_def sendLoop_turn_def send_queued_def connectSocket_def tsq_pop_def sendRaw_def
        htonl_bytes_def disconnectSocket_def)
  with run failed show ?thesis unfolding es_def by simp
qed

text \<open>
  While no connection can be made the waits double from 1 s up to the limit of 30 s: 1, 2, 4, 8,
  16, 30, 30, ... seconds.
\<close>

theorem reconnect_backoff:
  "\<exists>s'. sender_run (map (\<lambda>ev. Turn False ev) evs) (new_sender send_queue_size) =
     Inr (s', (snd (new_sender send_queue_size))\<lparr>lg_waits := map (\<lambda>i. min (1000 * 2 ^ i) 30000) [0..<length evs]\<rparr>)"
  using backoff [of "fst (new_sender send_queue_size)" 0 evs "snd (new_sender send_queue_size)"]
  by (simp add: new_sender_def ss_start_def new_SocketSender_def kInitRetryDelayMs_def)

end
