(* ===== verification/Uuid.thy ===== *)
theory Uuid
  imports Prelude
begin

text \<open>
  \<open>src/common/Uuid.h\<close>: the text of a version 4 UUID. The sixteen random bytes are an argument; \<open>operator<<\<close> with
  \<open>std::hex\<close>, \<open>std::setw(2)\<close> and \<open>std::setfill('0')\<close> prints two lower-case digits.
\<close>

definition hex_digit :: "nat \<Rightarrow> char" where
  "hex_digit n = ''0123456789abcdef'' ! n"

definition hex_byte :: "u8 \<Rightarrow> string" where
  "hex_byte b = [hex_digit (unat b div 16), hex_digit (unat b mod 16)]"

definition mark_version :: "u8 list \<Rightarrow> u8 list" where
  "mark_version bytes = bytes[6 := (bytes ! 6 AND 0x0F) OR 0x40, 8 := (bytes ! 8 AND 0x3F) OR 0x80]"

definition generateUuidV4 :: "u8 list \<Rightarrow> string" where
  "generateUuidV4 random =
     (let bytes = mark_version random
      in concat (map (\<lambda>index. hex_byte (bytes ! index) @ (if index \<in> {3, 5, 7, 9} then ''-'' else [])) [0..<16]))"

section \<open>Properties\<close>

lemma hex_digit_inj: "m < 16 \<Longrightarrow> n < 16 \<Longrightarrow> hex_digit m = hex_digit n \<longleftrightarrow> m = n"
  using nth_eq_iff_index_eq [of "''0123456789abcdef''" m n] by (simp add: hex_digit_def)

lemma hex_byte_inj: "hex_byte a = hex_byte b \<longleftrightarrow> a = b"
proof
  assume "hex_byte a = hex_byte b"
  moreover have "unat a < 256" "unat b < 256" using unsigned_less [of a] unsigned_less [of b] by simp_all
  ultimately have "unat a div 16 = unat b div 16" "unat a mod 16 = unat b mod 16"
    by (simp_all add: hex_byte_def hex_digit_inj less_mult_imp_div_less)
  then have "unat a = unat b" by (metis div_mult_mod_eq)
  then show "a = b" by (simp add: word_unat_eq_iff)
qed simp

lemma uuid_text:
  "generateUuidV4 random =
     (let b = (\<lambda>i. hex_byte (mark_version random ! i))
      in b 0 @ b 1 @ b 2 @ b 3 @ ''-'' @ b 4 @ b 5 @ ''-'' @ b 6 @ b 7 @ ''-'' @ b 8 @ b 9 @ ''-'' @
         b 10 @ b 11 @ b 12 @ b 13 @ b 14 @ b 15)"
proof -
  have "[0..<16] = [0, 1, 2, 3, 4, 5, 6, 7, 8, 9, 10, 11, 12, 13, 14, 15 :: nat]" by code_simp
  then show ?thesis by (simp add: generateUuidV4_def Let_def)
qed

lemma version_nibble: "unat ((b AND 0x0F) OR 0x40) div 16 = 4" for b :: u8
proof -
  have "drop_bit 4 ((b AND 0x0F) OR 0x40) = 4" by (simp add: drop_bit_or drop_bit_and)
  then have "unat (drop_bit 4 ((b AND 0x0F) OR 0x40)) = unat (4 :: u8)" by (simp only:)
  moreover have "unat (drop_bit 4 c) = unat c div 16" for c :: u8 by (simp add: drop_bit_eq_div unat_div)
  ultimately show ?thesis by (simp only:) simp
qed

lemma length_mark_version [simp]: "length (mark_version r) = length r"
  by (simp add: mark_version_def)

lemma length_hex_byte [simp]: "length (hex_byte b) = 2"
  by (simp add: hex_byte_def)

lemma uuid_bytes_inj:
  assumes "length r1 = 16" "length r2 = 16" "generateUuidV4 r1 = generateUuidV4 r2"
  shows "mark_version r1 = mark_version r2"
proof (rule nth_equalityI)
  fix i
  assume "i < length (mark_version r1)"
  then have "i \<in> {0, 1, 2, 3, 4, 5, 6, 7, 8, 9, 10, 11, 12, 13, 14, 15}"
    unfolding insert_iff empty_iff length_mark_version assms(1) by presburger
  then show "mark_version r1 ! i = mark_version r2 ! i"
    using assms(3) by (auto simp: uuid_text Let_def hex_byte_inj append_eq_append_conv)
qed (use assms in simp)

text \<open>
  The text has the form of a version 4 UUID, and it loses none of the 122 random bits: two texts are equal exactly if
  the bytes are, apart from the bits the version and the variant fix.
\<close>

theorem uuid_faithful:
  assumes "length r1 = 16" "length r2 = 16"
  shows "length (generateUuidV4 r1) = 36 \<and> map (\<lambda>i. generateUuidV4 r1 ! i) [8, 13, 18, 23] = ''----'' \<and>
    generateUuidV4 r1 ! 14 = CHR ''4'' \<and>
    (generateUuidV4 r1 = generateUuidV4 r2 \<longleftrightarrow> mark_version r1 = mark_version r2)"
proof (intro conjI)
  show "length (generateUuidV4 r1) = 36" by (simp add: uuid_text Let_def)
  show "map (\<lambda>i. generateUuidV4 r1 ! i) [8, 13, 18, 23] = ''----''"
    by (simp add: uuid_text Let_def hex_byte_def)
  have "mark_version r1 ! 6 = (r1 ! 6 AND 0x0F) OR 0x40" using assms(1) by (simp add: mark_version_def)
  then show "generateUuidV4 r1 ! 14 = CHR ''4''"
    by (simp add: uuid_text Let_def hex_byte_def hex_digit_def version_nibble)
  show "generateUuidV4 r1 = generateUuidV4 r2 \<longleftrightarrow> mark_version r1 = mark_version r2"
    using uuid_bytes_inj [OF assms] by (auto simp: uuid_text)
qed

end
