(* ===== verification/IpcClient.thy ===== *)
theory IpcClient
  imports SocketSender Messages Uuid
begin

text \<open>
  \<open>src/protocol/MessageMapper.cpp\<close>, which builds the outgoing messages, and \<open>src/ipc/IpcClient.cpp\<close>,
  which numbers them, hands them to the transport, and answers configurations.

  \<open>Envelope::SerializeToString\<close> and \<open>ParseFromString\<close> belong to protobuf: the record \<open>protobuf\<close>
  holds them as parameters. The clock and the random bytes of the UUID of an alarm are arguments of \<open>buildAlarmInfo\<close>. Using
  the sender before \<open>start\<close> has made one dereferences a null pointer, the error \<open>NullSender\<close>.
\<close>

section \<open>MessageMapper\<close>

record protobuf =
  pb_serialize :: "Envelope \<Rightarrow> u8 list"
  pb_parse :: "u8 list \<Rightarrow> Envelope option"

definition makeEnvelope :: "MessageType \<Rightarrow> u32 \<Rightarrow> Envelope" where
  "makeEnvelope t n = \<lparr>env_version = PROTO_VERSION_CURRENT, env_type = t, env_seq = n, env_body = BodyUnset\<rparr>"

definition buildAlarmInfo ::
  "u8 list \<Rightarrow> int \<Rightarrow> string \<Rightarrow> AlgorithmConfig \<Rightarrow> DetectionObject list \<Rightarrow> string \<Rightarrow> string \<Rightarrow> AlarmInfo"
where
  "buildAlarmInfo random now_ms stream_id detector_cfg targets snapshot_name record_name =
     \<lparr>ai_alarm_id = generateUuidV4 random, ai_stream_id = stream_id, ai_timestamp_ms = now_ms,
      ai_algorithm_id =
        (if al_algorithm_id detector_cfg = [] \<and> targets \<noteq> [] then ob_class_name (hd targets)
         else al_algorithm_id detector_cfg),
      ai_level = al_alarm_level detector_cfg,
      ai_confidence = fold (\<lambda>target m. f32_max m (ob_confidence target)) targets (Fin 0),
      ai_target = targets, ai_description = [], ai_snapshot_name = snapshot_name,
      ai_record_name = record_name\<rparr>"

definition buildHeartbeat :: "string \<Rightarrow> int \<Rightarrow> int \<Rightarrow> HeartBeat" where
  "buildHeartbeat agent_id stream_count uptime_s =
     \<lparr>hb_agent_id = agent_id, hb_uptime_s = uptime_s, hb_stream_count = stream_count\<rparr>"

definition buildConfigAck :: "string \<Rightarrow> bool \<Rightarrow> string \<Rightarrow> ConfigAck" where
  "buildConfigAck agent_id success message =
     \<lparr>ack_agent_id = agent_id, ack_success = success, ack_message = message\<rparr>"

definition alarmEnvelope :: "AlarmInfo \<Rightarrow> u32 \<Rightarrow> Envelope" where
  "alarmEnvelope alarm n = (makeEnvelope MSG_ALARM n)\<lparr>env_body := BodyAlarm alarm\<rparr>"

definition heartbeatEnvelope :: "HeartBeat \<Rightarrow> u32 \<Rightarrow> Envelope" where
  "heartbeatEnvelope heartbeat n = (makeEnvelope MSG_HEARTBEAT n)\<lparr>env_body := BodyHeartBeat heartbeat\<rparr>"

definition configAckEnvelope :: "ConfigAck \<Rightarrow> u32 \<Rightarrow> Envelope" where
  "configAckEnvelope ack n = (makeEnvelope MSG_CONFIG_ACK n)\<lparr>env_body := BodyConfigAck ack\<rparr>"

section \<open>IpcClient\<close>

datatype ipc_error = NullSender | QueueFailure tsq_error

record IpcClient =
  ic_agent_id :: string
  ic_send_queue_size :: nat
  ic_sender :: "SocketSender option"
  ic_seq :: u32

definition new_IpcClient :: "string \<Rightarrow> nat \<Rightarrow> IpcClient" where
  "new_IpcClient agent_id send_queue_size =
     \<lparr>ic_agent_id = agent_id, ic_send_queue_size = send_queue_size, ic_sender = None, ic_seq = 0\<rparr>"

definition ipc_start :: "IpcClient \<Rightarrow> bool \<times> IpcClient" where
  "ipc_start c =
     (case ss_start (new_SocketSender (ic_send_queue_size c)) of
        (ok, s) \<Rightarrow> (ok, c\<lparr>ic_sender := Some s\<rparr>))"

definition ipc_stop :: "IpcClient \<Rightarrow> IpcClient" where
  "ipc_stop c = c\<lparr>ic_sender := map_option ss_stop (ic_sender c)\<rparr>"

text \<open>\<open>sender_->sendFrame(buildEnvelopePayload(message, seq_++))\<close>.\<close>

definition ipc_send :: "protobuf \<Rightarrow> (u32 \<Rightarrow> Envelope) \<Rightarrow> IpcClient \<Rightarrow> ipc_error + (bool \<times> IpcClient)" where
  "ipc_send pb envelope c =
     (case ic_sender c of
        None \<Rightarrow> Inl NullSender
      | Some s \<Rightarrow>
          (case sendFrame (pb_serialize pb (envelope (ic_seq c))) s of
             Inl e \<Rightarrow> Inl (QueueFailure e)
           | Inr (ok, s') \<Rightarrow> Inr (ok, c\<lparr>ic_sender := Some s', ic_seq := ic_seq c + 1\<rparr>)))"

definition pushAlarm :: "protobuf \<Rightarrow> AlarmInfo \<Rightarrow> IpcClient \<Rightarrow> ipc_error + (bool \<times> IpcClient)" where
  "pushAlarm pb alarm c = ipc_send pb (alarmEnvelope alarm) c"

definition pushHeartbeat :: "protobuf \<Rightarrow> HeartBeat \<Rightarrow> IpcClient \<Rightarrow> ipc_error + (bool \<times> IpcClient)" where
  "pushHeartbeat pb heartbeat c = ipc_send pb (heartbeatEnvelope heartbeat) c"

text \<open>The configurations given to the callback, and the client afterwards.\<close>

definition handleConfig :: "protobuf \<Rightarrow> AgentConfig \<Rightarrow> IpcClient \<Rightarrow> ipc_error + (AgentConfig list \<times> IpcClient)" where
  "handleConfig pb cfg c =
     (case ipc_send pb (configAckEnvelope (buildConfigAck (ic_agent_id c) True [])) c of
        Inl e \<Rightarrow> Inl e
      | Inr (_, c') \<Rightarrow> Inr ([cfg], c'))"

definition onRecv :: "protobuf \<Rightarrow> u8 list \<Rightarrow> IpcClient \<Rightarrow> ipc_error + (AgentConfig list \<times> IpcClient)" where
  "onRecv pb data c =
     (case pb_parse pb data of
        None \<Rightarrow> Inr ([], c)
      | Some env \<Rightarrow>
          if env_version env \<noteq> PROTO_VERSION_CURRENT then Inr ([], c)
          else case env_type env of
                 MSG_CONFIG \<Rightarrow>
                   (case env_body env of
                      BodyConfig cfg \<Rightarrow> handleConfig pb cfg c
                    | _ \<Rightarrow> Inr ([], c))
               | _ \<Rightarrow> Inr ([], c))"

section \<open>Runs\<close>

text \<open>The calls on a started client, and the envelopes they build in order.\<close>

datatype ipc_call = CallAlarm AlarmInfo | CallHeartbeat HeartBeat | CallReceive "u8 list"

fun ipc_call_step :: "protobuf \<Rightarrow> ipc_call \<Rightarrow> IpcClient \<Rightarrow> ipc_error + IpcClient" where
  "ipc_call_step pb (CallAlarm a) c = (case pushAlarm pb a c of Inl e \<Rightarrow> Inl e | Inr (_, c') \<Rightarrow> Inr c')"
| "ipc_call_step pb (CallHeartbeat h) c = (case pushHeartbeat pb h c of Inl e \<Rightarrow> Inl e | Inr (_, c') \<Rightarrow> Inr c')"
| "ipc_call_step pb (CallReceive d) c = (case onRecv pb d c of Inl e \<Rightarrow> Inl e | Inr (_, c') \<Rightarrow> Inr c')"

text \<open>The configuration a received payload holds, if the client accepts it.\<close>

definition accepted_config :: "protobuf \<Rightarrow> u8 list \<Rightarrow> AgentConfig option" where
  "accepted_config pb data =
     (case pb_parse pb data of
        None \<Rightarrow> None
      | Some env \<Rightarrow>
          if env_version env = PROTO_VERSION_CURRENT \<and> env_type env = MSG_CONFIG
          then (case env_body env of BodyConfig cfg \<Rightarrow> Some cfg | _ \<Rightarrow> None) else None)"

fun ipc_envelope :: "protobuf \<Rightarrow> string \<Rightarrow> ipc_call \<Rightarrow> (u32 \<Rightarrow> Envelope) option" where
  "ipc_envelope pb agent (CallAlarm a) = Some (alarmEnvelope a)"
| "ipc_envelope pb agent (CallHeartbeat h) = Some (heartbeatEnvelope h)"
| "ipc_envelope pb agent (CallReceive d) =
     map_option (\<lambda>_. configAckEnvelope (buildConfigAck agent True [])) (accepted_config pb d)"

fun ipc_run :: "protobuf \<Rightarrow> ipc_call list \<Rightarrow> IpcClient \<Rightarrow> ipc_error + IpcClient" where
  "ipc_run pb [] c = Inr c"
| "ipc_run pb (x # xs) c = (case ipc_call_step pb x c of Inl e \<Rightarrow> Inl e | Inr c' \<Rightarrow> ipc_run pb xs c')"

text \<open>The messages of a run, numbered from the given number on.\<close>

fun numbered :: "u32 \<Rightarrow> (u32 \<Rightarrow> Envelope) list \<Rightarrow> Envelope list" where
  "numbered n [] = []"
| "numbered n (e # es) = e n # numbered (n + 1) es"

definition run_envelopes :: "protobuf \<Rightarrow> string \<Rightarrow> u32 \<Rightarrow> ipc_call list \<Rightarrow> Envelope list" where
  "run_envelopes pb agent n calls = numbered n (List.map_filter (ipc_envelope pb agent) calls)"

lemma onRecv_eq:
  "onRecv pb data c =
     (case accepted_config pb data of
        None \<Rightarrow> Inr ([], c)
      | Some cfg \<Rightarrow> handleConfig pb cfg c)"
  by (simp add: onRecv_def accepted_config_def split: option.splits MessageType.splits EnvelopeBody.splits)

lemma ipc_call_step_eq:
  "ipc_call_step pb x c =
     (case ipc_envelope pb (ic_agent_id c) x of
        None \<Rightarrow> Inr c
      | Some e \<Rightarrow> (case ipc_send pb e c of Inl err \<Rightarrow> Inl err | Inr (_, c') \<Rightarrow> Inr c'))"
  by (cases x) (auto simp: pushAlarm_def pushHeartbeat_def onRecv_eq handleConfig_def
      split: option.splits sum.splits)

lemma ipc_send_room:
  assumes "ic_sender c = Some s" "\<not> tsq_stopped (ss_queue s)"
    "length (tsq_queue (ss_queue s)) < tsq_max_size (ss_queue s)"
  shows "ipc_send pb e c = Inr (True, c\<lparr>ic_seq := ic_seq c + 1, ic_sender := Some
    (s\<lparr>ss_queue := (ss_queue s)\<lparr>tsq_queue := tsq_queue (ss_queue s) @ [pb_serialize pb (e (ic_seq c))]\<rparr>\<rparr>)\<rparr>)"
  using assms by (simp add: ipc_send_def sendFrame_def tsq_push_def tsq_drop_oldest_def)

lemma ipc_run_room:
  assumes "ic_sender c = Some s" "\<not> tsq_stopped (ss_queue s)"
    "length (tsq_queue (ss_queue s)) + length calls \<le> tsq_max_size (ss_queue s)"
  shows "\<exists>c' s'. ipc_run pb calls c = Inr c' \<and> ic_sender c' = Some s' \<and>
    tsq_queue (ss_queue s') = tsq_queue (ss_queue s) @
      map (pb_serialize pb) (run_envelopes pb (ic_agent_id c) (ic_seq c) calls)"
  using assms
proof (induction calls arbitrary: c s)
  case Nil
  then show ?case by (simp add: run_envelopes_def List.map_filter_simps)
next
  case (Cons x calls)
  show ?case
  proof (cases "ipc_envelope pb (ic_agent_id c) x")
    case None
    with Cons.IH [of c s] Cons.prems show ?thesis
      by (simp add: ipc_call_step_eq run_envelopes_def List.map_filter_simps)
  next
    case (Some e)
    let ?q = "(ss_queue s)\<lparr>tsq_queue := tsq_queue (ss_queue s) @ [pb_serialize pb (e (ic_seq c))]\<rparr>"
    let ?c = "c\<lparr>ic_seq := ic_seq c + 1, ic_sender := Some (s\<lparr>ss_queue := ?q\<rparr>)\<rparr>"
    have "ipc_call_step pb x c = Inr ?c"
      using Some ipc_send_room [OF Cons.prems(1,2), of pb e] Cons.prems(3)
      by (simp add: ipc_call_step_eq)
    with Cons.IH [of ?c "s\<lparr>ss_queue := ?q\<rparr>"] Cons.prems Some show ?thesis
      by (simp add: run_envelopes_def List.map_filter_simps)
  qed
qed

section \<open>The confidence of an alarm\<close>

lemma f32_max_props:
  "a \<noteq> NaN \<Longrightarrow> f32_max a b \<noteq> NaN" "\<not> f32_less (f32_max a b) a" "\<not> f32_less (f32_max a b) b"
  by (cases a; cases b; auto simp: f32_max_def)+

lemma fold_max_props:
  assumes "m0 \<noteq> NaN"
  shows "fold (\<lambda>t m. f32_max m (conf t)) ts m0 \<noteq> NaN \<and>
    \<not> f32_less (fold (\<lambda>t m. f32_max m (conf t)) ts m0) m0 \<and>
    (\<forall>t \<in> set ts. \<not> f32_less (fold (\<lambda>t m. f32_max m (conf t)) ts m0) (conf t)) \<and>
    fold (\<lambda>t m. f32_max m (conf t)) ts m0 \<in> insert m0 (conf ` set ts)"
  using assms
proof (induction ts arbitrary: m0)
  case (Cons t ts)
  let ?m = "f32_max m0 (conf t)" and ?r = "fold (\<lambda>t m. f32_max m (conf t)) ts (f32_max m0 (conf t))"
  have m: "?m \<noteq> NaN" "\<not> f32_less ?m m0" "\<not> f32_less ?m (conf t)"
    using f32_max_props [of m0 "conf t"] Cons.prems by simp_all
  note ih = Cons.IH [OF m(1)]
  have "\<not> f32_less ?r m0" "\<not> f32_less ?r (conf t)"
    using f32_not_less_trans [OF _ _ m(1), of ?r] ih m(2,3) by blast+
  moreover have "?m \<in> {m0, conf t}" by (simp add: f32_max_def)
  ultimately show ?case using ih by auto
qed simp

section \<open>Properties\<close>

definition ex_protobuf :: protobuf where
  "ex_protobuf = \<lparr>pb_serialize = \<lambda>e. [of_nat (unat (env_seq e))],
     pb_parse = \<lambda>d. Some (if d = [0] then \<lparr>env_version = PROTO_VERSION_CURRENT, env_type = MSG_CONFIG,
        env_seq = 0, env_body = BodyConfig \<lparr>ag_agent_id = ''a'', ag_config_id = 1, ag_streams = []\<rparr>\<rparr>
        else makeEnvelope MSG_UNKNOWN 1)\<rparr>"

lemmas ex_ipc_defs = new_IpcClient_def ipc_start_def ss_start_def new_SocketSender_def tsq_new_def





text \<open>
  The confidence of an alarm is the largest confidence of its targets: it is never NaN, no
  target exceeds it (0 for an alarm without a positive one), and it is 0 or the confidence of some target;
  the targets themselves are all in the alarm, in order.
\<close>

theorem alarm_confidence_is_maximum:
  "let alarm = buildAlarmInfo random now_ms stream_id cfg targets snapshot_name record_name
   in ai_confidence alarm \<noteq> NaN \<and> \<not> f32_less (ai_confidence alarm) (Fin 0) \<and>
      (\<forall>t \<in> set targets. \<not> f32_less (ai_confidence alarm) (ob_confidence t)) \<and>
      ai_confidence alarm \<in> insert (Fin 0) (ob_confidence ` set targets) \<and> ai_target alarm = targets"
  using fold_max_props [of "Fin 0" ob_confidence targets] by (simp add: buildAlarmInfo_def Let_def)

theorem alarm_confidence_is_maximum_witness:
  "ai_confidence (buildAlarmInfo (replicate 16 0) 0 ''cam'' default_AlgorithmConfig
     [\<lparr>ob_object_id = 1, ob_class_id = 0, ob_class_name = ''fire'', ob_confidence = Fin (1/2), ob_bbox = default_Box\<rparr>]
     [] []) \<in> {Fin 0, Fin (1/2)}"
  using alarm_confidence_is_maximum [of "replicate 16 0" 0 "''cam''" default_AlgorithmConfig
     "[\<lparr>ob_object_id = 1, ob_class_id = 0, ob_class_name = ''fire'', ob_confidence = Fin (1/2), ob_bbox = default_Box\<rparr>]" "[]" "[]"]
  by (simp add: Let_def)

end
