(* ===== verification/Tracker.thy ===== *)
theory Tracker
  imports StreamTypes
begin

text \<open>
  \<open>src/tracker\<close>: the tracker interface (\<open>ITracker.h\<close>), its one implementation
  (\<open>ByteTrackTracker.cpp\<close>) and the factory. The tracking itself is done by the C library behind
  \<open>media_agent_tracker.h\<close>: the record \<open>tracker_library\<close> holds its functions as parameters, and \<open>TrackerAdapter\<close>
  models the adapter to ByteTrack that implements them. A handle is the library's state; \<open>ma_tracker_process\<close> returns a new one,
  and \<open>None\<close> for a return code other than 0. It fills an array of as many outputs as there are
  detections, which the model takes as a function of the index.
\<close>

record ma_tracker_config =
  mc_enabled :: int
  mc_tracker_type :: string
  mc_min_thresh :: f32
  mc_high_thresh :: f32
  mc_max_iou_distance :: f32
  mc_high_thresh_person :: f32
  mc_high_thresh_motorbike :: f32
  mc_max_age :: int
  mc_n_init :: int

record ma_tracker_frame_desc =
  md_width :: int
  md_height :: int
  md_timestamp_ms :: int

record ma_tracker_detection =
  mt_x :: f32
  mt_y :: f32
  mt_width :: f32
  mt_height :: f32
  mt_confidence :: f32
  mt_class_id :: int

text \<open>The two fields of an output the program reads.\<close>

record ma_tracker_output =
  mo_track_id :: int
  mo_matched :: int

record 'h tracker_library =
  ma_tracker_create :: "ma_tracker_config \<Rightarrow> 'h option"
  ma_tracker_process :: "'h \<Rightarrow> ma_tracker_frame_desc \<Rightarrow> ma_tracker_detection list \<Rightarrow>
     (nat \<Rightarrow> ma_tracker_output) option \<times> 'h"
  ma_tracker_reset :: "'h \<Rightarrow> 'h"

record TrackFrame =
  tf_stream_id :: string
  tf_frame_id :: int
  tf_timestamp_ms :: int
  tf_width :: int
  tf_height :: int

record 'h ByteTrackTracker =
  bt_cfg :: TrackerConfig
  bt_handle :: "'h option"

definition new_ByteTrackTracker :: "TrackerConfig \<Rightarrow> 'h ByteTrackTracker" where
  "new_ByteTrackTracker cfg = \<lparr>bt_cfg = cfg, bt_handle = None\<rparr>"

definition toNativeConfig :: "TrackerConfig \<Rightarrow> ma_tracker_config" where
  "toNativeConfig cfg =
     \<lparr>mc_enabled = (if tk_enabled cfg then 1 else 0),
      mc_tracker_type = (if tk_tracker_type cfg = [] then ''bytetrack'' else tk_tracker_type cfg),
      mc_min_thresh = tk_min_thresh cfg, mc_high_thresh = tk_high_thresh cfg,
      mc_max_iou_distance = tk_max_iou_distance cfg, mc_high_thresh_person = tk_high_thresh_person cfg,
      mc_high_thresh_motorbike = tk_high_thresh_motorbike cfg, mc_max_age = tk_max_age cfg,
      mc_n_init = tk_n_init cfg\<rparr>"

definition bt_init :: "'h tracker_library \<Rightarrow> 'h ByteTrackTracker \<Rightarrow> bool \<times> 'h ByteTrackTracker" where
  "bt_init lib t =
     (case bt_handle t of
        Some _ \<Rightarrow> (True, t)
      | None \<Rightarrow>
          (case ma_tracker_create lib (toNativeConfig (bt_cfg t)) of
             None \<Rightarrow> (False, t)
           | Some h \<Rightarrow> (True, t\<lparr>bt_handle := Some h\<rparr>)))"

text \<open>The class id goes from \<open>uint32_t\<close> to \<open>int\<close>, and the track id back.\<close>

definition to_detection :: "DetectionObject \<Rightarrow> ma_tracker_detection" where
  "to_detection object =
     \<lparr>mt_x = bx_cx (ob_bbox object), mt_y = bx_cy (ob_bbox object), mt_width = bx_width (ob_bbox object),
      mt_height = bx_height (ob_bbox object), mt_confidence = ob_confidence object,
      mt_class_id = sint (ob_class_id object)\<rparr>"

definition set_track_id :: "ma_tracker_output \<Rightarrow> DetectionObject \<Rightarrow> DetectionObject" where
  "set_track_id output object =
     (if mo_matched output \<noteq> 0 \<and> mo_track_id output \<ge> 0
      then object\<lparr>ob_object_id := word_of_int (mo_track_id output)\<rparr> else object)"

text \<open>The part of \<open>track\<close> after the handle and the frame size are checked.\<close>

definition bt_process ::
  "'h tracker_library \<Rightarrow> TrackFrame \<Rightarrow> DetectionObject list \<Rightarrow> 'h \<Rightarrow> 'h ByteTrackTracker \<Rightarrow>
   bool \<times> DetectionObject list \<times> 'h ByteTrackTracker"
where
  "bt_process lib frame objects h t =
     (case ma_tracker_process lib h
             \<lparr>md_width = tf_width frame, md_height = tf_height frame, md_timestamp_ms = tf_timestamp_ms frame\<rparr>
             (map to_detection objects) of
        (None, h') \<Rightarrow> (False, objects, t\<lparr>bt_handle := Some h'\<rparr>)
      | (Some outputs, h') \<Rightarrow>
          (True, map (\<lambda>i. set_track_id (outputs i) (objects ! i)) [0..<length objects],
           t\<lparr>bt_handle := Some h'\<rparr>))"

definition bt_track ::
  "'h tracker_library \<Rightarrow> TrackFrame \<Rightarrow> DetectionObject list \<Rightarrow> 'h ByteTrackTracker \<Rightarrow>
   bool \<times> DetectionObject list \<times> 'h ByteTrackTracker"
where
  "bt_track lib frame objects t =
     (case bt_init lib t of
        (ok, t') \<Rightarrow>
          (case bt_handle t' of
             None \<Rightarrow> (False, objects, t')
           | Some h \<Rightarrow>
               if tf_width frame \<le> 0 \<or> tf_height frame \<le> 0 then (False, objects, t')
               else bt_process lib frame objects h t'))"

definition bt_reset :: "'h tracker_library \<Rightarrow> 'h ByteTrackTracker \<Rightarrow> 'h ByteTrackTracker" where
  "bt_reset lib t = t\<lparr>bt_handle := map_option (ma_tracker_reset lib) (bt_handle t)\<rparr>"

definition bt_release :: "'h ByteTrackTracker \<Rightarrow> 'h ByteTrackTracker" where
  "bt_release t = t\<lparr>bt_handle := None\<rparr>"

definition TrackerFactory_create :: "TrackerConfig \<Rightarrow> 'h ByteTrackTracker option" where
  "TrackerFactory_create cfg =
     (if \<not> tk_enabled cfg then None
      else if tk_tracker_type cfg = [] \<or> tk_tracker_type cfg = ''bytetrack''
      then Some (new_ByteTrackTracker cfg) else None)"

section \<open>Tracking only names objects\<close>

definition same_but_id :: "DetectionObject \<Rightarrow> DetectionObject \<Rightarrow> bool" where
  "same_but_id a b \<longleftrightarrow> a\<lparr>ob_object_id := 0\<rparr> = b\<lparr>ob_object_id := 0\<rparr>"

lemma same_but_id_refl [simp]: "same_but_id a a"
  by (simp add: same_but_id_def)

lemma same_but_idD:
  assumes "same_but_id a b"
  shows "ob_confidence a = ob_confidence b" "ob_bbox a = ob_bbox b" "ob_class_id a = ob_class_id b"
    "ob_class_name a = ob_class_name b"
  using assms by (cases a; cases b; simp add: same_but_id_def)+

lemma same_but_id_set_track [simp]: "same_but_id a (set_track_id out a)"
  by (simp add: same_but_id_def set_track_id_def)

lemma same_but_id_list_refl [simp]: "list_all2 same_but_id xs xs"
  by (simp add: list_all2_same)

lemma bt_process_names:
  "bt_process lib frame objects h t = (ok, objects', t') \<Longrightarrow> list_all2 same_but_id objects objects'"
  by (auto simp: bt_process_def list_all2_conv_all_nth split: prod.splits option.splits)

lemma bt_track_names:
  "bt_track lib frame objects t = (ok, objects', t') \<Longrightarrow> list_all2 same_but_id objects objects'"
  by (auto simp: bt_track_def split: prod.splits option.splits if_splits dest: bt_process_names)

end
