(* ===== verification/Detector.thy ===== *)
theory Detector
  imports Tracker
begin

text \<open>
  \<open>src/detector\<close>: the detector (\<open>AlgoDetector.cpp\<close>) and its chain of steps
  (\<open>AlgoDetectorWorkflow.cpp\<close>). The model runs in the library \<open>EdgeInfer\<close>, which is not part of the
  repository's sources: the record \<open>edge_library\<close> holds its two functions as parameters; \<open>None\<close> stands
  for a return code other than \<open>RET_SUCCESS\<close>. The clocks are arguments: \<open>now_s i\<close> is the reading
  taken for algorithm \<open>i\<close>, the record \<open>detect_clock\<close> holds the readings of one call of \<open>detect\<close>.
\<close>

section \<open>Data\<close>

record rotated_rect =
  rr_x :: f32
  rr_y :: f32
  rr_w :: f32
  rr_h :: f32
  rr_angle :: f32

record object_result =
  or_box :: rotated_rect
  or_prop :: f32
  or_class_id :: int
  or_class_name :: string

text \<open>The one field of \<open>filter_list_t\<close> the program sets; the others keep their empty values.\<close>

record filter_list =
  fl_confidence_threshold :: f32

record AlgoDetectContext =
  cx_active_algorithms :: "AlgorithmConfig list"
  cx_filters :: filter_list
  cx_alarm_config :: AlgorithmConfig
  cx_should_infer :: bool
  cx_has_alarm_config :: bool

definition new_AlgoDetectContext :: AlgoDetectContext where
  "new_AlgoDetectContext =
     \<lparr>cx_active_algorithms = [], cx_filters = \<lparr>fl_confidence_threshold = Fin 0\<rparr>,
      cx_alarm_config = default_AlgorithmConfig, cx_should_infer = False, cx_has_alarm_config = False\<rparr>"

section \<open>Preprocessing steps\<close>

definition kDefaultAlarmDedupIntervalMs :: int where
  "kDefaultAlarmDedupIntervalMs = 5000"

definition isAlgorithmActiveNow :: "int \<Rightarrow> AlgorithmConfig \<Rightarrow> bool" where
  "isAlgorithmActiveNow now_ms cfg =
     (if al_start_date cfg \<le> 0 \<and> al_end_date cfg \<le> 0 then True
      else let now_s = sgn now_ms * (\<bar>now_ms\<bar> div 1000)
           in if al_start_date cfg > 0 \<and> now_s < al_start_date cfg then False
              else if al_end_date cfg > 0 \<and> now_s > al_end_date cfg then False
              else True)"

definition ActiveAlgorithmPreprocessStep ::
  "(nat \<Rightarrow> int) \<Rightarrow> StreamConfig \<Rightarrow> AlgoDetectContext \<Rightarrow> bool \<times> AlgoDetectContext"
where
  "ActiveAlgorithmPreprocessStep now_ms cfg context =
     (let active = map snd (filter (\<lambda>(i, algorithm). isAlgorithmActiveNow (now_ms i) algorithm)
                             (enumerate 0 (sc_algorithms cfg)))
      in case active of
           [] \<Rightarrow> (False, context\<lparr>cx_active_algorithms := [], cx_should_infer := False\<rparr>)
         | front # _ \<Rightarrow>
             (True, context\<lparr>cx_active_algorithms := active, cx_alarm_config := front,
                            cx_should_infer := True, cx_has_alarm_config := True\<rparr>))"

definition InferFilterPreprocessStep :: "AlgoDetectContext \<Rightarrow> bool \<times> AlgoDetectContext" where
  "InferFilterPreprocessStep context =
     (if \<not> cx_has_alarm_config context then (False, context\<lparr>cx_should_infer := False\<rparr>)
      else (True, context\<lparr>cx_filters := \<lparr>fl_confidence_threshold = al_threshold (cx_alarm_config context)\<rparr>\<rparr>))"

text \<open>The steps run in the order of their list, up to the first that fails.\<close>

definition createDefaultPreprocessSteps ::
  "(nat \<Rightarrow> int) \<Rightarrow> StreamConfig \<Rightarrow> (AlgoDetectContext \<Rightarrow> bool \<times> AlgoDetectContext) list"
where
  "createDefaultPreprocessSteps now_ms cfg = [ActiveAlgorithmPreprocessStep now_ms cfg, InferFilterPreprocessStep]"

fun run_preprocess :: "('c \<Rightarrow> bool \<times> 'c) list \<Rightarrow> 'c \<Rightarrow> bool \<times> 'c" where
  "run_preprocess [] context = (True, context)"
| "run_preprocess (step # steps) context =
     (case step context of (ok, context') \<Rightarrow> if ok then run_preprocess steps context' else (False, context'))"

definition runPreprocessSteps :: "(nat \<Rightarrow> int) \<Rightarrow> StreamConfig \<Rightarrow> AlgoDetectContext \<Rightarrow> bool \<times> AlgoDetectContext" where
  "runPreprocessSteps now_ms cfg context = run_preprocess (createDefaultPreprocessSteps now_ms cfg) context"

section \<open>Formatting the results of the model\<close>

definition hasDetectionTarget :: "DetectionObject \<Rightarrow> bool" where
  "hasDetectionTarget target \<longleftrightarrow>
     f32_less (Fin 0) (ob_confidence target) \<and> f32_less (Fin 0) (bx_width (ob_bbox target)) \<and>
     f32_less (Fin 0) (bx_height (ob_bbox target))"

definition buildDetectionObject :: "object_result \<Rightarrow> DetectionObject" where
  "buildDetectionObject item =
     \<lparr>ob_object_id = 0, ob_class_id = word_of_int (or_class_id item), ob_class_name = or_class_name item,
      ob_confidence = or_prop item,
      ob_bbox = \<lparr>bx_cx = rr_x (or_box item), bx_cy = rr_y (or_box item), bx_width = rr_w (or_box item),
                 bx_height = rr_h (or_box item), bx_angle = rr_angle (or_box item)\<rparr>\<rparr>"

definition FormatInferResultPostprocessStep ::
  "FrameBundle \<Rightarrow> AlgoDetectContext \<Rightarrow> object_result list \<Rightarrow> FrameInferenceResult \<Rightarrow> FrameInferenceResult"
where
  "FormatInferResultPostprocessStep frame context raw_results output =
     output\<lparr>fr_stream_id := fb_stream_id frame, fr_frame_id := fb_frame_id frame, fr_pts := fb_pts frame,
            fr_algorithm_id := (if cx_has_alarm_config context then al_algorithm_id (cx_alarm_config context) else []),
            fr_objects := filter hasDetectionTarget (map buildDetectionObject raw_results),
            fr_alarm_objects := []\<rparr>"

section \<open>Tracking\<close>

record 'h TrackingPostprocessStep =
  ts_active_tracker_config :: TrackerConfig
  ts_tracker_initialized_for_config :: bool
  ts_tracker :: "'h ByteTrackTracker option"

definition new_TrackingPostprocessStep :: "'h TrackingPostprocessStep" where
  "new_TrackingPostprocessStep =
     \<lparr>ts_active_tracker_config = default_TrackerConfig, ts_tracker_initialized_for_config = False, ts_tracker = None\<rparr>"

text \<open>Releasing a tracker and dropping the pointer to it leave nothing of it.\<close>

definition ensureTrackerLocked ::
  "'h tracker_library \<Rightarrow> differencer \<Rightarrow> TrackerConfig \<Rightarrow> 'h TrackingPostprocessStep \<Rightarrow>
   bool \<times> 'h TrackingPostprocessStep"
where
  "ensureTrackerLocked lib pb tracker_cfg s =
     (if ts_tracker_initialized_for_config s \<and> same_tracker pb (ts_active_tracker_config s) tracker_cfg
      then (ts_tracker s \<noteq> None, s)
      else let s' = s\<lparr>ts_active_tracker_config := tracker_cfg, ts_tracker_initialized_for_config := True\<rparr>
           in case TrackerFactory_create tracker_cfg of
                None \<Rightarrow> (False, s'\<lparr>ts_tracker := None\<rparr>)
              | Some t \<Rightarrow>
                  (case bt_init lib t of
                     (True, t') \<Rightarrow> (True, s'\<lparr>ts_tracker := Some t'\<rparr>)
                   | (False, _) \<Rightarrow> (False, s'\<lparr>ts_tracker := None\<rparr>)))"

definition track_frame_of :: "FrameBundle \<Rightarrow> TrackFrame" where
  "track_frame_of frame =
     \<lparr>tf_stream_id = fb_stream_id frame, tf_frame_id = fb_frame_id frame, tf_timestamp_ms = fb_timestamp_ms frame,
      tf_width = fb_width frame, tf_height = fb_height frame\<rparr>"

definition run_tracking ::
  "'h tracker_library \<Rightarrow> differencer \<Rightarrow> FrameBundle \<Rightarrow> StreamConfig \<Rightarrow> FrameInferenceResult \<Rightarrow>
   'h TrackingPostprocessStep \<Rightarrow> FrameInferenceResult \<times> 'h TrackingPostprocessStep"
where
  "run_tracking lib pb frame cfg output s =
     (if fr_objects output = [] then (output, s)
      else case sc_tracker cfg of
             None \<Rightarrow> (output, new_TrackingPostprocessStep)
           | Some tracker_cfg \<Rightarrow>
               if \<not> tk_enabled tracker_cfg then (output, new_TrackingPostprocessStep)
               else (case ensureTrackerLocked lib pb tracker_cfg s of
                       (ok, s') \<Rightarrow>
                         (case (ok, ts_tracker s') of
                            (True, Some t) \<Rightarrow>
                              (case bt_track lib (track_frame_of frame) (fr_objects output) t of
                                 (_, objects, t') \<Rightarrow>
                                   (output\<lparr>fr_objects := objects\<rparr>, s'\<lparr>ts_tracker := Some t'\<rparr>))
                          | _ \<Rightarrow> (output, s'))))"

section \<open>Deduplication of alarms\<close>

record DeduplicateAlarmPostprocessStep =
  dd_by_object :: "(u32 \<times> int) list"
  dd_by_class :: "(u32 \<times> int) list"

definition new_DeduplicateAlarmPostprocessStep :: DeduplicateAlarmPostprocessStep where
  "new_DeduplicateAlarmPostprocessStep = \<lparr>dd_by_object = [], dd_by_class = []\<rparr>"

definition getAlarmDedupWindowMs :: "StreamConfig \<Rightarrow> int" where
  "getAlarmDedupWindowMs cfg =
     (if sc_alarm_dedup_interval_s cfg \<le> 0 then kDefaultAlarmDedupIntervalMs
      else sc_alarm_dedup_interval_s cfg * 1000)"

definition pruneExpiredEntries ::
  "int \<Rightarrow> int \<Rightarrow> DeduplicateAlarmPostprocessStep \<Rightarrow> DeduplicateAlarmPostprocessStep"
where
  "pruneExpiredEntries now_mono_ms dedup_window_ms s =
     (let expired_before = now_mono_ms - dedup_window_ms
      in s\<lparr>dd_by_object := filter (\<lambda>(_, t). \<not> t \<le> expired_before) (dd_by_object s),
           dd_by_class := filter (\<lambda>(_, t). \<not> t \<le> expired_before) (dd_by_class s)\<rparr>)"

text \<open>The lookup both halves of \<open>shouldKeepObject\<close> make, and the update that follows it.\<close>

definition recently_alarmed :: "(u32 \<times> int) list \<Rightarrow> u32 \<Rightarrow> int \<Rightarrow> int \<Rightarrow> bool" where
  "recently_alarmed last_alarm k now_mono_ms dedup_window_ms =
     (case map_of last_alarm k of
        None \<Rightarrow> False
      | Some t \<Rightarrow> now_mono_ms - t < dedup_window_ms)"

definition tracker_enabled :: "StreamConfig \<Rightarrow> bool" where
  "tracker_enabled cfg = (case sc_tracker cfg of None \<Rightarrow> False | Some t \<Rightarrow> tk_enabled t)"

definition shouldKeepObject ::
  "StreamConfig \<Rightarrow> DetectionObject \<Rightarrow> int \<Rightarrow> int \<Rightarrow> DeduplicateAlarmPostprocessStep \<Rightarrow>
   bool \<times> DeduplicateAlarmPostprocessStep"
where
  "shouldKeepObject cfg object now_mono_ms dedup_window_ms s =
     (if tracker_enabled cfg \<and> ob_object_id object > 0
      then if recently_alarmed (dd_by_object s) (ob_object_id object) now_mono_ms dedup_window_ms then (False, s)
           else (True, s\<lparr>dd_by_object := AList.update (ob_object_id object) now_mono_ms (dd_by_object s)\<rparr>)
      else if recently_alarmed (dd_by_class s) (ob_class_id object) now_mono_ms dedup_window_ms then (False, s)
           else (True, s\<lparr>dd_by_class := AList.update (ob_class_id object) now_mono_ms (dd_by_class s)\<rparr>))"

text \<open>The loop over the objects, which collects the kept ones in order.\<close>

fun keep_objects ::
  "StreamConfig \<Rightarrow> int \<Rightarrow> int \<Rightarrow> DetectionObject list \<Rightarrow> DeduplicateAlarmPostprocessStep \<Rightarrow>
   DetectionObject list \<times> DeduplicateAlarmPostprocessStep"
where
  "keep_objects cfg now_mono_ms dedup_window_ms [] s = ([], s)"
| "keep_objects cfg now_mono_ms dedup_window_ms (object # objects) s =
     (case shouldKeepObject cfg object now_mono_ms dedup_window_ms s of
        (keep, s') \<Rightarrow>
          (case keep_objects cfg now_mono_ms dedup_window_ms objects s' of
             (kept, s'') \<Rightarrow> (if keep then object # kept else kept, s'')))"

text \<open>\<open>steady_ms\<close> is the reading the step takes when the output holds no time of its own.\<close>

definition run_dedup ::
  "int \<Rightarrow> StreamConfig \<Rightarrow> FrameInferenceResult \<Rightarrow> DeduplicateAlarmPostprocessStep \<Rightarrow>
   FrameInferenceResult \<times> DeduplicateAlarmPostprocessStep"
where
  "run_dedup steady_ms cfg output s =
     (if fr_objects output = [] then (output\<lparr>fr_alarm_objects := []\<rparr>, s)
      else let now_mono_ms = (if fr_infer_done_mono_ms output > 0 then fr_infer_done_mono_ms output else steady_ms);
               dedup_window_ms = getAlarmDedupWindowMs cfg
           in if dedup_window_ms \<le> 0 then (output\<lparr>fr_alarm_objects := fr_objects output\<rparr>, s)
              else case keep_objects cfg now_mono_ms dedup_window_ms (fr_objects output)
                          (pruneExpiredEntries now_mono_ms dedup_window_ms s) of
                     (kept, s') \<Rightarrow> (output\<lparr>fr_alarm_objects := kept\<rparr>, s'))"

section \<open>The detector\<close>

record 'e edge_library =
  edge_init :: "string \<Rightarrow> 'e option"
  edge_infer :: "'e \<Rightarrow> DmaImage \<Rightarrow> filter_list \<Rightarrow> object_result list option \<times> 'e"

record ('e, 'h) AlgoDetector =
  ad_cfg :: StreamConfig
  ad_inited :: bool
  ad_infer :: "'e option"
  ad_tracking :: "'h TrackingPostprocessStep"
  ad_dedup :: DeduplicateAlarmPostprocessStep

definition new_AlgoDetector :: "StreamConfig \<Rightarrow> ('e, 'h) AlgoDetector" where
  "new_AlgoDetector cfg =
     \<lparr>ad_cfg = cfg, ad_inited = False, ad_infer = None, ad_tracking = new_TrackingPostprocessStep,
      ad_dedup = new_DeduplicateAlarmPostprocessStep\<rparr>"

definition ad_init :: "'e edge_library \<Rightarrow> ('e, 'h) AlgoDetector \<Rightarrow> bool \<times> ('e, 'h) AlgoDetector" where
  "ad_init lib d =
     (case filter (\<lambda>path. path \<noteq> []) (map al_model_path (sc_algorithms (ad_cfg d))) of
        [] \<Rightarrow> (False, d)
      | path # _ \<Rightarrow>
          (case edge_init lib path of
             None \<Rightarrow> (False, d\<lparr>ad_infer := None\<rparr>)
           | Some e \<Rightarrow> (True, d\<lparr>ad_infer := Some e, ad_inited := True\<rparr>)))"

definition ad_release :: "('e, 'h) AlgoDetector \<Rightarrow> ('e, 'h) AlgoDetector" where
  "ad_release d = (if \<not> ad_inited d then d else d\<lparr>ad_infer := None, ad_inited := False\<rparr>)"

record detect_clock =
  ck_system_ms :: "nat \<Rightarrow> int"
  ck_start_ms :: int
  ck_done_ms :: int
  ck_dedup_ms :: int

definition kDetectionTtlMs :: int where
  "kDetectionTtlMs = 5000"

text \<open>A step works on the output and on its own state, a field of the detector.\<close>

definition createDefaultPostprocessSteps ::
  "'h tracker_library \<Rightarrow> differencer \<Rightarrow> int \<Rightarrow> FrameBundle \<Rightarrow> StreamConfig \<Rightarrow> AlgoDetectContext \<Rightarrow> object_result list \<Rightarrow>
   (FrameInferenceResult \<times> ('e, 'h) AlgoDetector \<Rightarrow> FrameInferenceResult \<times> ('e, 'h) AlgoDetector) list"
where
  "createDefaultPostprocessSteps lib pb dedup_ms frame cfg context raw_results =
     [\<lambda>(output, d). (FormatInferResultPostprocessStep frame context raw_results output, d),
      \<lambda>(output, d). (case run_tracking lib pb frame cfg output (ad_tracking d) of (output', ts) \<Rightarrow> (output', d\<lparr>ad_tracking := ts\<rparr>)),
      \<lambda>(output, d). (case run_dedup dedup_ms cfg output (ad_dedup d) of (output', dd) \<Rightarrow> (output', d\<lparr>ad_dedup := dd\<rparr>))]"

definition runPostprocessSteps ::
  "'h tracker_library \<Rightarrow> differencer \<Rightarrow> int \<Rightarrow> FrameBundle \<Rightarrow> StreamConfig \<Rightarrow> AlgoDetectContext \<Rightarrow>
   object_result list \<Rightarrow> FrameInferenceResult \<Rightarrow> ('e, 'h) AlgoDetector \<Rightarrow>
   FrameInferenceResult \<times> ('e, 'h) AlgoDetector"
where
  "runPostprocessSteps lib pb dedup_ms frame cfg context raw_results output d =
     fold (\<lambda>step. step) (createDefaultPostprocessSteps lib pb dedup_ms frame cfg context raw_results) (output, d)"

text \<open>The part of \<open>detect\<close> after the guards: the model runs, and its results are processed.\<close>

definition infer_frame ::
  "'e edge_library \<Rightarrow> 'h tracker_library \<Rightarrow> differencer \<Rightarrow> detect_clock \<Rightarrow> FrameBundle \<Rightarrow> StreamConfig \<Rightarrow>
   AlgoDetectContext \<Rightarrow> 'e \<Rightarrow> DmaImage \<Rightarrow> ('e, 'h) AlgoDetector \<Rightarrow>
   FrameInferenceResult \<times> ('e, 'h) AlgoDetector"
where
  "infer_frame elib tlib pb clock frame cfg context e img d =
     (let output = new_FrameInferenceResult\<lparr>fr_infer_start_mono_ms := ck_start_ms clock\<rparr>
      in case edge_infer elib e img (cx_filters context) of
           (None, e') \<Rightarrow> (output, d\<lparr>ad_infer := Some e'\<rparr>)
         | (Some results, e') \<Rightarrow>
             runPostprocessSteps tlib pb (ck_dedup_ms clock) frame cfg context results
               (output\<lparr>fr_infer_done_mono_ms := ck_done_ms clock,
                       fr_expire_at_mono_ms := ck_done_ms clock + kDetectionTtlMs\<rparr>)
               (d\<lparr>ad_infer := Some e'\<rparr>))"

definition ad_detect ::
  "'e edge_library \<Rightarrow> 'h tracker_library \<Rightarrow> differencer \<Rightarrow> detect_clock \<Rightarrow> FrameBundle \<Rightarrow> StreamConfig \<Rightarrow>
   ('e, 'h) AlgoDetector \<Rightarrow> FrameInferenceResult \<times> ('e, 'h) AlgoDetector"
where
  "ad_detect elib tlib pb clock frame cfg d =
     (case (ad_inited d, ad_infer d) of
        (True, Some e) \<Rightarrow>
          (case fb_decoded_image frame of
             None \<Rightarrow> (new_FrameInferenceResult, d)
           | Some img \<Rightarrow>
               if di_fd img < 0 then (new_FrameInferenceResult, d)
               else (case runPreprocessSteps (ck_system_ms clock) cfg new_AlgoDetectContext of
                       (ok, context) \<Rightarrow>
                         if \<not> ok \<or> \<not> cx_should_infer context then (new_FrameInferenceResult, d)
                         else infer_frame elib tlib pb clock frame cfg context e img d))
      | _ \<Rightarrow> (new_FrameInferenceResult, d))"

definition DetectorFactory_create :: "StreamConfig \<Rightarrow> ('e, 'h) AlgoDetector" where
  "DetectorFactory_create cfg = new_AlgoDetector cfg"

end
