(* ===== verification/InferScheduler.thy ===== *)
theory InferScheduler
  imports StreamTypes
begin

text \<open>
  \<open>src/pipeline/InferScheduler.cpp\<close>: the round-robin scheduler that hands one frame of one
  stream at a time to the inference workers. Every method holds \<open>mutex_\<close> and is one atomic
  operation.

  The scheduler sees a buffer only through \<open>IStreamBuffer::selectFrameForInference\<close>, so its
  operations take that method as the argument \<open>select\<close>; the buffers live in a heap that the
  other threads change too, and an entry holds a reference (a non-null \<open>shared_ptr\<close> keeps its
  buffer alive, so the heap is total). \<open>acquireTask\<close> is modelled at the moment its wait
  tests its predicate; \<open>AcquireBlocked\<close> says that a wait without a time limit goes on.
\<close>

section \<open>State\<close>

type_synonym buffer_ref = nat
type_synonym 'b buffer_heap = "buffer_ref \<Rightarrow> 'b"

record InferTask =
  it_stream_id :: string
  it_config :: StreamConfig
  it_buffer :: "buffer_ref option"
  it_frame :: "FrameBundle option"

record SchedulerEntry =
  se_config :: StreamConfig
  se_buffer :: "buffer_ref option"
  se_inflight :: bool

record RoundRobinInferScheduler =
  rr_entries :: "(string \<times> SchedulerEntry) list"
  rr_order :: "string list"
  rr_cursor :: nat
  rr_stopped :: bool

definition createRoundRobinInferScheduler :: RoundRobinInferScheduler where
  "createRoundRobinInferScheduler =
     \<lparr>rr_entries = [], rr_order = [], rr_cursor = 0, rr_stopped = False\<rparr>"

section \<open>Operations\<close>

definition rr_upsertStream ::
  "string \<Rightarrow> StreamConfig \<Rightarrow> buffer_ref option \<Rightarrow> RoundRobinInferScheduler \<Rightarrow> RoundRobinInferScheduler"
where
  "rr_upsertStream stream_id config buffer s =
     (let inflight = (case map_of (rr_entries s) stream_id of None \<Rightarrow> False | Some e \<Rightarrow> se_inflight e)
      in s\<lparr>rr_entries := AList.update stream_id
               \<lparr>se_config = config, se_buffer = buffer, se_inflight = inflight\<rparr> (rr_entries s),
           rr_order := (if stream_id \<in> set (rr_order s) then rr_order s
                        else rr_order s @ [stream_id])\<rparr>)"

definition rr_removeStream :: "string \<Rightarrow> RoundRobinInferScheduler \<Rightarrow> RoundRobinInferScheduler" where
  "rr_removeStream stream_id s =
     (let order = removeAll stream_id (rr_order s)
      in s\<lparr>rr_entries := AList.delete stream_id (rr_entries s),
           rr_order := order,
           rr_cursor := (if rr_cursor s \<ge> length order then 0 else rr_cursor s)\<rparr>)"

text \<open>The loop of \<open>tryAcquireLocked\<close> over the offsets still to be tried.\<close>

fun rr_scan ::
  "('b \<Rightarrow> FrameBundle option \<times> 'b) \<Rightarrow> RoundRobinInferScheduler \<Rightarrow> nat list \<Rightarrow> 'b buffer_heap \<Rightarrow>
   (InferTask \<times> RoundRobinInferScheduler) option \<times> 'b buffer_heap"
where
  "rr_scan select s [] heap = (None, heap)"
| "rr_scan select s (offset # offsets) heap =
     (let total = length (rr_order s);
          index = (rr_cursor s + offset) mod total;
          stream_id = rr_order s ! index
      in case map_of (rr_entries s) stream_id of
           None \<Rightarrow> rr_scan select s offsets heap
         | Some e \<Rightarrow>
             (if se_inflight e then rr_scan select s offsets heap
              else case se_buffer e of
                None \<Rightarrow> rr_scan select s offsets heap
              | Some ref \<Rightarrow>
                  (case select (heap ref) of
                     (None, b) \<Rightarrow> rr_scan select s offsets (heap(ref := b))
                   | (Some frame, b) \<Rightarrow>
                       (Some (\<lparr>it_stream_id = stream_id, it_config = se_config e,
                               it_buffer = Some ref, it_frame = Some frame\<rparr>,
                              s\<lparr>rr_entries := AList.update stream_id (e\<lparr>se_inflight := True\<rparr>) (rr_entries s),
                                rr_cursor := (index + 1) mod total\<rparr>),
                        heap(ref := b)))))"

definition rr_tryAcquireLocked ::
  "('b \<Rightarrow> FrameBundle option \<times> 'b) \<Rightarrow> RoundRobinInferScheduler \<Rightarrow> 'b buffer_heap \<Rightarrow>
   (InferTask \<times> RoundRobinInferScheduler) option \<times> 'b buffer_heap"
where
  "rr_tryAcquireLocked select s heap =
     (if rr_order s = [] then (None, heap)
      else rr_scan select s [0..<length (rr_order s)] heap)"

datatype acquire_outcome = AcquireBlocked | Acquired InferTask | NotAcquired

definition rr_acquireTask ::
  "('b \<Rightarrow> FrameBundle option \<times> 'b) \<Rightarrow> nat \<Rightarrow> RoundRobinInferScheduler \<Rightarrow> 'b buffer_heap \<Rightarrow>
   acquire_outcome \<times> RoundRobinInferScheduler \<times> 'b buffer_heap"
where
  "rr_acquireTask select timeout_ms s heap =
     (if rr_stopped s then (NotAcquired, s, heap)
      else case rr_tryAcquireLocked select s heap of
             (Some (task, s'), heap') \<Rightarrow> (Acquired task, s', heap')
           | (None, heap') \<Rightarrow> (if timeout_ms = 0 then AcquireBlocked else NotAcquired, s, heap'))"

definition rr_clear_inflight :: "string \<Rightarrow> RoundRobinInferScheduler \<Rightarrow> RoundRobinInferScheduler" where
  "rr_clear_inflight stream_id s =
     (case map_of (rr_entries s) stream_id of
        None \<Rightarrow> s
      | Some e \<Rightarrow> s\<lparr>rr_entries := AList.update stream_id (e\<lparr>se_inflight := False\<rparr>) (rr_entries s)\<rparr>)"

definition rr_completeTask :: "string \<Rightarrow> int \<Rightarrow> RoundRobinInferScheduler \<Rightarrow> RoundRobinInferScheduler" where
  "rr_completeTask stream_id frame_id s = rr_clear_inflight stream_id s"

definition rr_cancelTask :: "string \<Rightarrow> int \<Rightarrow> RoundRobinInferScheduler \<Rightarrow> RoundRobinInferScheduler" where
  "rr_cancelTask stream_id frame_id s = rr_clear_inflight stream_id s"

text \<open>\<open>notifyFrameReady\<close> only wakes a waiting worker.\<close>

definition rr_notifyFrameReady :: "string \<Rightarrow> RoundRobinInferScheduler \<Rightarrow> RoundRobinInferScheduler" where
  "rr_notifyFrameReady stream_id s = s"

definition rr_stop :: "RoundRobinInferScheduler \<Rightarrow> RoundRobinInferScheduler" where
  "rr_stop s = s\<lparr>rr_stopped := True\<rparr>"

end
