(* ===== verification/Timestamps.thy ===== *)
theory Timestamps
  imports Prelude
begin

text \<open>
  \<open>common/Time.h\<close>: the text of a time stamp, as \<open>makeTimestamp\<close> prints it into the names of recordings and
  pictures. The reading of the clock and \<open>localtime_r\<close> are parameters: the broken-down time is the argument. The
  time stamp is as wide as \<open>substr(0, 8)\<close> expects, and a reader of its fields gets the time back, so two different
  seconds never share a name.
\<close>

section \<open>Decimal numbers\<close>

text \<open>Decimal digits, as \<open>std::to_string\<close> writes them.\<close>

fun digits :: "nat \<Rightarrow> string" where
  "digits n = (if n < 10 then [char_of (48 + n)] else digits (n div 10) @ [char_of (48 + n mod 10)])"

declare digits.simps [simp del]

definition decimal :: "int \<Rightarrow> string" where
  "decimal i = (if i < 0 then ''-'' @ digits (nat (- i)) else digits (nat i))"

text \<open>The number a string of digits stands for, in the way of \<open>strtol\<close>.\<close>

definition digits_value :: "string \<Rightarrow> nat" where
  "digits_value s = foldl (\<lambda>n c. 10 * n + (of_char c - 48)) 0 s"

lemma digits_value_snoc: "digits_value (s @ [c]) = 10 * digits_value s + (of_char c - 48)"
  by (simp add: digits_value_def)

lemma of_char_digit: "d < 10 \<Longrightarrow> (of_char (char_of (48 + d) :: char) :: nat) = 48 + d"
  by simp

lemma digits_value_digits [simp]: "digits_value (digits n) = n"
proof (induction n rule: digits.induct)
  case (1 n)
  show ?case
  proof (cases "n < 10")
    case True
    then show ?thesis
      using digits_value_snoc [of "[]"] by (simp add: digits.simps [of n] digits_value_def)
  next
    case False
    have "digits_value (digits n) = 10 * (n div 10) + (of_char (char_of (48 + n mod 10) :: char) - 48)"
      using 1 False by (simp add: digits.simps [of n] digits_value_snoc)
    then show ?thesis
      by (simp add: of_char_digit)
  qed
qed

lemma length_digits_bound: "n < 10 ^ Suc k \<Longrightarrow> length (digits n) \<le> Suc k"
proof (induction k arbitrary: n)
  case 0
  then show ?case
    by (simp add: digits.simps [of n])
next
  case (Suc k)
  show ?case
  proof (cases "n < 10")
    case False
    have "n div 10 < 10 ^ Suc k"
      using Suc.prems by (simp add: less_mult_imp_div_less mult.commute)
    then have "length (digits (n div 10)) \<le> Suc k"
      by (rule Suc.IH)
    then show ?thesis
      using False by (simp add: digits.simps [of n])
  qed (simp add: digits.simps [of n])
qed

lemma length_digits_lower: "10 ^ k \<le> n \<Longrightarrow> Suc k \<le> length (digits n)"
proof (induction k arbitrary: n)
  case 0
  then show ?case
    by (simp add: digits.simps [of n])
next
  case (Suc k)
  have "(10::nat) ^ 1 \<le> 10 ^ Suc k"
    by (intro power_increasing) simp_all
  then have "(10::nat) ^ 1 \<le> n"
    using Suc.prems by (rule order_trans)
  then have large: "\<not> n < 10"
    by simp
  have "10 ^ k \<le> n div 10"
    using Suc.prems by (simp add: less_eq_div_iff_mult_less_eq mult.commute)
  then have "Suc k \<le> length (digits (n div 10))"
    by (rule Suc.IH)
  then show ?case
    using large by (simp add: digits.simps [of n])
qed

section \<open>makeTimestamp\<close>

text \<open>The broken-down local time, \<open>std::tm\<close>; the year counts from 1900 and the month from 0.\<close>

record tm =
  tm_year :: int
  tm_mon :: int
  tm_mday :: int
  tm_hour :: int
  tm_min :: int
  tm_sec :: int

text \<open>What the conversions of \<open>strftime\<close> print: \<open>%Y\<close> the number itself, the others at least two digits.\<close>

definition two_digits :: "int \<Rightarrow> string" where
  "two_digits i = (let s = decimal i in replicate (2 - length s) CHR ''0'' @ s)"

definition makeTimestamp :: "tm \<Rightarrow> string" where
  "makeTimestamp tm_buf =
     decimal (tm_year tm_buf + 1900) @ two_digits (tm_mon tm_buf + 1) @ two_digits (tm_mday tm_buf) @ ''_'' @
     two_digits (tm_hour tm_buf) @ two_digits (tm_min tm_buf) @ two_digits (tm_sec tm_buf)"

text \<open>What \<open>localtime_r\<close> returns, in the years with four digits; a leap second is the second 60.\<close>

definition tm_valid :: "tm \<Rightarrow> bool" where
  "tm_valid t \<longleftrightarrow>
     tm_year t \<in> {-900..8099} \<and> tm_mon t \<in> {0..11} \<and> tm_mday t \<in> {1..31} \<and>
     tm_hour t \<in> {0..23} \<and> tm_min t \<in> {0..59} \<and> tm_sec t \<in> {0..60}"

definition read_field :: "nat \<Rightarrow> nat \<Rightarrow> string \<Rightarrow> int" where
  "read_field from_pos len s = int (digits_value (take len (drop from_pos s)))"

definition read_timestamp :: "string \<Rightarrow> tm" where
  "read_timestamp s =
     \<lparr>tm_year = read_field 0 4 s - 1900, tm_mon = read_field 4 2 s - 1, tm_mday = read_field 6 2 s,
      tm_hour = read_field 9 2 s, tm_min = read_field 11 2 s, tm_sec = read_field 13 2 s\<rparr>"

lemma decimal_year:
  assumes "1000 \<le> y" "y \<le> 9999"
  shows "length (decimal y) = 4" "int (digits_value (decimal y)) = y"
proof -
  have "length (digits (nat y)) \<le> Suc 3"
    using assms by (intro length_digits_bound) simp
  moreover have "Suc 3 \<le> length (digits (nat y))"
    using assms by (intro length_digits_lower) simp
  ultimately show "length (decimal y) = 4"
    using assms by (simp add: decimal_def)
  show "int (digits_value (decimal y)) = y"
    using assms by (simp add: decimal_def)
qed

lemma digits_value_pad: "digits_value (replicate k CHR ''0'' @ s) = digits_value s"
  by (induction k) (simp_all add: digits_value_def)

lemma two_digits_field:
  assumes "0 \<le> i" "i \<le> 99"
  shows "length (two_digits i) = 2" "int (digits_value (two_digits i)) = i"
proof -
  have "length (digits (nat i)) \<le> Suc 1"
    using assms by (intro length_digits_bound) simp
  then show "length (two_digits i) = 2"
    using assms by (simp add: two_digits_def decimal_def Let_def)
  show "int (digits_value (two_digits i)) = i"
    using assms by (simp add: two_digits_def decimal_def Let_def digits_value_pad)
qed

text \<open>The fields of a time stamp stand at fixed places.\<close>

lemma read_timestamp_fields:
  assumes "length y = 4" "length m = 2" "length d = 2" "length h = 2" "length mi = 2" "length s = 2"
  shows "read_timestamp (y @ m @ d @ ''_'' @ h @ mi @ s) =
     \<lparr>tm_year = int (digits_value y) - 1900, tm_mon = int (digits_value m) - 1, tm_mday = int (digits_value d),
      tm_hour = int (digits_value h), tm_min = int (digits_value mi), tm_sec = int (digits_value s)\<rparr>"
  by (simp add: read_timestamp_def read_field_def assms)

theorem makeTimestamp_reads_back:
  assumes "tm_valid t"
  shows "length (makeTimestamp t) = 15 \<and> read_timestamp (makeTimestamp t) = t"
proof -
  have year: "length (decimal (tm_year t + 1900)) = 4"
      "int (digits_value (decimal (tm_year t + 1900))) = tm_year t + 1900"
    using assms by (auto simp: tm_valid_def intro!: decimal_year)
  have mon: "length (two_digits (tm_mon t + 1)) = 2" "int (digits_value (two_digits (tm_mon t + 1))) = tm_mon t + 1"
    using assms by (auto simp: tm_valid_def intro!: two_digits_field)
  have day: "length (two_digits (tm_mday t)) = 2" "int (digits_value (two_digits (tm_mday t))) = tm_mday t"
    using assms by (auto simp: tm_valid_def intro!: two_digits_field)
  have hour: "length (two_digits (tm_hour t)) = 2" "int (digits_value (two_digits (tm_hour t))) = tm_hour t"
    using assms by (auto simp: tm_valid_def intro!: two_digits_field)
  have minute: "length (two_digits (tm_min t)) = 2" "int (digits_value (two_digits (tm_min t))) = tm_min t"
    using assms by (auto simp: tm_valid_def intro!: two_digits_field)
  have sec: "length (two_digits (tm_sec t)) = 2" "int (digits_value (two_digits (tm_sec t))) = tm_sec t"
    using assms by (auto simp: tm_valid_def intro!: two_digits_field)
  have "read_timestamp (makeTimestamp t) =
     \<lparr>tm_year = tm_year t + 1900 - 1900, tm_mon = tm_mon t + 1 - 1, tm_mday = tm_mday t,
      tm_hour = tm_hour t, tm_min = tm_min t, tm_sec = tm_sec t\<rparr>"
    unfolding makeTimestamp_def read_timestamp_fields [OF year(1) mon(1) day(1) hour(1) minute(1) sec(1)]
      year(2) mon(2) day(2) hour(2) minute(2) sec(2) by (rule refl)
  then have "read_timestamp (makeTimestamp t) = t"
    by (cases t) simp
  moreover have "length (makeTimestamp t) = 15"
    unfolding makeTimestamp_def length_append year(1) mon(1) day(1) hour(1) minute(1) sec(1) by simp
  ultimately show ?thesis
    by simp
qed

lemma makeTimestamp_inj: "tm_valid t \<Longrightarrow> tm_valid u \<Longrightarrow> makeTimestamp t = makeTimestamp u \<Longrightarrow> t = u"
  by (metis makeTimestamp_reads_back)

end
