(* ===== verification/Recorder.thy ===== *)
theory Recorder
  imports Muxing Timestamps
begin

text \<open>
  \<open>src/stream/Recorder.cpp\<close>: alarm recordings. The recorder caches the packets since the last
  keyframe; a request opens a file, writes the cache to it and then every packet that comes, until the
  deadline. A file is written under a hidden name and renamed when it is closed.

  The FFmpeg calls are parameters as in \<open>Muxing\<close>, the clock and the time stamp of the file name
  are arguments. The field \<open>rc_finished\<close> is the directory: the renames of closed files, each with the packets in it.
\<close>

section \<open>Names of files\<close>

text \<open>\<open>isalnum\<close> of the C locale; a negative \<open>char\<close> is none.\<close>

definition isalnum :: "char \<Rightarrow> bool" where
  "isalnum c \<longleftrightarrow> (CHR ''0'' \<le> c \<and> c \<le> CHR ''9'') \<or> (CHR ''A'' \<le> c \<and> c \<le> CHR ''Z'') \<or> (CHR ''a'' \<le> c \<and> c \<le> CHR ''z'')"

definition sanitizeFileComponent :: "string \<Rightarrow> string" where
  "sanitizeFileComponent s =
     (let sanitized = map (\<lambda>ch. if isalnum ch \<or> ch = CHR ''-'' \<or> ch = CHR ''_'' then ch else CHR ''_'') s
      in if sanitized = [] then ''unknown'' else sanitized)"

text \<open>\<open>std::filesystem::path\<close>: the last component, the part before it, and \<open>operator/\<close>.\<close>

definition path_filename :: "string \<Rightarrow> string" where
  "path_filename p = rev (takeWhile (\<lambda>c. c \<noteq> CHR ''/'') (rev p))"

definition path_parent :: "string \<Rightarrow> string" where
  "path_parent p =
     (let dir = rev (dropWhile (\<lambda>c. c \<noteq> CHR ''/'') (rev p));
          stripped = rev (dropWhile (\<lambda>c. c = CHR ''/'') (rev dir))
      in if stripped = [] \<and> dir \<noteq> [] then ''/'' else stripped)"

definition path_join :: "string \<Rightarrow> string \<Rightarrow> string" where
  "path_join a b =
     (if b \<noteq> [] \<and> hd b = CHR ''/'' then b
      else if a = [] \<or> last a = CHR ''/'' then a @ b else a @ ''/'' @ b)"

definition makeHiddenRecordingName :: "string \<Rightarrow> string" where
  "makeHiddenRecordingName visible_name =
     path_join (path_parent visible_name) (''.'' @ path_filename visible_name)"

definition buildRecordingFileName :: "string \<Rightarrow> string \<Rightarrow> string \<Rightarrow> string" where
  "buildRecordingFileName timestamp stream_id extension =
     (let date_dir = take 8 timestamp;
          stream_dir = sanitizeFileComponent stream_id;
          file_name = stream_dir @ ''_'' @ timestamp @ ''.'' @ extension
      in date_dir @ ''/'' @ stream_dir @ ''/'' @ file_name)"

section \<open>State\<close>

record finished_file =
  ff_tmp_path :: string
  ff_final_path :: string
  ff_packets :: "AVPacket list"

record Recorder =
  rc_stream_id :: string
  rc_base_dir :: string
  rc_record_file_name :: string
  rc_record_tmp_file_name :: string
  rc_stream_specs :: "RtspStreamSpec list"
  rc_deadline_ms :: int
  rc_start_pts_us :: int
  rc_fmt_ctx :: "mux_context option"
  rc_stream_states :: stream_map
  rc_gop_cache :: "AVPacket list"
  rc_record_format :: string
  rc_finished :: "finished_file list"

definition new_Recorder :: Recorder where
  "new_Recorder =
     \<lparr>rc_stream_id = [], rc_base_dir = [], rc_record_file_name = [], rc_record_tmp_file_name = [],
      rc_stream_specs = [], rc_deadline_ms = 0, rc_start_pts_us = -1, rc_fmt_ctx = None, rc_stream_states = [],
      rc_gop_cache = [], rc_record_format = ''flv'', rc_finished = []\<rparr>"

definition kDefaultRecordDurationS :: int where
  "kDefaultRecordDurationS = 10"

definition setRecordFormat :: "string \<Rightarrow> Recorder \<Rightarrow> Recorder" where
  "setRecordFormat fmt s = (if fmt = ''flv'' \<or> fmt = ''mp4'' then s\<lparr>rc_record_format := fmt\<rparr> else s)"

definition rc_isConfigured :: "Recorder \<Rightarrow> bool" where
  "rc_isConfigured s \<longleftrightarrow> rc_stream_id s \<noteq> [] \<and> rc_base_dir s \<noteq> []"

definition rc_isActive :: "Recorder \<Rightarrow> bool" where
  "rc_isActive s \<longleftrightarrow> rc_fmt_ctx s \<noteq> None"

section \<open>Opening and closing files\<close>

definition rc_close :: "Recorder \<Rightarrow> Recorder" where
  "rc_close s =
     (let s' = s\<lparr>rc_deadline_ms := 0, rc_start_pts_us := -1, rc_record_file_name := [],
                 rc_record_tmp_file_name := []\<rparr>
      in case rc_fmt_ctx s of
           None \<Rightarrow> s'
         | Some c \<Rightarrow>
             s'\<lparr>rc_fmt_ctx := None, rc_stream_states := [],
                rc_finished := rc_finished s @
                  [\<lparr>ff_tmp_path = path_join (rc_base_dir s) (rc_record_tmp_file_name s),
                    ff_final_path = path_join (rc_base_dir s) (rc_record_file_name s),
                    ff_packets = mx_packets c\<rparr>]\<rparr>)"

definition openRecording :: "string \<Rightarrow> open_result \<Rightarrow> Recorder \<Rightarrow> bool \<times> Recorder" where
  "openRecording timestamp r s =
     (let file = buildRecordingFileName timestamp (rc_stream_id s) (rc_record_format s)
      in case open_muxer r (rc_stream_specs s) of
           None \<Rightarrow> (False, s\<lparr>rc_record_file_name := [], rc_record_tmp_file_name := []\<rparr>)
         | Some (c, states) \<Rightarrow>
             (True, s\<lparr>rc_record_file_name := file, rc_record_tmp_file_name := makeHiddenRecordingName file,
                      rc_fmt_ctx := Some c, rc_stream_states := states, rc_start_pts_us := -1\<rparr>))"

section \<open>Writing packets\<close>

definition AV_TIME_BASE_Q :: AVRational where
  "AV_TIME_BASE_Q = \<lparr>rat_num = 1, rat_den = 1000000\<rparr>"

text \<open>The start of the file, set by the first packet with a time.\<close>

definition next_start_pts :: "av_library \<Rightarrow> OutputStreamState \<Rightarrow> AVPacket \<Rightarrow> int \<Rightarrow> int" where
  "next_start_pts lib st packet start_pts_us =
     (let first_ts = (if av_dts packet \<noteq> AV_NOPTS_VALUE then av_dts packet else av_pts packet)
      in if start_pts_us < 0 \<and> first_ts \<noteq> AV_NOPTS_VALUE
         then av_rescale_q lib first_ts (scp_time_base (os_spec st)) AV_TIME_BASE_Q
         else start_pts_us)"

definition mux_time :: "av_library \<Rightarrow> OutputStreamState \<Rightarrow> int \<Rightarrow> int \<Rightarrow> int" where
  "mux_time lib st start_pts_us t =
     (if t = AV_NOPTS_VALUE then t
      else av_rescale_q lib (max 0 (av_rescale_q lib t (scp_time_base (os_spec st)) AV_TIME_BASE_Q - start_pts_us))
             AV_TIME_BASE_Q (as_time_base (os_stream st)))"

definition rc_mux_packet :: "av_library \<Rightarrow> OutputStreamState \<Rightarrow> int \<Rightarrow> AVPacket \<Rightarrow> AVPacket" where
  "rc_mux_packet lib st start_pts_us packet =
     (let p = packet\<lparr>av_stream_index := int (as_index (os_stream st)), av_pos := -1\<rparr>;
          p' = (if start_pts_us \<ge> 0
                then p\<lparr>av_pts := mux_time lib st start_pts_us (av_pts p), av_dts := mux_time lib st start_pts_us (av_dts p)\<rparr>
                else av_packet_rescale_ts lib p (scp_time_base (os_spec st)) (as_time_base (os_stream st)))
      in if av_duration p' > 0
         then p'\<lparr>av_duration := av_rescale_q lib (av_duration p') (scp_time_base (os_spec st)) (as_time_base (os_stream st))\<rparr>
         else p')"

definition writePacketInternal :: "av_library \<Rightarrow> write_result \<Rightarrow> AVPacket \<Rightarrow> Recorder \<Rightarrow> bool \<times> Recorder" where
  "writePacketInternal lib w packet s =
     (case rc_fmt_ctx s of
        None \<Rightarrow> (False, s)
      | Some c \<Rightarrow>
          (case map_of (rc_stream_states s) (av_stream_index packet) of
             None \<Rightarrow> (False, s)
           | Some st \<Rightarrow>
               if \<not> wr_ref w then (False, s)
               else let start = next_start_pts lib st packet (rc_start_pts_us s);
                        s' = s\<lparr>rc_start_pts_us := start\<rparr>
                    in if \<not> wr_write w then (False, s')
                       else (True, s'\<lparr>rc_fmt_ctx := Some (c\<lparr>mx_packets := mx_packets c @ [rc_mux_packet lib st start packet]\<rparr>)\<rparr>)))"

section \<open>The cache of the current group of pictures\<close>

definition hasVideoStream :: "Recorder \<Rightarrow> bool" where
  "hasVideoStream s \<longleftrightarrow> list_ex (\<lambda>spec. rs_media_type spec = Video) (rc_stream_specs s)"

definition isVideoPacket :: "AVPacket \<Rightarrow> Recorder \<Rightarrow> bool" where
  "isVideoPacket packet s =
     (case List.find (\<lambda>spec. rs_input_stream_index spec = av_stream_index packet) (rc_stream_specs s) of
        None \<Rightarrow> False
      | Some spec \<Rightarrow> rs_media_type spec = Video)"

definition cachePacket :: "bool \<Rightarrow> AVPacket \<Rightarrow> Recorder \<Rightarrow> Recorder" where
  "cachePacket clone_ok packet s =
     (let is_keyframe = isVideoPacket packet s \<and> av_key_flag packet;
          s' = (if is_keyframe then s\<lparr>rc_gop_cache := []\<rparr> else s)
      in if rc_gop_cache s' = [] \<and> \<not> is_keyframe then s'
         else case clonePacket clone_ok packet of
                None \<Rightarrow> s'
              | Some cloned_packet \<Rightarrow> s'\<lparr>rc_gop_cache := rc_gop_cache s' @ [cloned_packet]\<rparr>)"

definition clearPacketCache :: "Recorder \<Rightarrow> Recorder" where
  "clearPacketCache s = s\<lparr>rc_gop_cache := []\<rparr>"

text \<open>\<open>ws i\<close> is the outcome of the write of cached packet \<open>i\<close>.\<close>

fun flush_packets :: "av_library \<Rightarrow> (nat \<Rightarrow> write_result) \<Rightarrow> nat \<Rightarrow> AVPacket list \<Rightarrow> Recorder \<Rightarrow> bool \<times> Recorder" where
  "flush_packets lib ws i [] s = (True, s)"
| "flush_packets lib ws i (packet # packets) s =
     (case writePacketInternal lib (ws i) packet s of
        (False, s') \<Rightarrow> (False, s')
      | (True, s') \<Rightarrow> flush_packets lib ws (Suc i) packets s')"

definition flushCachedGop :: "av_library \<Rightarrow> (nat \<Rightarrow> write_result) \<Rightarrow> Recorder \<Rightarrow> bool \<times> Recorder" where
  "flushCachedGop lib ws s = flush_packets lib ws 0 (rc_gop_cache s) s"

section \<open>The operations\<close>

definition rc_sameStreamSpecs :: "RtspStreamSpec list \<Rightarrow> RtspStreamSpec list \<Rightarrow> bool" where
  "rc_sameStreamSpecs left right \<longleftrightarrow>
     length left = length right \<and>
     list_all (\<lambda>(lhs, rhs). rs_media_type lhs = rs_media_type rhs \<and>
         rs_input_stream_index lhs = rs_input_stream_index rhs \<and>
         rs_sample_rate lhs = rs_sample_rate rhs \<and> rs_channels lhs = rs_channels rhs \<and>
         sameStreamCodecParams lhs rhs) (zip left right)"

definition normalize_spec :: "RtspStreamSpec \<Rightarrow> RtspStreamSpec" where
  "normalize_spec spec =
     (let spec' = spec\<lparr>scp_time_base := normalizedTimeBase (scp_time_base spec)\<rparr>
      in if rs_media_type spec = Video
         then spec'\<lparr>scp_fps := (if scp_fps spec > 0 then scp_fps spec else 25)\<rparr> else spec')"

definition rc_configure :: "string \<Rightarrow> string \<Rightarrow> RtspStreamSpec list \<Rightarrow> Recorder \<Rightarrow> bool \<times> Recorder" where
  "rc_configure stream_id base_dir specs s =
     (if stream_id = [] \<or> base_dir = [] \<or> specs = [] then (False, s)
      else let normalized_specs = map normalize_spec specs
           in if \<not> list_ex (\<lambda>spec. rs_media_type spec = Video) specs then (False, s)
              else let params_changed = rc_stream_id s \<noteq> stream_id \<or> rc_base_dir s \<noteq> base_dir \<or>
                         \<not> rc_sameStreamSpecs (rc_stream_specs s) normalized_specs;
                       s' = (if params_changed then clearPacketCache (rc_close s) else s)
                   in (True, s'\<lparr>rc_stream_id := stream_id, rc_base_dir := base_dir, rc_stream_specs := normalized_specs\<rparr>))"

definition rc_start ::
  "av_library \<Rightarrow> string \<Rightarrow> open_result \<Rightarrow> (nat \<Rightarrow> write_result) \<Rightarrow> Recorder \<Rightarrow> bool \<times> Recorder"
where
  "rc_start lib timestamp r ws s =
     (if rc_fmt_ctx s \<noteq> None then (True, s)
      else if \<not> rc_isConfigured s then (False, s)
      else case openRecording timestamp r s of
             (False, s') \<Rightarrow> (False, s')
           | (True, s') \<Rightarrow>
               (case flushCachedGop lib ws s' of
                  (False, s'') \<Rightarrow> (False, rc_close s'')
                | (True, s'') \<Rightarrow> (True, s'')))"

definition requestRecording ::
  "av_library \<Rightarrow> string \<Rightarrow> open_result \<Rightarrow> (nat \<Rightarrow> write_result) \<Rightarrow> int \<Rightarrow> int \<Rightarrow> Recorder \<Rightarrow> bool \<times> Recorder"
where
  "requestRecording lib timestamp r ws duration_s now_ms s =
     (if \<not> rc_isConfigured s then (False, s)
      else let s' = s\<lparr>rc_deadline_ms := max (rc_deadline_ms s) (now_ms + max duration_s kDefaultRecordDurationS * 1000)\<rparr>
           in if rc_fmt_ctx s \<noteq> None then (True, s') else rc_start lib timestamp r ws s')"

definition closeExpired :: "int \<Rightarrow> Recorder \<Rightarrow> Recorder" where
  "closeExpired now_ms s =
     (if rc_fmt_ctx s \<noteq> None \<and> rc_deadline_ms s > 0 \<and> now_ms \<ge> rc_deadline_ms s then rc_close s else s)"

definition appendPacket ::
  "av_library \<Rightarrow> int \<Rightarrow> bool \<Rightarrow> write_result \<Rightarrow> AVPacket \<Rightarrow> Recorder \<Rightarrow> bool \<times> Recorder"
where
  "appendPacket lib now_ms clone_ok w packet s =
     (if av_data packet = [] then (False, s)
      else let s' = cachePacket clone_ok packet (closeExpired now_ms s)
           in if rc_fmt_ctx s' = None then (True, s')
              else case writePacketInternal lib w packet s' of
                     (False, s'') \<Rightarrow> (False, rc_close s'')
                   | (True, s'') \<Rightarrow> (True, s''))"

end
