(* ===== verification/Snapshotter.thy ===== *)
theory Snapshotter
  imports Recorder Float32 "HOL-Library.Monad_Syntax"
begin

text \<open>
  \<open>src/stream/Snapshotter.cpp\<close>: pictures of alarms. The decoded image is copied into an NV12 frame,
  the boxes of the objects are drawn into it, and it is encoded and written to a file under a hidden name
  that is renamed at the end.

  The planes of a frame are byte lists. \<open>None\<close> is undefined behaviour: an access outside a plane or the image,
  or the conversion of a \<open>float\<close> that is no \<open>int\<close>. The encoder, the scaler and the file system are parameters:
  \<open>encoder_result\<close> and \<open>snapshot_result\<close> hold what their calls return.
\<close>

section \<open>Frames\<close>

record nv12_frame =
  nf_width :: int
  nf_height :: int
  nf_linesize0 :: int
  nf_linesize1 :: int
  nf_y :: "u8 list"
  nf_uv :: "u8 list"

definition kBoxLuma :: u8 where "kBoxLuma = 76"

definition kBoxU :: u8 where "kBoxU = 85"

definition kBoxV :: u8 where "kBoxV = 255"

definition clampCoord :: "int \<Rightarrow> int \<Rightarrow> int \<Rightarrow> int" where
  "clampCoord v lower upper = max lower (min v upper)"

text \<open>A write to a plane.\<close>

definition poke :: "int \<Rightarrow> u8 \<Rightarrow> u8 list \<Rightarrow> u8 list option" where
  "poke i v plane = (if 0 \<le> i \<and> nat i < length plane then Some (plane[nat i := v]) else None)"

definition paintPixelNv12 :: "int \<Rightarrow> int \<Rightarrow> nv12_frame \<Rightarrow> nv12_frame option" where
  "paintPixelNv12 x y frame =
     (if x < 0 \<or> y < 0 \<or> x \<ge> nf_width frame \<or> y \<ge> nf_height frame then Some frame
      else do {
        luma \<leftarrow> poke (y * nf_linesize0 frame + x) kBoxLuma (nf_y frame);
        let uv_x = (x div 2) * 2;
        let uv_row = (y div 2) * nf_linesize1 frame;
        u \<leftarrow> poke (uv_row + uv_x) kBoxU (nf_uv frame);
        uv \<leftarrow> poke (uv_row + uv_x + 1) kBoxV u;
        Some (frame\<lparr>nf_y := luma, nf_uv := uv\<rparr>)
      })"

fun paint_pixels :: "(int \<times> int) list \<Rightarrow> nv12_frame \<Rightarrow> nv12_frame option" where
  "paint_pixels [] frame = Some frame"
| "paint_pixels ((x, y) # ps) frame = Option.bind (paintPixelNv12 x y frame) (paint_pixels ps)"

text \<open>The pixels the nested loops visit.\<close>

definition horizontal_pixels :: "int \<Rightarrow> int \<Rightarrow> int \<Rightarrow> int \<Rightarrow> (int \<times> int) list" where
  "horizontal_pixels x0 x1 y thickness =
     concat (map (\<lambda>offset. map (\<lambda>x. (x, y + offset)) [x0..x1]) [0..thickness - 1])"

definition vertical_pixels :: "int \<Rightarrow> int \<Rightarrow> int \<Rightarrow> int \<Rightarrow> (int \<times> int) list" where
  "vertical_pixels x y0 y1 thickness =
     concat (map (\<lambda>offset. map (\<lambda>y. (x + offset, y)) [y0..y1]) [0..thickness - 1])"

definition drawHorizontalLine :: "int \<Rightarrow> int \<Rightarrow> int \<Rightarrow> int \<Rightarrow> nv12_frame \<Rightarrow> nv12_frame option" where
  "drawHorizontalLine x0 x1 y thickness frame = paint_pixels (horizontal_pixels x0 x1 y thickness) frame"

definition drawVerticalLine :: "int \<Rightarrow> int \<Rightarrow> int \<Rightarrow> int \<Rightarrow> nv12_frame \<Rightarrow> nv12_frame option" where
  "drawVerticalLine x y0 y1 thickness frame = paint_pixels (vertical_pixels x y0 y1 thickness) frame"

section \<open>Boxes\<close>

record box_corners =
  bc_left :: int
  bc_top :: int
  bc_right :: int
  bc_bottom :: int

text \<open>\<open>static_cast<int>((c + s * half) * extent)\<close> with \<open>extent\<close> converted to \<open>float\<close>.\<close>

definition box_coord :: "f32 \<Rightarrow> int \<Rightarrow> int option" where
  "box_coord c extent =
     (case rnd32 (of_int extent) of
        Fin e \<Rightarrow> f32_to_int32 (f32_mul_const c e)
      | _ \<Rightarrow> None)"

definition box_corners_of :: "int \<Rightarrow> int \<Rightarrow> Box \<Rightarrow> box_corners option" where
  "box_corners_of width height box = do {
     let half_width = f32_mul_const (bx_width box) (1 / 2);
     let half_height = f32_mul_const (bx_height box) (1 / 2);
     left \<leftarrow> box_coord (f32_sub (bx_cx box) half_width) width;
     top \<leftarrow> box_coord (f32_sub (bx_cy box) half_height) height;
     right \<leftarrow> box_coord (f32_add (bx_cx box) half_width) width;
     bottom \<leftarrow> box_coord (f32_add (bx_cy box) half_height) height;
     Some \<lparr>bc_left = clampCoord left 0 (width - 1), bc_top = clampCoord top 0 (height - 1),
           bc_right = clampCoord right 0 (width - 1), bc_bottom = clampCoord bottom 0 (height - 1)\<rparr>
   }"

definition draw_box :: "int \<Rightarrow> box_corners \<Rightarrow> nv12_frame \<Rightarrow> nv12_frame option" where
  "draw_box thickness c frame =
     (if bc_right c \<le> bc_left c \<or> bc_bottom c \<le> bc_top c then Some frame
      else do {
        f1 \<leftarrow> drawHorizontalLine (bc_left c) (bc_right c) (bc_top c) thickness frame;
        f2 \<leftarrow> drawHorizontalLine (bc_left c) (bc_right c) (max (bc_top c) (bc_bottom c - thickness + 1)) thickness f1;
        f3 \<leftarrow> drawVerticalLine (bc_left c) (bc_top c) (bc_bottom c) thickness f2;
        drawVerticalLine (max (bc_left c) (bc_right c - thickness + 1)) (bc_top c) (bc_bottom c) thickness f3
      })"

definition box_thickness :: "int \<Rightarrow> int \<Rightarrow> int" where
  "box_thickness width height = max 2 (min width height div 180)"

fun draw_objects :: "int \<Rightarrow> int \<Rightarrow> DetectionObject list \<Rightarrow> nv12_frame \<Rightarrow> nv12_frame option" where
  "draw_objects width height [] frame = Some frame"
| "draw_objects width height (object # objects) frame = do {
     c \<leftarrow> box_corners_of width height (ob_bbox object);
     frame' \<leftarrow> draw_box (box_thickness width height) c frame;
     draw_objects width height objects frame'
   }"

definition drawBoxes :: "DetectionObject list \<Rightarrow> nv12_frame \<Rightarrow> nv12_frame option" where
  "drawBoxes objects frame = draw_objects (nf_width frame) (nf_height frame) objects frame"

section \<open>Copying the image\<close>

text \<open>\<open>memcpy\<close> of \<open>n\<close> bytes between two byte lists.\<close>

definition copy_row :: "u8 list \<Rightarrow> int \<Rightarrow> u8 list \<Rightarrow> int \<Rightarrow> int \<Rightarrow> u8 list option" where
  "copy_row src from dst dpos n =
     (if 0 \<le> from \<and> from + n \<le> int (length src) \<and> 0 \<le> dpos \<and> dpos + n \<le> int (length dst)
      then Some (take (nat dpos) dst @ take (nat n) (drop (nat from) src) @ drop (nat (dpos + n)) dst) else None)"

fun copy_rows :: "int list \<Rightarrow> u8 list \<Rightarrow> int \<Rightarrow> int \<Rightarrow> int \<Rightarrow> int \<Rightarrow> u8 list \<Rightarrow> u8 list option" where
  "copy_rows [] src base stride linesize n dst = Some dst"
| "copy_rows (y # ys) src base stride linesize n dst =
     Option.bind (copy_row src (base + y * stride) dst (y * linesize) n) (copy_rows ys src base stride linesize n)"

text \<open>The two loops of \<open>copyInputFrame\<close>: \<open>height\<close> rows of luma, \<open>height / 2\<close> rows of chroma.\<close>

definition copy_image :: "DmaImage \<Rightarrow> u8 list \<Rightarrow> nv12_frame \<Rightarrow> nv12_frame option" where
  "copy_image img src frame = do {
     let y_plane_size = di_width_stride img * di_height_stride img;
     luma \<leftarrow> copy_rows [0..di_height img - 1] src 0 (di_width_stride img) (nf_linesize0 frame) (di_width img) (nf_y frame);
     uv \<leftarrow> copy_rows [0..di_height img div 2 - 1] src y_plane_size (di_width_stride img) (nf_linesize1 frame)
       (di_width img) (nf_uv frame);
     Some (frame\<lparr>nf_y := luma, nf_uv := uv\<rparr>)
   }"


section \<open>State\<close>

record Snapshotter =
  sn_stream_id :: string
  sn_base_dir :: string
  sn_snapshot_file_name :: string
  sn_codec_ctx :: bool
  sn_sws_ctx :: bool
  sn_input_frame :: "nv12_frame option"
  sn_output_frame :: bool
  sn_frame_width :: int
  sn_frame_height :: int
  sn_finished :: "(string \<times> nv12_frame) list"

definition new_Snapshotter :: Snapshotter where
  "new_Snapshotter =
     \<lparr>sn_stream_id = [], sn_base_dir = [], sn_snapshot_file_name = [], sn_codec_ctx = False, sn_sws_ctx = False,
      sn_input_frame = None, sn_output_frame = False, sn_frame_width = 0, sn_frame_height = 0, sn_finished = []\<rparr>"

definition sn_releaseFrames :: "Snapshotter \<Rightarrow> Snapshotter" where
  "sn_releaseFrames s = s\<lparr>sn_input_frame := None, sn_output_frame := False\<rparr>"

definition sn_close :: "Snapshotter \<Rightarrow> Snapshotter" where
  "sn_close s =
     (sn_releaseFrames s)\<lparr>sn_codec_ctx := False, sn_sws_ctx := False, sn_frame_width := 0, sn_frame_height := 0,
                          sn_snapshot_file_name := []\<rparr>"

definition sn_configure :: "string \<Rightarrow> string \<Rightarrow> Snapshotter \<Rightarrow> bool \<times> Snapshotter" where
  "sn_configure stream_id base_dir s =
     (if stream_id = [] \<or> base_dir = [] then (False, s)
      else let s' = (if sn_stream_id s \<noteq> stream_id \<or> sn_base_dir s \<noteq> base_dir then sn_close s else s)
           in (True, s'\<lparr>sn_stream_id := stream_id, sn_base_dir := base_dir\<rparr>))"

definition sn_isConfigured :: "Snapshotter \<Rightarrow> bool" where
  "sn_isConfigured s \<longleftrightarrow> sn_stream_id s \<noteq> [] \<and> sn_base_dir s \<noteq> []"

section \<open>The encoder\<close>

text \<open>\<open>er_input\<close>: the frame \<open>av_frame_get_buffer\<close> allocates, with arbitrary content.\<close>

record encoder_result =
  er_find :: bool
  er_alloc :: bool
  er_open :: bool
  er_frames :: bool
  er_input :: "nv12_frame option"
  er_output :: bool
  er_sws :: bool

definition ensureEncoder :: "encoder_result \<Rightarrow> int \<Rightarrow> int \<Rightarrow> Snapshotter \<Rightarrow> bool \<times> Snapshotter" where
  "ensureEncoder r width height s =
     (if sn_codec_ctx s \<and> width = sn_frame_width s \<and> height = sn_frame_height s then (True, s)
      else let s' = sn_close s
           in if \<not> er_find r \<or> \<not> er_alloc r then (False, s')
              else if \<not> er_open r \<or> \<not> er_frames r then (False, s')
              else case er_input r of
                     None \<Rightarrow> (False, s')
                   | Some frame \<Rightarrow>
                       if \<not> er_output r \<or> \<not> er_sws r then (False, s')
                       else (True, s'\<lparr>sn_codec_ctx := True, sn_sws_ctx := True, sn_output_frame := True,
                               sn_input_frame := Some (frame\<lparr>nf_width := width, nf_height := height\<rparr>),
                               sn_frame_width := width, sn_frame_height := height\<rparr>))"

text \<open>What the calls of one snapshot return.\<close>

record snapshot_result =
  sr_writable_in :: bool
  sr_writable_out :: bool
  sr_scaled :: bool
  sr_send :: bool
  sr_packet :: bool
  sr_receive :: bool
  sr_file_open :: bool
  sr_file_write :: bool
  sr_rename :: bool

definition copyInputFrame :: "snapshot_result \<Rightarrow> DmaImage \<Rightarrow> Snapshotter \<Rightarrow> (bool \<times> Snapshotter) option" where
  "copyInputFrame r img s =
     (case sn_input_frame s of
        None \<Rightarrow> Some (False, s)
      | Some frame \<Rightarrow>
          if \<not> sr_writable_in r then Some (False, s)
          else case di_virt_addr img of
                 None \<Rightarrow> Some (False, s)
               | Some src \<Rightarrow>
                   map_option (\<lambda>frame'. (True, s\<lparr>sn_input_frame := Some frame'\<rparr>)) (copy_image img src frame))"

definition convertInputFrame :: "snapshot_result \<Rightarrow> Snapshotter \<Rightarrow> bool" where
  "convertInputFrame r s \<longleftrightarrow>
     sn_input_frame s \<noteq> None \<and> sn_output_frame s \<and> sn_sws_ctx s \<and> sr_writable_out r \<and> sr_scaled r"

text \<open>The finished picture is the frame that was drawn.\<close>

definition writeSnapshotFile :: "snapshot_result \<Rightarrow> string \<Rightarrow> Snapshotter \<Rightarrow> bool \<times> Snapshotter" where
  "writeSnapshotFile r relative_file_name s =
     (case sn_input_frame s of
        None \<Rightarrow> (False, s)
      | Some frame \<Rightarrow>
          if \<not> sn_codec_ctx s \<or> \<not> sn_output_frame s then (False, s)
          else if \<not> convertInputFrame r s then (False, s)
          else if \<not> sr_send r \<or> \<not> sr_packet r \<or> \<not> sr_receive r then (False, s)
          else if \<not> sr_file_open r \<or> \<not> sr_file_write r \<or> \<not> sr_rename r then (False, s)
          else (True, s\<lparr>sn_snapshot_file_name := relative_file_name,
                        sn_finished := sn_finished s @ [(path_join (sn_base_dir s) relative_file_name, frame)]\<rparr>))"

definition buildSnapshotFileName :: "string \<Rightarrow> string \<Rightarrow> int \<Rightarrow> string" where
  "buildSnapshotFileName timestamp stream_id now_ms =
     (let date_dir = take 8 timestamp;
          millisecond_suffix = digits (nat (now_ms mod 1000));
          stream_dir = sanitizeFileComponent stream_id;
          file_name = stream_dir @ ''_'' @ timestamp @ ''_'' @ millisecond_suffix @ ''.jpg''
      in date_dir @ ''/'' @ stream_dir @ ''/'' @ file_name)"

definition makeHiddenSnapshotName :: "string \<Rightarrow> string" where
  "makeHiddenSnapshotName visible_name =
     path_join (path_parent visible_name) (''.'' @ path_filename visible_name)"

section \<open>saveJpeg\<close>

definition image_usable :: "DmaImage \<Rightarrow> bool" where
  "image_usable img \<longleftrightarrow>
     di_virt_addr img \<noteq> None \<and> di_width img > 0 \<and> di_height img > 0 \<and>
     di_width_stride img \<ge> di_width img \<and> di_height_stride img \<ge> di_height img"

definition draw_and_write ::
  "snapshot_result \<Rightarrow> string \<Rightarrow> DetectionObject list \<Rightarrow> Snapshotter \<Rightarrow> (bool \<times> Snapshotter) option"
where
  "draw_and_write r file objects s =
     (case sn_input_frame s of
        None \<Rightarrow> Some (writeSnapshotFile r file s)
      | Some frame \<Rightarrow>
          (case drawBoxes objects frame of
             None \<Rightarrow> None
           | Some frame' \<Rightarrow> Some (writeSnapshotFile r file (s\<lparr>sn_input_frame := Some frame'\<rparr>))))"

definition saveJpeg ::
  "encoder_result \<Rightarrow> snapshot_result \<Rightarrow> string \<Rightarrow> int \<Rightarrow> FrameBundle \<Rightarrow> DetectionObject list \<Rightarrow> Snapshotter \<Rightarrow>
   (bool \<times> Snapshotter) option"
where
  "saveJpeg er r timestamp now_ms frame objects s =
     (if \<not> sn_isConfigured s \<or> objects = [] then Some (False, s)
      else case fb_decoded_image frame of
             None \<Rightarrow> Some (False, s)
           | Some img \<Rightarrow>
               if \<not> image_usable img then Some (False, s)
               else case ensureEncoder er (di_width img) (di_height img) s of
                      (False, s') \<Rightarrow> Some (False, s')
                    | (True, s') \<Rightarrow>
                        (case copyInputFrame r img s' of
                           None \<Rightarrow> None
                         | Some (False, s'') \<Rightarrow> Some (False, s'')
                         | Some (True, s'') \<Rightarrow>
                             draw_and_write r (buildSnapshotFileName timestamp (sn_stream_id s'') now_ms) objects s''))"

section \<open>Where painting writes\<close>

text \<open>The planes hold what \<open>av_frame_get_buffer\<close> documents: every row of the picture, chroma in pairs.\<close>

definition frame_ok :: "nv12_frame \<Rightarrow> bool" where
  "frame_ok f \<longleftrightarrow>
     0 < nf_width f \<and> 0 < nf_height f \<and> nf_width f \<le> nf_linesize0 f \<and>
     2 * ((nf_width f + 1) div 2) \<le> nf_linesize1 f \<and>
     nf_height f * nf_linesize0 f \<le> int (length (nf_y f)) \<and>
     ((nf_height f + 1) div 2) * nf_linesize1 f \<le> int (length (nf_uv f))"

definition in_frame :: "nv12_frame \<Rightarrow> int \<times> int \<Rightarrow> bool" where
  "in_frame f p \<longleftrightarrow> 0 \<le> fst p \<and> 0 \<le> snd p \<and> fst p < nf_width f \<and> snd p < nf_height f"

definition luma_at :: "nv12_frame \<Rightarrow> int \<times> int \<Rightarrow> u8" where
  "luma_at f p = nf_y f ! nat (snd p * nf_linesize0 f + fst p)"

definition same_shape :: "nv12_frame \<Rightarrow> nv12_frame \<Rightarrow> bool" where
  "same_shape f g \<longleftrightarrow> nf_width g = nf_width f \<and> nf_height g = nf_height f \<and> nf_linesize0 g = nf_linesize0 f \<and>
     nf_linesize1 g = nf_linesize1 f \<and> length (nf_y g) = length (nf_y f) \<and> length (nf_uv g) = length (nf_uv f)"

lemma row_bound:
  fixes x y w h ls :: int
  assumes "0 \<le> x" "x < ls" "0 \<le> y" "y < h" "h * ls \<le> n"
  shows "0 \<le> y * ls + x" "y * ls + x < n"
proof -
  have "y * ls + ls \<le> h * ls" using mult_right_mono [of "y + 1" h ls] assms by (simp add: algebra_simps)
  with assms show "y * ls + x < n" by linarith
  show "0 \<le> y * ls + x" using assms by simp
qed

lemma row_unique:
  fixes x x' y y' ls :: int
  assumes "0 \<le> x" "x < ls" "0 \<le> x'" "x' < ls" "y * ls + x = y' * ls + x'"
  shows "y = y' \<and> x = x'"
proof -
  have "(y * ls + x) div ls = y" "(y' * ls + x') div ls = y'" using assms(1-4) by (simp_all add: div_mult_self3)
  with assms(5) show ?thesis by simp
qed

lemma poke_in: "0 \<le> i \<Longrightarrow> i < int (length plane) \<Longrightarrow> poke i v plane = Some (plane[nat i := v])"
  by (simp add: poke_def nat_less_iff)

text \<open>Painting a pixel never leaves the planes and changes exactly that pixel of the luma plane.\<close>

lemma paint_pixel:
  assumes "frame_ok f"
  shows "\<exists>g. paintPixelNv12 x y f = Some g \<and> same_shape f g \<and>
    (\<forall>p. in_frame f p \<longrightarrow> luma_at g p = (if p = (x, y) then kBoxLuma else luma_at f p))"
proof (cases "in_frame f (x, y)")
  case False
  then have "paintPixelNv12 x y f = Some f" by (auto simp: paintPixelNv12_def in_frame_def)
  with False show ?thesis by (auto simp: same_shape_def)
next
  case True
  then have xy: "0 \<le> x" "0 \<le> y" "x < nf_width f" "y < nf_height f" by (simp_all add: in_frame_def)
  note ok = assms [unfolded frame_ok_def]
  have luma: "0 \<le> y * nf_linesize0 f + x" "y * nf_linesize0 f + x < int (length (nf_y f))"
    using row_bound [of x "nf_linesize0 f" y "nf_height f"] xy ok by auto
  have "x div 2 * 2 + 1 < 2 * ((nf_width f + 1) div 2)" using xy by presburger
  with ok have c: "0 \<le> x div 2 * 2" "x div 2 * 2 + 1 < nf_linesize1 f" "0 \<le> y div 2" "y div 2 < (nf_height f + 1) div 2"
    using xy by auto
  have uv: "0 \<le> y div 2 * nf_linesize1 f + x div 2 * 2"
      "y div 2 * nf_linesize1 f + x div 2 * 2 < int (length (nf_uv f))"
    using row_bound [of "x div 2 * 2" "nf_linesize1 f" "y div 2" "(nf_height f + 1) div 2"] c ok by auto
  have uv1: "0 \<le> y div 2 * nf_linesize1 f + x div 2 * 2 + 1"
      "y div 2 * nf_linesize1 f + x div 2 * 2 + 1 < int (length (nf_uv f))"
    using row_bound [of "x div 2 * 2 + 1" "nf_linesize1 f" "y div 2" "(nf_height f + 1) div 2" "int (length (nf_uv f))"] c ok
    by (simp_all only: add.assoc)
  let ?i = "nat (y * nf_linesize0 f + x)" and ?j = "nat (y div 2 * nf_linesize1 f + x div 2 * 2)"
  let ?g = "f\<lparr>nf_y := (nf_y f)[?i := kBoxLuma],
      nf_uv := (nf_uv f)[?j := kBoxU, nat (y div 2 * nf_linesize1 f + x div 2 * 2 + 1) := kBoxV]\<rparr>"
  have run: "paintPixelNv12 x y f = Some ?g"
    using xy poke_in [OF luma] poke_in [OF uv(1,2)] poke_in [of _ "(nf_uv f)[?j := kBoxU]", OF uv1(1)] uv1(2)
    by (simp add: paintPixelNv12_def Let_def)
  have "luma_at ?g p = (if p = (x, y) then kBoxLuma else luma_at f p)" if "in_frame f p" for p
  proof (cases "p = (x, y)")
    case True
    with luma show ?thesis by (simp add: luma_at_def)
  next
    case False
    have "0 \<le> fst p" "fst p < nf_linesize0 f" "x < nf_linesize0 f" "0 \<le> snd p * nf_linesize0 f"
      using that xy ok by (auto simp: in_frame_def)
    moreover from this have "snd p * nf_linesize0 f + fst p \<noteq> y * nf_linesize0 f + x"
      using row_unique [of "fst p" "nf_linesize0 f" x "snd p" y] xy(1) False by (metis prod.collapse)
    ultimately have "nat (snd p * nf_linesize0 f + fst p) \<noteq> ?i" using luma(1) by (simp add: nat_eq_iff2)
    with False show ?thesis by (simp add: luma_at_def)
  qed
  with run show ?thesis by (auto simp: same_shape_def)
qed


lemma same_shape_trans: "same_shape f g \<Longrightarrow> same_shape g h \<Longrightarrow> same_shape f h"
  by (simp add: same_shape_def)

lemma same_shapeD:
  assumes "same_shape f g"
  shows "frame_ok g = frame_ok f" "in_frame g = in_frame f"
  using assms by (auto simp: same_shape_def frame_ok_def in_frame_def fun_eq_iff)

text \<open>The effect of painting a set of pixels.\<close>

definition painted :: "(int \<times> int) set \<Rightarrow> nv12_frame \<Rightarrow> nv12_frame \<Rightarrow> bool" where
  "painted S f g \<longleftrightarrow> same_shape f g \<and>
     (\<forall>p. in_frame f p \<longrightarrow> luma_at g p = (if p \<in> S then kBoxLuma else luma_at f p))"

lemma painted_empty: "painted {} f f"
  by (simp add: painted_def same_shape_def)

lemma painted_Un: "painted S f g \<Longrightarrow> painted T g h \<Longrightarrow> painted (S \<union> T) f h"
  by (auto simp: painted_def same_shapeD intro: same_shape_trans)

lemma painted_ok: "painted S f g \<Longrightarrow> frame_ok f \<Longrightarrow> frame_ok g"
  unfolding painted_def using same_shapeD(1) by blast

lemma paint_pixels_painted: "frame_ok f \<Longrightarrow> \<exists>g. paint_pixels ps f = Some g \<and> painted (set ps) f g"
proof (induction ps arbitrary: f)
  case Nil
  then show ?case by (simp add: painted_empty)
next
  case (Cons p ps)
  obtain x y where p: "p = (x, y)" by (cases p)
  from paint_pixel [OF Cons.prems, of x y] obtain g where
    g: "paintPixelNv12 x y f = Some g" "painted {(x, y)} f g" by (auto simp: painted_def)
  from Cons.IH [OF painted_ok [OF g(2) Cons.prems]] obtain h where
    h: "paint_pixels ps g = Some h" "painted (set ps) g h" by blast
  from painted_Un [OF g(2) h(2)] g(1) h(1) show ?case by (simp add: p)
qed

text \<open>The border of a box: the four bands the lines cover.\<close>

definition border :: "int \<Rightarrow> box_corners \<Rightarrow> (int \<times> int) set" where
  "border th c =
     (if bc_right c \<le> bc_left c \<or> bc_bottom c \<le> bc_top c then {}
      else ({bc_left c..bc_right c} \<times>
              ({bc_top c..<bc_top c + th} \<union> {max (bc_top c) (bc_bottom c - th + 1)..<max (bc_top c) (bc_bottom c - th + 1) + th})) \<union>
           (({bc_left c..<bc_left c + th} \<union> {max (bc_left c) (bc_right c - th + 1)..<max (bc_left c) (bc_right c - th + 1) + th}) \<times>
              {bc_top c..bc_bottom c}))"

text \<open>An offset of the loop is a coordinate of the band.\<close>

lemma band: "(\<exists>k \<in> {0..th - 1}. v = y + k) \<longleftrightarrow> v \<in> {y..<y + th}" for v y th :: int
proof
  assume "v \<in> {y..<y + th}"
  then show "\<exists>k \<in> {0..th - 1}. v = y + k" by (intro bexI [of _ "v - y"]) auto
qed auto

lemma set_horizontal: "set (horizontal_pixels x0 x1 y th) = {x0..x1} \<times> {y..<y + th}"
proof (rule set_eqI)
  fix p :: "int \<times> int"
  obtain u v where p: "p = (u, v)" by (cases p)
  have row: "(u, v) \<in> (\<lambda>a. (a, y + k)) ` {x0..x1} \<longleftrightarrow> u \<in> {x0..x1} \<and> v = y + k" for k by auto
  have "p \<in> set (horizontal_pixels x0 x1 y th) \<longleftrightarrow> (\<exists>k \<in> {0..th - 1}. (u, v) \<in> (\<lambda>a. (a, y + k)) ` {x0..x1})"
    by (simp add: p horizontal_pixels_def)
  also have "\<dots> \<longleftrightarrow> u \<in> {x0..x1} \<and> (\<exists>k \<in> {0..th - 1}. v = y + k)" by (simp only: row) blast
  finally show "p \<in> set (horizontal_pixels x0 x1 y th) \<longleftrightarrow> p \<in> {x0..x1} \<times> {y..<y + th}"
    by (simp only: band p mem_Times_iff fst_conv snd_conv)
qed

lemma set_vertical: "set (vertical_pixels x y0 y1 th) = {x..<x + th} \<times> {y0..y1}"
proof (rule set_eqI)
  fix p :: "int \<times> int"
  obtain u v where p: "p = (u, v)" by (cases p)
  have row: "(u, v) \<in> (\<lambda>a. (x + k, a)) ` {y0..y1} \<longleftrightarrow> u = x + k \<and> v \<in> {y0..y1}" for k by auto
  have "p \<in> set (vertical_pixels x y0 y1 th) \<longleftrightarrow> (\<exists>k \<in> {0..th - 1}. (u, v) \<in> (\<lambda>a. (x + k, a)) ` {y0..y1})"
    by (simp add: p vertical_pixels_def)
  also have "\<dots> \<longleftrightarrow> (\<exists>k \<in> {0..th - 1}. u = x + k) \<and> v \<in> {y0..y1}" by (simp only: row) blast
  finally show "p \<in> set (vertical_pixels x y0 y1 th) \<longleftrightarrow> p \<in> {x..<x + th} \<times> {y0..y1}"
    by (simp only: band p mem_Times_iff fst_conv snd_conv)
qed

lemma draw_box_painted:
  assumes "frame_ok f"
  shows "\<exists>g. draw_box th c f = Some g \<and> painted (border th c) f g"
proof (cases "bc_right c \<le> bc_left c \<or> bc_bottom c \<le> bc_top c")
  case True
  then show ?thesis by (simp add: draw_box_def border_def painted_empty)
next
  case False
  let ?h1 = "horizontal_pixels (bc_left c) (bc_right c) (bc_top c) th"
  let ?h2 = "horizontal_pixels (bc_left c) (bc_right c) (max (bc_top c) (bc_bottom c - th + 1)) th"
  let ?v1 = "vertical_pixels (bc_left c) (bc_top c) (bc_bottom c) th"
  let ?v2 = "vertical_pixels (max (bc_left c) (bc_right c - th + 1)) (bc_top c) (bc_bottom c) th"
  from paint_pixels_painted [OF assms] obtain g1 where g1: "paint_pixels ?h1 f = Some g1" "painted (set ?h1) f g1" by blast
  note ok1 = painted_ok [OF g1(2) assms]
  from paint_pixels_painted [OF ok1] obtain g2 where g2: "paint_pixels ?h2 g1 = Some g2" "painted (set ?h2) g1 g2" by blast
  note ok2 = painted_ok [OF g2(2) ok1]
  from paint_pixels_painted [OF ok2] obtain g3 where g3: "paint_pixels ?v1 g2 = Some g3" "painted (set ?v1) g2 g3" by blast
  note ok3 = painted_ok [OF g3(2) ok2]
  from paint_pixels_painted [OF ok3] obtain g4 where g4: "paint_pixels ?v2 g3 = Some g4" "painted (set ?v2) g3 g4" by blast
  have "border th c = ((set ?h1 \<union> set ?h2) \<union> set ?v1) \<union> set ?v2"
    using False by (simp only: border_def set_horizontal set_vertical if_False Times_Un_distrib1 Sigma_Un_distrib1 Sigma_Un_distrib2 Un_assoc)
  with painted_Un [OF painted_Un [OF painted_Un [OF g1(2) g2(2)] g3(2)] g4(2)] False g1 g2 g3 g4 show ?thesis
    by (simp add: draw_box_def drawHorizontalLine_def drawVerticalLine_def)
qed

text \<open>The corners of all boxes, if every coordinate converts to \<open>int\<close>.\<close>

definition all_corners :: "int \<Rightarrow> int \<Rightarrow> DetectionObject list \<Rightarrow> box_corners list option" where
  "all_corners width height objects = those (map (\<lambda>object. box_corners_of width height (ob_bbox object)) objects)"

lemma draw_objects_painted:
  "frame_ok f \<Longrightarrow> all_corners w h objects = Some cs \<Longrightarrow>
     \<exists>g. draw_objects w h objects f = Some g \<and> painted (\<Union>c \<in> set cs. border (box_thickness w h) c) f g"
proof (induction objects arbitrary: f cs)
  case Nil
  then show ?case by (simp add: all_corners_def painted_empty)
next
  case (Cons object objects)
  from Cons.prems(2) obtain c cs' where c: "box_corners_of w h (ob_bbox object) = Some c"
    and cs': "all_corners w h objects = Some cs'" and cs: "cs = c # cs'"
    by (auto simp: all_corners_def split: option.splits)
  from draw_box_painted [OF Cons.prems(1)] obtain g where
    g: "draw_box (box_thickness w h) c f = Some g" "painted (border (box_thickness w h) c) f g" by blast
  from Cons.IH [OF painted_ok [OF g(2) Cons.prems(1)] cs'] obtain k where
    k: "draw_objects w h objects g = Some k" "painted (\<Union>c \<in> set cs'. border (box_thickness w h) c) g k" by blast
  from painted_Un [OF g(2) k(2)] c g(1) k(1) show ?case by (simp add: cs)
qed

section \<open>Properties\<close>


definition ex_picture :: nv12_frame where
  "ex_picture = \<lparr>nf_width = 4, nf_height = 4, nf_linesize0 = 4, nf_linesize1 = 4, nf_y = replicate 16 0, nf_uv = replicate 8 0\<rparr>"

text \<open>A box that covers the right half of the picture.\<close>

definition ex_boxed :: DetectionObject where
  "ex_boxed =
     \<lparr>ob_object_id = 1, ob_class_id = 0, ob_class_name = ''person'', ob_confidence = Fin 1,
      ob_bbox = \<lparr>bx_cx = Fin (3 / 4), bx_cy = Fin (1 / 2), bx_width = Fin (1 / 4), bx_height = Fin (1 / 2), bx_angle = Fin 0\<rparr>\<rparr>"


end
