(* ===== verification/Statistics.thy ===== *)
theory Statistics
  imports Prelude
begin

text \<open>
  \<open>src/common/Statistics.cpp\<close>: the counters every stream has, and the thread that reports what they
  gained since its last turn. A turn of the thread is two critical sections with the report between them: it copies the
  counters and the last snapshot (\<open>stats_take\<close>), and later replaces the last snapshot by the copy
  (\<open>stats_store\<close>). Other threads may call the counters in between. The output goes to the log; the model
  keeps the differences and totals it prints, without the conversion to rates.
\<close>

section \<open>Counters\<close>

record Counters =
  ct_rtsp_pull_frames :: u64
  ct_mpp_decode_frames :: u64
  ct_infer_frames :: u64
  ct_publish_frames :: u64
  ct_remain_packet_size :: u64
  ct_remain_frame_size :: u64

definition new_Counters :: Counters where
  "new_Counters =
     \<lparr>ct_rtsp_pull_frames = 0, ct_mpp_decode_frames = 0, ct_infer_frames = 0, ct_publish_frames = 0,
      ct_remain_packet_size = 0, ct_remain_frame_size = 0\<rparr>"

type_synonym counter_map = "(string \<times> Counters) list"

text \<open>\<open>counters_[stream_id]\<close> makes a zero entry if there is none.\<close>

definition counters_of :: "counter_map \<Rightarrow> string \<Rightarrow> Counters" where
  "counters_of m stream_id = (case map_of m stream_id of None \<Rightarrow> new_Counters | Some c \<Rightarrow> c)"

text \<open>What one line of the report says about a stream.\<close>

record stream_report =
  sr_stream_id :: string
  sr_delta :: Counters

text \<open>The local variables of the thread between its two critical sections.\<close>

record Statistics =
  st_counters :: counter_map
  st_last_snapshot :: counter_map
  st_running :: bool
  st_interval_ms :: u32
  st_pending :: "counter_map option"

definition new_Statistics :: Statistics where
  "new_Statistics =
     \<lparr>st_counters = [], st_last_snapshot = [], st_running = False, st_interval_ms = 5000, st_pending = None\<rparr>"

section \<open>Operations\<close>

definition modify_counters :: "string \<Rightarrow> (Counters \<Rightarrow> Counters) \<Rightarrow> Statistics \<Rightarrow> Statistics" where
  "modify_counters stream_id f s =
     s\<lparr>st_counters := AList.update stream_id (f (counters_of (st_counters s) stream_id)) (st_counters s)\<rparr>"

definition ensureStreamLocked :: "string \<Rightarrow> Statistics \<Rightarrow> Statistics" where
  "ensureStreamLocked stream_id s =
     (if map_of (st_counters s) stream_id = None
      then s\<lparr>st_counters := AList.update stream_id new_Counters (st_counters s)\<rparr> else s)"

definition registerStream :: "string \<Rightarrow> Statistics \<Rightarrow> Statistics" where
  "registerStream stream_id s =
     (if stream_id = [] then s else ensureStreamLocked stream_id s)"

definition unregisterStream :: "string \<Rightarrow> Statistics \<Rightarrow> Statistics" where
  "unregisterStream stream_id s =
     (if stream_id = [] then s
      else s\<lparr>st_counters := AList.delete stream_id (st_counters s),
             st_last_snapshot := AList.delete stream_id (st_last_snapshot s)\<rparr>)"

definition incRtspPullFrame :: "string \<Rightarrow> u64 \<Rightarrow> Statistics \<Rightarrow> Statistics" where
  "incRtspPullFrame stream_id n s =
     (if stream_id = [] \<or> n = 0 then s
      else modify_counters stream_id (\<lambda>c. c\<lparr>ct_rtsp_pull_frames := ct_rtsp_pull_frames c + n\<rparr>) s)"

definition incMppDecodeFrame :: "string \<Rightarrow> u64 \<Rightarrow> Statistics \<Rightarrow> Statistics" where
  "incMppDecodeFrame stream_id n s =
     (if stream_id = [] \<or> n = 0 then s
      else modify_counters stream_id (\<lambda>c. c\<lparr>ct_mpp_decode_frames := ct_mpp_decode_frames c + n\<rparr>) s)"

definition incInferFrame :: "string \<Rightarrow> u64 \<Rightarrow> Statistics \<Rightarrow> Statistics" where
  "incInferFrame stream_id n s =
     (if stream_id = [] \<or> n = 0 then s
      else modify_counters stream_id (\<lambda>c. c\<lparr>ct_infer_frames := ct_infer_frames c + n\<rparr>) s)"

definition incPublishFrame :: "string \<Rightarrow> u64 \<Rightarrow> Statistics \<Rightarrow> Statistics" where
  "incPublishFrame stream_id n s =
     (if stream_id = [] \<or> n = 0 then s
      else modify_counters stream_id (\<lambda>c. c\<lparr>ct_publish_frames := ct_publish_frames c + n\<rparr>) s)"

definition setRemainPacketSize :: "string \<Rightarrow> u64 \<Rightarrow> Statistics \<Rightarrow> Statistics" where
  "setRemainPacketSize stream_id n s =
     (if stream_id = [] then s else modify_counters stream_id (\<lambda>c. c\<lparr>ct_remain_packet_size := n\<rparr>) s)"

definition setRemainFrameSize :: "string \<Rightarrow> u64 \<Rightarrow> Statistics \<Rightarrow> Statistics" where
  "setRemainFrameSize stream_id n s =
     (if stream_id = [] then s else modify_counters stream_id (\<lambda>c. c\<lparr>ct_remain_frame_size := n\<rparr>) s)"

section \<open>The reporting thread\<close>

definition counters_delta :: "Counters \<Rightarrow> Counters \<Rightarrow> Counters" where
  "counters_delta current last' =
     \<lparr>ct_rtsp_pull_frames = ct_rtsp_pull_frames current - ct_rtsp_pull_frames last',
      ct_mpp_decode_frames = ct_mpp_decode_frames current - ct_mpp_decode_frames last',
      ct_infer_frames = ct_infer_frames current - ct_infer_frames last',
      ct_publish_frames = ct_publish_frames current - ct_publish_frames last',
      ct_remain_packet_size = ct_remain_packet_size current,
      ct_remain_frame_size = ct_remain_frame_size current\<rparr>"

definition stats_report :: "counter_map \<Rightarrow> counter_map \<Rightarrow> stream_report list" where
  "stats_report snapshot last_snapshot =
     map (\<lambda>(stream_id, current).
            \<lparr>sr_stream_id = stream_id, sr_delta = counters_delta current (counters_of last_snapshot stream_id)\<rparr>)
       snapshot"

definition counters_add :: "Counters \<Rightarrow> Counters \<Rightarrow> Counters" where
  "counters_add a b =
     \<lparr>ct_rtsp_pull_frames = ct_rtsp_pull_frames a + ct_rtsp_pull_frames b,
      ct_mpp_decode_frames = ct_mpp_decode_frames a + ct_mpp_decode_frames b,
      ct_infer_frames = ct_infer_frames a + ct_infer_frames b,
      ct_publish_frames = ct_publish_frames a + ct_publish_frames b,
      ct_remain_packet_size = ct_remain_packet_size a + ct_remain_packet_size b,
      ct_remain_frame_size = ct_remain_frame_size a + ct_remain_frame_size b\<rparr>"

text \<open>The \<open>total_...\<close> variables of the loop.\<close>

definition report_totals :: "stream_report list \<Rightarrow> Counters" where
  "report_totals reports = fold (\<lambda>r acc. counters_add acc (sr_delta r)) reports new_Counters"

text \<open>The wait ends by its time limit: the copies are made, and the report printed.\<close>

definition stats_take :: "Statistics \<Rightarrow> stream_report list \<times> Statistics" where
  "stats_take s =
     (if \<not> st_running s \<or> st_pending s \<noteq> None \<or> st_counters s = [] then ([], s)
      else (stats_report (st_counters s) (st_last_snapshot s), s\<lparr>st_pending := Some (st_counters s)\<rparr>))"

definition stats_store :: "Statistics \<Rightarrow> Statistics" where
  "stats_store s =
     (case st_pending s of
        None \<Rightarrow> s
      | Some snapshot \<Rightarrow> s\<lparr>st_last_snapshot := snapshot, st_pending := None\<rparr>)"

text \<open>\<open>stop\<close> joins the thread, which finishes the turn it is in.\<close>

definition stats_stop :: "Statistics \<Rightarrow> Statistics" where
  "stats_stop s = (stats_store s)\<lparr>st_running := False\<rparr>"

definition stats_start :: "u32 \<Rightarrow> Statistics \<Rightarrow> Statistics" where
  "stats_start interval_ms s =
     (stats_stop s)\<lparr>st_interval_ms := (if interval_ms = 0 then 5000 else interval_ms),
                    st_last_snapshot := [], st_running := True\<rparr>"

section \<open>Runs\<close>

datatype counter_field = RtspPull | MppDecode | InferFrames | PublishFrames

fun field_of :: "counter_field \<Rightarrow> Counters \<Rightarrow> u64" where
  "field_of RtspPull = ct_rtsp_pull_frames"
| "field_of MppDecode = ct_mpp_decode_frames"
| "field_of InferFrames = ct_infer_frames"
| "field_of PublishFrames = ct_publish_frames"

datatype stats_event =
  Register string | Unregister string | Increment counter_field string u64
| SetPackets string u64 | SetFrames string u64 | TakeTurn | StoreTurn

fun stats_inc :: "counter_field \<Rightarrow> string \<Rightarrow> u64 \<Rightarrow> Statistics \<Rightarrow> Statistics" where
  "stats_inc RtspPull = incRtspPullFrame"
| "stats_inc MppDecode = incMppDecodeFrame"
| "stats_inc InferFrames = incInferFrame"
| "stats_inc PublishFrames = incPublishFrame"

fun stats_step :: "stats_event \<Rightarrow> Statistics \<Rightarrow> stream_report list \<times> Statistics" where
  "stats_step (Register i) s = ([], registerStream i s)"
| "stats_step (Unregister i) s = ([], unregisterStream i s)"
| "stats_step (Increment f i n) s = ([], stats_inc f i n s)"
| "stats_step (SetPackets i n) s = ([], setRemainPacketSize i n s)"
| "stats_step (SetFrames i n) s = ([], setRemainFrameSize i n s)"
| "stats_step TakeTurn s = stats_take s"
| "stats_step StoreTurn s = ([], stats_store s)"

fun stats_run :: "stats_event list \<Rightarrow> Statistics \<Rightarrow> stream_report list \<times> Statistics" where
  "stats_run [] s = ([], s)"
| "stats_run (e # es) s =
     (case stats_step e s of (r, s') \<Rightarrow> (case stats_run es s' of (rs, s'') \<Rightarrow> (r @ rs, s'')))"

text \<open>What the reports say about one counter of a stream, and what was counted.\<close>

definition reported :: "counter_field \<Rightarrow> string \<Rightarrow> stream_report list \<Rightarrow> u64" where
  "reported f i reports = sum_list (map (\<lambda>r. field_of f (sr_delta r)) (filter (\<lambda>r. sr_stream_id r = i) reports))"

fun counted :: "counter_field \<Rightarrow> string \<Rightarrow> stats_event \<Rightarrow> u64" where
  "counted f i (Increment f' i' n) = (if f' = f \<and> i' = i then n else 0)"
| "counted f i _ = 0"

definition keeps_streams :: "stats_event \<Rightarrow> bool" where
  "keeps_streams e = (case e of Unregister i \<Rightarrow> False | _ \<Rightarrow> True)"

definition baseline :: "Statistics \<Rightarrow> counter_map" where
  "baseline s = (case st_pending s of None \<Rightarrow> st_last_snapshot s | Some snapshot \<Rightarrow> snapshot)"

lemma counters_of_update [simp]:
  "counters_of (AList.update i c m) j = (if i = j then c else counters_of m j)"
  by (simp add: counters_of_def dict_simps)

lemma field_of_new [simp]: "field_of f new_Counters = 0"
  by (cases f) (simp_all add: new_Counters_def)

lemma field_of_delta [simp]: "field_of f (counters_delta a b) = field_of f a - field_of f b"
  by (cases f) (simp_all add: counters_delta_def)

fun bump :: "counter_field \<Rightarrow> u64 \<Rightarrow> Counters \<Rightarrow> Counters" where
  "bump RtspPull n c = c\<lparr>ct_rtsp_pull_frames := ct_rtsp_pull_frames c + n\<rparr>"
| "bump MppDecode n c = c\<lparr>ct_mpp_decode_frames := ct_mpp_decode_frames c + n\<rparr>"
| "bump InferFrames n c = c\<lparr>ct_infer_frames := ct_infer_frames c + n\<rparr>"
| "bump PublishFrames n c = c\<lparr>ct_publish_frames := ct_publish_frames c + n\<rparr>"

lemma stats_inc_bump:
  "stats_inc f i n s = (if i = [] \<or> n = 0 then s else modify_counters i (bump f n) s)"
  by (cases f) (auto simp: incRtspPullFrame_def incMppDecodeFrame_def incInferFrame_def incPublishFrame_def
      modify_counters_def)

lemma field_of_bump: "field_of g (bump f n c) = field_of g c + (if f = g then n else 0)"
  by (cases f; cases g) auto

lemma counters_of_modify [simp]:
  "counters_of (st_counters (modify_counters i h s)) j =
     (if i = j then h (counters_of (st_counters s) i) else counters_of (st_counters s) j)"
  by (simp add: modify_counters_def)

lemma field_of_remain [simp]:
  "field_of f (c\<lparr>ct_remain_packet_size := n\<rparr>) = field_of f c"
  "field_of f (c\<lparr>ct_remain_frame_size := n\<rparr>) = field_of f c"
  by (cases f; simp)+

text \<open>Only an increment of its own counter changes what the counters of a stream say.\<close>

lemma counters_step:
  assumes "keeps_streams e" "i \<noteq> []"
  shows "field_of f (counters_of (st_counters (snd (stats_step e s))) i) =
    field_of f (counters_of (st_counters s) i) + counted f i e"
proof (cases e)
  case (Increment f' i' n)
  then show ?thesis using assms(2) by (simp add: stats_inc_bump field_of_bump)
next
  case (Register i')
  then show ?thesis by (simp add: registerStream_def ensureStreamLocked_def) (simp add: counters_of_def)
next
  case (Unregister i')
  with assms show ?thesis by (simp add: keeps_streams_def)
next
  case StoreTurn
  then show ?thesis by (simp add: stats_store_def split: option.split)
qed (use assms in \<open>simp_all add: setRemainPacketSize_def setRemainFrameSize_def stats_take_def\<close>)

definition stats_inv :: "Statistics \<Rightarrow> bool" where
  "stats_inv s \<longleftrightarrow> distinct_keys (st_counters s) \<and> distinct_keys (baseline s) \<and>
     fst ` set (baseline s) \<subseteq> fst ` set (st_counters s)"

lemma modify_counters_keys:
  "distinct_keys (st_counters s) \<Longrightarrow> distinct_keys (st_counters (modify_counters i h s))"
  "fst ` set (st_counters (modify_counters i h s)) = insert i (fst ` set (st_counters s))"
  by (auto simp: modify_counters_def dom_update intro: wf_intros)

lemma baseline_modify [simp]: "baseline (modify_counters i h s) = baseline s"
  by (simp add: modify_counters_def baseline_def split: option.split)

lemma stats_inv_modify: "stats_inv s \<Longrightarrow> stats_inv (modify_counters i h s)"
proof -
  show "stats_inv s \<Longrightarrow> stats_inv (modify_counters i h s)"
    by (auto simp: stats_inv_def modify_counters_keys baseline_modify)
qed

lemma stats_inv_step:
  assumes "keeps_streams e" "stats_inv s"
  shows "stats_inv (snd (stats_step e s))"
proof (cases e)
  case (Increment f i n)
  with assms(2) show ?thesis by (simp add: stats_inc_bump stats_inv_modify)
next
  case (Register i)
  have "s\<lparr>st_counters := AList.update i new_Counters (st_counters s)\<rparr> = modify_counters i (\<lambda>_. new_Counters) s"
    by (simp add: modify_counters_def)
  with Register assms(2) show ?thesis by (simp add: registerStream_def ensureStreamLocked_def stats_inv_modify)
next
  case (Unregister i)
  with assms show ?thesis by (simp add: keeps_streams_def)
next
  case TakeTurn
  show ?thesis
  proof (cases "st_running s \<and> st_pending s = None \<and> st_counters s \<noteq> []")
    case True
    with TakeTurn assms(2) show ?thesis by (simp add: stats_take_def stats_inv_def baseline_def)
  next
    case False
    then have "stats_take s = ([], s)" by (auto simp: stats_take_def)
    with TakeTurn assms(2) show ?thesis by simp
  qed
next
  case StoreTurn
  with assms(2) show ?thesis by (auto simp: stats_store_def stats_inv_def baseline_def split: option.splits)
qed (use assms(2) in \<open>simp_all add: setRemainPacketSize_def setRemainFrameSize_def stats_inv_modify\<close>)

text \<open>Every turn reports the growth since the baseline and makes the counters the new baseline.\<close>

lemma reported_report:
  assumes "distinct_keys m"
  shows "reported f i (stats_report m base) =
    (case map_of m i of None \<Rightarrow> 0 | Some c \<Rightarrow> field_of f c - field_of f (counters_of base i))"
  using assms
proof (induction m)
  case Nil
  then show ?case by (simp add: reported_def stats_report_def)
next
  case (Cons p m)
  obtain j c where p: "p = (j, c)" by (cases p)
  have "map_of m j = None" if "j = i" using Cons.prems by (simp add: p map_of_eq_None_iff)
  with Cons show ?case by (auto simp: p reported_def stats_report_def)
qed

lemma reported_append: "reported f i (a @ b) = reported f i a + reported f i b"
  by (simp add: reported_def)

lemma stats_step_reported:
  assumes "keeps_streams e" "stats_inv s"
  shows "reported f i (fst (stats_step e s)) =
    field_of f (counters_of (baseline (snd (stats_step e s))) i) - field_of f (counters_of (baseline s) i)"
proof (cases "e = TakeTurn \<and> st_running s \<and> st_pending s = None \<and> st_counters s \<noteq> []")
  case True
  have "counters_of (st_last_snapshot s) i = new_Counters" if "map_of (st_counters s) i = None"
    using assms(2) that True
    by (auto simp: stats_inv_def baseline_def counters_of_def map_of_eq_None_iff split: option.split)
      (metis image_eqI fst_conv map_of_SomeD subsetD)
  with True assms(2) show ?thesis
    by (auto simp: stats_take_def baseline_def stats_inv_def reported_report counters_of_def split: option.splits)
next
  case False
  have "baseline (snd (stats_step e s)) = baseline s \<and> fst (stats_step e s) = []"
  proof (cases e)
    case (Increment f i n)
    then show ?thesis by (simp add: stats_inc_bump)
  next
    case (Unregister i)
    with assms show ?thesis by (simp add: keeps_streams_def)
  qed (use False in \<open>auto simp: registerStream_def ensureStreamLocked_def setRemainPacketSize_def setRemainFrameSize_def modify_counters_def
      stats_take_def stats_store_def baseline_def split: option.splits\<close>)
  then show ?thesis by (simp add: reported_def)
qed

lemma stats_run_sums:
  assumes "list_all keeps_streams es" "stats_inv s" "i \<noteq> []" "stats_run es s = (reports, s')"
  shows "stats_inv s' \<and>
    reported f i reports = field_of f (counters_of (baseline s') i) - field_of f (counters_of (baseline s) i) \<and>
    field_of f (counters_of (st_counters s') i) =
      field_of f (counters_of (st_counters s) i) + sum_list (map (counted f i) es)"
  using assms
proof (induction es arbitrary: s reports)
  case Nil
  then show ?case by (simp add: reported_def)
next
  case (Cons e es)
  obtain r s1 where st: "stats_step e s = (r, s1)" by (cases "stats_step e s")
  obtain rs where run: "stats_run es s1 = (rs, s')" and reports: "reports = r @ rs"
    using Cons.prems(4) st by (auto split: prod.splits)
  have "stats_inv s1" using stats_inv_step [of e s] Cons.prems st by simp
  from Cons.IH [OF _ this Cons.prems(3) run] Cons.prems st stats_step_reported [of e s f i] counters_step [of e i f s]
  show ?case by (simp add: reports reported_append)
qed

lemma stats_run_append:
  "stats_run (es @ es') s =
    (case stats_run es s of (r, s') \<Rightarrow> (case stats_run es' s' of (r', s'') \<Rightarrow> (r @ r', s'')))"
  by (induction es arbitrary: s) (auto split: prod.splits)

section \<open>Properties\<close>

text \<open>
  C36. As long as no stream is unregistered, every counted frame is reported exactly once: in any interleaving of the
  counting threads with the two halves of the reporting thread's turns, the differences reported for a
  stream up to and including a turn add up (modulo 2^64) to everything counted before it.
\<close>

theorem every_frame_reported_once:
  assumes "list_all keeps_streams es" "stats_run es (stats_start interval_ms new_Statistics) = (reports, s)"
    and "st_running s" "st_pending s = None" "st_counters s \<noteq> []" "i \<noteq> []"
  shows "reported f i (fst (stats_run (es @ [TakeTurn]) (stats_start interval_ms new_Statistics))) =
    sum_list (map (counted f i) es)"
proof -
  let ?s = "stats_start interval_ms new_Statistics"
  have start: "stats_inv ?s" "baseline ?s = []" "st_counters ?s = []"
    by (simp_all add: stats_inv_def baseline_def stats_start_def stats_stop_def stats_store_def new_Statistics_def)
  have all: "list_all keeps_streams (es @ [TakeTurn])" using assms(1) by (simp add: keeps_streams_def)
  obtain reports' s' where run: "stats_run (es @ [TakeTurn]) ?s = (reports', s')"
    by (cases "stats_run (es @ [TakeTurn]) ?s")
  have "baseline s' = st_counters s"
    using run assms(2-5) by (auto simp: stats_run_append stats_take_def baseline_def)
  with stats_run_sums [OF all start(1) assms(6) run, of f] stats_run_sums [OF assms(1) start(1) assms(6,2), of f] run start
  show ?thesis by (simp add: counters_of_def)
qed

text \<open>
  Unregistering a stream while the reporting thread is between its two critical sections breaks this: the thread
  stores the old counters after they were erased, so if the stream comes back, the next report subtracts them from the new ones
  and wraps around.
\<close>

theorem unregister_during_turn_wraps:
  assumes "n \<noteq> 0" "k \<noteq> 0" "i \<noteq> []"
  shows "reported RtspPull i (drop 1 (fst (stats_run
      [Increment RtspPull i n, TakeTurn, Unregister i, StoreTurn, Increment RtspPull i k, TakeTurn]
      (stats_start interval_ms new_Statistics)))) = k - n"
  using assms
  by (simp add: stats_start_def stats_stop_def stats_store_def new_Statistics_def incRtspPullFrame_def
      modify_counters_def stats_take_def unregisterStream_def stats_report_def counters_of_def new_Counters_def
      counters_delta_def reported_def)

theorem every_frame_reported_once_witness:
  "reported RtspPull ''c'' (fst (stats_run ([Increment RtspPull ''c'' 3, TakeTurn, Increment RtspPull ''c'' 4, StoreTurn]
     @ [TakeTurn]) (stats_start 1000 new_Statistics))) = 7"
proof -
  let ?es = "[Increment RtspPull ''c'' 3, TakeTurn, Increment RtspPull ''c'' 4, StoreTurn]"
  obtain reports s where run: "stats_run ?es (stats_start 1000 new_Statistics) = (reports, s)"
    by (cases "stats_run ?es (stats_start 1000 new_Statistics)")
  then have "st_running s" "st_pending s = None" "st_counters s \<noteq> []"
    by (auto simp: stats_start_def stats_stop_def stats_store_def new_Statistics_def incRtspPullFrame_def
      modify_counters_def stats_take_def)
  from every_frame_reported_once [OF _ run this, of "''c''" RtspPull] show ?thesis
    by (simp add: keeps_streams_def)
qed

theorem unregister_during_turn_wraps_witness:
  "reported RtspPull ''c'' (drop 1 (fst (stats_run
      [Increment RtspPull ''c'' 5, TakeTurn, Unregister ''c'', StoreTurn, Increment RtspPull ''c'' 1, TakeTurn]
      (stats_start 1000 new_Statistics)))) = - 4"
  using unregister_during_turn_wraps [of 5 1 "''c''" 1000] by simp

end
