(* ===== verification/StreamBuffer.thy ===== *)
theory StreamBuffer
  imports StreamTypes
begin

text \<open>
  \<open>src/pipeline/StreamBuffer.cpp\<close>: the buffer of one stream, shared by the puller (which
  enqueues packets and decoded frames), the inference workers (which select a frame and mark
  its progress) and the publishing thread (which takes packets out when the gates of
  \<open>canPublishLocked\<close> allow it). Every public method holds \<open>mutex_\<close>, so each is one atomic
  operation on the record.

  \<open>enqueuePacket\<close> and \<open>enqueueFrame\<close> refuse null pointers, so the containers hold values. The
  maps are keyed by frame id, and a bundle is stored under its own id, so comparing two stored
  pointers is comparing their keys. \<open>frames_\<close> and \<open>cached_inference_results_\<close> are unordered
  maps; the order of the association list is the order in which a loop visits them, and no
  theorem below depends on it.
\<close>

section \<open>State\<close>

type_synonym frame_map = "(int \<times> FrameBundle) list"
type_synonym result_map = "(int \<times> FrameInferenceResult) list"

record StreamBuffer =
  sb_packets :: "EncodedPacket list"
  sb_frames :: frame_map
  sb_frame_order :: "int list"
  sb_cached_inference_results :: result_map
  sb_video_packet_count :: nat
  sb_stopped :: bool
  sb_stream_id :: string

definition kPtsClockHz :: int where
  "kPtsClockHz = 90000"

definition kCachedInferenceMatchWindowMs :: int where
  "kCachedInferenceMatchWindowMs = 100"

definition kCachedInferenceMatchWindowPts :: int where
  "kCachedInferenceMatchWindowPts = (kPtsClockHz * kCachedInferenceMatchWindowMs) div 1000"

definition createStreamBuffer :: "string \<Rightarrow> StreamBuffer" where
  "createStreamBuffer stream_id =
     \<lparr>sb_packets = [], sb_frames = [], sb_frame_order = [], sb_cached_inference_results = [],
      sb_video_packet_count = 0, sb_stopped = False, sb_stream_id = stream_id\<rparr>"

section \<open>Operations of the puller\<close>

definition sb_enqueuePacket :: "EncodedPacket option \<Rightarrow> StreamBuffer \<Rightarrow> bool \<times> StreamBuffer" where
  "sb_enqueuePacket packet b =
     (case packet of
        None \<Rightarrow> (False, b)
      | Some p \<Rightarrow>
          if sb_stopped b then (False, b)
          else (True, b\<lparr>sb_video_packet_count :=
                          (if ep_media_type p = Video then Suc (sb_video_packet_count b)
                           else sb_video_packet_count b),
                        sb_packets := sb_packets b @ [p]\<rparr>))"

definition sb_enqueueFrame :: "FrameBundle option \<Rightarrow> StreamBuffer \<Rightarrow> bool \<times> StreamBuffer" where
  "sb_enqueueFrame frame b =
     (case frame of
        None \<Rightarrow> (False, b)
      | Some f \<Rightarrow>
          if sb_stopped b then (False, b)
          else (True, b\<lparr>sb_frames := AList.update (fb_frame_id f) f (sb_frames b),
                        sb_frame_order := sb_frame_order b @ [fb_frame_id f]\<rparr>))"

section \<open>Operations of the inference workers\<close>

definition isInferenceTerminal :: "InferState \<Rightarrow> bool" where
  "isInferenceTerminal state \<longleftrightarrow> state = Done \<or> state = Dropped"

definition isInferring :: "InferState \<Rightarrow> bool" where
  "isInferring state \<longleftrightarrow> state = Selected \<or> state = Running"

text \<open>The name of a state in the log lines of the buffer.\<close>

definition inferStateNameLocked :: "int \<Rightarrow> StreamBuffer \<Rightarrow> string" where
  "inferStateNameLocked frame_id b =
     (case map_of (sb_frames b) frame_id of
        None \<Rightarrow> ''missing''
      | Some f \<Rightarrow>
          (case fb_infer_state f of
             Idle \<Rightarrow> ''Idle''
           | Selected \<Rightarrow> ''Selected''
           | Running \<Rightarrow> ''Running''
           | Done \<Rightarrow> ''Done''
           | Dropped \<Rightarrow> ''Dropped''))"

definition sb_selectable :: "frame_map \<Rightarrow> int \<Rightarrow> bool" where
  "sb_selectable frames frame_id =
     (case map_of frames frame_id of
        None \<Rightarrow> False
      | Some f \<Rightarrow> fb_decoded_image f \<noteq> None \<and> fb_infer_state f = Idle)"

text \<open>One turn of the loop that closes every other frame that is not terminal yet.\<close>

definition sb_mark_done :: "int \<Rightarrow> int \<Rightarrow> frame_map \<Rightarrow> frame_map" where
  "sb_mark_done selected frame_id frames =
     (case map_of frames frame_id of
        None \<Rightarrow> frames
      | Some f \<Rightarrow>
          if frame_id = selected then frames
          else if isInferenceTerminal (fb_infer_state f) then frames
          else AList.update frame_id (f\<lparr>fb_infer_state := Done\<rparr>) frames)"

definition sb_selectFrameForInference :: "StreamBuffer \<Rightarrow> FrameBundle option \<times> StreamBuffer" where
  "sb_selectFrameForInference b =
     (case List.find (sb_selectable (sb_frames b)) (rev (sb_frame_order b)) of
        None \<Rightarrow> (None, b)
      | Some frame_id \<Rightarrow>
          (case map_of (sb_frames b) frame_id of
             None \<Rightarrow> (None, b)
           | Some f \<Rightarrow>
               let selected_frame = f\<lparr>fb_infer_state := Selected\<rparr>;
                   frames = AList.update frame_id selected_frame (sb_frames b)
               in (Some selected_frame,
                   b\<lparr>sb_frames := fold (sb_mark_done frame_id) (sb_frame_order b) frames\<rparr>)))"

definition sb_set_infer_state :: "int \<Rightarrow> InferState \<Rightarrow> StreamBuffer \<Rightarrow> StreamBuffer" where
  "sb_set_infer_state frame_id state b =
     (case map_of (sb_frames b) frame_id of
        None \<Rightarrow> b
      | Some f \<Rightarrow> b\<lparr>sb_frames := AList.update frame_id (f\<lparr>fb_infer_state := state\<rparr>) (sb_frames b)\<rparr>)"

definition sb_markInferenceRunning :: "int \<Rightarrow> StreamBuffer \<Rightarrow> StreamBuffer" where
  "sb_markInferenceRunning frame_id b = sb_set_infer_state frame_id Running b"

definition sb_markInferenceDone :: "FrameInferenceResult \<Rightarrow> StreamBuffer \<Rightarrow> StreamBuffer" where
  "sb_markInferenceDone result b = sb_set_infer_state (fr_frame_id result) Done b"

definition sb_clearInferenceSelection :: "int \<Rightarrow> InferState \<Rightarrow> StreamBuffer \<Rightarrow> StreamBuffer" where
  "sb_clearInferenceSelection frame_id state b = sb_set_infer_state frame_id state b"

definition sb_updateCachedInferenceResult :: "FrameInferenceResult \<Rightarrow> StreamBuffer \<Rightarrow> StreamBuffer" where
  "sb_updateCachedInferenceResult result b =
     (if fr_frame_id result < 0 then b
      else b\<lparr>sb_cached_inference_results :=
               AList.update (fr_frame_id result) result (sb_cached_inference_results b)\<rparr>)"

section \<open>Operations of the publishing thread\<close>

definition hasDecodedFrameLocked :: "int option \<Rightarrow> StreamBuffer \<Rightarrow> bool" where
  "hasDecodedFrameLocked excluded b =
     list_ex (\<lambda>(frame_id, f). excluded \<noteq> Some frame_id \<and> fb_decoded_image f \<noteq> None) (sb_frames b)"

definition inferringFrameIdLocked :: "StreamBuffer \<Rightarrow> int option" where
  "inferringFrameIdLocked b =
     List.find (\<lambda>frame_id.
        case map_of (sb_frames b) frame_id of
          None \<Rightarrow> False
        | Some f \<Rightarrow> fb_decoded_image f \<noteq> None \<and> isInferring (fb_infer_state f)) (sb_frame_order b)"

definition canPublishLocked :: "nat \<Rightarrow> StreamBuffer \<Rightarrow> bool" where
  "canPublishLocked min_video_watermark b =
     (case sb_packets b of
        [] \<Rightarrow> False
      | front # _ \<Rightarrow>
          if min_video_watermark = 0 then True
          else if sb_video_packet_count b = 0 then True
          else if ep_media_type front = Audio then True
          else if (case inferringFrameIdLocked b of
                     None \<Rightarrow> False
                   | Some inferring \<Rightarrow> ep_frame_id front < 0 \<or> ep_frame_id front \<ge> inferring)
          then False
          else if ep_frame_id front \<ge> 0 \<and>
                  (case map_of (sb_frames b) (ep_frame_id front) of
                     None \<Rightarrow> True
                   | Some f \<Rightarrow> fb_decoded_image f \<noteq> None \<and>
                               \<not> hasDecodedFrameLocked (Some (ep_frame_id front)) b)
          then False
          else sb_video_packet_count b > min_video_watermark)"

text \<open>\<open>None\<close>: the wait has no time limit and goes on.\<close>

definition sb_waitForPublishable :: "nat \<Rightarrow> nat \<Rightarrow> StreamBuffer \<Rightarrow> bool option" where
  "sb_waitForPublishable min_video_watermark timeout_ms b =
     (if \<not> (sb_stopped b \<or> canPublishLocked min_video_watermark b)
      then (if timeout_ms = 0 then None else Some False)
      else Some (\<not> sb_stopped b \<and> canPublishLocked min_video_watermark b))"

definition sb_peekPacket :: "StreamBuffer \<Rightarrow> EncodedPacket option" where
  "sb_peekPacket b = (case sb_packets b of [] \<Rightarrow> None | p # _ \<Rightarrow> Some p)"

definition sb_popPacket :: "StreamBuffer \<Rightarrow> StreamBuffer" where
  "sb_popPacket b =
     (case sb_packets b of
        [] \<Rightarrow> b
      | p # ps \<Rightarrow>
          b\<lparr>sb_video_packet_count :=
              (if ep_media_type p = Video \<and> sb_video_packet_count b > 0
               then sb_video_packet_count b - 1 else sb_video_packet_count b),
            sb_packets := ps\<rparr>)"

definition sb_findFrame :: "int \<Rightarrow> StreamBuffer \<Rightarrow> FrameBundle option" where
  "sb_findFrame frame_id b = map_of (sb_frames b) frame_id"

definition sb_releaseFrame :: "int \<Rightarrow> StreamBuffer \<Rightarrow> StreamBuffer" where
  "sb_releaseFrame frame_id b =
     b\<lparr>sb_frames := AList.delete frame_id (sb_frames b),
       sb_frame_order := removeAll frame_id (sb_frame_order b),
       sb_cached_inference_results := AList.delete frame_id (sb_cached_inference_results b)\<rparr>"

definition sb_purgeExpired :: "int \<Rightarrow> result_map \<Rightarrow> result_map" where
  "sb_purgeExpired now_mono_ms cached =
     filter (\<lambda>(_, r). \<not> fr_expire_at_mono_ms r < now_mono_ms) cached"

fun sb_match_pts :: "int \<Rightarrow> result_map \<Rightarrow> int option \<times> int \<Rightarrow> int option \<times> int" where
  "sb_match_pts pts [] (matched, best_pts_diff) = (matched, best_pts_diff)"
| "sb_match_pts pts ((k, r) # rs) (matched, best_pts_diff) =
     (if fr_pts r < 0 then sb_match_pts pts rs (matched, best_pts_diff)
      else let pts_diff = (if fr_pts r \<ge> pts then fr_pts r - pts else pts - fr_pts r)
           in if pts_diff \<le> kCachedInferenceMatchWindowPts \<and> pts_diff < best_pts_diff
              then sb_match_pts pts rs (Some k, pts_diff)
              else sb_match_pts pts rs (matched, best_pts_diff))"

text \<open>The key \<open>matched_it\<close> points to: the nearest presentation time, else the frame id.\<close>

definition sb_match_key :: "int \<Rightarrow> int \<Rightarrow> result_map \<Rightarrow> int option" where
  "sb_match_key frame_id pts cached =
     (let by_pts = (if pts \<ge> 0
                    then fst (sb_match_pts pts cached (None, kCachedInferenceMatchWindowPts + 1))
                    else None)
      in if by_pts = None \<and> frame_id \<ge> 0 then Some frame_id else by_pts)"

definition sb_takeCachedInferenceResult ::
  "int \<Rightarrow> int \<Rightarrow> int \<Rightarrow> StreamBuffer \<Rightarrow> FrameInferenceResult option \<times> StreamBuffer"
where
  "sb_takeCachedInferenceResult frame_id pts now_mono_ms b =
     (let cached = sb_purgeExpired now_mono_ms (sb_cached_inference_results b)
      in case sb_match_key frame_id pts cached of
           None \<Rightarrow> (None, b\<lparr>sb_cached_inference_results := cached\<rparr>)
         | Some k \<Rightarrow>
             (case map_of cached k of
                None \<Rightarrow> (None, b\<lparr>sb_cached_inference_results := cached\<rparr>)
              | Some r \<Rightarrow> (Some r, b\<lparr>sb_cached_inference_results := AList.delete k cached\<rparr>)))"

section \<open>Queries and stop\<close>

definition sb_packetCount :: "StreamBuffer \<Rightarrow> nat" where
  "sb_packetCount b = length (sb_packets b)"

definition sb_frameCount :: "StreamBuffer \<Rightarrow> nat" where
  "sb_frameCount b = length (sb_frames b)"

definition sb_empty :: "StreamBuffer \<Rightarrow> bool" where
  "sb_empty b \<longleftrightarrow> sb_packets b = [] \<and> sb_frames b = []"

definition sb_stop :: "StreamBuffer \<Rightarrow> StreamBuffer" where
  "sb_stop b = b\<lparr>sb_stopped := True\<rparr>"

end
