(* ===== verification/StreamBufferProofs.thy ===== *)
theory StreamBufferProofs
  imports StreamBuffer
begin

text \<open>
  Correctness of the stream buffer: its representation invariant under every method, the
  exact effect of frame selection and of the result cache, the packet queue as a refinement of
  a plain FIFO, and what the gates of \<open>canPublishLocked\<close> guarantee.
\<close>

section \<open>Vocabulary\<close>

definition is_video :: "EncodedPacket \<Rightarrow> bool" where
  "is_video p \<longleftrightarrow> ep_media_type p = Video"

definition sb_inv :: "StreamBuffer \<Rightarrow> bool" where
  "sb_inv b \<longleftrightarrow>
     distinct_keys (sb_frames b) \<and> distinct_keys (sb_cached_inference_results b) \<and>
     sb_video_packet_count b = length (filter is_video (sb_packets b)) \<and>
     dom (map_of (sb_frames b)) = set (sb_frame_order b) \<and>
     (\<forall>k f. map_of (sb_frames b) k = Some f \<longrightarrow> fb_frame_id f = k) \<and>
     (\<forall>k r. map_of (sb_cached_inference_results b) k = Some r \<longrightarrow> 0 \<le> k \<and> fr_frame_id r = k)"

text \<open>The calls the threads make on one buffer.\<close>

datatype sb_op =
  EnqueuePacket "EncodedPacket option"
| EnqueueFrame "FrameBundle option"
| SelectFrame
| MarkRunning int
| MarkDone FrameInferenceResult
| ClearSelection int InferState
| PopPacket
| ReleaseFrame int
| UpdateCache FrameInferenceResult
| TakeCached int int int
| StopBuffer

fun sb_apply :: "sb_op \<Rightarrow> StreamBuffer \<Rightarrow> StreamBuffer" where
  "sb_apply (EnqueuePacket p) b = snd (sb_enqueuePacket p b)"
| "sb_apply (EnqueueFrame f) b = snd (sb_enqueueFrame f b)"
| "sb_apply SelectFrame b = snd (sb_selectFrameForInference b)"
| "sb_apply (MarkRunning i) b = sb_markInferenceRunning i b"
| "sb_apply (MarkDone r) b = sb_markInferenceDone r b"
| "sb_apply (ClearSelection i st) b = sb_clearInferenceSelection i st b"
| "sb_apply PopPacket b = sb_popPacket b"
| "sb_apply (ReleaseFrame i) b = sb_releaseFrame i b"
| "sb_apply (UpdateCache r) b = sb_updateCachedInferenceResult r b"
| "sb_apply (TakeCached i pts now) b = snd (sb_takeCachedInferenceResult i pts now b)"
| "sb_apply StopBuffer b = sb_stop b"

definition sb_run :: "sb_op list \<Rightarrow> StreamBuffer \<Rightarrow> StreamBuffer" where
  "sb_run ops b = fold sb_apply ops b"

text \<open>
  What the packet queue shows to the outside: the packets \<open>enqueuePacket\<close> accepted and the
  packets \<open>popPacket\<close> removed, in order of time.
\<close>

definition sb_accepted :: "sb_op \<Rightarrow> StreamBuffer \<Rightarrow> EncodedPacket list" where
  "sb_accepted x b =
     (case x of
        EnqueuePacket (Some p) \<Rightarrow> if fst (sb_enqueuePacket (Some p) b) then [p] else []
      | _ \<Rightarrow> [])"

definition sb_removed :: "sb_op \<Rightarrow> StreamBuffer \<Rightarrow> EncodedPacket list" where
  "sb_removed x b =
     (case x of
        PopPacket \<Rightarrow> (case sb_peekPacket b of None \<Rightarrow> [] | Some p \<Rightarrow> [p])
      | _ \<Rightarrow> [])"

fun sb_log :: "sb_op list \<Rightarrow> StreamBuffer \<Rightarrow> EncodedPacket list \<times> EncodedPacket list" where
  "sb_log [] b = ([], [])"
| "sb_log (x # ops) b =
     (case sb_log ops (sb_apply x b) of
        (ins, outs) \<Rightarrow> (sb_accepted x b @ ins, sb_removed x b @ outs))"

text \<open>Distance of a cached result from a presentation time.\<close>

definition pts_distance :: "int \<Rightarrow> FrameInferenceResult \<Rightarrow> int" where
  "pts_distance pts r = \<bar>fr_pts r - pts\<bar>"

definition pts_near :: "int \<Rightarrow> FrameInferenceResult \<Rightarrow> bool" where
  "pts_near pts r \<longleftrightarrow>
     0 \<le> pts \<and> 0 \<le> fr_pts r \<and> pts_distance pts r \<le> kCachedInferenceMatchWindowPts"

text \<open>The cached results that have not expired.\<close>

definition live_results :: "int \<Rightarrow> StreamBuffer \<Rightarrow> int \<rightharpoonup> FrameInferenceResult" where
  "live_results now b k =
     (case map_of (sb_cached_inference_results b) k of
        None \<Rightarrow> None
      | Some r \<Rightarrow> if now \<le> fr_expire_at_mono_ms r then Some r else None)"

section \<open>Selection\<close>

lemma map_of_mark_done:
  "map_of (sb_mark_done sel i frames) k =
     (case map_of frames k of
        None \<Rightarrow> None
      | Some f \<Rightarrow> Some (if k = i \<and> k \<noteq> sel \<and> \<not> isInferenceTerminal (fb_infer_state f)
                        then f\<lparr>fb_infer_state := Done\<rparr> else f))"
  by (auto simp: sb_mark_done_def dict_simps split: option.splits)

lemma distinct_mark_done [wf_intros]:
  "distinct_keys frames \<Longrightarrow> distinct_keys (sb_mark_done sel i frames)"
  by (auto simp: sb_mark_done_def intro: wf_intros split: option.splits)

lemma isInferenceTerminal_Done [simp]: "isInferenceTerminal Done" "isInferenceTerminal Dropped"
  "\<not> isInferenceTerminal Idle" "\<not> isInferenceTerminal Selected" "\<not> isInferenceTerminal Running"
  by (simp_all add: isInferenceTerminal_def)

lemma map_of_fold_mark_done:
  "map_of (fold (sb_mark_done sel) order frames) k =
     (case map_of frames k of
        None \<Rightarrow> None
      | Some f \<Rightarrow> Some (if k \<in> set order \<and> k \<noteq> sel \<and> \<not> isInferenceTerminal (fb_infer_state f)
                        then f\<lparr>fb_infer_state := Done\<rparr> else f))"
  by (induction order arbitrary: frames) (auto simp: map_of_mark_done split: option.splits)

lemma distinct_fold_mark_done [wf_intros]:
  "distinct_keys frames \<Longrightarrow> distinct_keys (fold (sb_mark_done sel) order frames)"
  by (induction order arbitrary: frames) (auto intro: wf_intros)

lemma select_cases:
  obtains (none) "sb_selectFrameForInference b = (None, b)"
      "\<forall>i \<in> set (sb_frame_order b). \<not> sb_selectable (sb_frames b) i"
  | (some) i f older newer where "sb_frame_order b = older @ i # newer"
      "map_of (sb_frames b) i = Some f" "fb_decoded_image f \<noteq> None" "fb_infer_state f = Idle"
      "\<forall>j \<in> set newer. \<not> sb_selectable (sb_frames b) j"
      "sb_selectFrameForInference b =
         (Some (f\<lparr>fb_infer_state := Selected\<rparr>),
          b\<lparr>sb_frames := fold (sb_mark_done i) (sb_frame_order b)
              (AList.update i (f\<lparr>fb_infer_state := Selected\<rparr>) (sb_frames b))\<rparr>)"
proof (cases "List.find (sb_selectable (sb_frames b)) (rev (sb_frame_order b))")
  case None
  then show ?thesis
    by (intro none) (simp_all add: sb_selectFrameForInference_def, simp add: find_None_all)
next
  case (Some i)
  from find_rev_Some_split [OF Some] obtain older newer where
    split: "sb_frame_order b = older @ i # newer" and sel: "sb_selectable (sb_frames b) i"
    and rest: "\<forall>j \<in> set newer. \<not> sb_selectable (sb_frames b) j" by blast
  from sel obtain f where f: "map_of (sb_frames b) i = Some f" "fb_decoded_image f \<noteq> None"
    "fb_infer_state f = Idle" by (auto simp: sb_selectable_def split: option.splits)
  show ?thesis
    by (rule some [OF split f rest])
      (simp add: sb_selectFrameForInference_def Some f(1) Let_def)
qed

lemma select_frame_lookup:
  assumes "sb_selectFrameForInference b = (Some g, b')" "sb_inv b"
  shows "map_of (sb_frames b') k =
    (case map_of (sb_frames b) k of
       None \<Rightarrow> None
     | Some f \<Rightarrow> Some (if k = fb_frame_id g then f\<lparr>fb_infer_state := Selected\<rparr>
                       else if isInferenceTerminal (fb_infer_state f) then f
                       else f\<lparr>fb_infer_state := Done\<rparr>))"
proof (rule select_cases [of b])
  fix i f older newer
  assume order: "sb_frame_order b = older @ i # newer" and f: "map_of (sb_frames b) i = Some f"
    and res: "sb_selectFrameForInference b =
         (Some (f\<lparr>fb_infer_state := Selected\<rparr>),
          b\<lparr>sb_frames := fold (sb_mark_done i) (sb_frame_order b)
              (AList.update i (f\<lparr>fb_infer_state := Selected\<rparr>) (sb_frames b))\<rparr>)"
  have i: "fb_frame_id g = i" using assms f res by (auto simp: sb_inv_def)
  have "k \<in> set (sb_frame_order b)" if "map_of (sb_frames b) k \<noteq> None"
    using assms(2) that by (auto simp: sb_inv_def)
  with assms f res i show ?thesis
    by (auto simp: map_of_fold_mark_done dict_simps split: option.splits)
qed (use assms in simp)

lemma select_SomeD:
  assumes "sb_selectFrameForInference b = (Some g, b')" "sb_inv b"
  shows "\<exists>f older newer. sb_frame_order b = older @ fb_frame_id g # newer \<and>
           map_of (sb_frames b) (fb_frame_id g) = Some f \<and> fb_decoded_image f \<noteq> None \<and>
           fb_infer_state f = Idle \<and> g = f\<lparr>fb_infer_state := Selected\<rparr> \<and>
           (\<forall>j \<in> set newer. \<not> sb_selectable (sb_frames b) j)"
    and "b' = b\<lparr>sb_frames := sb_frames b'\<rparr>"
    and "distinct_keys (sb_frames b')"
  by (rule select_cases [of b]; use assms in \<open>auto simp: sb_inv_def intro: wf_intros\<close>)+

lemma select_dom:
  assumes "sb_selectFrameForInference b = (Some g, b')" "sb_inv b"
  shows "dom (map_of (sb_frames b')) = dom (map_of (sb_frames b))"
  by (auto simp: select_frame_lookup [OF assms] split: option.splits)

lemma select_NoneD:
  "sb_selectFrameForInference b = (None, b') \<Longrightarrow>
     b' = b \<and> (\<forall>i \<in> set (sb_frame_order b). \<not> sb_selectable (sb_frames b) i)"
  by (rule select_cases [of b]) auto

section \<open>The invariant\<close>

lemma sb_inv_new [wf_intros]: "sb_inv (createStreamBuffer s)"
  by (simp add: sb_inv_def createStreamBuffer_def)

lemma sb_inv_enqueuePacket: "sb_inv b \<Longrightarrow> sb_inv (snd (sb_enqueuePacket p b))"
  by (auto simp: sb_inv_def sb_enqueuePacket_def is_video_def split: option.splits)

lemma sb_inv_enqueueFrame: "sb_inv b \<Longrightarrow> sb_inv (snd (sb_enqueueFrame f b))"
  by (auto simp: sb_inv_def sb_enqueueFrame_def dict_simps split: option.splits intro: wf_intros)

lemma sb_inv_set_state: "sb_inv b \<Longrightarrow> sb_inv (sb_set_infer_state i st b)"
  by (auto simp: sb_inv_def sb_set_infer_state_def dict_simps split: option.splits intro: wf_intros)

lemma sb_inv_select:
  assumes "sb_inv b"
  shows "sb_inv (snd (sb_selectFrameForInference b))"
proof (cases "sb_selectFrameForInference b")
  case (Pair r b')
  show ?thesis
  proof (cases r)
    case None
    with Pair assms show ?thesis by (auto dest: select_NoneD)
  next
    case (Some g)
    with Pair have sel: "sb_selectFrameForInference b = (Some g, b')" by simp
    have "fb_frame_id h = k" if "map_of (sb_frames b') k = Some h" for k h
      using that assms
      by (auto simp: select_frame_lookup [OF sel assms] sb_inv_def split: option.splits if_splits)
    moreover obtain frames where "b' = b\<lparr>sb_frames := frames\<rparr>"
      using select_SomeD(2) [OF sel assms] by blast
    ultimately show ?thesis
      using assms sel select_dom [OF sel assms] select_SomeD(3) [OF sel assms]
      by (simp add: sb_inv_def)
  qed
qed

lemma sb_inv_popPacket: "sb_inv b \<Longrightarrow> sb_inv (sb_popPacket b)"
  by (auto simp: sb_inv_def sb_popPacket_def is_video_def split: list.splits)

lemma sb_inv_releaseFrame: "sb_inv b \<Longrightarrow> sb_inv (sb_releaseFrame i b)"
  by (auto simp: sb_inv_def sb_releaseFrame_def dict_simps intro: wf_intros split: if_splits)

lemma sb_inv_updateCached: "sb_inv b \<Longrightarrow> sb_inv (sb_updateCachedInferenceResult r b)"
  by (auto simp: sb_inv_def sb_updateCachedInferenceResult_def dict_simps intro: wf_intros)

lemma distinct_purge [wf_intros]: "distinct_keys m \<Longrightarrow> distinct_keys (sb_purgeExpired now m)"
  by (auto simp: sb_purgeExpired_def intro: wf_intros)

lemma map_of_purge:
  "distinct_keys m \<Longrightarrow> map_of (sb_purgeExpired now m) k = Some r \<longleftrightarrow>
     map_of m k = Some r \<and> now \<le> fr_expire_at_mono_ms r"
  by (auto simp: sb_purgeExpired_def map_of_filter_distinct split: option.splits if_splits)

lemma takeCached_cases:
  obtains (none) "sb_takeCachedInferenceResult i pts now b =
      (None, b\<lparr>sb_cached_inference_results := sb_purgeExpired now (sb_cached_inference_results b)\<rparr>)"
      "\<And>k. sb_match_key i pts (sb_purgeExpired now (sb_cached_inference_results b)) = Some k \<Longrightarrow>
         map_of (sb_purgeExpired now (sb_cached_inference_results b)) k = None"
  | (some) k r where
      "sb_match_key i pts (sb_purgeExpired now (sb_cached_inference_results b)) = Some k"
      "map_of (sb_purgeExpired now (sb_cached_inference_results b)) k = Some r"
      "sb_takeCachedInferenceResult i pts now b =
      (Some r, b\<lparr>sb_cached_inference_results :=
         AList.delete k (sb_purgeExpired now (sb_cached_inference_results b))\<rparr>)"
proof (cases "sb_match_key i pts (sb_purgeExpired now (sb_cached_inference_results b))")
  case None
  then show ?thesis by (intro none) (simp_all add: sb_takeCachedInferenceResult_def)
next
  case (Some k)
  note key = this
  show ?thesis
  proof (cases "map_of (sb_purgeExpired now (sb_cached_inference_results b)) k")
    case None
    with key show ?thesis by (intro none) (simp_all add: sb_takeCachedInferenceResult_def)
  next
    case (Some r)
    show ?thesis
      by (rule some [OF key Some]) (simp add: sb_takeCachedInferenceResult_def key Some)
  qed
qed

lemma sb_inv_takeCached:
  assumes "sb_inv b"
  shows "sb_inv (snd (sb_takeCachedInferenceResult i pts now b))"
proof (rule takeCached_cases [of i pts now b])
qed (use assms in \<open>auto simp: sb_inv_def map_of_purge dict_simps intro: wf_intros split: if_splits\<close>)

lemma sb_inv_stop: "sb_inv b \<Longrightarrow> sb_inv (sb_stop b)"
  by (simp add: sb_inv_def sb_stop_def)

lemma sb_inv_apply: "sb_inv b \<Longrightarrow> sb_inv (sb_apply x b)"
  by (cases x) (simp_all add: sb_inv_enqueuePacket sb_inv_enqueueFrame sb_inv_select
      sb_markInferenceRunning_def sb_markInferenceDone_def sb_clearInferenceSelection_def
      sb_inv_set_state sb_inv_popPacket sb_inv_releaseFrame sb_inv_updateCached
      sb_inv_takeCached sb_inv_stop)

lemma sb_inv_run: "sb_inv b \<Longrightarrow> sb_inv (sb_run ops b)"
  unfolding sb_run_def by (induction ops arbitrary: b) (simp_all add: sb_inv_apply)

section \<open>The packet queue is a FIFO\<close>

lemma sb_apply_packets: "sb_packets b @ sb_accepted x b = sb_removed x b @ sb_packets (sb_apply x b)"
proof (cases x)
  case (EnqueuePacket p)
  then show ?thesis
    by (cases p) (simp_all add: sb_accepted_def sb_removed_def sb_enqueuePacket_def)
next
  case SelectFrame
  then show ?thesis
    by (simp add: sb_accepted_def sb_removed_def sb_selectFrameForInference_def Let_def
        split: option.splits)
next
  case PopPacket
  then show ?thesis
    by (cases "sb_packets b")
      (simp_all add: sb_accepted_def sb_removed_def sb_popPacket_def sb_peekPacket_def)
next
  case (EnqueueFrame f)
  then show ?thesis
    by (cases f) (simp_all add: sb_accepted_def sb_removed_def sb_enqueueFrame_def)
next
  case (TakeCached i pts now)
  then show ?thesis
    by (simp add: sb_accepted_def sb_removed_def sb_takeCachedInferenceResult_def Let_def
        split: option.splits)
qed (simp_all add: sb_accepted_def sb_removed_def sb_markInferenceRunning_def
      sb_markInferenceDone_def sb_clearInferenceSelection_def sb_set_infer_state_def
      sb_releaseFrame_def sb_updateCachedInferenceResult_def sb_stop_def split: option.splits)

lemma sb_run_packets:
  "sb_log ops b = (ins, outs) \<Longrightarrow> sb_packets b @ ins = outs @ sb_packets (sb_run ops b)"
proof (induction ops arbitrary: b ins outs)
  case Nil
  then show ?case by (simp add: sb_run_def)
next
  case (Cons x ops)
  obtain ins' outs' where log: "sb_log ops (sb_apply x b) = (ins', outs')"
    by (cases "sb_log ops (sb_apply x b)")
  from Cons.IH [OF log] sb_apply_packets [of b x] Cons.prems log show ?case
    by (simp add: sb_run_def) (metis append.assoc)
qed

section \<open>The result cache\<close>

lemma sb_match_pts_spec:
  assumes "sb_match_pts pts rs (m, best) = (m', best')"
  shows "(m' = m \<and> best' = best \<and>
            (\<forall>(k, r) \<in> set rs. 0 \<le> fr_pts r \<longrightarrow>
               \<not> (pts_distance pts r \<le> kCachedInferenceMatchWindowPts \<and> pts_distance pts r < best)))
       \<or> (\<exists>(k, r) \<in> set rs. m' = Some k \<and> best' = pts_distance pts r \<and> 0 \<le> fr_pts r \<and>
            pts_distance pts r \<le> kCachedInferenceMatchWindowPts \<and> best' < best \<and>
            (\<forall>(k2, r2) \<in> set rs. 0 \<le> fr_pts r2 \<longrightarrow>
               pts_distance pts r2 \<le> kCachedInferenceMatchWindowPts \<longrightarrow> best' \<le> pts_distance pts r2))"
  using assms
proof (induction rs arbitrary: m best)
  case Nil
  then show ?case by simp
next
  case (Cons p rs)
  obtain k r where p: "p = (k, r)" by (cases p)
  let ?d = "pts_distance pts r"
  have d: "(if fr_pts r \<ge> pts then fr_pts r - pts else pts - fr_pts r) = ?d"
    by (simp add: pts_distance_def)
  show ?case
  proof (cases "0 \<le> fr_pts r \<and> ?d \<le> kCachedInferenceMatchWindowPts \<and> ?d < best")
    case True
    with Cons.prems p d have "sb_match_pts pts rs (Some k, ?d) = (m', best')"
      by (simp add: Let_def split: if_splits)
    from Cons.IH [OF this] True p show ?thesis by fastforce
  next
    case False
    with Cons.prems p d have "sb_match_pts pts rs (m, best) = (m', best')"
      by (auto simp: Let_def split: if_splits)
    from Cons.IH [OF this] False p show ?thesis by fastforce
  qed
qed

lemma sb_match_key_near:
  assumes "distinct_keys cached" "map_of cached k0 = Some r0" "pts_near pts r0"
  shows "\<exists>k r. sb_match_key i pts cached = Some k \<and> map_of cached k = Some r \<and> pts_near pts r \<and>
           (\<forall>k2 r2. map_of cached k2 = Some r2 \<longrightarrow> pts_near pts r2 \<longrightarrow>
              pts_distance pts r \<le> pts_distance pts r2)"
proof -
  obtain m best where m: "sb_match_pts pts cached (None, kCachedInferenceMatchWindowPts + 1) = (m, best)"
    by (cases "sb_match_pts pts cached (None, kCachedInferenceMatchWindowPts + 1)")
  have mem: "map_of cached k = Some r \<longleftrightarrow> (k, r) \<in> set cached" for k r
    using assms(1) by (rule map_of_distinct_iff)
  from assms(2,3) mem have "(k0, r0) \<in> set cached" "0 \<le> fr_pts r0"
    "pts_distance pts r0 \<le> kCachedInferenceMatchWindowPts"
    by (auto simp: pts_near_def)
  then obtain k r where kr: "(k, r) \<in> set cached" "m = Some k" "0 \<le> fr_pts r"
    "pts_distance pts r \<le> kCachedInferenceMatchWindowPts"
    "\<forall>(k2, r2) \<in> set cached. 0 \<le> fr_pts r2 \<longrightarrow>
       pts_distance pts r2 \<le> kCachedInferenceMatchWindowPts \<longrightarrow> pts_distance pts r \<le> pts_distance pts r2"
    using sb_match_pts_spec [OF m] by fastforce
  have "sb_match_key i pts cached = Some k"
    using m kr(2) assms(3) by (simp add: sb_match_key_def pts_near_def)
  with kr mem assms(3) show ?thesis by (auto simp: pts_near_def)
qed

lemma sb_match_key_far:
  assumes "distinct_keys cached" "\<And>k r. map_of cached k = Some r \<Longrightarrow> \<not> pts_near pts r"
  shows "sb_match_key i pts cached = (if 0 \<le> i then Some i else None)"
proof -
  obtain m best where m: "sb_match_pts pts cached (None, kCachedInferenceMatchWindowPts + 1) = (m, best)"
    by (cases "sb_match_pts pts cached (None, kCachedInferenceMatchWindowPts + 1)")
  have "m = None" if "0 \<le> pts"
    using sb_match_pts_spec [OF m] assms that
    by (fastforce simp: pts_near_def map_of_distinct_iff)
  with m show ?thesis by (auto simp: sb_match_key_def)
qed

section \<open>The gates of the publisher\<close>

lemma hasDecoded_iff:
  assumes "sb_inv b"
  shows "hasDecodedFrameLocked x b \<longleftrightarrow>
    (\<exists>k f. map_of (sb_frames b) k = Some f \<and> x \<noteq> Some k \<and> fb_decoded_image f \<noteq> None)"
proof -
  have "distinct_keys (sb_frames b)" using assms by (simp add: sb_inv_def)
  then show ?thesis
    by (auto simp: hasDecodedFrameLocked_def list_ex_iff map_of_distinct_iff)
qed

lemma hasDecoded_release:
  assumes "sb_inv b" "hasDecodedFrameLocked (Some i) b"
  shows "hasDecodedFrameLocked None (sb_releaseFrame i b)"
proof -
  from assms obtain k f where "map_of (sb_frames b) k = Some f" "k \<noteq> i" "fb_decoded_image f \<noteq> None"
    by (auto simp: hasDecoded_iff)
  then show ?thesis
    using sb_inv_releaseFrame [OF assms(1)]
    by (auto simp: hasDecoded_iff sb_releaseFrame_def dict_simps)
qed

lemma video_count_pos:
  assumes "sb_inv b" "sb_packets b = p # ps" "ep_media_type p = Video"
  shows "0 < sb_video_packet_count b"
  using assms by (simp add: sb_inv_def is_video_def)

lemma canPublish_videoD:
  assumes "sb_inv b" "canPublishLocked w b" "0 < w" "sb_packets b = p # ps" "ep_media_type p = Video"
  shows "w < sb_video_packet_count b"
    and "inferringFrameIdLocked b = Some i \<Longrightarrow> 0 \<le> ep_frame_id p \<and> ep_frame_id p < i"
    and "0 \<le> ep_frame_id p \<Longrightarrow> \<exists>f. map_of (sb_frames b) (ep_frame_id p) = Some f \<and>
           (fb_decoded_image f \<noteq> None \<longrightarrow> hasDecodedFrameLocked (Some (ep_frame_id p)) b)"
  using assms video_count_pos [OF assms(1,4,5)]
  by (auto simp: canPublishLocked_def split: if_splits option.splits)

lemma hasDecoded_popPacket [simp]: "hasDecodedFrameLocked x (sb_popPacket b) = hasDecodedFrameLocked x b"
  by (simp add: hasDecodedFrameLocked_def sb_popPacket_def split: list.splits)

section \<open>Example buffers for the witnesses\<close>

definition ex_image :: DmaImage where
  "ex_image = \<lparr>di_fd = 3, di_virt_addr = None, di_size = 0, di_width = 2, di_height = 2,
     di_width_stride = 2, di_height_stride = 2\<rparr>"

definition ex_packet :: "int \<Rightarrow> EncodedPacket" where
  "ex_packet i = new_EncodedPacket\<lparr>ep_frame_id := i, ep_pts := 3000 * i\<rparr>"

definition ex_frame :: "int \<Rightarrow> FrameBundle" where
  "ex_frame i = new_FrameBundle\<lparr>fb_frame_id := i, fb_pts := 3000 * i, fb_decoded_image := Some ex_image\<rparr>"

definition ex_result :: "int \<Rightarrow> FrameInferenceResult" where
  "ex_result i = new_FrameInferenceResult\<lparr>fr_frame_id := i, fr_pts := 3000 * i, fr_expire_at_mono_ms := 5000\<rparr>"

definition ex_buffer :: StreamBuffer where
  "ex_buffer = sb_run
     [EnqueuePacket (Some (ex_packet 0)), EnqueueFrame (Some (ex_frame 0)),
      EnqueuePacket (Some (ex_packet 1)), EnqueueFrame (Some (ex_frame 1)),
      UpdateCache (ex_result 0), UpdateCache (ex_result 1)] (createStreamBuffer ''cam'')"

lemmas ex_defs = ex_buffer_def ex_image_def ex_packet_def ex_frame_def ex_result_def sb_run_def
  createStreamBuffer_def sb_enqueuePacket_def sb_enqueueFrame_def
  sb_updateCachedInferenceResult_def new_EncodedPacket_def new_FrameBundle_def
  new_FrameInferenceResult_def

lemma ex_buffer_inv: "sb_inv ex_buffer"
  unfolding ex_buffer_def by (rule sb_inv_run) (rule sb_inv_new)

section \<open>Properties\<close>

text \<open>
  C11. Every sequence of calls on a stream buffer keeps its representation invariant: the video
  counter is the number of queued video packets, the arrival order lists exactly the stored
  frames, every frame and every cached result is stored under its own id, and no key occurs twice.
\<close>

theorem sb_run_invariant: "sb_inv (sb_run ops (createStreamBuffer stream_id))"
  by (rule sb_inv_run) (rule sb_inv_new)

text \<open>
  C12. The packet queue refines a plain FIFO: after any sequence of calls the packets removed so
  far followed by the packets still queued are exactly the packets accepted so far, in order. No
  call loses, repeats or reorders a packet.
\<close>

theorem sb_packets_fifo:
  "fst (sb_log ops (createStreamBuffer stream_id)) =
     snd (sb_log ops (createStreamBuffer stream_id)) @
     sb_packets (sb_run ops (createStreamBuffer stream_id))"
  using sb_run_packets [of ops "createStreamBuffer stream_id"]
  by (cases "sb_log ops (createStreamBuffer stream_id)") (simp add: createStreamBuffer_def)

text \<open>
  \<open>selectFrameForInference\<close> takes the most recently enqueued frame that is decoded and idle:
  it returns null exactly when there is none, else it returns that frame marked \<open>Selected\<close>,
  no frame behind it in arrival order was eligible, and in the new state it is the only frame
  whose inference is not finished.
\<close>

theorem select_takes_latest:
  assumes "sb_inv b"
  shows "case sb_selectFrameForInference b of
      (None, b') \<Rightarrow> b' = b \<and> (\<forall>i. \<not> sb_selectable (sb_frames b) i)
    | (Some g, b') \<Rightarrow>
        (\<exists>f older newer. sb_frame_order b = older @ fb_frame_id g # newer \<and>
           map_of (sb_frames b) (fb_frame_id g) = Some f \<and> fb_decoded_image f \<noteq> None \<and>
           fb_infer_state f = Idle \<and> g = f\<lparr>fb_infer_state := Selected\<rparr> \<and>
           (\<forall>j \<in> set newer. \<not> sb_selectable (sb_frames b) j)) \<and>
        map_of (sb_frames b') (fb_frame_id g) = Some g \<and>
        dom (map_of (sb_frames b')) = dom (map_of (sb_frames b)) \<and>
        (\<forall>k h. map_of (sb_frames b') k = Some h \<longrightarrow> k \<noteq> fb_frame_id g \<longrightarrow>
           isInferenceTerminal (fb_infer_state h))"
proof (cases "sb_selectFrameForInference b")
  case (Pair r b')
  show ?thesis
  proof (cases r)
    case None
    have "i \<in> set (sb_frame_order b)" if "sb_selectable (sb_frames b) i" for i
      using assms that by (auto simp: sb_inv_def sb_selectable_def split: option.splits)
    with None Pair select_NoneD [of b b'] show ?thesis by auto
  next
    case (Some g)
    with Pair have sel: "sb_selectFrameForInference b = (Some g, b')" by simp
    have "isInferenceTerminal (fb_infer_state h)"
      if "map_of (sb_frames b') k = Some h" "k \<noteq> fb_frame_id g" for k h
      using that
      by (auto simp: select_frame_lookup [OF sel assms] split: option.splits if_splits)
    moreover have "map_of (sb_frames b') (fb_frame_id g) = Some g"
      using select_SomeD(1) [OF sel assms] select_frame_lookup [OF sel assms, of "fb_frame_id g"]
      by auto
    ultimately show ?thesis
      using sel select_SomeD(1) [OF sel assms] select_dom [OF sel assms] by simp
  qed
qed

theorem select_takes_latest_witness:
  "sb_inv ex_buffer \<and>
   (case sb_selectFrameForInference ex_buffer of
      (None, b') \<Rightarrow> False
    | (Some g, b') \<Rightarrow> fb_frame_id g = 1 \<and> map_of (sb_frames b') 1 = Some g)"
  using ex_buffer_inv select_takes_latest [OF ex_buffer_inv]
  by (simp add: ex_defs sb_selectFrameForInference_def sb_selectable_def Let_def)

text \<open>
  C13. When \<open>canPublishLocked\<close> lets a video packet out (watermark at least 1), then taking it
  and releasing its frame leaves at least the watermark of video packets queued, the packet lies
  strictly before the frame that is being inferred, its decoded frame had arrived, and if that
  frame holds an image another decoded frame stays behind for inference.
\<close>

theorem canPublish_gates:
  assumes "sb_inv b" "canPublishLocked w b" "0 < w" "sb_packets b = p # ps" "ep_media_type p = Video"
  shows "w \<le> sb_video_packet_count (sb_popPacket b) \<and>
    (\<forall>i. inferringFrameIdLocked b = Some i \<longrightarrow> 0 \<le> ep_frame_id p \<and> ep_frame_id p < i) \<and>
    (0 \<le> ep_frame_id p \<longrightarrow>
       (\<exists>f. sb_findFrame (ep_frame_id p) b = Some f \<and>
          (fb_decoded_image f \<noteq> None \<longrightarrow>
             hasDecodedFrameLocked None (sb_releaseFrame (ep_frame_id p) (sb_popPacket b)))))"
proof -
  note gates = canPublish_videoD [OF assms]
  have "w \<le> sb_video_packet_count (sb_popPacket b)"
    using gates(1) assms(4,5) by (simp add: sb_popPacket_def)
  moreover have "hasDecodedFrameLocked None (sb_releaseFrame i (sb_popPacket b))"
    if "hasDecodedFrameLocked (Some i) b" for i
    using that sb_inv_popPacket [OF assms(1)] by (intro hasDecoded_release) simp_all
  ultimately show ?thesis
    using gates(2,3) by (auto simp: sb_findFrame_def)
qed

theorem canPublish_gates_witness:
  "sb_inv ex_buffer \<and> canPublishLocked 1 ex_buffer \<and> sb_packets ex_buffer = [ex_packet 0, ex_packet 1] \<and>
   1 \<le> sb_video_packet_count (sb_popPacket ex_buffer) \<and>
   hasDecodedFrameLocked None (sb_releaseFrame 0 (sb_popPacket ex_buffer))"
proof -
  have can: "canPublishLocked 1 ex_buffer"
    by (simp add: ex_defs canPublishLocked_def inferringFrameIdLocked_def hasDecodedFrameLocked_def
        isInferring_def)
  have ps: "sb_packets ex_buffer = [ex_packet 0, ex_packet 1]" by (simp add: ex_defs)
  have vid: "ep_media_type (ex_packet 0) = Video" by (simp add: ex_defs)
  have frame: "sb_findFrame 0 ex_buffer = Some (ex_frame 0)" "fb_decoded_image (ex_frame 0) \<noteq> None"
    "ep_frame_id (ex_packet 0) = 0"
    by (simp_all add: ex_defs sb_findFrame_def)
  show ?thesis
    using canPublish_gates [OF ex_buffer_inv can _ ps vid] ex_buffer_inv can ps frame by simp
qed

text \<open>
  \<open>takeCachedInferenceResult\<close> never returns an expired result. If some live result has a
  presentation time within 100 ms (9000 ticks) of the packet's, it returns one whose distance is
  the smallest; otherwise it returns the live result stored under the frame id, if any. The
  returned result leaves the cache, every other live result stays, every expired one goes.
\<close>

theorem takeCached_nearest:
  assumes "sb_inv b"
  shows "case sb_takeCachedInferenceResult i pts now b of (res, b') \<Rightarrow>
      (if \<exists>k r. live_results now b k = Some r \<and> pts_near pts r
       then (\<exists>k r. res = Some r \<and> live_results now b k = Some r \<and> pts_near pts r \<and>
               map_of (sb_cached_inference_results b') = (live_results now b)(k := None) \<and>
               (\<forall>k2 r2. live_results now b k2 = Some r2 \<longrightarrow> pts_near pts r2 \<longrightarrow>
                  pts_distance pts r \<le> pts_distance pts r2))
       else res = (if 0 \<le> i then live_results now b i else None) \<and>
            map_of (sb_cached_inference_results b') =
              (if 0 \<le> i then (live_results now b)(i := None) else live_results now b))"
proof -
  define cached where "cached = sb_purgeExpired now (sb_cached_inference_results b)"
  have dist: "distinct_keys cached"
    using assms(1) by (auto simp: cached_def sb_inv_def intro: wf_intros)
  have live: "map_of cached = live_results now b"
    using assms(1)
    by (auto simp: fun_eq_iff cached_def live_results_def sb_inv_def sb_purgeExpired_def
        map_of_filter_distinct split: option.splits)
  show ?thesis
  proof (cases "\<exists>k r. live_results now b k = Some r \<and> pts_near pts r")
    case True
    then obtain k0 r0 where "map_of cached k0 = Some r0" "pts_near pts r0" by (auto simp: live)
    from sb_match_key_near [OF dist this, of i] obtain k r where
      "sb_match_key i pts cached = Some k" "map_of cached k = Some r" "pts_near pts r"
      "\<forall>k2 r2. map_of cached k2 = Some r2 \<longrightarrow> pts_near pts r2 \<longrightarrow> pts_distance pts r \<le> pts_distance pts r2"
      by blast
    then have "sb_takeCachedInferenceResult i pts now b =
        (Some r, b\<lparr>sb_cached_inference_results := AList.delete k cached\<rparr>)"
      by (simp add: sb_takeCachedInferenceResult_def cached_def [symmetric])
    with True live show ?thesis
      using \<open>map_of cached k = Some r\<close> \<open>pts_near pts r\<close>
        \<open>\<forall>k2 r2. map_of cached k2 = Some r2 \<longrightarrow> pts_near pts r2 \<longrightarrow> pts_distance pts r \<le> pts_distance pts r2\<close>
      by (auto simp: dict_simps)
  next
    case False
    have "sb_match_key i pts cached = (if 0 \<le> i then Some i else None)"
      by (rule sb_match_key_far [OF dist]) (use False live in auto)
    moreover have "AList.delete i cached = cached" if "live_results now b i = None"
      using that live by (metis delete_id map_of_eq_None_iff)
    ultimately have "sb_takeCachedInferenceResult i pts now b =
        (if 0 \<le> i then live_results now b i else None,
         b\<lparr>sb_cached_inference_results := (if 0 \<le> i then AList.delete i cached else cached)\<rparr>)"
      using live
      by (auto simp: sb_takeCachedInferenceResult_def cached_def [symmetric] split: option.splits)
    with False live show ?thesis by (auto simp: dict_simps)
  qed
qed

theorem takeCached_nearest_witness:
  "sb_inv ex_buffer \<and> fst (sb_takeCachedInferenceResult 0 2500 100 ex_buffer) = Some (ex_result 1)"
proof -
  have live: "live_results 100 ex_buffer = [0 \<mapsto> ex_result 0, 1 \<mapsto> ex_result 1]"
    by (auto simp: fun_eq_iff live_results_def ex_defs)
  have near: "pts_near 2500 (ex_result 1)" "pts_near 2500 (ex_result 0)"
    "pts_distance 2500 (ex_result 1) = 500" "pts_distance 2500 (ex_result 0) = 2500"
    by (simp_all add: pts_near_def pts_distance_def kCachedInferenceMatchWindowPts_def kPtsClockHz_def
        kCachedInferenceMatchWindowMs_def ex_defs)
  have ex: "\<exists>k r. live_results 100 ex_buffer k = Some r \<and> pts_near 2500 r"
    by (rule exI [of _ 1], rule exI [of _ "ex_result 1"]) (simp add: live near)
  obtain res b' where take: "sb_takeCachedInferenceResult 0 2500 100 ex_buffer = (res, b')"
    by (cases "sb_takeCachedInferenceResult 0 2500 100 ex_buffer")
  from takeCached_nearest [OF ex_buffer_inv, where i = 0 and pts = 2500 and now = 100] ex take
  obtain k r where r: "res = Some r" "live_results 100 ex_buffer k = Some r"
    "\<forall>k2 r2. live_results 100 ex_buffer k2 = Some r2 \<longrightarrow> pts_near 2500 r2 \<longrightarrow>
       pts_distance 2500 r \<le> pts_distance 2500 r2"
    by auto
  from r(3) [rule_format, of 1 "ex_result 1"] near live have "pts_distance 2500 r \<le> 500" by simp
  with r(1,2) near live take ex_buffer_inv show ?thesis by (auto split: if_splits)
qed

end
