(* ===== verification/StreamFlow.thy ===== *)
theory StreamFlow
  imports StreamBufferProofs
begin

text \<open>
  One stream end to end: the puller thread (\<open>RTSPPuller::pullLoop\<close>), one inference worker at a
  time (\<open>Pipeline::inferLoop\<close>, the scheduler hands out one task per stream) and the publishing
  thread (\<open>Pipeline::publishLoop\<close>) work on the shared stream buffer. Each rule of \<open>flow_step\<close> is
  one call on the buffer, so the relation contains every interleaving of the three threads.

  \<^item> The puller numbers video packets, enqueues them, remembers their numbers as pending and
    later delivers a frame bundle (with or without an image) for the oldest pending number;
    \<open>closeStream\<close> forgets what is pending.
  \<^item> The worker selects a frame, marks it running, and ends with a result that carries the frame's id, with
    a default result (frame id -1, which \<open>detect\<close> returns when inference fails), or by dropping it.
  \<^item> The publisher passes the gates, holds the head packet while it injects the SEI and writes,
    removes it, and releases its frame.
\<close>

section \<open>The system\<close>

definition kMinVideoWatermark :: nat where
  "kMinVideoWatermark = 1"

datatype publisher_phase = PubWaiting | PubHolding EncodedPacket | PubReleasing int

record flow =
  fl_buffer :: StreamBuffer
  fl_inflight :: "int option"
  fl_publisher :: publisher_phase
  fl_pending :: "int list"
  fl_next :: int

definition flow_start :: "string \<Rightarrow> flow" where
  "flow_start stream_id =
     \<lparr>fl_buffer = createStreamBuffer stream_id, fl_inflight = None, fl_publisher = PubWaiting,
      fl_pending = [], fl_next = 0\<rparr>"

inductive flow_step :: "flow \<Rightarrow> flow \<Rightarrow> bool" where
  pull_video: "ep_media_type p = Video \<Longrightarrow> ep_frame_id p = fl_next s \<Longrightarrow>
    flow_step s (s\<lparr>fl_buffer := snd (sb_enqueuePacket (Some p) (fl_buffer s)),
                   fl_pending := fl_pending s @ [fl_next s], fl_next := fl_next s + 1\<rparr>)"
| pull_audio: "ep_media_type p = Audio \<Longrightarrow>
    flow_step s (s\<lparr>fl_buffer := snd (sb_enqueuePacket (Some p) (fl_buffer s))\<rparr>)"
| deliver: "fl_pending s = i # rest \<Longrightarrow> fb_frame_id f = i \<Longrightarrow> fb_infer_state f = Idle \<Longrightarrow>
    flow_step s (s\<lparr>fl_buffer := snd (sb_enqueueFrame (Some f) (fl_buffer s)), fl_pending := rest\<rparr>)"
| reconnect: "flow_step s (s\<lparr>fl_pending := []\<rparr>)"
| select: "fl_inflight s = None \<Longrightarrow> sb_selectFrameForInference (fl_buffer s) = (Some f, b) \<Longrightarrow>
    flow_step s (s\<lparr>fl_buffer := b, fl_inflight := Some (fb_frame_id f)\<rparr>)"
| running: "fl_inflight s = Some i \<Longrightarrow>
    flow_step s (s\<lparr>fl_buffer := sb_markInferenceRunning i (fl_buffer s)\<rparr>)"
| finish: "fl_inflight s = Some i \<Longrightarrow> fr_frame_id r = i \<or> fr_frame_id r = -1 \<Longrightarrow>
    flow_step s (s\<lparr>fl_buffer := sb_markInferenceDone r (fl_buffer s), fl_inflight := None\<rparr>)"
| drop: "fl_inflight s = Some i \<Longrightarrow>
    flow_step s (s\<lparr>fl_buffer := sb_clearInferenceSelection i Dropped (fl_buffer s), fl_inflight := None\<rparr>)"
| cache: "flow_step s (s\<lparr>fl_buffer := sb_updateCachedInferenceResult r (fl_buffer s)\<rparr>)"
| gate: "fl_publisher s = PubWaiting \<Longrightarrow>
    sb_waitForPublishable kMinVideoWatermark 200 (fl_buffer s) = Some True \<Longrightarrow>
    sb_peekPacket (fl_buffer s) = Some p \<Longrightarrow>
    flow_step s (s\<lparr>fl_publisher := PubHolding p\<rparr>)"
| take: "fl_publisher s = PubHolding p \<Longrightarrow>
    flow_step s (s\<lparr>fl_buffer := snd (sb_takeCachedInferenceResult (ep_frame_id p) (ep_pts p) now (fl_buffer s))\<rparr>)"
| pop: "fl_publisher s = PubHolding p \<Longrightarrow>
    flow_step s (s\<lparr>fl_buffer := sb_popPacket (fl_buffer s),
                   fl_publisher := (if ep_media_type p = Video \<and> ep_frame_id p \<ge> 0
                                    then PubReleasing (ep_frame_id p) else PubWaiting)\<rparr>)"
| release: "fl_publisher s = PubReleasing i \<Longrightarrow>
    flow_step s (s\<lparr>fl_buffer := sb_releaseFrame i (fl_buffer s), fl_publisher := PubWaiting\<rparr>)"
| halt: "flow_step s (s\<lparr>fl_buffer := sb_stop (fl_buffer s)\<rparr>)"

inductive flow_reachable :: "string \<Rightarrow> flow \<Rightarrow> bool" for stream_id where
  start: "flow_reachable stream_id (flow_start stream_id)"
| step: "flow_reachable stream_id s \<Longrightarrow> flow_step s t \<Longrightarrow> flow_reachable stream_id t"

section \<open>Vocabulary\<close>

definition video_ids :: "StreamBuffer \<Rightarrow> int list" where
  "video_ids b = map ep_frame_id (filter is_video (sb_packets b))"

definition frame_at :: "StreamBuffer \<Rightarrow> int \<rightharpoonup> FrameBundle" where
  "frame_at b = map_of (sb_frames b)"

definition inferring_at :: "StreamBuffer \<Rightarrow> int \<Rightarrow> bool" where
  "inferring_at b k \<longleftrightarrow> (\<exists>f. frame_at b k = Some f \<and> isInferring (fb_infer_state f))"

definition idle_at :: "StreamBuffer \<Rightarrow> int \<Rightarrow> bool" where
  "idle_at b k \<longleftrightarrow> (\<exists>f. frame_at b k = Some f \<and> fb_infer_state f = Idle)"

definition decoded_at :: "StreamBuffer \<Rightarrow> int \<Rightarrow> bool" where
  "decoded_at b k \<longleftrightarrow> (\<exists>f. frame_at b k = Some f \<and> fb_decoded_image f \<noteq> None)"

text \<open>The frame the publisher is about to release.\<close>

definition leaving :: "flow \<Rightarrow> int option" where
  "leaving s =
     (case fl_publisher s of
        PubWaiting \<Rightarrow> None
      | PubHolding p \<Rightarrow> if ep_media_type p = Video \<and> ep_frame_id p \<ge> 0 then Some (ep_frame_id p) else None
      | PubReleasing i \<Rightarrow> Some i)"

text \<open>Numbers: packets, pending frames and stored frames are numbered consistently.\<close>

definition flow_ids :: "flow \<Rightarrow> bool" where
  "flow_ids s \<longleftrightarrow>
     0 \<le> fl_next s \<and> sorted_wrt (<) (sb_frame_order (fl_buffer s)) \<and>
     sorted_wrt (<) (video_ids (fl_buffer s)) \<and> set (video_ids (fl_buffer s)) \<subseteq> {0..<fl_next s} \<and>
     sorted_wrt (<) (fl_pending s) \<and> set (fl_pending s) \<subseteq> {0..<fl_next s} \<and>
     (\<forall>k \<in> dom (frame_at (fl_buffer s)). 0 \<le> k \<and> k < fl_next s \<and> (\<forall>i \<in> set (fl_pending s). k < i)) \<and>
     (\<not> sb_stopped (fl_buffer s) \<longrightarrow> set (fl_pending s) \<subseteq> set (video_ids (fl_buffer s)))"

text \<open>The publisher's hand: what it holds is the head, and the frame it will release is the oldest.\<close>

definition flow_hand :: "flow \<Rightarrow> bool" where
  "flow_hand s \<longleftrightarrow>
     (\<forall>p. fl_publisher s = PubHolding p \<longrightarrow> sb_peekPacket (fl_buffer s) = Some p) \<and>
     (\<forall>i. fl_publisher s = PubReleasing i \<longrightarrow> (\<forall>v \<in> set (video_ids (fl_buffer s)). i < v)) \<and>
     (\<forall>k \<in> dom (frame_at (fl_buffer s)). k \<in> set (video_ids (fl_buffer s)) \<or> fl_publisher s = PubReleasing k)"

text \<open>Inference states: one frame at a time, the newest frames are the idle ones.\<close>

definition flow_infer :: "flow \<Rightarrow> bool" where
  "flow_infer s \<longleftrightarrow>
     (\<forall>k. inferring_at (fl_buffer s) k \<longrightarrow> decoded_at (fl_buffer s) k) \<and>
     (\<forall>k k'. inferring_at (fl_buffer s) k \<longrightarrow> inferring_at (fl_buffer s) k' \<longrightarrow> k = k') \<and>
     (\<forall>i. fl_inflight s = Some i \<longrightarrow> inferring_at (fl_buffer s) i) \<and>
     (\<forall>k k'. k < k' \<longrightarrow> idle_at (fl_buffer s) k \<longrightarrow> k' \<in> dom (frame_at (fl_buffer s)) \<longrightarrow>
        idle_at (fl_buffer s) k')"

text \<open>The frame that is leaving is present, is not being inferred and will never be selected.\<close>

definition flow_leaving :: "flow \<Rightarrow> bool" where
  "flow_leaving s \<longleftrightarrow>
     (\<forall>h. leaving s = Some h \<longrightarrow>
        h \<in> dom (frame_at (fl_buffer s)) \<and> \<not> inferring_at (fl_buffer s) h \<and>
        (decoded_at (fl_buffer s) h \<longrightarrow> (\<exists>k > h. decoded_at (fl_buffer s) k)))"

definition flow_inv :: "flow \<Rightarrow> bool" where
  "flow_inv s \<longleftrightarrow> sb_inv (fl_buffer s) \<and> flow_ids s \<and> flow_hand s \<and> flow_infer s \<and> flow_leaving s"

section \<open>What each call does to packets and frames\<close>

lemma enqueuePacket_effect [simp]:
  "video_ids (snd (sb_enqueuePacket (Some p) b)) =
     (if \<not> sb_stopped b \<and> is_video p then video_ids b @ [ep_frame_id p] else video_ids b)"
  "frame_at (snd (sb_enqueuePacket (Some p) b)) = frame_at b"
  "sb_frame_order (snd (sb_enqueuePacket (Some p) b)) = sb_frame_order b"
  "sb_stopped (snd (sb_enqueuePacket (Some p) b)) = sb_stopped b"
  "sb_packets (snd (sb_enqueuePacket (Some p) b)) =
     (if sb_stopped b then sb_packets b else sb_packets b @ [p])"
  by (simp_all add: sb_enqueuePacket_def video_ids_def frame_at_def)

lemma enqueueFrame_effect [simp]:
  "video_ids (snd (sb_enqueueFrame (Some f) b)) = video_ids b"
  "frame_at (snd (sb_enqueueFrame (Some f) b)) =
     (if sb_stopped b then frame_at b else (frame_at b)(fb_frame_id f \<mapsto> f))"
  "sb_frame_order (snd (sb_enqueueFrame (Some f) b)) =
     (if sb_stopped b then sb_frame_order b else sb_frame_order b @ [fb_frame_id f])"
  "sb_stopped (snd (sb_enqueueFrame (Some f) b)) = sb_stopped b"
  "sb_packets (snd (sb_enqueueFrame (Some f) b)) = sb_packets b"
  by (simp_all add: sb_enqueueFrame_def video_ids_def frame_at_def dict_simps fun_eq_iff)

lemma set_state_effect [simp]:
  "video_ids (sb_set_infer_state i st b) = video_ids b"
  "sb_frame_order (sb_set_infer_state i st b) = sb_frame_order b"
  "sb_stopped (sb_set_infer_state i st b) = sb_stopped b"
  "sb_packets (sb_set_infer_state i st b) = sb_packets b"
  "frame_at (sb_set_infer_state i st b) k =
     map_option (\<lambda>f. if k = i then f\<lparr>fb_infer_state := st\<rparr> else f) (frame_at b k)"
  by (cases "map_of (sb_frames b) i"; cases "map_of (sb_frames b) k";
      auto simp: sb_set_infer_state_def video_ids_def frame_at_def dict_simps)+

lemma releaseFrame_effect [simp]:
  "video_ids (sb_releaseFrame i b) = video_ids b"
  "frame_at (sb_releaseFrame i b) = (frame_at b)(i := None)"
  "sb_frame_order (sb_releaseFrame i b) = removeAll i (sb_frame_order b)"
  "sb_stopped (sb_releaseFrame i b) = sb_stopped b"
  "sb_packets (sb_releaseFrame i b) = sb_packets b"
  by (simp_all add: sb_releaseFrame_def video_ids_def frame_at_def dict_simps fun_eq_iff)

lemma popPacket_effect [simp]:
  "frame_at (sb_popPacket b) = frame_at b"
  "sb_frame_order (sb_popPacket b) = sb_frame_order b"
  "sb_stopped (sb_popPacket b) = sb_stopped b"
  "sb_packets (sb_popPacket b) = tl (sb_packets b)"
  by (simp_all add: sb_popPacket_def frame_at_def split: list.splits)

lemma cache_effect [simp]:
  "video_ids (sb_updateCachedInferenceResult r b) = video_ids b"
  "frame_at (sb_updateCachedInferenceResult r b) = frame_at b"
  "sb_frame_order (sb_updateCachedInferenceResult r b) = sb_frame_order b"
  "sb_stopped (sb_updateCachedInferenceResult r b) = sb_stopped b"
  "sb_packets (sb_updateCachedInferenceResult r b) = sb_packets b"
  by (simp_all add: sb_updateCachedInferenceResult_def video_ids_def frame_at_def)

lemma take_effect [simp]:
  "video_ids (snd (sb_takeCachedInferenceResult i pts now b)) = video_ids b"
  "frame_at (snd (sb_takeCachedInferenceResult i pts now b)) = frame_at b"
  "sb_frame_order (snd (sb_takeCachedInferenceResult i pts now b)) = sb_frame_order b"
  "sb_stopped (snd (sb_takeCachedInferenceResult i pts now b)) = sb_stopped b"
  "sb_packets (snd (sb_takeCachedInferenceResult i pts now b)) = sb_packets b"
  by (cases rule: takeCached_cases [of i pts now b]; simp add: video_ids_def frame_at_def)+

lemma stop_effect [simp]:
  "video_ids (sb_stop b) = video_ids b" "frame_at (sb_stop b) = frame_at b"
  "sb_frame_order (sb_stop b) = sb_frame_order b" "sb_stopped (sb_stop b)"
  "sb_packets (sb_stop b) = sb_packets b"
  by (simp_all add: sb_stop_def video_ids_def frame_at_def)

lemma select_effect:
  assumes "sb_selectFrameForInference b = (Some g, b')" "sb_inv b"
  shows "video_ids b' = video_ids b" "sb_frame_order b' = sb_frame_order b"
    "sb_stopped b' = sb_stopped b" "sb_packets b' = sb_packets b"
    "frame_at b' k = map_option (\<lambda>f. if k = fb_frame_id g then f\<lparr>fb_infer_state := Selected\<rparr>
       else if isInferenceTerminal (fb_infer_state f) then f else f\<lparr>fb_infer_state := Done\<rparr>) (frame_at b k)"
proof -
  obtain frames where b': "b' = b\<lparr>sb_frames := frames\<rparr>"
    using select_SomeD(2) [OF assms] by blast
  then show "video_ids b' = video_ids b" "sb_frame_order b' = sb_frame_order b"
    "sb_stopped b' = sb_stopped b" "sb_packets b' = sb_packets b"
    by (simp_all add: video_ids_def)
  show "frame_at b' k = map_option (\<lambda>f. if k = fb_frame_id g then f\<lparr>fb_infer_state := Selected\<rparr>
       else if isInferenceTerminal (fb_infer_state f) then f else f\<lparr>fb_infer_state := Done\<rparr>) (frame_at b k)"
    using select_frame_lookup [OF assms, of k] by (simp add: frame_at_def split: option.splits)
qed

section \<open>The frame that is selected\<close>

lemma select_is_newest_idle:
  assumes sel: "sb_selectFrameForInference b = (Some g, b')" and inv: "sb_inv b"
    and order: "sorted_wrt (<) (sb_frame_order b)"
  shows "decoded_at b (fb_frame_id g)" "idle_at b (fb_frame_id g)"
    "\<And>k. fb_frame_id g < k \<Longrightarrow> idle_at b k \<Longrightarrow> \<not> decoded_at b k"
proof -
  from select_SomeD(1) [OF sel inv] obtain f older newer where
    f: "sb_frame_order b = older @ fb_frame_id g # newer" "map_of (sb_frames b) (fb_frame_id g) = Some f"
      "fb_decoded_image f \<noteq> None" "fb_infer_state f = Idle"
    and newer: "\<forall>j \<in> set newer. \<not> sb_selectable (sb_frames b) j" by blast
  show "decoded_at b (fb_frame_id g)" "idle_at b (fb_frame_id g)"
    using f by (auto simp: decoded_at_def idle_at_def frame_at_def)
  show "\<not> decoded_at b k" if k: "fb_frame_id g < k" "idle_at b k" for k
  proof
    assume dec: "decoded_at b k"
    with k have "k \<in> set (sb_frame_order b)" "sb_selectable (sb_frames b) k"
      using inv by (auto simp: sb_inv_def sb_selectable_def idle_at_def decoded_at_def frame_at_def)
    moreover have "k \<notin> set older" "k \<noteq> fb_frame_id g"
      using order k(1) f(1) by (auto simp: sorted_wrt_append)
    ultimately show False using newer f(1) by auto
  qed
qed

lemma isInferring_simps [simp]: "isInferring Selected" "isInferring Running" "\<not> isInferring Idle"
  "\<not> isInferring Done" "\<not> isInferring Dropped"
  by (simp_all add: isInferring_def)

section \<open>Every step keeps the invariant\<close>

lemmas flow_defs = flow_ids_def flow_hand_def flow_infer_def flow_leaving_def
lemmas at_defs = inferring_at_def idle_at_def decoded_at_def

lemma peek_iff: "sb_peekPacket b = Some p \<longleftrightarrow> (\<exists>ps. sb_packets b = p # ps)"
  by (simp add: sb_peekPacket_def split: list.splits)

lemma video_ids_Cons:
  "sb_packets b = p # ps \<Longrightarrow>
     video_ids b = (if is_video p then ep_frame_id p # map ep_frame_id (filter is_video ps)
                    else map ep_frame_id (filter is_video ps))"
  by (simp add: video_ids_def)

lemma video_ids_popPacket:
  "sb_packets b = p # ps \<Longrightarrow> video_ids (sb_popPacket b) = map ep_frame_id (filter is_video ps)"
  by (simp add: video_ids_def)

text \<open>Steps that touch neither the frames nor the publisher.\<close>

lemma flow_infer_cong:
  "frame_at (fl_buffer t) = frame_at (fl_buffer s) \<Longrightarrow> fl_inflight t = fl_inflight s \<Longrightarrow>
     flow_infer t = flow_infer s"
  by (simp add: flow_infer_def at_defs)

lemma flow_hand_cong:
  "sb_packets (fl_buffer t) = sb_packets (fl_buffer s) \<Longrightarrow>
   dom (frame_at (fl_buffer t)) = dom (frame_at (fl_buffer s)) \<Longrightarrow> fl_publisher t = fl_publisher s \<Longrightarrow>
     flow_hand t = flow_hand s"
  by (simp add: flow_hand_def video_ids_def sb_peekPacket_def)

lemma flow_leaving_cong:
  "frame_at (fl_buffer t) = frame_at (fl_buffer s) \<Longrightarrow> leaving t = leaving s \<Longrightarrow>
     flow_leaving t = flow_leaving s"
  by (simp add: flow_leaving_def at_defs)

lemma flow_handI:
  assumes "\<And>p. fl_publisher s = PubHolding p \<Longrightarrow> sb_peekPacket (fl_buffer s) = Some p"
    and "\<And>i v. fl_publisher s = PubReleasing i \<Longrightarrow> v \<in> set (video_ids (fl_buffer s)) \<Longrightarrow> i < v"
    and "\<And>k. k \<in> dom (frame_at (fl_buffer s)) \<Longrightarrow> fl_publisher s \<noteq> PubReleasing k \<Longrightarrow>
           k \<in> set (video_ids (fl_buffer s))"
  shows "flow_hand s"
  unfolding flow_hand_def using assms by blast

lemma flow_handD:
  assumes "flow_hand s"
  shows "fl_publisher s = PubHolding p \<Longrightarrow> sb_peekPacket (fl_buffer s) = Some p"
    and "fl_publisher s = PubReleasing i \<Longrightarrow> v \<in> set (video_ids (fl_buffer s)) \<Longrightarrow> i < v"
    and "k \<in> dom (frame_at (fl_buffer s)) \<Longrightarrow> fl_publisher s \<noteq> PubReleasing k \<Longrightarrow>
           k \<in> set (video_ids (fl_buffer s))"
  using assms by (auto simp: flow_hand_def)

lemma flow_inferI:
  assumes "\<And>k. inferring_at (fl_buffer s) k \<Longrightarrow> decoded_at (fl_buffer s) k"
    and "\<And>k k'. inferring_at (fl_buffer s) k \<Longrightarrow> inferring_at (fl_buffer s) k' \<Longrightarrow> k = k'"
    and "\<And>i. fl_inflight s = Some i \<Longrightarrow> inferring_at (fl_buffer s) i"
    and "\<And>k k'. k < k' \<Longrightarrow> idle_at (fl_buffer s) k \<Longrightarrow> k' \<in> dom (frame_at (fl_buffer s)) \<Longrightarrow>
           idle_at (fl_buffer s) k'"
  shows "flow_infer s"
  unfolding flow_infer_def using assms by blast

lemma flow_inferD:
  assumes "flow_infer s"
  shows "inferring_at (fl_buffer s) k \<Longrightarrow> decoded_at (fl_buffer s) k"
    and "inferring_at (fl_buffer s) k \<Longrightarrow> inferring_at (fl_buffer s) k' \<Longrightarrow> k = k'"
    and "fl_inflight s = Some i \<Longrightarrow> inferring_at (fl_buffer s) i"
    and "k < k' \<Longrightarrow> idle_at (fl_buffer s) k \<Longrightarrow> k' \<in> dom (frame_at (fl_buffer s)) \<Longrightarrow>
           idle_at (fl_buffer s) k'"
  using assms unfolding flow_infer_def by blast+

lemma flow_leavingI:
  assumes "\<And>h. leaving s = Some h \<Longrightarrow> h \<in> dom (frame_at (fl_buffer s))"
    and "\<And>h. leaving s = Some h \<Longrightarrow> \<not> inferring_at (fl_buffer s) h"
    and "\<And>h. leaving s = Some h \<Longrightarrow> decoded_at (fl_buffer s) h \<Longrightarrow> \<exists>k > h. decoded_at (fl_buffer s) k"
  shows "flow_leaving s"
  unfolding flow_leaving_def using assms by blast

lemma flow_leavingD:
  assumes "flow_leaving s" "leaving s = Some h"
  shows "h \<in> dom (frame_at (fl_buffer s))" "\<not> inferring_at (fl_buffer s) h"
    and "decoded_at (fl_buffer s) h \<Longrightarrow> \<exists>k > h. decoded_at (fl_buffer s) k"
  using assms unfolding flow_leaving_def by blast+

lemma flow_invD:
  assumes "flow_inv s"
  shows "sb_inv (fl_buffer s)" "flow_ids s" "flow_hand s" "flow_infer s" "flow_leaving s"
  using assms by (simp_all add: flow_inv_def)

lemma frame_bounds:
  assumes "flow_inv s" "frame_at (fl_buffer s) k = Some f"
  shows "0 \<le> k" "k < fl_next s" "i \<in> set (fl_pending s) \<Longrightarrow> k < i"
  using flow_invD(2) [OF assms(1)] assms(2) by (auto simp: flow_ids_def)

lemma releasing_bounds:
  assumes "flow_inv s" "fl_publisher s = PubReleasing i"
  shows "0 \<le> i" "i < fl_next s"
  using flow_invD(5) [OF assms(1)] assms(2) frame_bounds [OF assms(1), of i]
  by (auto simp: flow_leaving_def leaving_def)

lemma inv_pull_video:
  assumes "flow_inv s" "ep_media_type p = Video" "ep_frame_id p = fl_next s"
  shows "flow_inv (s\<lparr>fl_buffer := snd (sb_enqueuePacket (Some p) (fl_buffer s)),
                     fl_pending := fl_pending s @ [fl_next s], fl_next := fl_next s + 1\<rparr>)"
    (is "flow_inv ?t")
proof -
  have vid: "is_video p" using assms(2) by (simp add: is_video_def)
  note hand = flow_handD [OF flow_invD(3) [OF assms(1)]]
  have "flow_ids ?t"
    using flow_invD(2) [OF assms(1)] assms(3) vid
    by (auto simp: flow_ids_def sorted_wrt_append subset_iff intro: less_imp_le)
  moreover have "flow_hand ?t"
    using hand releasing_bounds [OF assms(1)] assms(3) vid
    by (intro flow_handI) (auto simp: peek_iff split: if_splits)
  moreover have "flow_infer ?t = flow_infer s" by (rule flow_infer_cong) simp_all
  moreover have "flow_leaving ?t = flow_leaving s"
    by (rule flow_leaving_cong) (simp_all add: leaving_def)
  ultimately show ?thesis using assms(1) by (simp add: flow_inv_def sb_inv_enqueuePacket)
qed

lemma inv_pull_audio:
  assumes "flow_inv s" "ep_media_type p = Audio"
  shows "flow_inv (s\<lparr>fl_buffer := snd (sb_enqueuePacket (Some p) (fl_buffer s))\<rparr>)" (is "flow_inv ?t")
proof -
  have aud: "\<not> is_video p" using assms(2) by (simp add: is_video_def)
  note hand = flow_handD [OF flow_invD(3) [OF assms(1)]]
  have "flow_ids ?t" using flow_invD(2) [OF assms(1)] aud by (simp add: flow_ids_def)
  moreover have "flow_hand ?t" using hand aud by (intro flow_handI) (auto simp: peek_iff)
  moreover have "flow_infer ?t = flow_infer s" by (rule flow_infer_cong) simp_all
  moreover have "flow_leaving ?t = flow_leaving s"
    by (rule flow_leaving_cong) (simp_all add: leaving_def)
  ultimately show ?thesis using assms(1) by (simp add: flow_inv_def sb_inv_enqueuePacket)
qed

lemma at_enqueueFrame:
  assumes "\<not> sb_stopped b"
  shows "inferring_at (snd (sb_enqueueFrame (Some f) b)) k =
      (if k = fb_frame_id f then isInferring (fb_infer_state f) else inferring_at b k)"
    "idle_at (snd (sb_enqueueFrame (Some f) b)) k =
      (if k = fb_frame_id f then fb_infer_state f = Idle else idle_at b k)"
    "decoded_at (snd (sb_enqueueFrame (Some f) b)) k =
      (if k = fb_frame_id f then fb_decoded_image f \<noteq> None else decoded_at b k)"
  using assms by (auto simp: at_defs)

lemma at_dom:
  "inferring_at b k \<Longrightarrow> k \<in> dom (frame_at b)" "idle_at b k \<Longrightarrow> k \<in> dom (frame_at b)"
  "decoded_at b k \<Longrightarrow> k \<in> dom (frame_at b)"
  by (auto simp: at_defs)

lemma inv_deliver_stopped:
  assumes "flow_inv s" "fl_pending s = i # rest" "sb_stopped (fl_buffer s)"
  shows "flow_inv (s\<lparr>fl_buffer := snd (sb_enqueueFrame (Some f) (fl_buffer s)), fl_pending := rest\<rparr>)"
    (is "flow_inv ?t")
proof -
  have b: "fl_buffer ?t = fl_buffer s" using assms(3) by (simp add: sb_enqueueFrame_def)
  have "flow_ids ?t" using flow_invD(2) [OF assms(1)] assms(2,3) b by (simp add: flow_ids_def)
  moreover have "flow_hand ?t" using flow_invD(3) [OF assms(1)] b by (simp add: flow_hand_def)
  moreover have "flow_infer ?t = flow_infer s" by (rule flow_infer_cong) (simp_all add: assms(3))
  moreover have "flow_leaving ?t = flow_leaving s"
    by (rule flow_leaving_cong) (simp_all add: assms(3) leaving_def)
  ultimately show ?thesis using assms(1) b by (simp add: flow_inv_def)
qed

lemma inv_deliver:
  assumes "flow_inv s" "fl_pending s = i # rest" "fb_frame_id f = i" "fb_infer_state f = Idle"
    and running: "\<not> sb_stopped (fl_buffer s)"
  shows "flow_inv (s\<lparr>fl_buffer := snd (sb_enqueueFrame (Some f) (fl_buffer s)), fl_pending := rest\<rparr>)"
    (is "flow_inv ?t")
proof -
  note infer = flow_inferD [OF flow_invD(4) [OF assms(1)]]
  have lower: "k < i" if "k \<in> dom (frame_at (fl_buffer s))" for k
    using frame_bounds(3) [OF assms(1), of k] assms(2) that by auto
  have fresh: "i \<notin> dom (frame_at (fl_buffer s))" "\<not> inferring_at (fl_buffer s) i"
    "\<not> decoded_at (fl_buffer s) i" using lower at_dom by blast+
  have order: "set (sb_frame_order (fl_buffer s)) = dom (frame_at (fl_buffer s))"
    using flow_invD(1) [OF assms(1)] by (simp add: sb_inv_def frame_at_def)
  have i: "i \<in> set (video_ids (fl_buffer s))" "0 \<le> i" "i < fl_next s"
    using flow_invD(2) [OF assms(1)] assms(2) running by (auto simp: flow_ids_def)
  have "flow_ids ?t"
    using flow_invD(2) [OF assms(1)] assms(2,3) running lower
    by (auto simp: flow_ids_def sorted_wrt_append order)
  moreover have "flow_hand ?t"
    using flow_invD(3) [OF assms(1)] assms(3) running i
    by (auto simp: flow_hand_def sb_peekPacket_def)
  moreover have "flow_infer ?t"
  proof (rule flow_inferI)
    show "idle_at (fl_buffer ?t) k'"
      if "k < k'" "idle_at (fl_buffer ?t) k" "k' \<in> dom (frame_at (fl_buffer ?t))" for k k'
      using that infer(4) [of k k'] assms(3,4) running lower [of k']
      by (auto simp: at_enqueueFrame split: if_splits)
  qed (use assms(3,4) running infer fresh in \<open>auto simp: at_enqueueFrame split: if_splits\<close>)
  moreover have "flow_leaving ?t"
  proof (rule flow_leavingI)
    fix h assume "leaving ?t = Some h"
    then have h: "leaving s = Some h" by (simp add: leaving_def)
    note old = flow_leavingD [OF flow_invD(5) [OF assms(1)] h]
    show "h \<in> dom (frame_at (fl_buffer ?t))" "\<not> inferring_at (fl_buffer ?t) h"
      using old(1,2) running assms(3,4) by (auto simp: at_enqueueFrame)
    assume "decoded_at (fl_buffer ?t) h"
    moreover have "h \<noteq> i" using old(1) fresh(1) by auto
    ultimately obtain k where "h < k" "decoded_at (fl_buffer s) k"
      using old(3) running assms(3) by (auto simp: at_enqueueFrame)
    moreover from this have "k \<noteq> i" using fresh(3) by auto
    ultimately show "\<exists>k > h. decoded_at (fl_buffer ?t) k"
      using running assms(3) by (auto simp: at_enqueueFrame)
  qed
  ultimately show ?thesis using assms(1) by (simp add: flow_inv_def sb_inv_enqueueFrame)
qed

lemma at_set_state:
  "inferring_at (sb_set_infer_state i st b) k =
     (if k = i then i \<in> dom (frame_at b) \<and> isInferring st else inferring_at b k)"
  "idle_at (sb_set_infer_state i st b) k =
     (if k = i then i \<in> dom (frame_at b) \<and> st = Idle else idle_at b k)"
  "decoded_at (sb_set_infer_state i st b) k = decoded_at b k"
  by (cases "frame_at b k"; auto simp: at_defs)+

lemma dom_set_state [simp]: "dom (frame_at (sb_set_infer_state i st b)) = dom (frame_at b)"
  by auto

lemma inv_set_state:
  assumes "flow_inv s" "i \<in> dom (frame_at (fl_buffer s)) \<Longrightarrow> inferring_at (fl_buffer s) i" "st \<noteq> Idle"
    and "\<And>j. flight = Some j \<Longrightarrow> inferring_at (fl_buffer s) j \<and> (j = i \<longrightarrow> isInferring st)"
  shows "flow_inv (s\<lparr>fl_buffer := sb_set_infer_state i st (fl_buffer s), fl_inflight := flight\<rparr>)"
    (is "flow_inv ?t")
proof -
  note infer = flow_inferD [OF flow_invD(4) [OF assms(1)]]
  have "flow_ids ?t" using flow_invD(2) [OF assms(1)] by (simp add: flow_ids_def)
  moreover have "flow_hand ?t = flow_hand s" by (rule flow_hand_cong) simp_all
  moreover have was: "inferring_at (fl_buffer s) k" if "inferring_at (fl_buffer ?t) k" for k
    using that assms(2) by (auto simp: at_set_state split: if_splits)
  have "flow_infer ?t"
  proof (rule flow_inferI)
    show "idle_at (fl_buffer ?t) k'"
      if "k < k'" "idle_at (fl_buffer ?t) k" "k' \<in> dom (frame_at (fl_buffer ?t))" for k k'
    proof -
      have "idle_at (fl_buffer s) k" using that(2) assms(3) by (simp add: at_set_state split: if_splits)
      with that infer(4) [of k k'] have k': "idle_at (fl_buffer s) k'" by simp
      moreover have "\<not> inferring_at (fl_buffer s) k'" using k' by (auto simp: at_defs)
      then have "k' \<noteq> i" using assms(2) at_dom(2) [OF k'] by blast
      ultimately show ?thesis by (simp add: at_set_state)
    qed
    show "inferring_at (fl_buffer ?t) j" if "fl_inflight ?t = Some j" for j
      using that assms(4) [of j] at_dom(1) [of "fl_buffer s" j] by (auto simp: at_set_state)
  qed (use was infer(1,2) in \<open>auto simp: at_set_state(3)\<close>)
  moreover have "flow_leaving ?t"
    using flow_leavingD [OF flow_invD(5) [OF assms(1)]] was
    by (intro flow_leavingI) (auto simp: at_set_state(3) leaving_def)
  ultimately show ?thesis using assms(1) by (simp add: flow_inv_def sb_inv_set_state)
qed

lemma at_select:
  assumes "sb_selectFrameForInference b = (Some g, b')" "sb_inv b"
  shows "inferring_at b' k \<longleftrightarrow> k = fb_frame_id g" "\<not> idle_at b' k" "decoded_at b' k = decoded_at b k"
    "dom (frame_at b') = dom (frame_at b)"
proof -
  have "frame_at b (fb_frame_id g) \<noteq> None"
    using select_SomeD(1) [OF assms] by (auto simp: frame_at_def)
  then show "inferring_at b' k \<longleftrightarrow> k = fb_frame_id g"
    by (cases "frame_at b k"; cases "k = fb_frame_id g")
      (simp_all add: inferring_at_def select_effect(5) [OF assms] isInferenceTerminal_def isInferring_def)
  show "\<not> idle_at b' k" "decoded_at b' k = decoded_at b k" "dom (frame_at b') = dom (frame_at b)"
    by (cases "frame_at b k"; simp add: idle_at_def decoded_at_def dom_def select_effect(5) [OF assms]
        isInferenceTerminal_def)+
qed

lemma inv_select:
  assumes "flow_inv s" and sel: "sb_selectFrameForInference (fl_buffer s) = (Some f, b)"
  shows "flow_inv (s\<lparr>fl_buffer := b, fl_inflight := Some (fb_frame_id f)\<rparr>)" (is "flow_inv ?t")
proof -
  note inv = flow_invD(1) [OF assms(1)]
  note eff = select_effect(1-4) [OF sel inv] at_select [OF sel inv]
  have sorted: "sorted_wrt (<) (sb_frame_order (fl_buffer s))"
    using flow_invD(2) [OF assms(1)] by (simp add: flow_ids_def)
  note newest = select_is_newest_idle [OF sel inv sorted]
  have "flow_ids ?t" using flow_invD(2) [OF assms(1)] by (simp add: flow_ids_def eff)
  moreover have "flow_hand ?t"
    using flow_invD(3) [OF assms(1)] eff by (simp add: flow_hand_def sb_peekPacket_def)
  moreover have "flow_infer ?t" using newest(1) by (simp add: flow_infer_def eff)
  moreover have "h \<noteq> fb_frame_id f" if h: "leaving s = Some h" for h
  proof
    assume eq: "h = fb_frame_id f"
    with flow_invD(5) [OF assms(1)] h newest(1) obtain k where k: "h < k" "decoded_at (fl_buffer s) k"
      by (auto simp: flow_leaving_def)
    have "idle_at (fl_buffer s) k"
      using flow_invD(4) [OF assms(1)] k newest(2) eq at_dom(3) [OF k(2)]
      by (auto simp: flow_infer_def)
    with newest(3) [of k] k eq show False by simp
  qed
  then have "flow_leaving ?t"
    using flow_invD(5) [OF assms(1)] by (simp add: flow_leaving_def eff leaving_def)
  moreover have "sb_inv b" using sb_inv_select [OF inv] sel by simp
  ultimately show ?thesis by (simp add: flow_inv_def)
qed

lemma inferring_found:
  assumes "sb_inv b" "inferring_at b h" "decoded_at b h"
  shows "\<exists>i. inferringFrameIdLocked b = Some i \<and> inferring_at b i"
proof -
  have "h \<in> set (sb_frame_order b)"
    using assms(1) at_dom(1) [OF assms(2)] by (simp add: sb_inv_def frame_at_def)
  with assms(2,3) have "inferringFrameIdLocked b \<noteq> None"
    unfolding inferringFrameIdLocked_def find_None_iff by (auto simp: at_defs frame_at_def)
  then obtain i where i: "inferringFrameIdLocked b = Some i" by auto
  then have "inferring_at b i"
    by (auto simp: inferringFrameIdLocked_def at_defs frame_at_def find_Some_iff split: option.splits)
  with i show ?thesis by blast
qed

lemma inv_gate:
  assumes "flow_inv s" "fl_publisher s = PubWaiting"
    and wait: "sb_waitForPublishable kMinVideoWatermark 200 (fl_buffer s) = Some True"
    and peek: "sb_peekPacket (fl_buffer s) = Some p"
  shows "flow_inv (s\<lparr>fl_publisher := PubHolding p\<rparr>)" (is "flow_inv ?t")
proof -
  let ?b = "fl_buffer s"
  note infer = flow_inferD [OF flow_invD(4) [OF assms(1)]] and inv = flow_invD(1) [OF assms(1)]
  have can: "canPublishLocked 1 ?b"
    using wait by (auto simp: sb_waitForPublishable_def kMinVideoWatermark_def split: if_splits)
  obtain ps where ps: "sb_packets ?b = p # ps" using peek by (auto simp: peek_iff)
  have in_video: "k \<in> set (video_ids ?b)" if "k \<in> dom (frame_at ?b)" for k
    using flow_handD(3) [OF flow_invD(3) [OF assms(1)] that] assms(2) by simp
  have "flow_hand ?t" using in_video peek by (intro flow_handI) simp_all
  moreover have "flow_leaving ?t"
  proof (rule flow_leavingI)
    fix h assume "leaving ?t = Some h"
    then have h: "ep_media_type p = Video" "ep_frame_id p = h" "0 \<le> h"
      by (auto simp: leaving_def split: if_splits)
    note gates = canPublish_videoD [OF inv can _ ps h(1)]
    from gates(3) h obtain f where f: "map_of (sb_frames ?b) h = Some f"
      "fb_decoded_image f \<noteq> None \<longrightarrow> hasDecodedFrameLocked (Some h) ?b" by auto
    show "h \<in> dom (frame_at (fl_buffer ?t))" using f(1) by (simp add: frame_at_def dom_def)
    show "\<not> inferring_at (fl_buffer ?t) h"
    proof
      assume now: "inferring_at (fl_buffer ?t) h"
      with inferring_found [OF inv, of h] infer(1) [of h] obtain i where
        i: "inferringFrameIdLocked ?b = Some i" "inferring_at ?b i" by auto
      with infer(2) [of i h] i(2) now have "i = h" by simp
      with gates(2) [OF _ i(1)] h(2) show False by simp
    qed
    assume "decoded_at (fl_buffer ?t) h"
    with f have "hasDecodedFrameLocked (Some h) ?b" by (auto simp: decoded_at_def frame_at_def)
    then obtain k where k: "decoded_at ?b k" "k \<noteq> h"
      by (auto simp: hasDecoded_iff [OF inv] decoded_at_def frame_at_def)
    moreover have "h < k"
      using in_video [OF at_dom(3) [OF k(1)]] k(2) flow_invD(2) [OF assms(1)] h(1,2)
      by (auto simp: flow_ids_def video_ids_Cons [OF ps] is_video_def)
    ultimately show "\<exists>k > h. decoded_at (fl_buffer ?t) k" by auto
  qed
  ultimately show ?thesis
    using assms(1) flow_infer_cong [of ?t s] by (simp add: flow_inv_def flow_ids_def)
qed

lemma inv_pop:
  assumes "flow_inv s" "fl_publisher s = PubHolding p"
  shows "flow_inv (s\<lparr>fl_buffer := sb_popPacket (fl_buffer s),
                     fl_publisher := (if ep_media_type p = Video \<and> ep_frame_id p \<ge> 0
                                      then PubReleasing (ep_frame_id p) else PubWaiting)\<rparr>)"
    (is "flow_inv ?t")
proof -
  let ?b = "fl_buffer s"
  obtain ps where ps: "sb_packets ?b = p # ps"
    using flow_handD(1) [OF flow_invD(3) [OF assms(1)] assms(2)] by (auto simp: peek_iff)
  note ids = flow_invD(2) [OF assms(1)]
  have in_video: "k \<in> set (video_ids ?b)" if "k \<in> dom (frame_at ?b)" for k
    using flow_handD(3) [OF flow_invD(3) [OF assms(1)] that] assms(2) by simp
  have nonneg: "0 \<le> ep_frame_id p" if "is_video p"
    using that ids by (auto simp: flow_ids_def video_ids_Cons [OF ps])
  have left: "leaving ?t = leaving s" using assms(2) by (simp add: leaving_def)
  have popped: "video_ids (fl_buffer ?t) = (if is_video p then tl (video_ids ?b) else video_ids ?b)"
    by (simp add: video_ids_popPacket [OF ps] video_ids_Cons [OF ps])
  have "ep_frame_id p \<notin> set (fl_pending s)" if "is_video p"
  proof -
    have "leaving s = Some (ep_frame_id p)"
      using that nonneg assms(2) by (simp add: leaving_def is_video_def)
    from flow_leavingD(1) [OF flow_invD(5) [OF assms(1)] this] show ?thesis
      using frame_bounds(3) [OF assms(1)] by fastforce
  qed
  with ids have "flow_ids ?t"
    by (auto simp: flow_ids_def video_ids_popPacket [OF ps] video_ids_Cons [OF ps] split: if_splits)
  moreover have "flow_hand ?t"
  proof (rule flow_handI)
    show "i < v" if "fl_publisher ?t = PubReleasing i" "v \<in> set (video_ids (fl_buffer ?t))" for i v
      using that ids
      by (auto simp: flow_ids_def video_ids_popPacket [OF ps] video_ids_Cons [OF ps] is_video_def
          split: if_splits)
    show "k \<in> set (video_ids (fl_buffer ?t))"
      if "k \<in> dom (frame_at (fl_buffer ?t))" "fl_publisher ?t \<noteq> PubReleasing k" for k
      using that in_video [of k] nonneg
      by (auto simp: video_ids_popPacket [OF ps] video_ids_Cons [OF ps] is_video_def split: if_splits)
  qed (auto split: if_splits)
  moreover have "flow_infer ?t = flow_infer s" by (rule flow_infer_cong) simp_all
  moreover have "flow_leaving ?t = flow_leaving s" by (rule flow_leaving_cong) (simp_all only: left, simp)
  ultimately show ?thesis using assms(1) by (simp add: flow_inv_def sb_inv_popPacket)
qed

lemma at_releaseFrame:
  "inferring_at (sb_releaseFrame i b) k \<longleftrightarrow> k \<noteq> i \<and> inferring_at b k"
  "idle_at (sb_releaseFrame i b) k \<longleftrightarrow> k \<noteq> i \<and> idle_at b k"
  "decoded_at (sb_releaseFrame i b) k \<longleftrightarrow> k \<noteq> i \<and> decoded_at b k"
  by (auto simp: at_defs)

lemma inv_release:
  assumes "flow_inv s" "fl_publisher s = PubReleasing i"
  shows "flow_inv (s\<lparr>fl_buffer := sb_releaseFrame i (fl_buffer s), fl_publisher := PubWaiting\<rparr>)"
    (is "flow_inv ?t")
proof -
  note infer = flow_inferD [OF flow_invD(4) [OF assms(1)]]
  have left: "leaving s = Some i" using assms(2) by (simp add: leaving_def)
  note gone = flow_leavingD [OF flow_invD(5) [OF assms(1)] left]
  have "flow_ids ?t"
    using flow_invD(2) [OF assms(1)] by (auto simp: flow_ids_def sorted_wrt_filter removeAll_filter_not_eq)
  moreover have "flow_hand ?t"
    using flow_handD [OF flow_invD(3) [OF assms(1)]] assms(2) by (intro flow_handI) auto
  moreover have "flow_infer ?t"
    using infer gone(2) by (intro flow_inferI) (auto simp: at_releaseFrame)
  moreover have "flow_leaving ?t" by (simp add: flow_leaving_def leaving_def)
  ultimately show ?thesis using assms(1) by (simp add: flow_inv_def sb_inv_releaseFrame)
qed

text \<open>Steps that leave packets and frames as they are: the result cache, stop, and a reconnect.\<close>

lemma inv_same_frames:
  assumes "flow_inv s" "sb_inv b" "sb_packets b = sb_packets (fl_buffer s)"
    "frame_at b = frame_at (fl_buffer s)" "sb_frame_order b = sb_frame_order (fl_buffer s)"
    "\<not> sb_stopped b \<Longrightarrow> \<not> sb_stopped (fl_buffer s)" "pend = fl_pending s \<or> pend = []"
  shows "flow_inv (s\<lparr>fl_buffer := b, fl_pending := pend\<rparr>)" (is "flow_inv ?t")
proof -
  have vid: "video_ids b = video_ids (fl_buffer s)" using assms(3) by (simp add: video_ids_def)
  have "flow_ids ?t"
    using flow_invD(2) [OF assms(1)] assms(4-7) vid by (auto simp: flow_ids_def)
  moreover have "flow_hand ?t = flow_hand s" by (rule flow_hand_cong) (simp_all add: assms(3,4))
  moreover have "flow_infer ?t = flow_infer s" by (rule flow_infer_cong) (simp_all add: assms(4))
  moreover have "flow_leaving ?t = flow_leaving s"
    by (rule flow_leaving_cong) (simp_all add: assms(4) leaving_def)
  ultimately show ?thesis using assms(1,2) by (simp add: flow_inv_def)
qed

lemma inv_step:
  assumes "flow_step s t" "flow_inv s"
  shows "flow_inv t"
  using assms(1)
proof cases
  case (deliver i rest f)
  then show ?thesis using assms(2) inv_deliver inv_deliver_stopped by blast
next
  case (running i)
  have "t = s\<lparr>fl_buffer := sb_markInferenceRunning i (fl_buffer s), fl_inflight := Some i\<rparr>"
    using running by (cases s) simp
  with running inv_set_state [OF assms(2), of i Running "Some i"] show ?thesis
    using flow_inferD(3) [OF flow_invD(4) [OF assms(2)]] by (simp add: sb_markInferenceRunning_def)
next
  case (finish i r)
  have "-1 \<notin> dom (frame_at (fl_buffer s))" using frame_bounds(1) [OF assms(2)] by fastforce
  with finish flow_inferD(3) [OF flow_invD(4) [OF assms(2)]]
  have "fr_frame_id r \<in> dom (frame_at (fl_buffer s)) \<Longrightarrow> inferring_at (fl_buffer s) (fr_frame_id r)"
    by auto
  with finish inv_set_state [OF assms(2), of "fr_frame_id r" Done None] show ?thesis
    by (simp add: sb_markInferenceDone_def)
next
  case (drop i)
  with inv_set_state [OF assms(2), of i Dropped None] show ?thesis
    using flow_inferD(3) [OF flow_invD(4) [OF assms(2)]] by (simp add: sb_clearInferenceSelection_def)
next
  case reconnect
  with inv_same_frames [OF assms(2), of "fl_buffer s" "[]"] flow_invD(1) [OF assms(2)] show ?thesis
    by simp
next
  case (cache r)
  with inv_same_frames [OF assms(2) sb_inv_updateCached [OF flow_invD(1) [OF assms(2)]], of r "fl_pending s"]
  show ?thesis by simp
next
  case (take p now)
  with inv_same_frames [OF assms(2) sb_inv_takeCached [OF flow_invD(1) [OF assms(2)]],
      of "ep_frame_id p" "ep_pts p" now "fl_pending s"]
  show ?thesis by simp
next
  case halt
  with inv_same_frames [OF assms(2) sb_inv_stop [OF flow_invD(1) [OF assms(2)]], of "fl_pending s"]
  show ?thesis by simp
qed (use assms(2) inv_pull_video inv_pull_audio inv_select inv_gate inv_pop inv_release in blast)+

lemma inv_reachable: "flow_reachable stream_id s \<Longrightarrow> flow_inv s"
proof (induction rule: flow_reachable.induct)
  case start
  show ?case
    by (simp add: flow_inv_def flow_defs flow_start_def sb_inv_new at_defs leaving_def)
      (simp add: createStreamBuffer_def video_ids_def frame_at_def)
next
  case (step s t)
  then show ?case by (blast intro: inv_step)
qed

section \<open>Threads that implement the system\<close>

text \<open>
  What the code of a thread has to show: seen through \<open>view\<close>, each of its turns is a sequence of steps of the system that leaves the
  \<open>others\<close>, the parts that belong to the other threads, alone. Then any number of turns leads from
  reachable states to reachable states.
\<close>

locale flow_thread =
  fixes view :: "'s \<Rightarrow> flow \<Rightarrow> bool"
    and others :: "flow \<Rightarrow> 'o"
    and turn :: "'s \<Rightarrow> 's \<Rightarrow> bool"
  assumes turn_follows:
    "turn s s' \<Longrightarrow> view s fl \<Longrightarrow> \<exists>fl'. flow_step\<^sup>*\<^sup>* fl fl' \<and> view s' fl' \<and> others fl' = others fl"
begin

lemma turns_follow:
  assumes "turn\<^sup>*\<^sup>* s s'" "view s fl"
  shows "\<exists>fl'. flow_step\<^sup>*\<^sup>* fl fl' \<and> view s' fl' \<and> others fl' = others fl"
  using assms
proof (induction rule: rtranclp_induct)
  case base
  then show ?case by blast
next
  case (step s1 s2)
  then obtain fl1 where fl1: "flow_step\<^sup>*\<^sup>* fl fl1" "view s1 fl1" "others fl1 = others fl" by blast
  with turn_follows [OF step.hyps(2) fl1(2)] show ?case by (metis rtranclp_trans)
qed

lemma turns_reachable:
  assumes "flow_reachable stream_id fl" "view s fl" "turn\<^sup>*\<^sup>* s s'"
  shows "\<exists>fl'. flow_reachable stream_id fl' \<and> view s' fl' \<and> others fl' = others fl"
proof -
  from turns_follow [OF assms(3,2)] obtain fl' where fl': "flow_step\<^sup>*\<^sup>* fl fl'" "view s' fl'" "others fl' = others fl"
    by blast
  from this(1) assms(1) have "flow_reachable stream_id fl'"
    by (induction rule: rtranclp_induct) (auto intro: flow_reachable.step)
  with fl' show ?thesis by blast
qed

end

section \<open>A stream that cannot publish any more\<close>

definition stalled_on :: "EncodedPacket \<Rightarrow> flow \<Rightarrow> bool" where
  "stalled_on p s \<longleftrightarrow>
     sb_peekPacket (fl_buffer s) = Some p \<and> ep_media_type p = Video \<and>
     ep_frame_id p \<notin> dom (frame_at (fl_buffer s)) \<and> ep_frame_id p \<notin> set (fl_pending s)"

lemma stalled_nonneg:
  assumes "flow_inv s" "stalled_on p s"
  shows "0 \<le> ep_frame_id p" "ep_frame_id p < fl_next s"
proof -
  obtain ps where ps: "sb_packets (fl_buffer s) = p # ps"
    using assms(2) by (auto simp: stalled_on_def peek_iff)
  then have "ep_frame_id p \<in> set (video_ids (fl_buffer s))"
    using assms(2) by (simp add: video_ids_Cons [OF ps] stalled_on_def is_video_def)
  with flow_invD(2) [OF assms(1)] show "0 \<le> ep_frame_id p" "ep_frame_id p < fl_next s"
    by (auto simp: flow_ids_def)
qed

lemma stalled_blocks:
  assumes "flow_inv s" "stalled_on p s"
  shows "\<not> canPublishLocked kMinVideoWatermark (fl_buffer s)"
proof
  assume can: "canPublishLocked kMinVideoWatermark (fl_buffer s)"
  obtain ps where ps: "sb_packets (fl_buffer s) = p # ps" "ep_media_type p = Video"
    using assms(2) by (auto simp: stalled_on_def peek_iff)
  from canPublish_videoD(3) [OF flow_invD(1) [OF assms(1)] can _ ps] stalled_nonneg [OF assms] assms(2)
  show False by (auto simp: stalled_on_def frame_at_def kMinVideoWatermark_def)
qed

lemma stalled_not_holding:
  assumes "flow_inv s" "stalled_on p s"
  shows "fl_publisher s \<noteq> PubHolding q"
proof
  assume hold: "fl_publisher s = PubHolding q"
  with flow_handD(1) [OF flow_invD(3) [OF assms(1)] hold] assms(2) have "q = p"
    by (simp add: stalled_on_def)
  with hold assms(2) stalled_nonneg [OF assms] have "leaving s = Some (ep_frame_id p)"
    by (simp add: leaving_def stalled_on_def)
  from flow_leavingD(1) [OF flow_invD(5) [OF assms(1)] this] assms(2) show False
    by (simp add: stalled_on_def)
qed

lemma stalled_step:
  assumes "flow_step s t" "flow_inv s" "stalled_on p s"
  shows "stalled_on p t"
  using assms(1)
proof cases
  case (select f b)
  with select_effect(4) [OF _ flow_invD(1) [OF assms(2)]] at_select(4) [OF _ flow_invD(1) [OF assms(2)]]
  show ?thesis using assms(3) by (simp add: stalled_on_def sb_peekPacket_def)
qed (use assms(3) stalled_not_holding [OF assms(2,3)] stalled_nonneg [OF assms(2,3)] in
    \<open>auto simp: stalled_on_def peek_iff sb_markInferenceRunning_def sb_markInferenceDone_def
      sb_clearInferenceSelection_def\<close>)

lemma stalled_forever:
  assumes "flow_step\<^sup>*\<^sup>* s t" "flow_inv s" "stalled_on p s"
  shows "flow_inv t \<and> stalled_on p t"
  using assms by (induction rule: rtranclp_induct) (auto intro: inv_step stalled_step)

section \<open>A run for the witnesses\<close>

text \<open>
  Two video packets arrive, both frames are delivered, frame 1 goes to inference and the packet
  of frame 0 is published; in the other run the connection is lost before the first frame came
  out of the decoder.
\<close>

definition run_pulled :: flow where
  "run_pulled = (flow_start ''cam'')\<lparr>
     fl_buffer := snd (sb_enqueuePacket (Some (ex_packet 1))
                    (snd (sb_enqueuePacket (Some (ex_packet 0)) (createStreamBuffer ''cam'')))),
     fl_pending := [0, 1], fl_next := 2\<rparr>"

definition run_delivered :: flow where
  "run_delivered = run_pulled\<lparr>
     fl_buffer := snd (sb_enqueueFrame (Some (ex_frame 1))
                    (snd (sb_enqueueFrame (Some (ex_frame 0)) (fl_buffer run_pulled)))),
     fl_pending := []\<rparr>"

definition run_releasing :: flow where
  "run_releasing = run_delivered\<lparr>fl_inflight := Some 1,
     fl_buffer := sb_popPacket (snd (sb_selectFrameForInference (fl_buffer run_delivered))),
     fl_publisher := PubReleasing 0\<rparr>"

lemmas run_defs = run_pulled_def run_delivered_def run_releasing_def flow_start_def ex_defs

lemma reachable_pulled: "flow_reachable ''cam'' run_pulled"
proof -
  let ?s = "(flow_start ''cam'')\<lparr>fl_buffer := snd (sb_enqueuePacket (Some (ex_packet 0)) (createStreamBuffer ''cam'')),
     fl_pending := [0], fl_next := 1\<rparr>"
  have "flow_step (flow_start ''cam'') ?s"
    using flow_step.pull_video [of "ex_packet 0" "flow_start ''cam''"] by (simp add: run_defs)
  then have "flow_reachable ''cam'' ?s" by (blast intro: flow_reachable.intros)
  moreover have "flow_step ?s run_pulled"
    using flow_step.pull_video [of "ex_packet 1" ?s] by (simp add: run_defs)
  ultimately show ?thesis by (blast intro: flow_reachable.intros)
qed

lemma reachable_delivered: "flow_reachable ''cam'' run_delivered"
proof -
  let ?s = "run_pulled\<lparr>fl_buffer := snd (sb_enqueueFrame (Some (ex_frame 0)) (fl_buffer run_pulled)),
     fl_pending := [1]\<rparr>"
  have "flow_step run_pulled ?s"
    using flow_step.deliver [of run_pulled 0 "[1]" "ex_frame 0"] by (simp add: run_defs)
  with reachable_pulled have "flow_reachable ''cam'' ?s" by (blast intro: flow_reachable.intros)
  moreover have "flow_step ?s run_delivered"
    using flow_step.deliver [of ?s 1 "[]" "ex_frame 1"] by (simp add: run_defs)
  ultimately show ?thesis by (blast intro: flow_reachable.intros)
qed

lemma reachable_releasing: "flow_reachable ''cam'' run_releasing"
proof -
  let ?b = "snd (sb_selectFrameForInference (fl_buffer run_delivered))"
  let ?s = "run_delivered\<lparr>fl_buffer := ?b, fl_inflight := Some 1\<rparr>"
  have sel: "sb_selectFrameForInference (fl_buffer run_delivered) =
      (Some ((ex_frame 1)\<lparr>fb_infer_state := Selected\<rparr>), ?b)"
    by (simp add: run_defs sb_selectFrameForInference_def sb_selectable_def Let_def)
  have b: "?b = (fl_buffer run_delivered)\<lparr>sb_frames :=
      [(0, (ex_frame 0)\<lparr>fb_infer_state := Done\<rparr>), (1, (ex_frame 1)\<lparr>fb_infer_state := Selected\<rparr>)]\<rparr>"
    by (simp add: run_defs sb_selectFrameForInference_def sb_selectable_def Let_def sb_mark_done_def)
  have "flow_step run_delivered ?s"
    using flow_step.select [of run_delivered _ ?b, OF _ sel] by (simp add: run_defs)
  moreover have wait: "sb_waitForPublishable kMinVideoWatermark 200 ?b = Some True"
    unfolding b by (simp add: run_defs sb_waitForPublishable_def canPublishLocked_def kMinVideoWatermark_def
        inferringFrameIdLocked_def hasDecodedFrameLocked_def)
  have pk: "sb_peekPacket ?b = Some (ex_packet 0)" unfolding b by (simp add: run_defs sb_peekPacket_def)
  have "flow_step ?s (?s\<lparr>fl_publisher := PubHolding (ex_packet 0)\<rparr>)"
    using wait pk by (intro flow_step.gate) (simp_all add: run_defs)
  moreover have "flow_step (?s\<lparr>fl_publisher := PubHolding (ex_packet 0)\<rparr>) run_releasing"
    using flow_step.pop [of "?s\<lparr>fl_publisher := PubHolding (ex_packet 0)\<rparr>" "ex_packet 0"]
    by (simp add: run_releasing_def) (simp add: ex_defs)
  ultimately show ?thesis using reachable_delivered by (blast intro: flow_reachable.intros)
qed

section \<open>Properties\<close>

text \<open>
  C1. Whatever the interleaving of the puller, the worker and the publishing thread: at most one
  frame of the stream is being inferred, the frame the worker holds is in the buffer with its
  image, the frame the publisher is about to release is in the buffer and is not being inferred,
  and every stored frame still has its packet in the queue unless it is the one about to be
  released, so that no frame is released under the worker and none is left behind.
\<close>

theorem frames_safe_under_interleaving:
  assumes "flow_reachable stream_id s"
  shows "(\<forall>k k'. inferring_at (fl_buffer s) k \<longrightarrow> inferring_at (fl_buffer s) k' \<longrightarrow> k = k') \<and>
    (\<forall>i. fl_inflight s = Some i \<longrightarrow> (\<exists>f. sb_findFrame i (fl_buffer s) = Some f \<and>
       fb_decoded_image f \<noteq> None \<and> isInferring (fb_infer_state f))) \<and>
    (\<forall>h. leaving s = Some h \<longrightarrow> fl_inflight s \<noteq> Some h \<and> (\<exists>f. sb_findFrame h (fl_buffer s) = Some f \<and>
       \<not> isInferring (fb_infer_state f))) \<and>
    (\<forall>k f. sb_findFrame k (fl_buffer s) = Some f \<longrightarrow>
       k \<in> set (video_ids (fl_buffer s)) \<or> fl_publisher s = PubReleasing k)"
proof -
  note inv = inv_reachable [OF assms]
  note infer = flow_inferD [OF flow_invD(4) [OF inv]] and left = flow_leavingD [OF flow_invD(5) [OF inv]]
  have "\<exists>f. sb_findFrame i (fl_buffer s) = Some f \<and> fb_decoded_image f \<noteq> None \<and> isInferring (fb_infer_state f)"
    if "fl_inflight s = Some i" for i
    using infer(1) [OF infer(3) [OF that]] infer(3) [OF that]
    by (auto simp: at_defs sb_findFrame_def frame_at_def)
  moreover have "fl_inflight s \<noteq> Some h \<and> (\<exists>f. sb_findFrame h (fl_buffer s) = Some f \<and>
       \<not> isInferring (fb_infer_state f))" if "leaving s = Some h" for h
    using left(1,2) [OF that] infer(3) [of h]
    by (auto simp: inferring_at_def sb_findFrame_def frame_at_def)
  moreover have "k \<in> set (video_ids (fl_buffer s)) \<or> fl_publisher s = PubReleasing k"
    if "sb_findFrame k (fl_buffer s) = Some f" for k f
    using flow_handD(3) [OF flow_invD(3) [OF inv], of k] that
    by (auto simp: sb_findFrame_def frame_at_def)
  ultimately show ?thesis using infer(2) by blast
qed

theorem frames_safe_under_interleaving_witness:
  "flow_reachable ''cam'' run_releasing \<and> leaving run_releasing = Some 0 \<and> fl_inflight run_releasing = Some 1 \<and>
   (\<exists>f. sb_findFrame 0 (fl_buffer run_releasing) = Some f \<and> \<not> isInferring (fb_infer_state f)) \<and>
   (\<exists>f. sb_findFrame 1 (fl_buffer run_releasing) = Some f \<and> isInferring (fb_infer_state f))"
proof -
  have "leaving run_releasing = Some 0" "fl_inflight run_releasing = Some 1"
    by (simp_all add: leaving_def run_releasing_def)
  then show ?thesis
    using frames_safe_under_interleaving [OF reachable_releasing] reachable_releasing by blast
qed

text \<open>
  C10. The publisher works in presentation order of the numbering: the frame it is about to
  release is the oldest stored frame and lies before every packet still queued, and the numbers of
  the queued video packets increase.
\<close>

theorem release_in_order:
  assumes "flow_reachable stream_id s" "leaving s = Some h"
  shows "sorted_wrt (<) (video_ids (fl_buffer s)) \<and>
    (\<forall>v \<in> set (video_ids (fl_buffer s)). h \<le> v) \<and>
    (\<forall>k f. sb_findFrame k (fl_buffer s) = Some f \<longrightarrow> h \<le> k)"
proof -
  note inv = inv_reachable [OF assms(1)]
  note hand = flow_handD [OF flow_invD(3) [OF inv]]
  have ids: "sorted_wrt (<) (video_ids (fl_buffer s))"
    using flow_invD(2) [OF inv] by (simp add: flow_ids_def)
  have least: "h \<le> v" if v: "v \<in> set (video_ids (fl_buffer s))" for v
  proof (cases "fl_publisher s")
    case (PubHolding p)
    from hand(1) [OF PubHolding] obtain ps where ps: "sb_packets (fl_buffer s) = p # ps"
      by (auto simp: peek_iff)
    from PubHolding assms(2) have "is_video p" "ep_frame_id p = h"
      by (auto simp: leaving_def is_video_def split: if_splits)
    with ids v ps show ?thesis by (auto simp: video_ids_Cons [OF ps])
  qed (use assms(2) hand(2) [OF _ v] in \<open>auto simp: leaving_def\<close>)
  moreover have "h \<le> k" if "sb_findFrame k (fl_buffer s) = Some f" for k f
    using hand(3) [of k] least [of k] that assms(2)
    by (cases "fl_publisher s = PubReleasing k") (auto simp: leaving_def sb_findFrame_def frame_at_def)
  ultimately show ?thesis using ids by blast
qed

theorem release_in_order_witness:
  "flow_reachable ''cam'' run_releasing \<and> leaving run_releasing = Some 0 \<and>
   sorted_wrt (<) (video_ids (fl_buffer run_releasing))"
proof -
  have "leaving run_releasing = Some 0" by (simp add: leaving_def run_releasing_def)
  with release_in_order [OF reachable_releasing this] reachable_releasing show ?thesis by blast
qed

text \<open>
  C38. A lost connection can stop publishing for good. Once the packet at the head has neither a
  stored frame nor a pending one (\<open>closeStream\<close> forgets the pending ones while their packets stay
  queued), the second gate of \<open>canPublishLocked\<close> is closed in every later state: no step of
  any thread, a reconnect and new packets included, ever publishes again.
\<close>

theorem reconnect_stalls_publishing:
  assumes "flow_reachable stream_id s" "sb_peekPacket (fl_buffer s) = Some p" "ep_media_type p = Video"
    and "sb_findFrame (ep_frame_id p) (fl_buffer s) = None" "ep_frame_id p \<notin> set (fl_pending s)"
    and "flow_step\<^sup>*\<^sup>* s t"
  shows "sb_peekPacket (fl_buffer t) = Some p \<and> \<not> canPublishLocked kMinVideoWatermark (fl_buffer t)"
proof -
  have "stalled_on p s"
    using assms(2-5) by (simp add: stalled_on_def sb_findFrame_def frame_at_def domIff)
  from stalled_forever [OF assms(6) inv_reachable [OF assms(1)] this] show ?thesis
    using stalled_blocks by (auto simp: stalled_on_def)
qed

theorem reconnect_stalls_publishing_witness:
  "\<not> canPublishLocked kMinVideoWatermark
       (snd (sb_enqueuePacket (Some (ex_packet 2)) (fl_buffer (run_pulled\<lparr>fl_pending := []\<rparr>))))"
proof -
  let ?s = "run_pulled\<lparr>fl_pending := []\<rparr>"
  have reach: "flow_reachable ''cam'' ?s"
    using reachable_pulled flow_step.reconnect [of run_pulled] by (blast intro: flow_reachable.intros)
  have "flow_step ?s (?s\<lparr>fl_buffer := snd (sb_enqueuePacket (Some (ex_packet 2)) (fl_buffer ?s)),
       fl_pending := fl_pending ?s @ [fl_next ?s], fl_next := fl_next ?s + 1\<rparr>)"
    by (rule flow_step.pull_video) (simp_all add: run_defs)
  from reconnect_stalls_publishing [OF reach _ _ _ _ r_into_rtranclp [of flow_step, OF this], of "ex_packet 0"]
  show ?thesis by (simp add: run_defs sb_peekPacket_def sb_findFrame_def)
qed

end
