(* ===== verification/Puller.thy ===== *)
theory Puller
  imports Decoder Muxing Statistics StreamFlow
begin

text \<open>
  \<open>src/stream/RTSPPuller.cpp\<close>: the thread that reads a stream, queues its packets, feeds the
  decoder and queues the decoded frames. The puller owns \<open>RTSPPuller\<close>; what it shares with other
  threads is the record \<open>pull_world\<close>: the stream buffer, the statistics and the calls of the two callbacks.

  FFmpeg's demuxer is a parameter: \<open>open_input\<close> is what the calls of one \<open>openStream\<close> return, packets come from
  \<open>av_read_frame\<close>. \<open>pull_library\<close> holds the arithmetic of FFmpeg.
\<close>

section \<open>State\<close>

record PendingVideoFrameMeta =
  pm_frame_id :: int
  pm_pts :: int
  pm_dts :: int
  pm_duration :: int
  pm_timestamp_ms :: int
  pm_is_keyframe :: bool

record AVInputStream =
  is_avg_frame_rate :: AVRational
  is_r_frame_rate :: AVRational
  is_time_base :: AVRational
  is_codec_id :: int
  is_bit_rate :: int
  is_width :: int
  is_height :: int
  is_sample_rate :: int
  is_channels :: int
  is_extradata :: "u8 list"

record AVFormatContext =
  fc_streams :: "nat \<Rightarrow> AVInputStream"
  fc_bit_rate :: int

record RTSPPuller =
  pu_cfg :: StreamConfig
  pu_fmt_ctx :: "AVFormatContext option"
  pu_video_stream_idx :: int
  pu_audio_stream_idx :: int
  pu_src_w :: int
  pu_src_h :: int
  pu_src_coding :: MppCodingType
  pu_src_fps :: int
  pu_src_bitrate :: int
  pu_input_stream_specs :: "RtspStreamSpec list"
  pu_pending_video_frames :: "PendingVideoFrameMeta list"
  pu_next_frame_id :: int
  pu_decoder :: MppDecoder
  pu_running :: bool
  pu_stop_flag :: bool
  pu_total_frames :: u64

record pull_world =
  pw_buffer :: StreamBuffer
  pw_stats :: Statistics
  pw_ready :: "string list"
  pw_specs :: "RtspStreamSpec list list"

record pull_library =
  pl_rescale_q :: "int \<Rightarrow> AVRational \<Rightarrow> AVRational \<Rightarrow> int"
  pl_q2d :: "AVRational \<Rightarrow> rat"
  pl_add_double :: "rat \<Rightarrow> rat \<Rightarrow> rat"
  pl_ids :: codec_ids

definition new_RTSPPuller :: "StreamConfig \<Rightarrow> RTSPPuller" where
  "new_RTSPPuller cfg =
     \<lparr>pu_cfg = cfg, pu_fmt_ctx = None, pu_video_stream_idx = -1, pu_audio_stream_idx = -1, pu_src_w = 0, pu_src_h = 0,
      pu_src_coding = MPP_VIDEO_CodingUnused, pu_src_fps = 25, pu_src_bitrate = 0, pu_input_stream_specs = [],
      pu_pending_video_frames = [], pu_next_frame_id = 0, pu_decoder = new_MppDecoder, pu_running = False,
      pu_stop_flag = False, pu_total_frames = 0\<rparr>"

section \<open>Helpers\<close>

text \<open>A positive \<open>double\<close> converts to \<open>int\<close> by cutting off the fraction.\<close>

definition fpsFromStream :: "pull_library \<Rightarrow> AVInputStream \<Rightarrow> int" where
  "fpsFromStream lib stream =
     (let bad = (\<lambda>q. rat_num q \<le> 0 \<or> rat_den q \<le> 0);
          rate = (if bad (is_avg_frame_rate stream) then is_r_frame_rate stream else is_avg_frame_rate stream)
      in if bad rate then 25
         else if pl_q2d lib rate \<le> 1 then 25
         else \<lfloor>pl_add_double lib (pl_q2d lib rate) (1 / 2)\<rfloor>)"

definition buildDecodedImage :: "mpp_frame \<Rightarrow> DmaImage option" where
  "buildDecodedImage frame =
     (case mf_buffer frame of
        None \<Rightarrow> None
      | Some b \<Rightarrow>
          Some \<lparr>di_fd = mb_fd b, di_virt_addr = mb_ptr b, di_size = mb_size b, di_width = mf_width frame,
                di_height = mf_height frame, di_width_stride = mf_hor_stride frame,
                di_height_stride = mf_ver_stride frame\<rparr>)"

definition toMillis :: "pull_library \<Rightarrow> int \<Rightarrow> AVRational \<Rightarrow> int" where
  "toMillis lib v time_base =
     (if v = AV_NOPTS_VALUE \<or> rat_num time_base \<le> 0 \<or> rat_den time_base \<le> 0 then 0
      else pl_rescale_q lib v time_base \<lparr>rat_num = 1, rat_den = 1000\<rparr>)"

definition ffmpegInterruptCallback :: "RTSPPuller \<Rightarrow> int" where
  "ffmpegInterruptCallback pu = (if pu_stop_flag pu then 1 else 0)"

section \<open>Queueing decoded frames\<close>

definition pending_bundle :: "RTSPPuller \<Rightarrow> PendingVideoFrameMeta \<Rightarrow> DmaImage option \<Rightarrow> FrameBundle" where
  "pending_bundle pu meta img =
     new_FrameBundle\<lparr>fb_stream_id := sc_stream_id (pu_cfg pu), fb_frame_id := pm_frame_id meta, fb_pts := pm_pts meta,
       fb_dts := pm_dts meta, fb_duration := pm_duration meta, fb_timestamp_ms := pm_timestamp_ms meta,
       fb_is_keyframe := pm_is_keyframe meta, fb_width := pu_src_w pu, fb_height := pu_src_h pu,
       fb_source_fps := pu_src_fps pu, fb_source_bitrate := pu_src_bitrate pu, fb_source_coding := pu_src_coding pu,
       fb_source_codec_id :=
         (case pu_fmt_ctx pu of
            None \<Rightarrow> 0
          | Some c \<Rightarrow> if pu_video_stream_idx pu \<ge> 0 then is_codec_id (fc_streams c (nat (pu_video_stream_idx pu))) else 0),
       fb_decoded_image := img\<rparr>"

definition enqueuePendingFrame ::
  "RTSPPuller \<Rightarrow> PendingVideoFrameMeta \<Rightarrow> DmaImage option \<Rightarrow> bool \<Rightarrow> pull_world \<Rightarrow> pull_world"
where
  "enqueuePendingFrame pu meta img notify_frame_ready w =
     (case sb_enqueueFrame (Some (pending_bundle pu meta img)) (pw_buffer w) of
        (ok, b) \<Rightarrow>
          w\<lparr>pw_buffer := b,
            pw_ready := (if ok \<and> notify_frame_ready then pw_ready w @ [sc_stream_id (pu_cfg pu)] else pw_ready w)\<rparr>)"

text \<open>\<open>find_if\<close> on the pending frames: the position of the first match.\<close>

fun find_index :: "('a \<Rightarrow> bool) \<Rightarrow> 'a list \<Rightarrow> nat option" where
  "find_index P [] = None"
| "find_index P (x # xs) = (if P x then Some 0 else map_option Suc (find_index P xs))"

definition match_pending :: "mpp_frame \<Rightarrow> PendingVideoFrameMeta list \<Rightarrow> nat option" where
  "match_pending frame pending =
     (let by_pts = (if mf_pts frame \<noteq> AV_NOPTS_VALUE then find_index (\<lambda>meta. pm_pts meta = mf_pts frame) pending else None)
      in if by_pts = None \<and> mf_dts frame \<noteq> AV_NOPTS_VALUE
         then find_index (\<lambda>meta. pm_dts meta = mf_dts frame) pending else by_pts)"

text \<open>The frames before the match are queued without an image.\<close>

definition takePendingVideoFrameMeta ::
  "mpp_frame \<Rightarrow> RTSPPuller \<times> pull_world \<Rightarrow> PendingVideoFrameMeta option \<times> RTSPPuller \<times> pull_world"
where
  "takePendingVideoFrameMeta frame s =
     (case s of (pu, w) \<Rightarrow>
        (case pu_pending_video_frames pu of
           [] \<Rightarrow> (None, pu, w)
         | front # rest \<Rightarrow>
             (case match_pending frame (front # rest) of
                None \<Rightarrow>
                  if mf_pts frame = AV_NOPTS_VALUE \<and> mf_dts frame = AV_NOPTS_VALUE
                  then (Some front, pu\<lparr>pu_pending_video_frames := rest\<rparr>, w)
                  else (None, pu, w)
              | Some i \<Rightarrow>
                  (Some ((front # rest) ! i), pu\<lparr>pu_pending_video_frames := drop (Suc i) (front # rest)\<rparr>,
                   fold (\<lambda>meta. enqueuePendingFrame pu meta None False) (take i (front # rest)) w))))"

text \<open>
  The call \<open>enqueuePendingFrame(*meta, std::move(image), image != nullptr)\<close> does not say in which order its
  arguments are evaluated: if the image is moved first, the comparison sees a null pointer. The
  argument \<open>moved_first\<close> is the order the compiler chose.
\<close>

definition publish_decoded :: "bool \<Rightarrow> mpp_frame \<Rightarrow> RTSPPuller \<times> pull_world \<Rightarrow> RTSPPuller \<times> pull_world" where
  "publish_decoded moved_first frame s =
     (case s of (pu, w) \<Rightarrow>
        (case takePendingVideoFrameMeta frame
                (pu, w\<lparr>pw_stats := incMppDecodeFrame (sc_stream_id (pu_cfg pu)) 1 (pw_stats w)\<rparr>) of
           (None, pu', w') \<Rightarrow> (pu', w')
         | (Some meta, pu', w') \<Rightarrow>
             let img = buildDecodedImage frame
             in (pu'\<lparr>pu_total_frames := pu_total_frames pu' + 1\<rparr>,
                 enqueuePendingFrame pu' meta img (\<not> moved_first \<and> img \<noteq> None) w')))"

definition publishDecodedFrames :: "bool \<Rightarrow> mpp_frame list \<Rightarrow> RTSPPuller \<times> pull_world \<Rightarrow> RTSPPuller \<times> pull_world" where
  "publishDecodedFrames moved_first decoded_frames s = fold (publish_decoded moved_first) decoded_frames s"

section \<open>Reading packets\<close>

definition encoded_packet :: "pull_library \<Rightarrow> int \<Rightarrow> AVFormatContext \<Rightarrow> AVPacket \<Rightarrow> EncodedPacket" where
  "encoded_packet lib now_mono_ms c pkt =
     new_EncodedPacket\<lparr>ep_packet := Some pkt, ep_stream_index := av_stream_index pkt, ep_pts := av_pts pkt,
       ep_dts := av_dts pkt, ep_duration := av_duration pkt,
       ep_timestamp_ms := toMillis lib (av_pts pkt) (is_time_base (fc_streams c (nat (av_stream_index pkt)))),
       ep_is_keyframe := av_key_flag pkt, ep_enqueue_mono_ms := now_mono_ms\<rparr>"

text \<open>What the calls for one packet return, besides the packet itself.\<close>

record packet_result =
  pr_clone :: bool
  pr_now_mono_ms :: int
  pr_submit :: submit_result
  pr_moved_first :: bool

text \<open>The video branch up to the decoder, and the branch with it; \<open>None\<close>: \<open>drainFrames\<close> does not return.\<close>

definition queue_video :: "EncodedPacket \<Rightarrow> RTSPPuller \<times> pull_world \<Rightarrow> RTSPPuller \<times> pull_world" where
  "queue_video encoded s =
     (case s of (pu, w) \<Rightarrow>
        let stream_id = sc_stream_id (pu_cfg pu);
            packet = encoded\<lparr>ep_media_type := Video, ep_frame_id := pu_next_frame_id pu\<rparr>;
            b = snd (sb_enqueuePacket (Some packet) (pw_buffer w));
            meta = \<lparr>pm_frame_id = pu_next_frame_id pu, pm_pts = ep_pts packet, pm_dts = ep_dts packet,
                    pm_duration = ep_duration packet, pm_timestamp_ms = ep_timestamp_ms packet,
                    pm_is_keyframe = ep_is_keyframe packet\<rparr>
        in (pu\<lparr>pu_pending_video_frames := pu_pending_video_frames pu @ [meta],
               pu_next_frame_id := pu_next_frame_id pu + 1\<rparr>,
            w\<lparr>pw_buffer := b,
              pw_stats := setRemainPacketSize stream_id (of_nat (sb_packetCount b))
                (incRtspPullFrame stream_id 1 (pw_stats w))\<rparr>))"

definition handle_packet ::
  "pull_library \<Rightarrow> packet_result \<Rightarrow> AVPacket \<Rightarrow> RTSPPuller \<times> pull_world \<Rightarrow> (RTSPPuller \<times> pull_world) option"
where
  "handle_packet lib r pkt s =
     (case s of (pu, w) \<Rightarrow>
        (case pu_fmt_ctx pu of
           None \<Rightarrow> Some (pu, w)
         | Some c \<Rightarrow>
             let encoded = encoded_packet lib (pr_now_mono_ms r) c pkt
             in if \<not> pr_clone r then Some (pu, w)
                else if av_stream_index pkt = pu_video_stream_idx pu
                then (case queue_video encoded (pu, w) of (pu', w') \<Rightarrow>
                        (case submitPacket (pr_submit r) [] (pu_decoder pu') of
                           None \<Rightarrow> None
                         | Some (_, frames, _, d) \<Rightarrow>
                             Some (publishDecodedFrames (pr_moved_first r) frames (pu'\<lparr>pu_decoder := d\<rparr>, w'))))
                else if av_stream_index pkt = pu_audio_stream_idx pu
                then Some (pu, w\<lparr>pw_buffer :=
                       snd (sb_enqueuePacket (Some (encoded\<lparr>ep_media_type := Audio\<rparr>)) (pw_buffer w))\<rparr>)
                else Some (pu, w)))"

section \<open>Opening and closing the stream\<close>

text \<open>\<open>static_cast<int>\<close> of an \<open>int64_t\<close>.\<close>

definition to_int32 :: "int \<Rightarrow> int" where
  "to_int32 v = sint (word_of_int v :: u32)"

definition buildSpec :: "pull_library \<Rightarrow> AVFormatContext \<Rightarrow> int \<Rightarrow> MediaType \<Rightarrow> RtspStreamSpec" where
  "buildSpec lib c stream_index media_type =
     (let stream = fc_streams c (nat stream_index)
      in \<lparr>scp_codec_id = is_codec_id stream, scp_time_base = is_time_base stream,
          scp_fps = (if media_type = Video then fpsFromStream lib stream else 0),
          scp_bit_rate = (if is_bit_rate stream > 0 then to_int32 (is_bit_rate stream) else 0),
          scp_width = is_width stream, scp_height = is_height stream, scp_extradata = is_extradata stream,
          rs_media_type = media_type, rs_input_stream_index = stream_index,
          rs_sample_rate = is_sample_rate stream, rs_channels = is_channels stream\<rparr>)"

definition buildInputStreamSpecs :: "pull_library \<Rightarrow> RTSPPuller \<Rightarrow> RtspStreamSpec list" where
  "buildInputStreamSpecs lib pu =
     (case pu_fmt_ctx pu of
        None \<Rightarrow> []
      | Some c \<Rightarrow>
          (if pu_video_stream_idx pu \<ge> 0 then [buildSpec lib c (pu_video_stream_idx pu) Video] else []) @
          (if pu_audio_stream_idx pu \<ge> 0 then [buildSpec lib c (pu_audio_stream_idx pu) Audio] else []))"

record open_input =
  oi_alloc :: bool
  oi_open :: bool
  oi_stream_info :: bool
  oi_context :: AVFormatContext
  oi_video :: int
  oi_audio :: int
  oi_decoder :: init_result

text \<open>The part of \<open>openStream\<close> after the streams are found.\<close>

definition open_found :: "pull_library \<Rightarrow> open_input \<Rightarrow> RTSPPuller \<Rightarrow> bool \<times> RTSPPuller" where
  "open_found lib oi pu =
     (let video = fc_streams (oi_context oi) (nat (pu_video_stream_idx pu));
          coding = avCodecIdToMppCoding (pl_ids lib) (is_codec_id video);
          pu1 = pu\<lparr>pu_src_w := is_width video, pu_src_h := is_height video, pu_src_fps := fpsFromStream lib video,
                   pu_src_bitrate := (if is_bit_rate video > 0 then to_int32 (is_bit_rate video)
                                      else if fc_bit_rate (oi_context oi) > 0 then to_int32 (fc_bit_rate (oi_context oi))
                                      else 0),
                   pu_src_coding := coding\<rparr>
      in if coding = MPP_VIDEO_CodingUnused then (False, pu1\<lparr>pu_fmt_ctx := None\<rparr>)
         else case md_init (oi_decoder oi) (is_extradata video) (sc_stream_id (pu_cfg pu)) (pu_decoder pu1) of
                (False, d) \<Rightarrow> (False, pu1\<lparr>pu_decoder := d, pu_fmt_ctx := None\<rparr>)
              | (True, d) \<Rightarrow>
                  let pu2 = pu1\<lparr>pu_decoder := d, pu_fmt_ctx := Some (oi_context oi), pu_pending_video_frames := []\<rparr>
                  in (True, pu2\<lparr>pu_input_stream_specs := buildInputStreamSpecs lib pu2\<rparr>))"

definition openStream :: "pull_library \<Rightarrow> open_input \<Rightarrow> RTSPPuller \<Rightarrow> bool \<times> RTSPPuller" where
  "openStream lib oi pu =
     (if \<not> oi_alloc oi \<or> \<not> oi_open oi \<or> \<not> oi_stream_info oi then (False, pu)
      else if oi_video oi < 0 then (False, pu\<lparr>pu_video_stream_idx := oi_video oi\<rparr>)
      else open_found lib oi (pu\<lparr>pu_video_stream_idx := oi_video oi,
             pu_audio_stream_idx := (if oi_audio oi < 0 then -1 else oi_audio oi)\<rparr>))"

definition closeStream :: "RTSPPuller \<Rightarrow> RTSPPuller" where
  "closeStream pu =
     pu\<lparr>pu_pending_video_frames := [], pu_input_stream_specs := [], pu_decoder := md_destroy (pu_decoder pu),
        pu_fmt_ctx := None, pu_video_stream_idx := -1, pu_audio_stream_idx := -1,
        pu_src_coding := MPP_VIDEO_CodingUnused, pu_src_fps := 25, pu_src_bitrate := 0\<rparr>"

section \<open>The thread\<close>

text \<open>
  What \<open>av_read_frame\<close> does turn by turn; another thread may set the stop flag before any turn. A list that ends means that
  the call has not returned yet.
\<close>

datatype read_event = ReadPacket packet_result AVPacket | ReadError | StopSeen

fun read_loop ::
  "pull_library \<Rightarrow> read_event list \<Rightarrow> RTSPPuller \<times> pull_world \<Rightarrow> (bool \<times> RTSPPuller \<times> pull_world) option"
where
  "read_loop lib [] s = Some (False, s)"
| "read_loop lib (ReadPacket r pkt # es) s =
     (case handle_packet lib r pkt s of None \<Rightarrow> None | Some s' \<Rightarrow> read_loop lib es s')"
| "read_loop lib (ReadError # es) s = Some (True, s)"
| "read_loop lib (StopSeen # es) (pu, w) = Some (True, pu\<lparr>pu_stop_flag := True\<rparr>, w)"

text \<open>The wait between two attempts: \<open>stopped\<close> says that the stop flag ends it before the interval has passed.\<close>

definition waitForReconnectInterval :: "bool \<Rightarrow> RTSPPuller \<Rightarrow> bool \<times> RTSPPuller" where
  "waitForReconnectInterval stopped pu = (\<not> stopped, if stopped then pu\<lparr>pu_stop_flag := True\<rparr> else pu)"

text \<open>
  One attempt to connect; \<open>at_stop\<close> says that the stop flag is set while the stream is opened, \<open>at_wait_stop\<close> that it ends the wait for the
  next attempt.
\<close>

record attempt =
  at_open :: open_input
  at_stop :: bool
  at_wait_stop :: bool
  at_reads :: "read_event list"

fun pullLoop :: "pull_library \<Rightarrow> attempt list \<Rightarrow> RTSPPuller \<times> pull_world \<Rightarrow> (RTSPPuller \<times> pull_world) option" where
  "pullLoop lib [] s = Some s"
| "pullLoop lib (a # as) (pu, w) =
     (if pu_stop_flag pu then Some (pu\<lparr>pu_running := False\<rparr>, w)
      else case openStream lib (at_open a) pu of
             (False, pu') \<Rightarrow>
               if at_stop a then Some (pu'\<lparr>pu_stop_flag := True, pu_running := False\<rparr>, w)
               else if sc_reconnect_interval_s (pu_cfg pu') \<le> 0 then Some (pu'\<lparr>pu_running := False\<rparr>, w)
               else (case waitForReconnectInterval (at_wait_stop a) pu' of
                       (False, pu'') \<Rightarrow> Some (pu''\<lparr>pu_running := False\<rparr>, w)
                     | (True, pu'') \<Rightarrow> pullLoop lib as (pu'', w))
           | (True, pu') \<Rightarrow>
               (case read_loop lib (at_reads a) (pu', w\<lparr>pw_specs := pw_specs w @ [pu_input_stream_specs pu']\<rparr>) of
                  None \<Rightarrow> None
                | Some (False, s') \<Rightarrow> Some s'
                | Some (True, pu'', w'') \<Rightarrow> pullLoop lib as (closeStream pu'', w'')))"

definition pu_start :: "RTSPPuller \<Rightarrow> bool \<times> RTSPPuller" where
  "pu_start pu = (True, if pu_running pu then pu else pu\<lparr>pu_stop_flag := False, pu_running := True\<rparr>)"

text \<open>After the thread is joined.\<close>

definition pu_stop :: "RTSPPuller \<Rightarrow> RTSPPuller" where
  "pu_stop pu = (closeStream (pu\<lparr>pu_stop_flag := True\<rparr>))\<lparr>pu_running := False\<rparr>"

section \<open>The puller refines the abstract one\<close>

text \<open>
  The calls of the puller on the buffer are steps of \<open>flow_step\<close>. \<open>pulls pu w s\<close> says that the system state \<open>s\<close> of \<open>StreamFlow\<close> has
  the puller's buffer, its pending numbers and its next number; the worker and the publisher are anywhere.
\<close>

definition pulls :: "RTSPPuller \<times> pull_world \<Rightarrow> flow \<Rightarrow> bool" where
  "pulls s fl \<longleftrightarrow>
     fl_buffer fl = pw_buffer (snd s) \<and> fl_pending fl = map pm_frame_id (pu_pending_video_frames (fst s)) \<and>
     fl_next fl = pu_next_frame_id (fst s)"

text \<open>A change of the puller that any system state can follow by steps.\<close>

definition followed :: "RTSPPuller \<times> pull_world \<Rightarrow> RTSPPuller \<times> pull_world \<Rightarrow> bool" where
  "followed s s' \<longleftrightarrow> (\<forall>fl. pulls s fl \<longrightarrow> (\<exists>fl'. flow_step\<^sup>*\<^sup>* fl fl' \<and> pulls s' fl' \<and>
     fl_inflight fl' = fl_inflight fl \<and> fl_publisher fl' = fl_publisher fl))"

lemma followed_trans: "followed s s' \<Longrightarrow> followed s' s'' \<Longrightarrow> followed s s''"
  unfolding followed_def by (metis rtranclp_trans)

lemma followed_same:
  assumes "pw_buffer w' = pw_buffer w" "pu_pending_video_frames pu' = pu_pending_video_frames pu"
    "pu_next_frame_id pu' = pu_next_frame_id pu"
  shows "followed (pu, w) (pu', w')"
  using assms unfolding followed_def pulls_def by auto

lemma followed_refl: "followed s s"
  by (cases s) (simp add: followed_same)

lemma followed_clear:
  assumes "pw_buffer w' = pw_buffer w" "pu_pending_video_frames pu' = []" "pu_next_frame_id pu' = pu_next_frame_id pu"
  shows "followed (pu, w) (pu', w')"
proof -
  have "flow_step\<^sup>*\<^sup>* fl (fl\<lparr>fl_pending := []\<rparr>)" for fl by (rule r_into_rtranclp) (rule reconnect)
  then show ?thesis using assms unfolding followed_def pulls_def by (intro allI impI exI [of _ "fl\<lparr>fl_pending := []\<rparr>" for fl]) auto
qed

lemma followed_deliver:
  assumes "pu_pending_video_frames pu = meta # rest" "pu_pending_video_frames pu' = rest"
    "pu_next_frame_id pu' = pu_next_frame_id pu"
  shows "followed (pu, w) (pu', enqueuePendingFrame pu'' meta img notify w)"
  unfolding followed_def
proof (intro allI impI)
  fix fl
  assume p: "pulls (pu, w) fl"
  let ?f = "pending_bundle pu'' meta img"
  let ?fl = "fl\<lparr>fl_buffer := snd (sb_enqueueFrame (Some ?f) (fl_buffer fl)), fl_pending := map pm_frame_id rest\<rparr>"
  have "flow_step fl ?fl"
    by (rule deliver) (use p assms in \<open>simp_all add: pulls_def pending_bundle_def new_FrameBundle_def\<close>)
  moreover have "pulls (pu', enqueuePendingFrame pu'' meta img notify w) ?fl"
    using p assms by (simp add: pulls_def enqueuePendingFrame_def split: prod.split)
  ultimately show "\<exists>fl'. flow_step\<^sup>*\<^sup>* fl fl' \<and> pulls (pu', enqueuePendingFrame pu'' meta img notify w) fl' \<and>
     fl_inflight fl' = fl_inflight fl \<and> fl_publisher fl' = fl_publisher fl"
    by (intro exI [of _ ?fl]) simp
qed


lemma followed_prefix:
  "i \<le> length (pu_pending_video_frames pu) \<Longrightarrow>
   followed (pu, w) (pu\<lparr>pu_pending_video_frames := drop i (pu_pending_video_frames pu)\<rparr>,
     fold (\<lambda>meta. enqueuePendingFrame pu0 meta None False) (take i (pu_pending_video_frames pu)) w)"
proof (induction i arbitrary: pu w)
  case 0
  then show ?case by (simp add: followed_same)
next
  case (Suc i)
  then obtain meta rest where p: "pu_pending_video_frames pu = meta # rest"
    by (cases "pu_pending_video_frames pu") auto
  let ?pu = "pu\<lparr>pu_pending_video_frames := rest\<rparr>" and ?w = "enqueuePendingFrame pu0 meta None False w"
  have "followed (pu, w) (?pu, ?w)" by (rule followed_deliver [OF p]) simp_all
  moreover have "followed (?pu, ?w) (?pu\<lparr>pu_pending_video_frames := drop i rest\<rparr>,
     fold (\<lambda>meta. enqueuePendingFrame pu0 meta None False) (take i rest) ?w)"
    using Suc.IH [of ?pu ?w] Suc.prems p by simp
  ultimately show ?case using p by (auto intro: followed_trans)
qed

lemma find_index_less: "find_index P xs = Some i \<Longrightarrow> i < length xs"
  by (induction xs arbitrary: i) (auto split: if_splits)

lemma match_pending_less: "match_pending frame pending = Some i \<Longrightarrow> i < length pending"
  by (auto simp: match_pending_def Let_def dest: find_index_less split: if_splits)

lemma followed_publish: "followed s (publish_decoded moved_first frame s)"
proof (cases s)
  case s: (Pair pu w)
  let ?w = "w\<lparr>pw_stats := incMppDecodeFrame (sc_stream_id (pu_cfg pu)) 1 (pw_stats w)\<rparr>"
  let ?img = "buildDecodedImage frame"
  have stats: "followed (pu, w) (pu, ?w)" by (rule followed_same) simp_all
  have total: "followed (pu', w') (pu'\<lparr>pu_total_frames := n\<rparr>, w')" for pu' w' n by (rule followed_same) simp_all
  show ?thesis
  proof (cases "pu_pending_video_frames pu")
    case Nil
    with stats show ?thesis by (simp add: s publish_decoded_def takePendingVideoFrameMeta_def)
  next
    case (Cons front rest)
    note pending = this
    show ?thesis
    proof (cases "match_pending frame (front # rest)")
      case None
      let ?pu = "pu\<lparr>pu_pending_video_frames := rest\<rparr>"
      have "followed (pu, ?w) (?pu, enqueuePendingFrame ?pu front ?img (\<not> moved_first \<and> ?img \<noteq> None) ?w)"
        by (rule followed_deliver [OF pending]) simp_all
      with stats total pending None show ?thesis
        by (auto simp: s publish_decoded_def takePendingVideoFrameMeta_def Let_def intro: followed_trans)
    next
      case (Some i)
      from match_pending_less [OF Some] have i: "i < length (front # rest)" .
      let ?pu1 = "pu\<lparr>pu_pending_video_frames := drop i (front # rest)\<rparr>"
      let ?w1 = "fold (\<lambda>meta. enqueuePendingFrame pu meta None False) (take i (front # rest)) ?w"
      let ?pu2 = "pu\<lparr>pu_pending_video_frames := drop (Suc i) (front # rest)\<rparr>"
      have "followed (pu, ?w) (?pu1, ?w1)"
        using followed_prefix [of i pu ?w pu] i pending by simp
      moreover have "pu_pending_video_frames ?pu1 = (front # rest) ! i # drop (Suc i) (front # rest)"
        using Cons_nth_drop_Suc [OF i] by simp
      from followed_deliver [OF this, of ?pu2 ?w1 ?pu2 ?img "\<not> moved_first \<and> ?img \<noteq> None"]
      have "followed (?pu1, ?w1) (?pu2, enqueuePendingFrame ?pu2 ((front # rest) ! i) ?img (\<not> moved_first \<and> ?img \<noteq> None) ?w1)"
        by simp
      ultimately have "followed (pu, w) (?pu2\<lparr>pu_total_frames := pu_total_frames ?pu2 + 1\<rparr>,
        enqueuePendingFrame ?pu2 ((front # rest) ! i) ?img (\<not> moved_first \<and> ?img \<noteq> None) ?w1)"
        using stats total by (blast intro: followed_trans)
      with pending Some show ?thesis
        by (simp add: s publish_decoded_def takePendingVideoFrameMeta_def Let_def)
    qed
  qed
qed

lemma followed_publish_all: "followed s (publishDecodedFrames moved_first frames s)"
proof (induction frames arbitrary: s)
  case Nil
  then show ?case by (simp add: publishDecodedFrames_def followed_refl)
next
  case (Cons frame frames)
  from followed_trans [OF followed_publish Cons.IH] show ?case by (simp add: publishDecodedFrames_def)
qed

lemma followed_queue_video: "followed s (queue_video encoded s)"
  unfolding followed_def
proof (intro allI impI)
  fix fl
  assume p: "pulls s fl"
  obtain pu w where s: "s = (pu, w)" by (cases s)
  let ?p = "encoded\<lparr>ep_media_type := Video, ep_frame_id := pu_next_frame_id pu\<rparr>"
  let ?fl = "fl\<lparr>fl_buffer := snd (sb_enqueuePacket (Some ?p) (fl_buffer fl)),
    fl_pending := fl_pending fl @ [fl_next fl], fl_next := fl_next fl + 1\<rparr>"
  have "flow_step fl ?fl" by (rule pull_video) (use p in \<open>simp_all add: pulls_def s\<close>)
  moreover have "pulls (queue_video encoded s) ?fl"
    using p by (simp add: pulls_def queue_video_def s Let_def)
  ultimately show "\<exists>fl'. flow_step\<^sup>*\<^sup>* fl fl' \<and> pulls (queue_video encoded s) fl' \<and>
     fl_inflight fl' = fl_inflight fl \<and> fl_publisher fl' = fl_publisher fl"
    by (intro exI [of _ ?fl]) simp
qed

lemma followed_audio:
  assumes "ep_media_type p = Audio"
  shows "followed (pu, w) (pu, w\<lparr>pw_buffer := snd (sb_enqueuePacket (Some p) (pw_buffer w))\<rparr>)"
  unfolding followed_def
proof (intro allI impI)
  fix fl
  assume q: "pulls (pu, w) fl"
  let ?fl = "fl\<lparr>fl_buffer := snd (sb_enqueuePacket (Some p) (fl_buffer fl))\<rparr>"
  have "flow_step fl ?fl" by (rule pull_audio [OF assms])
  moreover have "pulls (pu, w\<lparr>pw_buffer := snd (sb_enqueuePacket (Some p) (pw_buffer w))\<rparr>) ?fl"
    using q by (simp add: pulls_def)
  ultimately show "\<exists>fl'. flow_step\<^sup>*\<^sup>* fl fl' \<and> pulls (pu, w\<lparr>pw_buffer := snd (sb_enqueuePacket (Some p) (pw_buffer w))\<rparr>) fl' \<and>
     fl_inflight fl' = fl_inflight fl \<and> fl_publisher fl' = fl_publisher fl"
    by (intro exI [of _ ?fl]) simp
qed

lemma followed_video:
  assumes "queue_video encoded s = (pu', w')" "submitPacket r [] (pu_decoder pu') = Some (ok, frames, released, d)"
  shows "followed s (publishDecodedFrames moved_first frames (pu'\<lparr>pu_decoder := d\<rparr>, w'))"
proof -
  have "followed s (pu', w')" using followed_queue_video [of s encoded] assms(1) by simp
  moreover have "followed (pu', w') (pu'\<lparr>pu_decoder := d\<rparr>, w')" by (rule followed_same) simp_all
  ultimately show ?thesis by (blast intro: followed_trans followed_publish_all)
qed

lemma followed_packet:
  assumes "handle_packet lib r pkt s = Some s'"
  shows "followed s s'"
proof -
  obtain pu w where s: "s = (pu, w)" by (cases s)
  show ?thesis
  proof (cases "pu_fmt_ctx pu")
    case None
    with assms show ?thesis by (simp add: s handle_packet_def followed_refl)
  next
    case (Some c)
    let ?e = "encoded_packet lib (pr_now_mono_ms r) c pkt"
    show ?thesis
    proof (cases "pr_clone r \<and> av_stream_index pkt = pu_video_stream_idx pu")
      case True
      obtain pu' w' where q: "queue_video ?e (pu, w) = (pu', w')" by (cases "queue_video ?e (pu, w)")
      with True Some assms obtain ok frames released d where
        "submitPacket (pr_submit r) [] (pu_decoder pu') = Some (ok, frames, released, d)"
        "s' = publishDecodedFrames (pr_moved_first r) frames (pu'\<lparr>pu_decoder := d\<rparr>, w')"
        by (auto simp: s handle_packet_def Let_def split: option.splits)
      with followed_video [OF q] show ?thesis by (simp add: s)
    next
      case False
      with Some assms followed_audio [of "?e\<lparr>ep_media_type := Audio\<rparr>" pu w] show ?thesis
        by (auto simp: s handle_packet_def Let_def followed_refl split: if_splits)
    qed
  qed
qed

lemma followed_reads: "read_loop lib es s = Some (b, s') \<Longrightarrow> followed s s'"
proof (induction es arbitrary: s)
  case Nil
  then show ?case by (simp add: followed_refl)
next
  case (Cons e es)
  show ?case
  proof (cases e)
    case (ReadPacket r pkt)
    with Cons.prems obtain s1 where "handle_packet lib r pkt s = Some s1" "read_loop lib es s1 = Some (b, s')"
      by (auto split: option.splits)
    with Cons.IH show ?thesis by (blast intro: followed_trans followed_packet)
  next
    case ReadError
    with Cons.prems show ?thesis by (simp add: followed_refl)
  next
    case StopSeen
    with Cons.prems show ?thesis by (cases s) (auto intro: followed_same)
  qed
qed

lemma openStream_ids:
  assumes "openStream lib oi pu = (ok, pu')"
  shows "pu_next_frame_id pu' = pu_next_frame_id pu"
    and "pu_pending_video_frames pu' = (if ok then [] else pu_pending_video_frames pu)"
  using assms by (auto simp: openStream_def open_found_def Let_def split: if_splits prod.splits bool.splits)

lemma followed_open: "openStream lib oi pu = (ok, pu') \<Longrightarrow> followed (pu, w) (pu', w\<lparr>pw_specs := specs\<rparr>)"
  using openStream_ids [of lib oi pu ok pu'] by (cases ok) (auto intro: followed_same followed_clear)

lemma followed_close: "followed (pu, w) (closeStream pu, w)"
  by (rule followed_clear) (simp_all add: closeStream_def)

lemma followed_loop: "pullLoop lib as s = Some s' \<Longrightarrow> followed s s'"
proof (induction as arbitrary: s)
  case Nil
  then show ?case by (simp add: followed_refl)
next
  case (Cons a as)
  obtain pu w where s: "s = (pu, w)" by (cases s)
  obtain ok pu1 where o: "openStream lib (at_open a) pu = (ok, pu1)" by (cases "openStream lib (at_open a) pu")
  have idle: "followed (pu', w') (pu'\<lparr>pu_running := b\<rparr>, w')" "followed (pu', w') (pu'\<lparr>pu_stop_flag := c, pu_running := b\<rparr>, w')"
    for pu' w' b c by (rule followed_same; simp)+
  have opened: "followed s (pu1, w\<lparr>pw_specs := specs\<rparr>)" for specs unfolding s by (rule followed_open [OF o])
  have failed: "followed s (pu1, w)" using opened [of "pw_specs w"] by simp
  show ?case
  proof (cases "pu_stop_flag pu")
    case True
    with Cons.prems idle show ?thesis by (auto simp: s)
  next
    case False
    show ?thesis
    proof (cases ok)
      case True
      let ?s1 = "(pu1, w\<lparr>pw_specs := pw_specs w @ [pu_input_stream_specs pu1]\<rparr>)"
      from True False o Cons.prems obtain ended s2 where
        reads: "read_loop lib (at_reads a) ?s1 = Some (ended, s2)" by (auto simp: s split: option.splits)
      have mid: "followed s s2" by (rule followed_trans [OF opened followed_reads [OF reads]])
      show ?thesis
      proof (cases ended)
        case True
        obtain pu2 w2 where s2: "s2 = (pu2, w2)" by (cases s2)
        have "pullLoop lib as (closeStream pu2, w2) = Some s'"
          using Cons.prems False \<open>ok\<close> o reads True by (simp add: s s2)
        from Cons.IH [OF this] followed_close [of pu2 w2] mid show ?thesis
          by (auto simp: s2 intro: followed_trans)
      next
        case False
        then show ?thesis using Cons.prems \<open>\<not> pu_stop_flag pu\<close> \<open>ok\<close> o reads mid by (simp add: s)
      qed
    next
      case False
      with o Cons.prems \<open>\<not> pu_stop_flag pu\<close> Cons.IH [of "(pu1, w)"] failed idle [of pu1 w]
      show ?thesis by (auto simp: s waitForReconnectInterval_def split: if_splits intro: followed_trans)
    qed
  qed
qed

definition puller_turn :: "RTSPPuller \<times> pull_world \<Rightarrow> RTSPPuller \<times> pull_world \<Rightarrow> bool" where
  "puller_turn s s' \<longleftrightarrow> (\<exists>lib attempts. pullLoop lib attempts s = Some s')"

interpretation puller_thread: flow_thread pulls "\<lambda>fl. (fl_inflight fl, fl_publisher fl)" puller_turn
proof
  fix s s' fl
  assume "puller_turn s s'" "pulls s fl"
  then obtain lib attempts where "pullLoop lib attempts s = Some s'" by (auto simp: puller_turn_def)
  from followed_loop [OF this] \<open>pulls s fl\<close> show "\<exists>fl'. flow_step\<^sup>*\<^sup>* fl fl' \<and> pulls s' fl' \<and>
      (fl_inflight fl', fl_publisher fl') = (fl_inflight fl, fl_publisher fl)"
    unfolding followed_def by simp
qed

text \<open>With the image moved out of the argument first, nobody is told about a frame.\<close>

lemma ready_enqueue: "pw_ready (enqueuePendingFrame pu meta img False w) = pw_ready w"
  by (simp add: enqueuePendingFrame_def split: prod.split)

lemma ready_prefix: "pw_ready (fold (\<lambda>meta. enqueuePendingFrame pu meta None False) metas w) = pw_ready w"
  by (induction metas arbitrary: w) (simp_all add: ready_enqueue)

lemma ready_publish: "pw_ready (snd (publish_decoded True frame s)) = pw_ready (snd s)"
  by (cases s) (auto simp: publish_decoded_def takePendingVideoFrameMeta_def Let_def ready_enqueue ready_prefix
      split: list.splits option.splits)

section \<open>Properties\<close>


definition ex_world :: "string \<Rightarrow> pull_world" where
  "ex_world stream_id = \<lparr>pw_buffer = createStreamBuffer stream_id, pw_stats = new_Statistics, pw_ready = [], pw_specs = []\<rparr>"

definition ex_input :: AVInputStream where
  "ex_input = \<lparr>is_avg_frame_rate = \<lparr>rat_num = 25, rat_den = 1\<rparr>, is_r_frame_rate = \<lparr>rat_num = 25, rat_den = 1\<rparr>,
     is_time_base = \<lparr>rat_num = 1, rat_den = 1000\<rparr>, is_codec_id = 27, is_bit_rate = 0, is_width = 64, is_height = 64,
     is_sample_rate = 0, is_channels = 0, is_extradata = []\<rparr>"

definition ex_pull_library :: pull_library where
  "ex_pull_library = \<lparr>pl_rescale_q = \<lambda>v b c. v, pl_q2d = \<lambda>q. of_int (rat_num q) / of_int (rat_den q),
     pl_add_double = (+), pl_ids = \<lparr>id_h264 = 27, id_hevc = 173, id_vp8 = 139, id_vp9 = 167\<rparr>\<rparr>"

definition ex_attempt :: attempt where
  "ex_attempt = \<lparr>at_open = \<lparr>oi_alloc = True, oi_open = True, oi_stream_info = True,
       oi_context = \<lparr>fc_streams = \<lambda>_. ex_input, fc_bit_rate = 0\<rparr>, oi_video = 0, oi_audio = -1,
       oi_decoder = \<lparr>ir_create = True, ir_init = True, ir_packet_init = True, ir_put = PutOk\<rparr>\<rparr>,
     at_stop = False, at_wait_stop = False, at_reads = [ReadError]\<rparr>"


text \<open>
  If the compiler evaluates \<open>std::move(image)\<close> before \<open>image != nullptr\<close>, which C++ allows, no decoded frame is ever
  announced: the frame-ready callback is not called once, so the inference workers notice frames only when their
  waits of 200 ms run out.
\<close>

theorem moved_image_never_announced:
  "pw_ready (snd (publishDecodedFrames True frames s)) = pw_ready (snd s)"
  unfolding publishDecodedFrames_def by (induction frames arbitrary: s) (simp_all add: ready_publish)

end
