(* ===== verification/Pipeline.thy ===== *)
theory Pipeline
  imports PipelineUtils Config ConfigFilter IpcClient Detector InferScheduler Snapshotter Puller
begin

text \<open>
  \<open>src/pipeline/Pipeline.cpp\<close>: the object that owns everything. It keeps one \<open>StreamContext\<close> per stream, lets
  the main thread bring the running streams in line with the configurations received, and runs the
  loops of the inference workers, of the publishing threads and of the heartbeat.

  \<^item> Contexts and buffers are shared objects: \<open>pp_contexts\<close> and \<open>pp_buffers\<close> are heaps, a
    \<open>shared_ptr\<close> is a reference. A context and the buffer made for it get the same number. The pointers of a context that
    \<open>buildStreamContext\<close> fills (buffer, puller, publisher, recorder, snapshotter, detector entry) are never reset, so
    they are plain fields; \<open>detector\<close> inside the entry may be null.
  \<^item> An operation is what one thread does between two waits, its calls in the order of the code. Joining a thread is the end
    of that thread's loop; \<open>ctx_publish_thread\<close> says that the publishing thread is joinable.
  \<^item> \<open>None\<close> is undefined behaviour (a float without an integer value in a picture or an SEI message, a queue of
    capacity 0, a client without a sender).
  \<^item> What FFmpeg, the detector, the clocks and the file system return are arguments.
\<close>

text \<open>\<open>static_cast<size_t>\<close> of an \<open>int\<close>.\<close>

definition size_of_int :: "int \<Rightarrow> nat" where
  "size_of_int n = nat (n mod 2 ^ 64)"

section \<open>State\<close>

type_synonym stream_ref = nat

record ('e, 'h) DetectorRuntimeEntry =
  de_config :: StreamConfig
  de_detector :: "('e, 'h) AlgoDetector option"

record ('e, 'h) StreamContext =
  ctx_stream_id :: string
  ctx_transport_config :: StreamConfig
  ctx_runtime_config :: StreamConfig
  ctx_buffer :: buffer_ref
  ctx_detector_runtime :: "('e, 'h) DetectorRuntimeEntry"
  ctx_video_nal_length_size :: int
  ctx_recorder :: Recorder
  ctx_snapshotter :: Snapshotter
  ctx_last_snapshot_trigger_mono_ms :: int
  ctx_puller :: RTSPPuller
  ctx_publisher :: RtspPublisher
  ctx_publish_thread :: bool
  ctx_stop_flag :: bool

type_synonym stream_table = "(string \<times> stream_ref) list"

record ('e, 'h) Pipeline =
  pp_cfg :: AppConfig
  pp_ipc :: "IpcClient option"
  pp_infer_scheduler :: "RoundRobinInferScheduler option"
  pp_sei_injector :: bool
  pp_infer_threads :: nat
  pp_config_thread :: bool
  pp_heartbeat_thread :: bool
  pp_running :: bool
  pp_stop_flag :: bool
  pp_configs :: "(int \<times> AgentConfig) list"
  pp_has_pending_config :: bool
  pp_pending_stop_streams :: "stream_ref list"
  pp_streams :: stream_table
  pp_contexts :: "stream_ref \<Rightarrow> ('e, 'h) StreamContext"
  pp_buffers :: "StreamBuffer buffer_heap"
  pp_next_ref :: nat
  pp_statistics :: Statistics

text \<open>The libraries the pipeline passes on to its parts.\<close>

record ('e, 'h) pipeline_library =
  lb_edge :: "'e edge_library"
  lb_tracker :: "'h tracker_library"
  lb_differencer :: differencer
  lb_av :: av_library
  lb_sei :: packet_library
  lb_protobuf :: protobuf
  lb_ids :: codec_ids

definition kAlarmSnapshotMinIntervalMs :: int where
  "kAlarmSnapshotMinIntervalMs = 5000"

text \<open>Access to the shared objects.\<close>

definition modify_ctx ::
  "stream_ref \<Rightarrow> (('e, 'h) StreamContext \<Rightarrow> ('e, 'h) StreamContext) \<Rightarrow> ('e, 'h) Pipeline \<Rightarrow> ('e, 'h) Pipeline"
where
  "modify_ctx ref f p = p\<lparr>pp_contexts := (pp_contexts p)(ref := f (pp_contexts p ref))\<rparr>"

definition modify_buffer ::
  "buffer_ref \<Rightarrow> (StreamBuffer \<Rightarrow> StreamBuffer) \<Rightarrow> ('e, 'h) Pipeline \<Rightarrow> ('e, 'h) Pipeline"
where
  "modify_buffer ref f p = p\<lparr>pp_buffers := (pp_buffers p)(ref := f (pp_buffers p ref))\<rparr>"

definition modify_scheduler ::
  "(RoundRobinInferScheduler \<Rightarrow> RoundRobinInferScheduler) \<Rightarrow> ('e, 'h) Pipeline \<Rightarrow> ('e, 'h) Pipeline"
where
  "modify_scheduler f p = p\<lparr>pp_infer_scheduler := map_option f (pp_infer_scheduler p)\<rparr>"

definition modify_statistics :: "(Statistics \<Rightarrow> Statistics) \<Rightarrow> ('e, 'h) Pipeline \<Rightarrow> ('e, 'h) Pipeline" where
  "modify_statistics f p = p\<lparr>pp_statistics := f (pp_statistics p)\<rparr>"

definition findStream :: "string \<Rightarrow> ('e, 'h) Pipeline \<Rightarrow> stream_ref option" where
  "findStream stream_id p = map_of (pp_streams p) stream_id"

section \<open>Receiving configurations\<close>

definition handleSocketConfig :: "AgentConfig \<Rightarrow> ('e, 'h) Pipeline \<Rightarrow> ('e, 'h) Pipeline" where
  "handleSocketConfig cfg p =
     (if ag_agent_id cfg \<noteq> [] \<and> ag_agent_id cfg \<noteq> so_agent_id (app_socket (pp_cfg p)) then p
      else p\<lparr>pp_configs := omap_put (ag_config_id cfg) cfg (pp_configs p), pp_has_pending_config := True\<rparr>)"

section \<open>Starting and stopping one stream\<close>

text \<open>Create a detector if there are algorithms, and keep it if it initialises.\<close>

definition make_detector :: "('e, 'h) pipeline_library \<Rightarrow> StreamConfig \<Rightarrow> ('e, 'h) AlgoDetector option" where
  "make_detector lib config =
     (if sc_algorithms config = [] then None
      else case ad_init (lb_edge lib) (DetectorFactory_create config) of
             (True, d) \<Rightarrow> Some d
           | (False, d) \<Rightarrow> None)"

definition new_StreamContext ::
  "('e, 'h) pipeline_library \<Rightarrow> StreamConfig \<Rightarrow> buffer_ref \<Rightarrow> ('e, 'h) StreamContext"
where
  "new_StreamContext lib config ref =
     (let transport = makeTransportStreamConfig config;
          snapshotter = (if sc_alarm_snapshot_dir transport \<noteq> []
                         then snd (sn_configure (sc_stream_id config) (sc_alarm_snapshot_dir transport) new_Snapshotter)
                         else new_Snapshotter)
      in \<lparr>ctx_stream_id = sc_stream_id config, ctx_transport_config = transport, ctx_runtime_config = config,
          ctx_buffer = ref, ctx_detector_runtime = \<lparr>de_config = config, de_detector = make_detector lib config\<rparr>,
          ctx_video_nal_length_size = 0, ctx_recorder = new_Recorder, ctx_snapshotter = snapshotter,
          ctx_last_snapshot_trigger_mono_ms = 0, ctx_puller = new_RTSPPuller transport,
          ctx_publisher = new_RtspPublisher, ctx_publish_thread = False, ctx_stop_flag = False\<rparr>)"

definition buildStreamContext ::
  "('e, 'h) pipeline_library \<Rightarrow> StreamConfig \<Rightarrow> ('e, 'h) Pipeline \<Rightarrow> stream_ref option \<times> ('e, 'h) Pipeline"
where
  "buildStreamContext lib config p =
     (let ref = pp_next_ref p;
          stream_id = sc_stream_id config;
          p1 = modify_statistics (registerStream stream_id) p;
          p2 = p1\<lparr>pp_next_ref := Suc ref, pp_contexts := (pp_contexts p1)(ref := new_StreamContext lib config ref),
                  pp_buffers := (pp_buffers p1)(ref := createStreamBuffer stream_id)\<rparr>;
          p3 = modify_scheduler (rr_upsertStream stream_id config (Some ref)) p2;
          p4 = modify_ctx ref (\<lambda>c. c\<lparr>ctx_publish_thread := True\<rparr>) p3
      in case pu_start (ctx_puller (pp_contexts p4 ref)) of
           (True, puller) \<Rightarrow> (Some ref, modify_ctx ref (\<lambda>c. c\<lparr>ctx_puller := puller\<rparr>) p4)
         | (False, puller) \<Rightarrow>
             (None, modify_scheduler (rr_removeStream stream_id)
                (modify_ctx ref (\<lambda>c. c\<lparr>ctx_puller := puller, ctx_publish_thread := False\<rparr>)
                  (modify_buffer ref sb_stop p4))))"

definition release_detector :: "('e, 'h) DetectorRuntimeEntry \<Rightarrow> ('e, 'h) DetectorRuntimeEntry" where
  "release_detector e = e\<lparr>de_detector := None\<rparr>"

definition updateStreamRuntime ::
  "('e, 'h) pipeline_library \<Rightarrow> stream_ref \<Rightarrow> StreamConfig \<Rightarrow> ('e, 'h) Pipeline \<Rightarrow> ('e, 'h) Pipeline"
where
  "updateStreamRuntime lib ref runtime_config p =
     (let c = pp_contexts p ref;
          entry = ctx_detector_runtime c;
          entry' = (if hasDetectorConfigChanged (lb_differencer lib) (de_config entry) runtime_config
                    then (release_detector entry)\<lparr>de_config := runtime_config, de_detector := make_detector lib runtime_config\<rparr>
                    else entry\<lparr>de_config := runtime_config\<rparr>)
      in modify_scheduler (rr_upsertStream (ctx_stream_id c) runtime_config (Some (ctx_buffer c)))
           (modify_ctx ref (\<lambda>c. c\<lparr>ctx_detector_runtime := entry'\<rparr>) p))"

definition requestAsyncStopStream :: "stream_ref \<Rightarrow> ('e, 'h) Pipeline \<Rightarrow> ('e, 'h) Pipeline" where
  "requestAsyncStopStream ref p =
     (if ctx_stop_flag (pp_contexts p ref) then p
      else let p' = modify_ctx ref (\<lambda>c. c\<lparr>ctx_stop_flag := True\<rparr>) p;
               stream_id = ctx_stream_id (pp_contexts p ref)
           in p'\<lparr>pp_streams := (if map_of (pp_streams p') stream_id = Some ref
                                then AList.delete stream_id (pp_streams p') else pp_streams p'),
                 pp_pending_stop_streams := pp_pending_stop_streams p' @ [ref]\<rparr>)"

text \<open>After \<open>publish_thread.join()\<close> and \<open>puller->stop()\<close> both threads of the stream have ended.\<close>

definition stop_context :: "('e, 'h) StreamContext \<Rightarrow> ('e, 'h) StreamContext" where
  "stop_context c =
     c\<lparr>ctx_stop_flag := True, ctx_puller := pu_stop (ctx_puller c), ctx_publish_thread := False,
       ctx_publisher := rp_close (ctx_publisher c), ctx_recorder := rc_close (ctx_recorder c),
       ctx_snapshotter := sn_close (ctx_snapshotter c),
       ctx_detector_runtime := release_detector (ctx_detector_runtime c)\<rparr>"

definition stopStream :: "stream_ref \<Rightarrow> ('e, 'h) Pipeline \<Rightarrow> ('e, 'h) Pipeline" where
  "stopStream ref p =
     (let c = pp_contexts p ref;
          p1 = modify_scheduler (rr_removeStream (ctx_stream_id c)) p;
          p2 = modify_buffer (ctx_buffer c) sb_stop p1;
          p3 = modify_ctx ref stop_context p2
      in modify_statistics (unregisterStream (ctx_stream_id c)) p3)"

section \<open>Applying configurations\<close>

text \<open>The local variables of \<open>applyConfigBatch\<close> while it walks over \<open>streams_\<close>.\<close>

record ('e, 'h) batch =
  ba_kept :: stream_table
  ba_to_stop :: "stream_ref list"
  ba_to_start :: "StreamConfig list"
  ba_updates :: "(stream_ref \<times> StreamConfig) list"
  ba_contexts :: "stream_ref \<Rightarrow> ('e, 'h) StreamContext"

definition reconcile_stream ::
  "differencer \<Rightarrow> (string \<times> StreamConfig) list \<Rightarrow> string \<times> stream_ref \<Rightarrow> ('e, 'h) batch \<Rightarrow> ('e, 'h) batch"
where
  "reconcile_stream d desired entry b =
     (case entry of (stream_id, ref) \<Rightarrow>
       (case map_of desired stream_id of
          None \<Rightarrow> b\<lparr>ba_to_stop := ba_to_stop b @ [ref]\<rparr>
        | Some config \<Rightarrow>
            if \<not> isSameTransportStreamConfig (ctx_transport_config (ba_contexts b ref)) config
            then b\<lparr>ba_to_stop := ba_to_stop b @ [ref], ba_to_start := ba_to_start b @ [config]\<rparr>
            else if \<not> isSameRuntimeStreamConfig d (ctx_runtime_config (ba_contexts b ref)) config
            then b\<lparr>ba_kept := ba_kept b @ [(stream_id, ref)],
                   ba_contexts := (ba_contexts b)(ref := (ba_contexts b ref)\<lparr>ctx_runtime_config := config\<rparr>),
                   ba_updates := ba_updates b @ [(ref, config)]\<rparr>
            else b\<lparr>ba_kept := ba_kept b @ [(stream_id, ref)]\<rparr>))"

definition reconcile ::
  "differencer \<Rightarrow> (string \<times> StreamConfig) list \<Rightarrow> ('e, 'h) Pipeline \<Rightarrow> ('e, 'h) batch"
where
  "reconcile d desired p =
     (let b = fold (reconcile_stream d desired) (pp_streams p)
                \<lparr>ba_kept = [], ba_to_stop = [], ba_to_start = [], ba_updates = [], ba_contexts = pp_contexts p\<rparr>
      in b\<lparr>ba_to_start := ba_to_start b @
             map snd (filter (\<lambda>(stream_id, config). map_of (ba_kept b) stream_id = None) desired)\<rparr>)"

text \<open>
  One turn of the loop over \<open>streams_to_start\<close>. Between the start of the puller and the test of the stop flag the puller's thread
  may already have asked for the stream to be stopped: \<open>fails\<close> says for which contexts it has.
\<close>

definition start_stream ::
  "('e, 'h) pipeline_library \<Rightarrow> (stream_ref \<Rightarrow> bool) \<Rightarrow> StreamConfig \<Rightarrow> ('e, 'h) Pipeline \<Rightarrow> ('e, 'h) Pipeline"
where
  "start_stream lib fails config p =
     (case buildStreamContext lib config p of
        (None, p') \<Rightarrow> p'
      | (Some ref, p') \<Rightarrow>
          let p'' = (if fails ref then requestAsyncStopStream ref p' else p')
          in if ctx_stop_flag (pp_contexts p'' ref) then stopStream ref p''
             else p''\<lparr>pp_streams := omap_put (ctx_stream_id (pp_contexts p'' ref)) ref (pp_streams p'')\<rparr>)"

definition applyConfigBatch ::
  "('e, 'h) pipeline_library \<Rightarrow> (stream_ref \<Rightarrow> bool) \<Rightarrow> (int \<times> AgentConfig) list \<Rightarrow> ('e, 'h) Pipeline \<Rightarrow> ('e, 'h) Pipeline"
where
  "applyConfigBatch lib fails configs p =
     (let b = reconcile (lb_differencer lib) (buildMergedStreams configs) p;
          p1 = p\<lparr>pp_streams := ba_kept b, pp_contexts := ba_contexts b\<rparr>;
          p2 = fold stopStream (ba_to_stop b) p1;
          p3 = fold (\<lambda>(ref, config). updateStreamRuntime lib ref config) (ba_updates b) p2
      in fold (start_stream lib fails) (ba_to_start b) p3)"

text \<open>One turn of \<open>mainLoop\<close>; \<open>None\<close>: the wait goes on.\<close>

definition mainLoop_turn ::
  "('e, 'h) pipeline_library \<Rightarrow> (stream_ref \<Rightarrow> bool) \<Rightarrow> ('e, 'h) Pipeline \<Rightarrow> ('e, 'h) Pipeline option"
where
  "mainLoop_turn lib fails p =
     (if \<not> (pp_stop_flag p \<or> pp_has_pending_config p \<or> pp_pending_stop_streams p \<noteq> []) then None
      else if pp_stop_flag p then Some p
      else let has_config_update = pp_has_pending_config p;
               configs = (if has_config_update then pp_configs p else []);
               p1 = p\<lparr>pp_has_pending_config := False, pp_pending_stop_streams := []\<rparr>;
               p2 = fold stopStream (pp_pending_stop_streams p) p1
           in Some (if has_config_update then applyConfigBatch lib fails configs p2 else p2))"

section \<open>The callback of the puller\<close>

definition configureStreamRecorder :: "stream_ref \<Rightarrow> RtspStreamSpec list \<Rightarrow> ('e, 'h) Pipeline \<Rightarrow> ('e, 'h) Pipeline" where
  "configureStreamRecorder ref specs p =
     (let c = pp_contexts p ref; dir = sc_alarm_record_dir (ctx_transport_config c)
      in if dir = [] then p
         else modify_ctx ref
                (\<lambda>c. c\<lparr>ctx_recorder := snd (rc_configure (ctx_stream_id c) dir specs (ctx_recorder c))\<rparr>) p)"

text \<open>The lambda \<open>buildStreamContext\<close> gives to the puller, called once per connection.\<close>

definition stream_ready ::
  "('e, 'h) pipeline_library \<Rightarrow> open_result \<Rightarrow> stream_ref \<Rightarrow> RtspStreamSpec list \<Rightarrow> ('e, 'h) Pipeline \<Rightarrow> ('e, 'h) Pipeline"
where
  "stream_ready lib r ref specs p =
     (let p1 = modify_ctx ref (\<lambda>c. c\<lparr>ctx_video_nal_length_size := videoNalLengthSizeFromSpecs (lb_ids lib) specs\<rparr>) p;
          c = pp_contexts p1 ref;
          url = sc_new_rtsp_url (ctx_transport_config c)
      in if url = [] then configureStreamRecorder ref specs p1
         else case rp_configure r (ctx_stream_id c) url specs (ctx_publisher c) of
                (ok, publisher) \<Rightarrow>
                  let p2 = modify_ctx ref (\<lambda>c. c\<lparr>ctx_publisher := publisher\<rparr>) p1
                  in if ok then configureStreamRecorder ref specs p2 else requestAsyncStopStream ref p2)"

section \<open>Alarms\<close>

text \<open>What the outside world answers while one frame is inferred.\<close>

record infer_world =
  iw_detect :: detect_clock
  iw_mono_ms :: int
  iw_timestamp :: string
  iw_system_ms :: int
  iw_record_open :: open_result
  iw_record_writes :: "nat \<Rightarrow> write_result"
  iw_encoder :: encoder_result
  iw_snapshot :: snapshot_result
  iw_random :: "nat \<Rightarrow> u8 list"
  iw_alarm_ms :: "nat \<Rightarrow> int"

definition triggerAlarmRecording ::
  "av_library \<Rightarrow> infer_world \<Rightarrow> int \<Rightarrow> ('e, 'h) StreamContext \<Rightarrow> string \<times> ('e, 'h) StreamContext"
where
  "triggerAlarmRecording av w now_ms c =
     (if sc_alarm_record_dir (ctx_transport_config c) = [] then ([], c)
      else let duration_s = sc_alarm_record_duration_s (ctx_transport_config c)
           in if duration_s \<le> 0 then ([], c)
              else case requestRecording av (iw_timestamp w) (iw_record_open w) (iw_record_writes w)
                          duration_s now_ms (ctx_recorder c) of
                     (ok, recorder) \<Rightarrow>
                       (if ok then rc_record_file_name recorder else [], c\<lparr>ctx_recorder := recorder\<rparr>))"

definition too_soon :: "int \<Rightarrow> int \<Rightarrow> bool" where
  "too_soon last_trigger_ms now_mono_ms \<longleftrightarrow>
     last_trigger_ms > 0 \<and> now_mono_ms - last_trigger_ms < kAlarmSnapshotMinIntervalMs"

text \<open>
  \<open>confirmed\<close> is the time another worker may have stored before this one gets the mutex (the stored time, if
  there was none).
\<close>

definition triggerAlarmSnapshot ::
  "infer_world \<Rightarrow> int option \<Rightarrow> int \<Rightarrow> FrameBundle \<Rightarrow> DetectionObject list \<Rightarrow> ('e, 'h) StreamContext \<Rightarrow>
   (string \<times> ('e, 'h) StreamContext) option"
where
  "triggerAlarmSnapshot w confirmed now_mono_ms frame objects c =
     (if sc_alarm_snapshot_dir (ctx_transport_config c) = [] \<or> fb_decoded_image frame = None \<or> objects = []
      then Some ([], c)
      else if too_soon (ctx_last_snapshot_trigger_mono_ms c) now_mono_ms
      then Some (sn_snapshot_file_name (ctx_snapshotter c), c)
      else let c1 = (case confirmed of None \<Rightarrow> c | Some t \<Rightarrow> c\<lparr>ctx_last_snapshot_trigger_mono_ms := t\<rparr>)
           in if too_soon (ctx_last_snapshot_trigger_mono_ms c1) now_mono_ms
              then Some (sn_snapshot_file_name (ctx_snapshotter c1), c1)
              else case saveJpeg (iw_encoder w) (iw_snapshot w) (iw_timestamp w) (iw_system_ms w) frame objects
                          (ctx_snapshotter c1) of
                     None \<Rightarrow> None
                   | Some (False, sn) \<Rightarrow> Some ([], c1\<lparr>ctx_snapshotter := sn\<rparr>)
                   | Some (True, sn) \<Rightarrow>
                       Some (sn_snapshot_file_name sn,
                             c1\<lparr>ctx_snapshotter := sn, ctx_last_snapshot_trigger_mono_ms := now_mono_ms\<rparr>))"

text \<open>The objects by class, in the order of the class ids.\<close>

definition group_object ::
  "DetectionObject \<Rightarrow> (u32 \<times> DetectionObject list) list \<Rightarrow> (u32 \<times> DetectionObject list) list"
where
  "group_object target groups =
     omap_put (ob_class_id target)
       ((case map_of groups (ob_class_id target) of None \<Rightarrow> [] | Some ts \<Rightarrow> ts) @ [target]) groups"

definition group_alarm_objects :: "DetectionObject list \<Rightarrow> (u32 \<times> DetectionObject list) list" where
  "group_alarm_objects objects = fold group_object objects []"

text \<open>\<open>i\<close> numbers the alarms of one frame, for their ids and times.\<close>

fun push_alarms ::
  "protobuf \<Rightarrow> infer_world \<Rightarrow> string \<Rightarrow> AlgorithmConfig \<Rightarrow> string \<Rightarrow> string \<Rightarrow> nat \<Rightarrow>
   (u32 \<times> DetectionObject list) list \<Rightarrow> IpcClient \<Rightarrow> IpcClient option"
where
  "push_alarms pb w stream_id cfg snapshot_name record_name i [] c = Some c"
| "push_alarms pb w stream_id cfg snapshot_name record_name i ((class_id, targets) # groups) c =
     (case pushAlarm pb (buildAlarmInfo (iw_random w i) (iw_alarm_ms w i) stream_id cfg targets snapshot_name record_name) c of
        Inl e \<Rightarrow> None
      | Inr (ok, c') \<Rightarrow> push_alarms pb w stream_id cfg snapshot_name record_name (Suc i) groups c')"

section \<open>The inference workers\<close>

text \<open>The part of a turn after \<open>detect\<close> has returned.\<close>

definition handle_result ::
  "('e, 'h) pipeline_library \<Rightarrow> infer_world \<Rightarrow> InferTask \<Rightarrow> FrameBundle \<Rightarrow> stream_ref \<Rightarrow> buffer_ref \<Rightarrow>
   FrameInferenceResult \<Rightarrow> ('e, 'h) Pipeline \<Rightarrow> ('e, 'h) Pipeline option"
where
  "handle_result lib w task frame ref buf result p =
     (let alarm_config = selectAlarmConfig (de_config (ctx_detector_runtime (pp_contexts p ref))) (fr_algorithm_id result);
          p1 = modify_buffer buf (\<lambda>b. sb_updateCachedInferenceResult result (sb_markInferenceDone result b)) p;
          p2 = modify_statistics (\<lambda>s. setRemainFrameSize (it_stream_id task)
                  (of_nat (sb_frameCount (pp_buffers p1 buf))) (incInferFrame (it_stream_id task) 1 s)) p1
      in if fr_alarm_objects result = [] then Some p2
         else case triggerAlarmRecording (lb_av lib) w (iw_mono_ms w) (pp_contexts p2 ref) of
                (record_name, c1) \<Rightarrow>
                  (case triggerAlarmSnapshot w None (iw_mono_ms w) frame (fr_alarm_objects result) c1 of
                     None \<Rightarrow> None
                   | Some (snapshot_name, c2) \<Rightarrow>
                       let p3 = modify_ctx ref (\<lambda>_. c2) p2
                       in (case pp_ipc p3 of
                             None \<Rightarrow> Some p3
                           | Some ipc \<Rightarrow>
                               map_option (\<lambda>ipc'. p3\<lparr>pp_ipc := Some ipc'\<rparr>)
                                 (push_alarms (lb_protobuf lib) w (fb_stream_id frame) alarm_config snapshot_name record_name 0
                                    (group_alarm_objects (fr_alarm_objects result)) ipc))))"

definition drop_task :: "InferTask \<Rightarrow> FrameBundle \<Rightarrow> buffer_ref \<Rightarrow> ('e, 'h) Pipeline \<Rightarrow> ('e, 'h) Pipeline" where
  "drop_task task frame buf p =
     modify_scheduler (rr_cancelTask (it_stream_id task) (fb_frame_id frame))
       (modify_buffer buf (sb_clearInferenceSelection (fb_frame_id frame) Dropped) p)"

definition run_task ::
  "('e, 'h) pipeline_library \<Rightarrow> infer_world \<Rightarrow> InferTask \<Rightarrow> ('e, 'h) Pipeline \<Rightarrow> ('e, 'h) Pipeline option"
where
  "run_task lib w task p =
     (case (it_buffer task, it_frame task) of
        (Some buf, Some frame) \<Rightarrow>
          let p1 = modify_buffer buf (sb_markInferenceRunning (fb_frame_id frame)) p
          in (case findStream (it_stream_id task) p1 of
                None \<Rightarrow> Some (drop_task task frame buf p1)
              | Some ref \<Rightarrow>
                  let c = pp_contexts p1 ref; entry = ctx_detector_runtime c
                  in if ctx_stop_flag c \<or> fb_decoded_image frame = None then Some (drop_task task frame buf p1)
                     else (case de_detector entry of
                             None \<Rightarrow> Some (drop_task task frame buf p1)
                           | Some detector \<Rightarrow>
                               (case ad_detect (lb_edge lib) (lb_tracker lib) (lb_differencer lib) (iw_detect w) frame
                                       (de_config entry) detector of
                                  (result, detector') \<Rightarrow>
                                    let p2 = modify_ctx ref
                                          (\<lambda>c. c\<lparr>ctx_detector_runtime := entry\<lparr>de_detector := Some detector'\<rparr>\<rparr>) p1
                                    in map_option (modify_scheduler (rr_completeTask (it_stream_id task) (fb_frame_id frame)))
                                         (handle_result lib w task frame ref buf result p2))))
      | _ \<Rightarrow> Some (modify_scheduler (rr_cancelTask (it_stream_id task) (-1)) p))"

definition inferLoop_turn ::
  "('e, 'h) pipeline_library \<Rightarrow> infer_world \<Rightarrow> ('e, 'h) Pipeline \<Rightarrow> ('e, 'h) Pipeline option"
where
  "inferLoop_turn lib w p =
     (if pp_stop_flag p then Some p
      else case pp_infer_scheduler p of
             None \<Rightarrow> Some p
           | Some scheduler \<Rightarrow>
               (case rr_acquireTask sb_selectFrameForInference 200 scheduler (pp_buffers p) of
                  (outcome, scheduler', buffers) \<Rightarrow>
                    let p' = p\<lparr>pp_infer_scheduler := Some scheduler', pp_buffers := buffers\<rparr>
                    in (case outcome of
                          Acquired task \<Rightarrow> run_task lib w task p'
                        | _ \<Rightarrow> Some p')))"

section \<open>The publishing threads\<close>

record publish_world =
  pw_mono_ms :: int
  pw_local_time :: local_time
  pw_write :: write_result
  pw_reopen :: open_result
  pw_rewrite :: write_result
  pw_clone :: bool
  pw_record_ms :: int
  pw_record_write :: write_result

text \<open>
  The packet that goes out, \<open>packet_override\<close> if the injector set it. Video packets take the cached detections with
  them, even if the injection fails.
\<close>

definition inject_sei ::
  "('e, 'h) pipeline_library \<Rightarrow> publish_world \<Rightarrow> stream_ref \<Rightarrow> EncodedPacket \<Rightarrow> ('e, 'h) Pipeline \<Rightarrow>
   (AVPacket option \<times> ('e, 'h) Pipeline) option"
where
  "inject_sei lib w ref packet p =
     (if ep_media_type packet = Video \<and> pp_sei_injector p
      then let c = pp_contexts p ref;
               buffer = pp_buffers p (ctx_buffer c);
               codec_type = seiCodecTypeFromFrame (sb_findFrame (ep_frame_id packet) buffer)
           in case sb_takeCachedInferenceResult (ep_frame_id packet) (ep_pts packet) (pw_mono_ms w) buffer of
                (cached, buffer') \<Rightarrow>
                  let payload = (case cached of
                        None \<Rightarrow> buildSeiMessageContext (pw_local_time w) (ctx_stream_id c) (ep_frame_id packet)
                                  (ep_pts packet) [] [] False 0
                      | Some r \<Rightarrow> buildSeiMessageContext (pw_local_time w) (ctx_stream_id c) (ep_frame_id packet)
                                  (ep_pts packet) (fr_algorithm_id r) (fr_objects r) False (fr_expire_at_mono_ms r))
                  in (case sei_inject (lb_sei lib) packet codec_type (ctx_video_nal_length_size c) payload of
                        None \<Rightarrow> None
                      | Some (ok, packet_override) \<Rightarrow>
                          Some (case packet_override of None \<Rightarrow> ep_packet packet | Some a \<Rightarrow> Some a,
                                modify_statistics (incPublishFrame (ctx_stream_id c) 1)
                                  (modify_buffer (ctx_buffer c) (\<lambda>_. buffer') p)))
      else Some (ep_packet packet, p))"

definition write_out :: "av_library \<Rightarrow> publish_world \<Rightarrow> AVPacket \<Rightarrow> ('e, 'h) StreamContext \<Rightarrow> ('e, 'h) StreamContext" where
  "write_out av w final_packet c =
     c\<lparr>ctx_publisher := snd (rp_writePacket av (pw_write w) (pw_reopen w) (pw_rewrite w) final_packet (ctx_publisher c)),
       ctx_recorder := snd (appendPacket av (pw_record_ms w) (pw_clone w) (pw_record_write w) final_packet (ctx_recorder c))\<rparr>"

text \<open>A turn that got a packet.\<close>

definition publish_packet ::
  "('e, 'h) pipeline_library \<Rightarrow> publish_world \<Rightarrow> stream_ref \<Rightarrow> EncodedPacket \<Rightarrow> ('e, 'h) Pipeline \<Rightarrow> ('e, 'h) Pipeline option"
where
  "publish_packet lib w ref packet p =
     (case inject_sei lib w ref packet p of
        None \<Rightarrow> None
      | Some (final_packet, p1) \<Rightarrow>
          let p2 = (case final_packet of None \<Rightarrow> p1 | Some a \<Rightarrow> modify_ctx ref (write_out (lb_av lib) w a) p1);
              buf = ctx_buffer (pp_contexts p2 ref);
              p3 = modify_buffer buf sb_popPacket p2
          in Some (if ep_media_type packet = Video \<and> ep_frame_id packet \<ge> 0
                   then modify_buffer buf (sb_releaseFrame (ep_frame_id packet)) p3 else p3))"

text \<open>One turn of \<open>publishLoop\<close>; the flag says that the loop goes on.\<close>

definition publishLoop_turn ::
  "('e, 'h) pipeline_library \<Rightarrow> publish_world \<Rightarrow> stream_ref \<Rightarrow> ('e, 'h) Pipeline \<Rightarrow> (bool \<times> ('e, 'h) Pipeline) option"
where
  "publishLoop_turn lib w ref p =
     (if pp_stop_flag p \<or> ctx_stop_flag (pp_contexts p ref) then Some (False, p)
      else let buffer = pp_buffers p (ctx_buffer (pp_contexts p ref))
           in if sb_waitForPublishable kMinVideoWatermark 200 buffer \<noteq> Some True then Some (True, p)
              else (case sb_peekPacket buffer of
                      None \<Rightarrow> Some (True, p)
                    | Some packet \<Rightarrow> map_option (Pair True) (publish_packet lib w ref packet p)))"

section \<open>The heartbeat\<close>

text \<open>A turn of \<open>heartbeatLoop\<close> after its wait. The cast to \<open>int\<close> of a size that fits keeps it.\<close>

definition heartbeatLoop_turn :: "protobuf \<Rightarrow> int \<Rightarrow> ('e, 'h) Pipeline \<Rightarrow> (bool \<times> ('e, 'h) Pipeline) option" where
  "heartbeatLoop_turn pb system_now_ms p =
     (if pp_stop_flag p then Some (False, p)
      else let active_streams = int (length (pp_streams p))
           in case pp_ipc p of
                None \<Rightarrow> Some (True, p)
              | Some c \<Rightarrow>
                  (case pushHeartbeat pb (buildHeartbeat (so_agent_id (app_socket (pp_cfg p))) active_streams
                          (system_now_ms div 1000)) c of
                     Inl e \<Rightarrow> None
                   | Inr (ok, c') \<Rightarrow> Some (True, p\<lparr>pp_ipc := Some c'\<rparr>)))"

section \<open>Start and stop\<close>

definition new_Pipeline :: "AppConfig \<Rightarrow> Statistics \<Rightarrow> (stream_ref \<Rightarrow> ('e, 'h) StreamContext) \<Rightarrow> StreamBuffer buffer_heap \<Rightarrow> ('e, 'h) Pipeline" where
  "new_Pipeline cfg statistics contexts buffers =
     \<lparr>pp_cfg = cfg, pp_ipc = None, pp_infer_scheduler = None, pp_sei_injector = False, pp_infer_threads = 0,
      pp_config_thread = False, pp_heartbeat_thread = False, pp_running = False, pp_stop_flag = False,
      pp_configs = [], pp_has_pending_config = False, pp_pending_stop_streams = [], pp_streams = [],
      pp_contexts = contexts, pp_buffers = buffers, pp_next_ref = 0, pp_statistics = statistics\<rparr>"

definition pp_start :: "('e, 'h) Pipeline \<Rightarrow> bool \<times> ('e, 'h) Pipeline" where
  "pp_start p =
     (if pp_running p then (True, p)
      else let cfg = pp_cfg p;
               interval_s = max 1 (pl_statistics_interval_s (app_pipeline cfg));
               p1 = modify_statistics (stats_start (of_int (interval_s * 1000))) (p\<lparr>pp_stop_flag := False\<rparr>)
           in case ipc_start (new_IpcClient (so_agent_id (app_socket cfg))
                     (size_of_int (so_send_queue_size (app_socket cfg)))) of
                (ok, ipc) \<Rightarrow>
                  let p2 = p1\<lparr>pp_infer_scheduler := Some createRoundRobinInferScheduler, pp_sei_injector := True,
                              pp_ipc := Some ipc\<rparr>
                  in if \<not> ok then (False, modify_statistics stats_stop p2)
                     else (True, p2\<lparr>pp_infer_threads := nat (max 1 (pl_num_infer_threads (app_pipeline cfg))),
                                    pp_config_thread := True, pp_heartbeat_thread := True, pp_running := True\<rparr>))"

text \<open>\<open>pp_stop\<close> when no other thread touches the tables after they were taken.\<close>

definition pp_stop :: "('e, 'h) Pipeline \<Rightarrow> ('e, 'h) Pipeline" where
  "pp_stop p =
     (if \<not> pp_running p then p
      else let p1 = modify_scheduler rr_stop (p\<lparr>pp_stop_flag := True\<rparr>);
               p2 = p1\<lparr>pp_streams := [], pp_pending_stop_streams := []\<rparr>;
               p3 = fold stopStream (map snd (pp_streams p)) p2;
               p4 = fold stopStream (pp_pending_stop_streams p) p3
           in modify_statistics stats_stop
                (p4\<lparr>pp_config_thread := False, pp_heartbeat_thread := False, pp_infer_threads := 0,
                    pp_ipc := map_option ipc_stop (pp_ipc p4), pp_configs := [], pp_pending_stop_streams := [],
                    pp_has_pending_config := False, pp_sei_injector := False, pp_infer_scheduler := None,
                    pp_running := False\<rparr>))"

end
