(* ===== verification/ReconcileProofs.thy ===== *)
theory ReconcileProofs
  imports Pipeline
begin

text \<open>
  Applying configurations: what \<open>applyConfigBatch\<close> does to the table of streams, to the contexts and to the
  scheduler. The steps of the function are characterised one after the other; \<open>table_ok\<close> is the invariant of the
  table between two batches.
\<close>

section \<open>What each operation changes\<close>

definition sched_entry :: "('e, 'h) Pipeline \<Rightarrow> string \<Rightarrow> SchedulerEntry option" where
  "sched_entry p stream_id =
     (case pp_infer_scheduler p of None \<Rightarrow> None | Some s \<Rightarrow> map_of (rr_entries s) stream_id)"

lemma modify_simps [simp]:
  "pp_streams (modify_ctx r f p) = pp_streams p" "pp_streams (modify_buffer r g p) = pp_streams p"
  "pp_streams (modify_scheduler h p) = pp_streams p" "pp_streams (modify_statistics k p) = pp_streams p"
  "pp_contexts (modify_ctx r f p) = (pp_contexts p)(r := f (pp_contexts p r))"
  "pp_contexts (modify_buffer r g p) = pp_contexts p"
  "pp_contexts (modify_scheduler h p) = pp_contexts p" "pp_contexts (modify_statistics k p) = pp_contexts p"
  "pp_next_ref (modify_ctx r f p) = pp_next_ref p" "pp_next_ref (modify_buffer r g p) = pp_next_ref p"
  "pp_next_ref (modify_scheduler h p) = pp_next_ref p" "pp_next_ref (modify_statistics k p) = pp_next_ref p"
  "pp_infer_scheduler (modify_ctx r f p) = pp_infer_scheduler p"
  "pp_infer_scheduler (modify_buffer r g p) = pp_infer_scheduler p"
  "pp_infer_scheduler (modify_scheduler h p) = map_option h (pp_infer_scheduler p)"
  "pp_infer_scheduler (modify_statistics k p) = pp_infer_scheduler p"
  "pp_buffers (modify_ctx r f p) = pp_buffers p"
  "pp_buffers (modify_buffer r g p) = (pp_buffers p)(r := g (pp_buffers p r))"
  "pp_buffers (modify_scheduler h p) = pp_buffers p" "pp_buffers (modify_statistics k p) = pp_buffers p"
  "pp_pending_stop_streams (modify_ctx r f p) = pp_pending_stop_streams p"
  "pp_pending_stop_streams (modify_buffer r g p) = pp_pending_stop_streams p"
  "pp_pending_stop_streams (modify_scheduler h p) = pp_pending_stop_streams p"
  "pp_pending_stop_streams (modify_statistics k p) = pp_pending_stop_streams p"
  "pp_running (modify_ctx r f p) = pp_running p" "pp_running (modify_buffer r g p) = pp_running p"
  "pp_running (modify_scheduler h p) = pp_running p" "pp_running (modify_statistics k p) = pp_running p"
  by (simp_all add: modify_ctx_def modify_buffer_def modify_scheduler_def modify_statistics_def)

lemma rr_lookup [simp]:
  "map_of (rr_entries (rr_removeStream i s)) = (map_of (rr_entries s))(i := None)"
  "map_of (rr_entries (rr_upsertStream i c b s)) = (map_of (rr_entries s))
     (i \<mapsto> \<lparr>se_config = c, se_buffer = b, se_inflight =
        (case map_of (rr_entries s) i of None \<Rightarrow> False | Some e \<Rightarrow> se_inflight e)\<rparr>)"
  by (simp_all add: rr_removeStream_def rr_upsertStream_def Let_def dict_simps)

lemma stopStream_simps [simp]:
  "pp_streams (stopStream r p) = pp_streams p"
  "pp_contexts (stopStream r p) = (pp_contexts p)(r := stop_context (pp_contexts p r))"
  "pp_next_ref (stopStream r p) = pp_next_ref p"
  "pp_pending_stop_streams (stopStream r p) = pp_pending_stop_streams p"
  "pp_running (stopStream r p) = pp_running p"
  "pp_infer_scheduler (stopStream r p) = map_option (rr_removeStream (ctx_stream_id (pp_contexts p r))) (pp_infer_scheduler p)"
  "sched_entry (stopStream r p) = (sched_entry p)(ctx_stream_id (pp_contexts p r) := None)"
  by (simp_all add: stopStream_def Let_def sched_entry_def fun_eq_iff split: option.splits)

lemma stop_context_simps [simp]:
  "ctx_stream_id (stop_context c) = ctx_stream_id c" "ctx_stop_flag (stop_context c)"
  "\<not> ctx_publish_thread (stop_context c)" "\<not> pu_running (ctx_puller (stop_context c))"
  "ctx_transport_config (stop_context c) = ctx_transport_config c"
  "ctx_runtime_config (stop_context c) = ctx_runtime_config c" "ctx_buffer (stop_context c) = ctx_buffer c"
  by (simp_all add: stop_context_def pu_stop_def)

lemma update_simps [simp]:
  "pp_streams (updateStreamRuntime lib r cfg p) = pp_streams p"
  "pp_next_ref (updateStreamRuntime lib r cfg p) = pp_next_ref p"
  "pp_pending_stop_streams (updateStreamRuntime lib r cfg p) = pp_pending_stop_streams p"
  "pp_running (updateStreamRuntime lib r cfg p) = pp_running p"
  by (simp_all add: updateStreamRuntime_def Let_def)

lemma update_context:
  "pp_contexts (updateStreamRuntime lib r cfg p) r' =
     (if r' = r then (pp_contexts p r)\<lparr>ctx_detector_runtime := ctx_detector_runtime (pp_contexts (updateStreamRuntime lib r cfg p) r)\<rparr>
      else pp_contexts p r')"
  "de_config (ctx_detector_runtime (pp_contexts (updateStreamRuntime lib r cfg p) r)) = cfg"
  by (simp_all add: updateStreamRuntime_def Let_def)

lemma update_scheduler:
  "(pp_infer_scheduler (updateStreamRuntime lib r cfg p) = None) = (pp_infer_scheduler p = None)"
  "pp_infer_scheduler p \<noteq> None \<Longrightarrow> sched_entry (updateStreamRuntime lib r cfg p) =
     (sched_entry p)(ctx_stream_id (pp_contexts p r) \<mapsto>
       \<lparr>se_config = cfg, se_buffer = Some (ctx_buffer (pp_contexts p r)), se_inflight =
          (case sched_entry p (ctx_stream_id (pp_contexts p r)) of None \<Rightarrow> False | Some e \<Rightarrow> se_inflight e)\<rparr>)"
  by (auto simp: updateStreamRuntime_def Let_def sched_entry_def fun_eq_iff)

section \<open>Walking over the running streams\<close>

text \<open>A stream that is wanted with the same transport stays.\<close>

definition stays :: "(string \<times> StreamConfig) list \<Rightarrow> (stream_ref \<Rightarrow> ('e, 'h) StreamContext) \<Rightarrow> string \<times> stream_ref \<Rightarrow> bool" where
  "stays desired ctxs entry =
     (case map_of desired (fst entry) of
        None \<Rightarrow> False
      | Some cfg \<Rightarrow> isSameTransportStreamConfig (ctx_transport_config (ctxs (snd entry))) cfg)"

definition same_runtime :: "differencer \<Rightarrow> (string \<times> StreamConfig) list \<Rightarrow> (stream_ref \<Rightarrow> ('e, 'h) StreamContext) \<Rightarrow> string \<times> stream_ref \<Rightarrow> bool" where
  "same_runtime d desired ctxs entry =
     (case map_of desired (fst entry) of
        None \<Rightarrow> True
      | Some cfg \<Rightarrow> isSameRuntimeStreamConfig d (ctx_runtime_config (ctxs (snd entry))) cfg)"

text \<open>The configurations of the streams whose transport changed, and the updates.\<close>

definition changed_configs :: "(string \<times> StreamConfig) list \<Rightarrow> (stream_ref \<Rightarrow> ('e, 'h) StreamContext) \<Rightarrow> stream_table \<Rightarrow> StreamConfig list" where
  "changed_configs desired ctxs table =
     map (\<lambda>e. the (map_of desired (fst e)))
       (filter (\<lambda>e. \<not> stays desired ctxs e \<and> map_of desired (fst e) \<noteq> None) table)"

definition runtime_changes ::
  "differencer \<Rightarrow> (string \<times> StreamConfig) list \<Rightarrow> (stream_ref \<Rightarrow> ('e, 'h) StreamContext) \<Rightarrow> stream_table \<Rightarrow> (stream_ref \<times> StreamConfig) list"
where
  "runtime_changes d desired ctxs table =
     map (\<lambda>e. (snd e, the (map_of desired (fst e))))
       (filter (\<lambda>e. stays desired ctxs e \<and> \<not> same_runtime d desired ctxs e) table)"

definition with_runtime :: "(stream_ref \<times> StreamConfig) list \<Rightarrow> (stream_ref \<Rightarrow> ('e, 'h) StreamContext) \<Rightarrow> stream_ref \<Rightarrow> ('e, 'h) StreamContext" where
  "with_runtime updates ctxs r =
     (case map_of updates r of None \<Rightarrow> ctxs r | Some cfg \<Rightarrow> (ctxs r)\<lparr>ctx_runtime_config := cfg\<rparr>)"

lemma reconcile_stream_fields:
  shows "ba_kept (reconcile_stream d desired e b) = ba_kept b @ filter (stays desired (ba_contexts b)) [e]"
    "ba_to_stop (reconcile_stream d desired e b) = ba_to_stop b @ map snd (filter (\<lambda>e. \<not> stays desired (ba_contexts b) e) [e])"
    "ba_to_start (reconcile_stream d desired e b) = ba_to_start b @ changed_configs desired (ba_contexts b) [e]"
    "ba_updates (reconcile_stream d desired e b) = ba_updates b @ runtime_changes d desired (ba_contexts b) [e]"
    "ba_contexts (reconcile_stream d desired e b) = with_runtime (runtime_changes d desired (ba_contexts b) [e]) (ba_contexts b)"
  by (cases e; auto simp: reconcile_stream_def stays_def same_runtime_def changed_configs_def runtime_changes_def
      with_runtime_def fun_eq_iff split: option.splits)+

text \<open>Changing the runtime configuration of other contexts changes none of the decisions.\<close>

lemma decisions_cong:
  assumes "\<And>e. e \<in> set table \<Longrightarrow> ctxs' (snd e) = ctxs (snd e)"
  shows "filter (stays desired ctxs') table = filter (stays desired ctxs) table"
    "filter (\<lambda>e. \<not> stays desired ctxs' e) table = filter (\<lambda>e. \<not> stays desired ctxs e) table"
    "changed_configs desired ctxs' table = changed_configs desired ctxs table"
    "runtime_changes d desired ctxs' table = runtime_changes d desired ctxs table"
  using assms by (auto simp: stays_def same_runtime_def changed_configs_def runtime_changes_def
      intro!: filter_cong arg_cong [of _ _ "map _"] split: option.splits)

lemma updates_refs: "fst ` set (runtime_changes d desired ctxs table) \<subseteq> snd ` set table"
  by (auto simp: runtime_changes_def intro: rev_image_eqI)

lemma with_runtime_other: "r \<notin> fst ` set us \<Longrightarrow> with_runtime us ctxs r = ctxs r"
  by (simp add: with_runtime_def map_of_eq_None_iff [THEN iffD2])

lemma with_runtime_append:
  assumes "fst ` set us \<inter> fst ` set vs = {}"
  shows "with_runtime vs (with_runtime us ctxs) = with_runtime (us @ vs) ctxs"
proof
  fix r
  show "with_runtime vs (with_runtime us ctxs) r = with_runtime (us @ vs) ctxs r"
  proof (cases "r \<in> fst ` set vs")
    case True
    with assms have "map_of us r = None" by (auto simp: map_of_eq_None_iff)
    then show ?thesis by (simp add: with_runtime_def map_add_def split: option.splits)
  next
    case False
    then have "map_of vs r = None" by (simp add: map_of_eq_None_iff)
    then show ?thesis by (simp add: with_runtime_def map_add_def split: option.splits)
  qed
qed

lemma reconcile_fold:
  assumes "distinct (map snd table)" "b' = fold (reconcile_stream d desired) table b" "ctxs = ba_contexts b"
  shows "ba_kept b' = ba_kept b @ filter (stays desired ctxs) table \<and>
    ba_to_stop b' = ba_to_stop b @ map snd (filter (\<lambda>e. \<not> stays desired ctxs e) table) \<and>
    ba_to_start b' = ba_to_start b @ changed_configs desired ctxs table \<and>
    ba_updates b' = ba_updates b @ runtime_changes d desired ctxs table \<and>
    ba_contexts b' = with_runtime (runtime_changes d desired ctxs table) ctxs"
  using assms(1) unfolding assms(2,3)
proof (induction table arbitrary: b)
  case Nil
  then show ?case by (simp add: changed_configs_def runtime_changes_def with_runtime_def fun_eq_iff)
next
  case (Cons e table)
  let ?b = "reconcile_stream d desired e b" and ?u = "runtime_changes d desired (ba_contexts b) [e]"
  note step = reconcile_stream_fields [of d desired e b]
  have sep: "snd e' \<noteq> snd e" if "e' \<in> set table" for e'
  proof -
    have "snd e' \<in> snd ` set table" using that by (rule imageI)
    moreover have "snd e \<notin> snd ` set table" using Cons.prems unfolding list.map distinct.simps set_map by (rule conjunct1)
    ultimately show ?thesis by metis
  qed
  have other: "ba_contexts ?b (snd e') = ba_contexts b (snd e')" if "e' \<in> set table" for e'
  proof -
    from sep [OF that] have "snd e' \<notin> fst ` set ?u" using updates_refs [of d desired "ba_contexts b" "[e]"] by auto
    then show ?thesis by (simp add: step(5) with_runtime_other)
  qed
  note cong = decisions_cong [of table "ba_contexts ?b" "ba_contexts b", OF other]
  have ih: "distinct (map snd table)" using Cons.prems by simp
  let ?us = "runtime_changes d desired (ba_contexts b) table"
  have "fst ` set ?u \<inter> fst ` set ?us = {}"
    using updates_refs [of d desired "ba_contexts b" "[e]"] updates_refs [of d desired "ba_contexts b" table] sep by force
  then have "with_runtime ?us (ba_contexts ?b) = with_runtime (?u @ ?us) (ba_contexts b)"
    unfolding step(5) by (rule with_runtime_append)
  moreover have "?u @ ?us = runtime_changes d desired (ba_contexts b) (e # table)"
    "changed_configs desired (ba_contexts b) [e] @ changed_configs desired (ba_contexts b) table =
       changed_configs desired (ba_contexts b) (e # table)"
    by (simp_all add: runtime_changes_def changed_configs_def)
  ultimately show ?case
    using Cons.IH [OF ih, of ?b] step(1-4) cong by (simp add: fun_eq_iff)
qed

section \<open>Stopping and updating several streams\<close>

lemma stop_fold:
  "pp_streams (fold stopStream rs p) = pp_streams p \<and> pp_next_ref (fold stopStream rs p) = pp_next_ref p \<and>
   pp_pending_stop_streams (fold stopStream rs p) = pp_pending_stop_streams p \<and>
   (pp_infer_scheduler (fold stopStream rs p) = None \<longleftrightarrow> pp_infer_scheduler p = None) \<and>
   (\<forall>r. ctx_stream_id (pp_contexts (fold stopStream rs p) r) = ctx_stream_id (pp_contexts p r)) \<and>
   (\<forall>r. r \<notin> set rs \<longrightarrow> pp_contexts (fold stopStream rs p) r = pp_contexts p r) \<and>
   (\<forall>r. r \<in> set rs \<longrightarrow> ctx_stop_flag (pp_contexts (fold stopStream rs p) r) \<and>
      \<not> ctx_publish_thread (pp_contexts (fold stopStream rs p) r) \<and>
      \<not> pu_running (ctx_puller (pp_contexts (fold stopStream rs p) r))) \<and>
   (\<forall>i. sched_entry (fold stopStream rs p) i =
      (if i \<in> (\<lambda>r. ctx_stream_id (pp_contexts p r)) ` set rs then None else sched_entry p i))"
proof (induction rs rule: rev_induct)
  case Nil
  then show ?case by simp
next
  case (snoc r rs)
  then show ?case by (auto simp: fun_upd_apply)
qed

lemmas stop_foldD = stop_fold [THEN conjunct1] stop_fold [THEN conjunct2, THEN conjunct1]
  stop_fold [THEN conjunct2, THEN conjunct2, THEN conjunct1]
  stop_fold [THEN conjunct2, THEN conjunct2, THEN conjunct2, THEN conjunct1]
  stop_fold [THEN conjunct2, THEN conjunct2, THEN conjunct2, THEN conjunct2, THEN conjunct1, rule_format]
  stop_fold [THEN conjunct2, THEN conjunct2, THEN conjunct2, THEN conjunct2, THEN conjunct2, THEN conjunct1, rule_format]
  stop_fold [THEN conjunct2, THEN conjunct2, THEN conjunct2, THEN conjunct2, THEN conjunct2, THEN conjunct2, THEN conjunct1, rule_format]
  stop_fold [THEN conjunct2, THEN conjunct2, THEN conjunct2, THEN conjunct2, THEN conjunct2, THEN conjunct2, THEN conjunct2, rule_format]

abbreviation update_all :: "('e, 'h) pipeline_library \<Rightarrow> (stream_ref \<times> StreamConfig) list \<Rightarrow> ('e, 'h) Pipeline \<Rightarrow> ('e, 'h) Pipeline" where
  "update_all lib us \<equiv> fold (\<lambda>(ref, config). updateStreamRuntime lib ref config) us"

text \<open>Two contexts that differ in the detector only.\<close>

definition same_but_detector :: "('e, 'h) StreamContext \<Rightarrow> ('e, 'h) StreamContext \<Rightarrow> bool" where
  "same_but_detector c c' \<longleftrightarrow> c' = c\<lparr>ctx_detector_runtime := ctx_detector_runtime c'\<rparr>"

lemma same_but_detectorD:
  assumes "same_but_detector c c'"
  shows "ctx_stream_id c' = ctx_stream_id c" "ctx_transport_config c' = ctx_transport_config c"
    "ctx_runtime_config c' = ctx_runtime_config c" "ctx_buffer c' = ctx_buffer c" "ctx_stop_flag c' = ctx_stop_flag c"
    "ctx_publish_thread c' = ctx_publish_thread c" "ctx_puller c' = ctx_puller c"
  using assms unfolding same_but_detector_def by (cases c; cases c'; simp)+

lemma same_but_detector_refl: "same_but_detector c c"
  by (simp add: same_but_detector_def)

lemma same_but_detector_trans: "same_but_detector c c' \<Longrightarrow> same_but_detector c' c'' \<Longrightarrow> same_but_detector c c''"
  unfolding same_but_detector_def by (cases c; cases c'; cases c''; simp)

lemma same_but_detector_update: "same_but_detector (pp_contexts p r') (pp_contexts (updateStreamRuntime lib r cfg p) r')"
  by (simp add: updateStreamRuntime_def Let_def same_but_detector_def)

lemma update_fold_fields:
  "pp_streams (update_all lib us p) = pp_streams p" "pp_next_ref (update_all lib us p) = pp_next_ref p"
  "pp_pending_stop_streams (update_all lib us p) = pp_pending_stop_streams p"
  "(pp_infer_scheduler (update_all lib us p) = None) = (pp_infer_scheduler p = None)"
  by (induction us rule: rev_induct) (auto simp: update_scheduler(1) case_prod_beta)

lemma update_fold_contexts:
  "same_but_detector (pp_contexts p r) (pp_contexts (update_all lib us p) r)"
  "r \<notin> fst ` set us \<Longrightarrow> pp_contexts (update_all lib us p) r = pp_contexts p r"
proof (induction us rule: rev_induct)
  case Nil
  { case 1 show ?case by (simp add: same_but_detector_refl) next case 2 then show ?case by simp }
next
  case (snoc u us)
  { case 1 from snoc.IH(1) show ?case
      by (simp add: case_prod_beta) (rule same_but_detector_trans [OF _ same_but_detector_update])
  next
    case 2 then show ?case using snoc.IH(2) by (simp add: case_prod_beta update_context(1)) }
qed

lemma update_fold_detector:
  "distinct (map fst us) \<Longrightarrow> (r, cfg) \<in> set us \<Longrightarrow>
     de_config (ctx_detector_runtime (pp_contexts (update_all lib us p) r)) = cfg"
proof (induction us rule: rev_induct)
  case (snoc u us)
  obtain r' cfg' where u: "u = (r', cfg')" by (cases u)
  show ?case
  proof (cases "(r, cfg) \<in> set us")
    case True
    then have "r \<in> fst ` set us" by (rule rev_image_eqI) simp
    with snoc.prems(1) have "r \<noteq> r'" by (auto simp: u)
    with snoc.IH [OF _ True] snoc.prems(1) show ?thesis by (simp add: u update_context(1))
  next
    case False
    with snoc.prems(2) show ?thesis by (simp add: u update_context(2))
  qed
qed simp

lemma update_fold_scheduler:
  assumes "pp_infer_scheduler p \<noteq> None" "ctx_stream_id (pp_contexts p r) = i"
    and "\<And>r'. r' \<in> fst ` set us \<Longrightarrow> ctx_stream_id (pp_contexts p r') = i \<Longrightarrow> r' = r"
    and "distinct (map fst us)"
  shows "(r \<notin> fst ` set us \<longrightarrow> sched_entry (update_all lib us p) i = sched_entry p i) \<and>
    (\<forall>cfg. (r, cfg) \<in> set us \<longrightarrow> (\<exists>e. sched_entry (update_all lib us p) i = Some e \<and> se_config e = cfg \<and>
         se_buffer e = Some (ctx_buffer (pp_contexts p r))))"
  using assms(3,4)
proof (induction us rule: rev_induct)
  case Nil
  then show ?case by simp
next
  case (snoc u us)
  obtain r' cfg' where u: "u = (r', cfg')" by (cases u)
  let ?q = "update_all lib us p"
  have q: "update_all lib (us @ [u]) p = updateStreamRuntime lib r' cfg' ?q" by (simp add: u)
  have sched: "pp_infer_scheduler ?q \<noteq> None" using assms(1) by (simp add: update_fold_fields(4))
  have "\<And>r'. r' \<in> fst ` set us \<Longrightarrow> ctx_stream_id (pp_contexts p r') = i \<Longrightarrow> r' = r"
    using snoc.prems(1) by simp
  note ih = snoc.IH [OF this]
  note same = same_but_detectorD [OF update_fold_contexts(1) [of p r' lib us]]
  show ?case
  proof (cases "r' = r")
    case True
    then have "r \<notin> fst ` set us" using snoc.prems(2) by (simp add: u)
    then show ?thesis
      using update_scheduler(2) [OF sched, of lib r' cfg'] same(1,4) True assms(2) unfolding q by (force simp: u)
  next
    case False
    then have "ctx_stream_id (pp_contexts p r') \<noteq> i" using snoc.prems(1) [of r'] by (auto simp: u)
    then have "sched_entry (updateStreamRuntime lib r' cfg' ?q) i = sched_entry ?q i"
      using update_scheduler(2) [OF sched, of lib r' cfg'] same(1) by simp
    with ih snoc.prems(2) False show ?thesis unfolding q by (simp add: u)
  qed
qed

section \<open>Starting several streams\<close>

definition built_context :: "('e, 'h) pipeline_library \<Rightarrow> StreamConfig \<Rightarrow> stream_ref \<Rightarrow> ('e, 'h) StreamContext" where
  "built_context lib cfg ref =
     (let c = new_StreamContext lib cfg ref
      in c\<lparr>ctx_publish_thread := True, ctx_puller := snd (pu_start (ctx_puller c))\<rparr>)"

lemma built_context_simps [simp]:
  "ctx_stream_id (built_context lib cfg ref) = sc_stream_id cfg"
  "ctx_transport_config (built_context lib cfg ref) = makeTransportStreamConfig cfg"
  "ctx_runtime_config (built_context lib cfg ref) = cfg" "ctx_buffer (built_context lib cfg ref) = ref"
  "\<not> ctx_stop_flag (built_context lib cfg ref)" "ctx_publish_thread (built_context lib cfg ref)"
  "pu_running (ctx_puller (built_context lib cfg ref))"
  "de_config (ctx_detector_runtime (built_context lib cfg ref)) = cfg"
  by (simp_all add: built_context_def new_StreamContext_def Let_def pu_start_def new_RTSPPuller_def)

lemma start_stream_eq:
  assumes "\<not> fails (pp_next_ref p)"
  shows "pp_streams (start_stream lib fails cfg p) = omap_put (sc_stream_id cfg) (pp_next_ref p) (pp_streams p)"
    "pp_next_ref (start_stream lib fails cfg p) = Suc (pp_next_ref p)"
    "pp_contexts (start_stream lib fails cfg p) = (pp_contexts p)(pp_next_ref p := built_context lib cfg (pp_next_ref p))"
    "pp_pending_stop_streams (start_stream lib fails cfg p) = pp_pending_stop_streams p"
    "pp_infer_scheduler (start_stream lib fails cfg p) =
       map_option (rr_upsertStream (sc_stream_id cfg) cfg (Some (pp_next_ref p))) (pp_infer_scheduler p)"
proof -
  let ?ctx = "\<lambda>p. (pp_contexts p)(pp_next_ref p := built_context lib cfg (pp_next_ref p))"
  obtain p' where b: "buildStreamContext lib cfg p = (Some (pp_next_ref p), p')" "pp_streams p' = pp_streams p"
    "pp_next_ref p' = Suc (pp_next_ref p)" "pp_contexts p' = ?ctx p" "pp_pending_stop_streams p' = pp_pending_stop_streams p"
    "pp_infer_scheduler p' = map_option (rr_upsertStream (sc_stream_id cfg) cfg (Some (pp_next_ref p))) (pp_infer_scheduler p)"
    by (simp add: buildStreamContext_def Let_def pu_start_def built_context_def fun_eq_iff)
  then show "pp_streams (start_stream lib fails cfg p) = omap_put (sc_stream_id cfg) (pp_next_ref p) (pp_streams p)"
    "pp_next_ref (start_stream lib fails cfg p) = Suc (pp_next_ref p)"
    "pp_contexts (start_stream lib fails cfg p) = ?ctx p"
    "pp_pending_stop_streams (start_stream lib fails cfg p) = pp_pending_stop_streams p"
    "pp_infer_scheduler (start_stream lib fails cfg p) =
       map_option (rr_upsertStream (sc_stream_id cfg) cfg (Some (pp_next_ref p))) (pp_infer_scheduler p)"
    using assms by (simp_all add: start_stream_def Let_def)
qed

text \<open>The last context started under an id, and its configuration.\<close>

definition started :: "nat \<Rightarrow> StreamConfig list \<Rightarrow> string \<Rightarrow> (stream_ref \<times> StreamConfig) option" where
  "started n cfgs = map_of (rev (map (\<lambda>(r, c). (sc_stream_id c, (r, c))) (enumerate n cfgs)))"

lemma started_Nil [simp]: "started n [] i = None"
  by (simp add: started_def)

lemma started_snoc [simp]:
  "started n (cfgs @ [c]) i = (if i = sc_stream_id c then Some (n + length cfgs, c) else started n cfgs i)"
  by (simp add: started_def enumerate_append_eq)

lemma started_None: "started n cfgs i = None \<longleftrightarrow> i \<notin> sc_stream_id ` set cfgs"
  by (induction cfgs rule: rev_induct) auto

lemma started_Some:
  "started n cfgs i = Some (r, c) \<Longrightarrow>
     \<exists>j < length cfgs. r = n + j \<and> c = cfgs ! j \<and> sc_stream_id c = i"
proof (induction cfgs rule: rev_induct)
  case (snoc x cfgs)
  show ?case
  proof (cases "i = sc_stream_id x")
    case True
    with snoc.prems show ?thesis by (intro exI [of _ "length cfgs"]) auto
  next
    case False
    with snoc obtain j where "j < length cfgs" "r = n + j" "c = cfgs ! j" "sc_stream_id c = i" by auto
    then show ?thesis by (intro exI [of _ j]) (simp add: nth_append)
  qed
qed simp

abbreviation start_all :: "('e, 'h) pipeline_library \<Rightarrow> StreamConfig list \<Rightarrow> ('e, 'h) Pipeline \<Rightarrow> ('e, 'h) Pipeline" where
  "start_all lib \<equiv> fold (start_stream lib (\<lambda>_. False))"

lemma start_fold:
  "pp_next_ref (start_all lib cfgs p) = pp_next_ref p + length cfgs \<and>
   pp_pending_stop_streams (start_all lib cfgs p) = pp_pending_stop_streams p \<and>
   (pp_infer_scheduler (start_all lib cfgs p) = None \<longleftrightarrow> pp_infer_scheduler p = None) \<and>
   (sorted_keys (pp_streams p) \<longrightarrow> sorted_keys (pp_streams (start_all lib cfgs p))) \<and>
   (\<forall>r < pp_next_ref p. pp_contexts (start_all lib cfgs p) r = pp_contexts p r)"
  by (induction cfgs rule: rev_induct) (auto simp: start_stream_eq intro: sorted_keys_omap_put)

lemma start_fold_contexts:
  "j < length cfgs \<Longrightarrow> pp_contexts (start_all lib cfgs p) (pp_next_ref p + j) = built_context lib (cfgs ! j) (pp_next_ref p + j)"
proof (induction cfgs rule: rev_induct)
  case (snoc c cfgs)
  then show ?case using start_fold [of lib cfgs p]
    by (cases "j = length cfgs") (simp_all add: start_stream_eq nth_append)
qed simp

lemma start_fold_table:
  assumes "sorted_keys (pp_streams p)"
  shows "map_of (pp_streams (start_all lib cfgs p)) i =
    (case started (pp_next_ref p) cfgs i of None \<Rightarrow> map_of (pp_streams p) i | Some (r, c) \<Rightarrow> Some r)"
proof (induction cfgs rule: rev_induct)
  case (snoc c cfgs)
  then show ?case using start_fold [of lib cfgs p] assms
    by (simp add: start_stream_eq map_of_omap_put)
qed simp

lemma start_fold_scheduler:
  assumes "pp_infer_scheduler p \<noteq> None"
  shows "case started (pp_next_ref p) cfgs i of
      None \<Rightarrow> sched_entry (start_all lib cfgs p) i = sched_entry p i
    | Some (r, c) \<Rightarrow> \<exists>e. sched_entry (start_all lib cfgs p) i = Some e \<and> se_config e = c \<and> se_buffer e = Some r"
proof (induction cfgs rule: rev_induct)
  case (snoc c cfgs)
  have "pp_infer_scheduler (start_all lib cfgs p) \<noteq> None" using start_fold [of lib cfgs p] assms by blast
  with snoc start_fold [of lib cfgs p] show ?case
    by (auto simp: start_stream_eq sched_entry_def split: option.splits)
qed simp

section \<open>The table between two batches\<close>

text \<open>
  A stream of the table: its context runs both threads under its id, the detector has the configuration it runs with,
  and the scheduler holds its buffer with the same configuration.
\<close>

definition stream_ok :: "('e, 'h) Pipeline \<Rightarrow> string \<Rightarrow> stream_ref \<Rightarrow> bool" where
  "stream_ok p i r \<longleftrightarrow>
     (let c = pp_contexts p r
      in r < pp_next_ref p \<and> ctx_stream_id c = i \<and> ctx_buffer c = r \<and> \<not> ctx_stop_flag c \<and> ctx_publish_thread c \<and>
         pu_running (ctx_puller c) \<and> de_config (ctx_detector_runtime c) = ctx_runtime_config c \<and>
         (\<exists>e. sched_entry p i = Some e \<and> se_config e = ctx_runtime_config c \<and> se_buffer e = Some r))"

definition table_ok :: "('e, 'h) Pipeline \<Rightarrow> bool" where
  "table_ok p \<longleftrightarrow>
     pp_infer_scheduler p \<noteq> None \<and> sorted_keys (pp_streams p) \<and>
     (\<forall>i r. map_of (pp_streams p) i = Some r \<longrightarrow> stream_ok p i r) \<and>
     (\<forall>i. sched_entry p i \<noteq> None \<longrightarrow> map_of (pp_streams p) i \<noteq> None)"

lemma table_okD:
  assumes "table_ok p"
  shows "pp_infer_scheduler p \<noteq> None" "sorted_keys (pp_streams p)" "distinct_keys (pp_streams p)"
    "map_of (pp_streams p) i = Some r \<Longrightarrow> stream_ok p i r"
    "(i, r) \<in> set (pp_streams p) \<longleftrightarrow> map_of (pp_streams p) i = Some r"
    "sched_entry p i \<noteq> None \<Longrightarrow> map_of (pp_streams p) i \<noteq> None"
  using assms sorted_keys_distinct [of "pp_streams p"] map_of_distinct_iff [of "pp_streams p" i r]
  unfolding table_ok_def by blast+

lemma table_ok_ids:
  assumes "table_ok p" "(i, r) \<in> set (pp_streams p)"
  shows "ctx_stream_id (pp_contexts p r) = i" "r < pp_next_ref p"
  using table_okD(4) [OF assms(1)] table_okD(5) [OF assms(1), of i r] assms(2) by (auto simp: stream_ok_def Let_def)

lemma table_ok_refs:
  assumes "table_ok p"
  shows "distinct (map snd (pp_streams p))"
proof -
  have "distinct (pp_streams p)" using table_okD(3) [OF assms] by (simp add: distinct_keys_def distinct_map)
  moreover have "inj_on snd (set (pp_streams p))"
    by (rule inj_onI) (metis table_ok_ids(1) [OF assms] prod.collapse)
  ultimately show ?thesis by (simp add: distinct_map)
qed

section \<open>The state after stopping and updating\<close>

definition kept :: "(string \<times> StreamConfig) list \<Rightarrow> ('e, 'h) Pipeline \<Rightarrow> stream_table" where
  "kept desired p = filter (stays desired (pp_contexts p)) (pp_streams p)"

definition dropped :: "(string \<times> StreamConfig) list \<Rightarrow> ('e, 'h) Pipeline \<Rightarrow> stream_ref list" where
  "dropped desired p = map snd (filter (\<lambda>e. \<not> stays desired (pp_contexts p) e) (pp_streams p))"

definition updates :: "differencer \<Rightarrow> (string \<times> StreamConfig) list \<Rightarrow> ('e, 'h) Pipeline \<Rightarrow> (stream_ref \<times> StreamConfig) list" where
  "updates d desired p = runtime_changes d desired (pp_contexts p) (pp_streams p)"

definition starts :: "(string \<times> StreamConfig) list \<Rightarrow> ('e, 'h) Pipeline \<Rightarrow> StreamConfig list" where
  "starts desired p = changed_configs desired (pp_contexts p) (pp_streams p) @
     map snd (filter (\<lambda>(i, cfg). map_of (kept desired p) i = None) desired)"

definition taken_over :: "differencer \<Rightarrow> (string \<times> StreamConfig) list \<Rightarrow> ('e, 'h) Pipeline \<Rightarrow> ('e, 'h) Pipeline" where
  "taken_over d desired p =
     p\<lparr>pp_streams := kept desired p, pp_contexts := with_runtime (updates d desired p) (pp_contexts p)\<rparr>"

definition settled :: "('e, 'h) pipeline_library \<Rightarrow> (string \<times> StreamConfig) list \<Rightarrow> ('e, 'h) Pipeline \<Rightarrow> ('e, 'h) Pipeline" where
  "settled lib desired p =
     update_all lib (updates (lb_differencer lib) desired p)
       (fold stopStream (dropped desired p) (taken_over (lb_differencer lib) desired p))"

lemma apply_eq:
  assumes "table_ok p"
  shows "applyConfigBatch lib fails configs p =
    fold (start_stream lib fails) (starts (buildMergedStreams configs) p) (settled lib (buildMergedStreams configs) p)"
  using reconcile_fold [OF table_ok_refs [OF assms] refl refl, of "lb_differencer lib" "buildMergedStreams configs"
      "\<lparr>ba_kept = [], ba_to_stop = [], ba_to_start = [], ba_updates = [], ba_contexts = pp_contexts p\<rparr>"]
  by (simp add: applyConfigBatch_def reconcile_def settled_def starts_def dropped_def updates_def kept_def taken_over_def Let_def)

lemma kept_iff:
  assumes "table_ok p"
  shows "map_of (kept desired p) i = Some r \<longleftrightarrow> map_of (pp_streams p) i = Some r \<and>
    (\<exists>cfg. map_of desired i = Some cfg \<and> isSameTransportStreamConfig (ctx_transport_config (pp_contexts p r)) cfg)"
  by (auto simp: kept_def map_of_filter_distinct [OF table_okD(3) [OF assms]] stays_def split: option.splits)

lemma kept_sorted: "table_ok p \<Longrightarrow> sorted_keys (kept desired p)"
  unfolding kept_def by (rule sorted_keys_filter) (rule table_okD(2))

lemma in_map_snd: "r \<in> set (map snd (filter P xs)) \<longleftrightarrow> (\<exists>i. (i, r) \<in> set xs \<and> P (i, r))"
  by force

lemma dropped_iff:
  assumes "table_ok p"
  shows "r \<in> set (dropped desired p) \<longleftrightarrow>
    (\<exists>i. map_of (pp_streams p) i = Some r \<and> map_of (kept desired p) i \<noteq> Some r)"
proof -
  have "r \<in> set (dropped desired p) \<longleftrightarrow> (\<exists>i. (i, r) \<in> set (pp_streams p) \<and> \<not> stays desired (pp_contexts p) (i, r))"
    unfolding dropped_def by (rule in_map_snd)
  also have "\<dots> \<longleftrightarrow> (\<exists>i. map_of (pp_streams p) i = Some r \<and> \<not> stays desired (pp_contexts p) (i, r))"
    using table_okD(5) [OF assms] by metis
  also have "\<dots> \<longleftrightarrow> (\<exists>i. map_of (pp_streams p) i = Some r \<and> map_of (kept desired p) i \<noteq> Some r)"
    by (auto simp: kept_iff [OF assms] stays_def split: option.splits)
  finally show ?thesis .
qed

lemma updates_iff:
  assumes "table_ok p"
  shows "(r, cfg) \<in> set (updates d desired p) \<longleftrightarrow>
    (\<exists>i. map_of (kept desired p) i = Some r \<and> map_of desired i = Some cfg \<and>
       \<not> isSameRuntimeStreamConfig d (ctx_runtime_config (pp_contexts p r)) cfg)"
proof -
  have "(r, cfg) \<in> set (updates d desired p) \<longleftrightarrow> (\<exists>i. (i, r) \<in> set (pp_streams p) \<and>
      stays desired (pp_contexts p) (i, r) \<and> \<not> same_runtime d desired (pp_contexts p) (i, r) \<and>
      cfg = the (map_of desired i))"
    unfolding updates_def runtime_changes_def set_map set_filter
    by (auto intro!: image_eqI [where x = "(i, r)" for i])
  also have "\<dots> \<longleftrightarrow> (\<exists>i. map_of (pp_streams p) i = Some r \<and>
      stays desired (pp_contexts p) (i, r) \<and> \<not> same_runtime d desired (pp_contexts p) (i, r) \<and>
      cfg = the (map_of desired i))"
    using table_okD(5) [OF assms] by metis
  also have "\<dots> \<longleftrightarrow> (\<exists>i. map_of (kept desired p) i = Some r \<and> map_of desired i = Some cfg \<and>
       \<not> isSameRuntimeStreamConfig d (ctx_runtime_config (pp_contexts p r)) cfg)"
    by (auto simp: kept_iff [OF assms] stays_def same_runtime_def split: option.splits)
  finally show ?thesis .
qed

lemma updates_distinct:
  assumes "table_ok p"
  shows "distinct (map fst (updates d desired p))"
proof -
  have "map fst (updates d desired p) =
      map snd (filter (\<lambda>e. stays desired (pp_contexts p) e \<and> \<not> same_runtime d desired (pp_contexts p) e) (pp_streams p))"
    by (simp add: updates_def runtime_changes_def comp_def)
  with table_ok_refs [OF assms] show ?thesis by (simp add: distinct_map_filter)
qed

text \<open>Two entries of the table with the same id or the same context are the same.\<close>

lemma table_unique:
  assumes "table_ok p" "map_of (pp_streams p) i = Some r" "map_of (pp_streams p) i' = Some r'"
  shows "ctx_stream_id (pp_contexts p r) = ctx_stream_id (pp_contexts p r') \<longleftrightarrow> r = r'" "i = i' \<longleftrightarrow> r = r'"
proof -
  have "ctx_stream_id (pp_contexts p r) = i" "ctx_stream_id (pp_contexts p r') = i'"
    using table_okD(4) [OF assms(1) assms(2)] table_okD(4) [OF assms(1) assms(3)] by (simp_all add: stream_ok_def Let_def)
  moreover from this assms(2,3) have "i = i' \<longleftrightarrow> r = r'" by (metis option.inject)
  ultimately show "ctx_stream_id (pp_contexts p r) = ctx_stream_id (pp_contexts p r') \<longleftrightarrow> r = r'" "i = i' \<longleftrightarrow> r = r'"
    by simp_all
qed

lemma with_runtime_fields [simp]:
  "ctx_stream_id (with_runtime us ctxs r) = ctx_stream_id (ctxs r)"
  "ctx_transport_config (with_runtime us ctxs r) = ctx_transport_config (ctxs r)"
  "ctx_buffer (with_runtime us ctxs r) = ctx_buffer (ctxs r)" "ctx_stop_flag (with_runtime us ctxs r) = ctx_stop_flag (ctxs r)"
  "ctx_publish_thread (with_runtime us ctxs r) = ctx_publish_thread (ctxs r)"
  "ctx_puller (with_runtime us ctxs r) = ctx_puller (ctxs r)"
  "ctx_detector_runtime (with_runtime us ctxs r) = ctx_detector_runtime (ctxs r)"
  by (simp_all add: with_runtime_def split: option.splits)

lemma taken_over_simps [simp]:
  "pp_streams (taken_over d desired p) = kept desired p"
  "pp_contexts (taken_over d desired p) = with_runtime (updates d desired p) (pp_contexts p)"
  "pp_infer_scheduler (taken_over d desired p) = pp_infer_scheduler p" "pp_next_ref (taken_over d desired p) = pp_next_ref p"
  "pp_pending_stop_streams (taken_over d desired p) = pp_pending_stop_streams p"
  "sched_entry (taken_over d desired p) = sched_entry p"
  by (simp_all add: taken_over_def sched_entry_def fun_eq_iff)

lemma settled_fields:
  assumes "table_ok p"
  shows "pp_streams (settled lib desired p) = kept desired p" "pp_next_ref (settled lib desired p) = pp_next_ref p"
    "pp_pending_stop_streams (settled lib desired p) = pp_pending_stop_streams p"
    "pp_infer_scheduler (settled lib desired p) \<noteq> None"
  using stop_foldD(1-4) [of "dropped desired p" "taken_over (lb_differencer lib) desired p"] table_okD(1) [OF assms]
  by (simp_all add: settled_def update_fold_fields)

text \<open>A stream that is not kept is stopped.\<close>

lemma settled_dropped:
  assumes "table_ok p" "map_of (pp_streams p) i = Some r" "map_of (kept desired p) i \<noteq> Some r"
  shows "ctx_stop_flag (pp_contexts (settled lib desired p) r) \<and> \<not> ctx_publish_thread (pp_contexts (settled lib desired p) r) \<and>
    \<not> pu_running (ctx_puller (pp_contexts (settled lib desired p) r))"
proof -
  let ?q = "fold stopStream (dropped desired p) (taken_over (lb_differencer lib) desired p)"
  have "r \<in> set (dropped desired p)" using assms by (auto simp: dropped_iff)
  from stop_foldD(7) [OF this, of "taken_over (lb_differencer lib) desired p"]
    same_but_detectorD(5-7) [OF update_fold_contexts(1) [of ?q r lib "updates (lb_differencer lib) desired p"]]
  show ?thesis by (simp add: settled_def)
qed

text \<open>A stream that is kept stays as it was, with the configuration it should have.\<close>

lemma kept_in_table:
  assumes "table_ok p" "map_of (kept desired p) i = Some r"
  shows "map_of (pp_streams p) i = Some r" "stream_ok p i r" "r \<notin> set (dropped desired p)"
proof -
  show tab: "map_of (pp_streams p) i = Some r" using assms by (simp add: kept_iff)
  then show "stream_ok p i r" by (rule table_okD(4) [OF assms(1)])
  show "r \<notin> set (dropped desired p)" using assms tab table_unique(2) [OF assms(1) tab] by (auto simp: dropped_iff)
qed

text \<open>The stream is updated exactly if its run-time configuration changed.\<close>

lemma kept_updates:
  assumes p: "table_ok p" and r: "map_of (kept desired p) i = Some r" and cfg: "map_of desired i = Some cfg"
  shows "(r, cfg') \<in> set (updates d desired p) \<longleftrightarrow>
    cfg' = cfg \<and> \<not> isSameRuntimeStreamConfig d (ctx_runtime_config (pp_contexts p r)) cfg"
proof -
  have "map_of (kept desired p) i' = Some r \<longleftrightarrow> i' = i" for i'
    using table_unique(2) [OF p kept_in_table(1) [OF p r], of i' r] r by (auto simp: kept_iff [OF p])
  then show ?thesis using cfg by (auto simp: updates_iff [OF p])
qed

lemma kept_runtime:
  assumes p: "table_ok p" and r: "map_of (kept desired p) i = Some r" and cfg: "map_of desired i = Some cfg"
  shows "ctx_runtime_config (with_runtime (updates d desired p) (pp_contexts p) r) =
    (if isSameRuntimeStreamConfig d (ctx_runtime_config (pp_contexts p r)) cfg then ctx_runtime_config (pp_contexts p r) else cfg)"
proof (cases "isSameRuntimeStreamConfig d (ctx_runtime_config (pp_contexts p r)) cfg")
  case True
  then have "map_of (updates d desired p) r = None" using kept_updates [OF assms] by (auto simp: map_of_eq_None_iff)
  with True show ?thesis by (simp add: with_runtime_def)
next
  case False
  then have "map_of (updates d desired p) r = Some cfg"
    using kept_updates [OF assms] updates_distinct [OF p] by (simp add: map_of_eq_Some_iff)
  with False show ?thesis by (simp add: with_runtime_def)
qed

text \<open>After the others were stopped, before the updates.\<close>

definition halted :: "differencer \<Rightarrow> (string \<times> StreamConfig) list \<Rightarrow> ('e, 'h) Pipeline \<Rightarrow> ('e, 'h) Pipeline" where
  "halted d desired p = fold stopStream (dropped desired p) (taken_over d desired p)"

lemma halted_ids: "ctx_stream_id (pp_contexts (halted d desired p) r) = ctx_stream_id (pp_contexts p r)"
  using stop_foldD(5) [of "dropped desired p" "taken_over d desired p"] by (simp add: halted_def)

lemma halted_kept:
  assumes p: "table_ok p" and r: "map_of (kept desired p) i = Some r"
  shows "pp_contexts (halted d desired p) r = with_runtime (updates d desired p) (pp_contexts p) r"
    "sched_entry (halted d desired p) i = sched_entry p i"
proof -
  let ?t = "taken_over d desired p"
  note tab = kept_in_table [OF p r]
  show "pp_contexts (halted d desired p) r = with_runtime (updates d desired p) (pp_contexts p) r"
    using stop_foldD(6) [OF tab(3), of ?t] by (simp add: halted_def)
  have "ctx_stream_id (pp_contexts p r') \<noteq> i" if r': "r' \<in> set (dropped desired p)" for r'
  proof -
    from r' obtain i' where "map_of (pp_streams p) i' = Some r'" unfolding dropped_iff [OF p] by blast
    with table_unique(1) [OF p tab(1) this] tab(2,3) r' show ?thesis by (auto simp: stream_ok_def Let_def)
  qed
  then show "sched_entry (halted d desired p) i = sched_entry p i"
    using stop_foldD(8) [of "dropped desired p" ?t i] by (auto simp: halted_def)
qed

lemma settled_sched:
  assumes p: "table_ok p" and r: "map_of (kept desired p) i = Some r" and "us = updates (lb_differencer lib) desired p"
  shows "(r \<notin> fst ` set us \<longrightarrow> sched_entry (settled lib desired p) i = sched_entry p i) \<and>
    (\<forall>cfg. (r, cfg) \<in> set us \<longrightarrow> (\<exists>e. sched_entry (settled lib desired p) i = Some e \<and> se_config e = cfg \<and>
       se_buffer e = Some (ctx_buffer (pp_contexts p r))))"
proof -
  let ?q = "halted (lb_differencer lib) desired p"
  note tab = kept_in_table [OF p r] and q = halted_kept [OF p r, of "lb_differencer lib"]
  have id: "ctx_stream_id (pp_contexts ?q r) = i" using tab(2) by (simp add: halted_ids stream_ok_def Let_def)
  have other: "r' = r" if r': "r' \<in> fst ` set us" "ctx_stream_id (pp_contexts ?q r') = i" for r'
  proof -
    from r'(1) assms(3) obtain cfg' where "(r', cfg') \<in> set (updates (lb_differencer lib) desired p)" by auto
    then obtain i' where "map_of (pp_streams p) i' = Some r'" by (auto simp: updates_iff [OF p] kept_iff [OF p])
    from table_unique(1) [OF p tab(1) this] tab(2) r'(2) show ?thesis by (auto simp: halted_ids stream_ok_def Let_def)
  qed
  have "pp_infer_scheduler ?q \<noteq> None"
    using stop_foldD(4) [of "dropped desired p" "taken_over (lb_differencer lib) desired p"] table_okD(1) [OF p]
    by (simp add: halted_def)
  from update_fold_scheduler [OF this id other, of us lib] updates_distinct [OF p] assms(3) q show ?thesis
    by (simp add: settled_def flip: halted_def)
qed

lemma settled_kept:
  assumes p: "table_ok p" and r: "map_of (kept desired p) i = Some r" and cfg: "map_of desired i = Some cfg"
  shows "stream_ok (settled lib desired p) i r"
    "ctx_transport_config (pp_contexts (settled lib desired p) r) = ctx_transport_config (pp_contexts p r)"
    "ctx_runtime_config (pp_contexts (settled lib desired p) r) = cfg \<or>
      isSameRuntimeStreamConfig (lb_differencer lib) (ctx_runtime_config (pp_contexts (settled lib desired p) r)) cfg"
proof -
  let ?d = "lb_differencer lib"
  let ?us = "updates ?d desired p" and ?q = "halted ?d desired p" and ?s = "settled lib desired p"
  have s: "?s = update_all lib ?us ?q" by (simp add: settled_def halted_def)
  note ok = kept_in_table(2) [OF p r] and q = halted_kept(1) [OF p r, of ?d] and run = kept_runtime [OF p r cfg, of ?d]
  note same = same_but_detectorD [OF update_fold_contexts(1) [of ?q r lib ?us], unfolded q, folded s]
  note in_us = kept_updates [OF p r cfg, of _ ?d] and sched = settled_sched [OF p r refl, of lib]
  have "stream_ok ?s i r"
  proof (cases "isSameRuntimeStreamConfig ?d (ctx_runtime_config (pp_contexts p r)) cfg")
    case True
    then have out: "r \<notin> fst ` set ?us" using in_us by auto
    have "pp_contexts ?s r = with_runtime ?us (pp_contexts p) r"
      using update_fold_contexts(2) [OF out, of lib ?q] q by (simp add: s)
    with ok True run sched out show ?thesis by (simp add: stream_ok_def Let_def settled_fields [OF p])
  next
    case False
    then have upd: "(r, cfg) \<in> set ?us" using in_us by simp
    then have "de_config (ctx_detector_runtime (pp_contexts ?s r)) = cfg"
      using update_fold_detector [OF updates_distinct [OF p]] by (simp add: s)
    moreover have "\<exists>e. sched_entry ?s i = Some e \<and> se_config e = cfg \<and> se_buffer e = Some (ctx_buffer (pp_contexts p r))"
      using sched upd by blast
    ultimately show ?thesis using ok False run same by (simp add: stream_ok_def Let_def settled_fields [OF p])
  qed
  then show "stream_ok ?s i r" .
  show "ctx_transport_config (pp_contexts ?s r) = ctx_transport_config (pp_contexts p r)" using same by simp
  show "ctx_runtime_config (pp_contexts ?s r) = cfg \<or> isSameRuntimeStreamConfig ?d (ctx_runtime_config (pp_contexts ?s r)) cfg"
    using same(3) run by simp
qed

lemma settled_scheduler:
  assumes p: "table_ok p" and e: "sched_entry (settled lib desired p) i \<noteq> None"
  shows "map_of (kept desired p) i \<noteq> None"
proof
  assume none: "map_of (kept desired p) i = None"
  let ?us = "updates (lb_differencer lib) desired p" and ?t = "taken_over (lb_differencer lib) desired p"
  let ?q = "fold stopStream (dropped desired p) ?t"
  have ids: "ctx_stream_id (pp_contexts ?q r') = ctx_stream_id (pp_contexts p r')" for r'
    using stop_foldD(5) [of "dropped desired p" ?t] by simp
  have not_upd: "ctx_stream_id (pp_contexts p r') \<noteq> i" if "r' \<in> fst ` set ?us" for r'
  proof -
    from that obtain cfg' i' where "map_of (kept desired p) i' = Some r'" by (auto simp: updates_iff [OF p])
    moreover from this none have "i' \<noteq> i" by auto
    ultimately have "stream_ok p i' r'" "i' \<noteq> i" using table_okD(4) [OF p, of i' r'] by (simp_all add: kept_iff [OF p])
    then show ?thesis by (auto simp: stream_ok_def Let_def)
  qed
  have "sched_entry (update_all lib us ?q) i = sched_entry ?q i" if "set us \<subseteq> set ?us" for us
    using that
  proof (induction us rule: rev_induct)
    case (snoc u us)
    obtain r' cfg' where u: "u = (r', cfg')" by (cases u)
    with snoc.prems have "ctx_stream_id (pp_contexts p r') \<noteq> i" using not_upd [of r'] by force
    moreover have "pp_infer_scheduler (update_all lib us ?q) \<noteq> None"
      using stop_foldD(4) [of "dropped desired p" ?t] table_okD(1) [OF p] by (simp add: update_fold_fields)
    ultimately show ?case using snoc same_but_detectorD(1) [OF update_fold_contexts(1) [of ?q r' lib us]]
      by (simp add: u update_scheduler(2) ids)
  qed simp
  then have settled: "sched_entry (settled lib desired p) i = sched_entry ?q i" by (simp add: settled_def)
  with e stop_foldD(8) [of "dropped desired p" ?t i] have i: "sched_entry p i \<noteq> None"
    "i \<notin> (\<lambda>r. ctx_stream_id (pp_contexts p r)) ` set (dropped desired p)" by (auto split: if_splits)
  then obtain r where r: "map_of (pp_streams p) i = Some r" using table_okD(6) [OF p] by blast
  with none have "r \<in> set (dropped desired p)" by (auto simp: dropped_iff [OF p])
  with i(2) table_okD(4) [OF p r] show False by (auto simp: stream_ok_def Let_def)
qed

section \<open>The streams that are started\<close>

lemma desired_id: "map_of (buildMergedStreams configs) i = Some cfg \<Longrightarrow> sc_stream_id cfg = i"
proof -
  assume "map_of (buildMergedStreams configs) i = Some cfg"
  then have cs: "configs_of i configs \<noteq> []" "sc_stream_id cfg = sc_stream_id (last (configs_of i configs))"
    by (auto simp: buildMergedStreams_refines(2) merged_spec_def makeTransportStreamConfig_def split: if_splits)
  from cs(1) have "last (configs_of i configs) \<in> set (configs_of i configs)" by simp
  with cs(2) show ?thesis by (auto simp: configs_of_def)
qed

lemma desired_distinct: "distinct_keys (buildMergedStreams configs)"
  by (intro sorted_keys_distinct buildMergedStreams_refines(1))

lemma starts_ids:
  fixes configs defines "desired \<equiv> buildMergedStreams configs"
  assumes "table_ok p" "cfg \<in> set (starts desired p)"
  shows "map_of desired (sc_stream_id cfg) = Some cfg" "map_of (kept desired p) (sc_stream_id cfg) = None"
proof -
  from assms(3) obtain i where "map_of desired i = Some cfg \<and> map_of (kept desired p) i = None"
  proof (auto simp: starts_def, goal_cases)
    case 1
    then obtain i r where r: "(i, r) \<in> set (pp_streams p)" "\<not> stays desired (pp_contexts p) (i, r)"
      "map_of desired i = Some cfg" by (auto simp: changed_configs_def)
    have "map_of (pp_streams p) i = Some r" using r(1) table_okD(5) [OF assms(2), of i r] by simp
    moreover from this r(2) have "map_of (kept desired p) i = None"
      by (simp add: kept_def map_of_filter_distinct [OF table_okD(3) [OF assms(2)]])
    ultimately show ?case using 1 r(3) by blast
  next
    case (2 i)
    then show ?case using map_of_distinct_iff [OF desired_distinct, of configs i cfg] by (auto simp: desired_def)
  qed
  with desired_id [of configs i cfg] show "map_of desired (sc_stream_id cfg) = Some cfg"
    "map_of (kept desired p) (sc_stream_id cfg) = None" by (simp_all add: desired_def)
qed

lemma starts_all:
  fixes configs defines "desired \<equiv> buildMergedStreams configs"
  assumes "map_of desired i = Some cfg" "map_of (kept desired p) i = None"
  shows "cfg \<in> set (starts desired p)"
  using assms(2,3) map_of_SomeD [OF assms(2)] by (force simp: starts_def)

lemma started_starts:
  fixes configs n defines "desired \<equiv> buildMergedStreams configs"
  assumes "table_ok p"
  shows "started n (starts desired p) i = Some (r, c) \<Longrightarrow> map_of desired i = Some c \<and> map_of (kept desired p) i = None"
    and "started n (starts desired p) i = None \<longleftrightarrow> map_of desired i = None \<or> map_of (kept desired p) i \<noteq> None"
proof -
  show "map_of desired i = Some c \<and> map_of (kept desired p) i = None" if s: "started n (starts desired p) i = Some (r, c)" for r c
  proof -
    from started_Some [OF s] have "c \<in> set (starts desired p)" "sc_stream_id c = i" by auto
    with starts_ids [OF assms(2), of c configs] show ?thesis by (simp add: desired_def)
  qed
  show "started n (starts desired p) i = None \<longleftrightarrow> map_of desired i = None \<or> map_of (kept desired p) i \<noteq> None"
  proof
    assume "started n (starts desired p) i = None"
    then have no: "i \<notin> sc_stream_id ` set (starts desired p)" by (simp add: started_None)
    show "map_of desired i = None \<or> map_of (kept desired p) i \<noteq> None"
    proof (rule ccontr)
      assume "\<not> ?thesis"
      then obtain cfg where "map_of desired i = Some cfg" "map_of (kept desired p) i = None" by auto
      with starts_all [of configs i cfg p] desired_id [of configs i cfg] no show False by (force simp: desired_def)
    qed
  next
    assume "map_of desired i = None \<or> map_of (kept desired p) i \<noteq> None"
    then show "started n (starts desired p) i = None"
      using starts_ids [OF assms(2), of _ configs] by (auto simp: started_None desired_def)
  qed
qed

text \<open>The table after the batch.\<close>

lemma applied_table:
  fixes configs lib defines "desired \<equiv> buildMergedStreams configs"
  assumes p: "table_ok p"
  defines "p' \<equiv> applyConfigBatch lib (\<lambda>_. False) configs p"
  shows "map_of (pp_streams p') i =
    (case started (pp_next_ref p) (starts desired p) i of None \<Rightarrow> map_of (kept desired p) i | Some (r, c) \<Rightarrow> Some r)"
    "sorted_keys (pp_streams p')" "pp_infer_scheduler p' \<noteq> None" "pp_next_ref p' = pp_next_ref p + length (starts desired p)"
    "pp_pending_stop_streams p' = pp_pending_stop_streams p"
    "r < pp_next_ref p \<Longrightarrow> pp_contexts p' r = pp_contexts (settled lib desired p) r"
    "j < length (starts desired p) \<Longrightarrow> pp_contexts p' (pp_next_ref p + j) = built_context lib (starts desired p ! j) (pp_next_ref p + j)"
    "case started (pp_next_ref p) (starts desired p) i of
      None \<Rightarrow> sched_entry p' i = sched_entry (settled lib desired p) i
    | Some (r, c) \<Rightarrow> \<exists>e. sched_entry p' i = Some e \<and> se_config e = c \<and> se_buffer e = Some r"
proof -
  let ?m = "settled lib desired p"
  have p': "p' = start_all lib (starts desired p) ?m" by (simp add: p'_def apply_eq [OF p] desired_def)
  note fields = settled_fields [OF p, of lib desired] and start = start_fold [of lib "starts desired p" ?m]
  have sorted: "sorted_keys (pp_streams ?m)" using kept_sorted [OF p] by (simp add: fields)
  show "map_of (pp_streams p') i =
    (case started (pp_next_ref p) (starts desired p) i of None \<Rightarrow> map_of (kept desired p) i | Some (r, c) \<Rightarrow> Some r)"
    using start_fold_table [OF sorted, of lib "starts desired p" i] unfolding p' fields .
  show "sorted_keys (pp_streams p')" "pp_infer_scheduler p' \<noteq> None" "pp_next_ref p' = pp_next_ref p + length (starts desired p)"
    "pp_pending_stop_streams p' = pp_pending_stop_streams p" using start sorted fields by (simp_all add: p')
  show "r < pp_next_ref p \<Longrightarrow> pp_contexts p' r = pp_contexts ?m r" using start fields by (simp add: p')
  show "j < length (starts desired p) \<Longrightarrow> pp_contexts p' (pp_next_ref p + j) = built_context lib (starts desired p ! j) (pp_next_ref p + j)"
    using start_fold_contexts [of j "starts desired p" lib ?m] fields by (simp add: p')
  show "case started (pp_next_ref p) (starts desired p) i of
      None \<Rightarrow> sched_entry p' i = sched_entry ?m i
    | Some (r, c) \<Rightarrow> \<exists>e. sched_entry p' i = Some e \<and> se_config e = c \<and> se_buffer e = Some r"
    using start_fold_scheduler [OF fields(4), where cfgs = "starts desired p" and i = i and lib = lib] unfolding p' fields .
qed

lemma applied_stream:
  fixes configs lib defines "desired \<equiv> buildMergedStreams configs"
  assumes p: "table_ok p"
  defines "p' \<equiv> applyConfigBatch lib (\<lambda>_. False) configs p"
  assumes r: "map_of (pp_streams p') i = Some r"
  shows "\<exists>cfg. map_of desired i = Some cfg \<and> stream_ok p' i r \<and>
    isSameTransportStreamConfig (ctx_transport_config (pp_contexts p' r)) cfg \<and>
    (ctx_runtime_config (pp_contexts p' r) = cfg \<or>
      isSameRuntimeStreamConfig (lb_differencer lib) (ctx_runtime_config (pp_contexts p' r)) cfg)"
proof -
  note tab = applied_table [where configs = configs and lib = lib, OF p, folded desired_def p'_def]
  have same: "isSameTransportStreamConfig (makeTransportStreamConfig cfg) cfg" for cfg
    by (simp add: isSameTransportStreamConfig_def makeTransportStreamConfigView_def makeTransportStreamConfig_def default_StreamConfig_def)
  show ?thesis
  proof (cases "started (pp_next_ref p) (starts desired p) i")
    case (Some rc)
    then obtain c where s: "started (pp_next_ref p) (starts desired p) i = Some (r, c)" using r tab(1) [of i] by (cases rc) simp
    from started_Some [OF s] obtain j where j: "j < length (starts desired p)" "r = pp_next_ref p + j" "c = starts desired p ! j"
      "sc_stream_id c = i" by blast
    have ctx: "pp_contexts p' r = built_context lib c r" using tab(7) [OF j(1)] j by simp
    have "\<exists>e. sched_entry p' i = Some e \<and> se_config e = c \<and> se_buffer e = Some r" using tab(8) [of i] s by simp
    moreover have "r < pp_next_ref p'" using j tab(4) by simp
    ultimately have "stream_ok p' i r" by (simp add: stream_ok_def ctx j(4))
    with same ctx started_starts(1) [OF p, of "pp_next_ref p" configs i r c] s show ?thesis by (simp add: desired_def)
  next
    case None
    with r tab(1) [of i] have k: "map_of (kept desired p) i = Some r" by simp
    then obtain cfg where cfg: "map_of desired i = Some cfg"
      "isSameTransportStreamConfig (ctx_transport_config (pp_contexts p r)) cfg" and "map_of (pp_streams p) i = Some r"
      by (auto simp: kept_iff [OF p])
    then have "r < pp_next_ref p" using table_okD(4) [OF p] by (auto simp: stream_ok_def Let_def)
    note ctx = tab(6) [OF this] and k = settled_kept [OF p k cfg(1), of lib]
    have "stream_ok p' i r"
      using k(1) tab(8) [of i] None by (auto simp: stream_ok_def Let_def ctx settled_fields [OF p] tab(4))
    with k(2,3) cfg ctx show ?thesis by auto
  qed
qed

lemma applied_table_ok:
  assumes p: "table_ok p"
  shows "table_ok (applyConfigBatch lib (\<lambda>_. False) configs p)"
proof -
  let ?p' = "applyConfigBatch lib (\<lambda>_. False) configs p" and ?desired = "buildMergedStreams configs"
  note tab = applied_table [where configs = configs and lib = lib, OF p]
  have "map_of (pp_streams ?p') i \<noteq> None" if "sched_entry ?p' i \<noteq> None" for i
  proof (cases "started (pp_next_ref p) (starts ?desired p) i")
    case None
    with that tab(8) [of i] settled_scheduler [OF p] have "map_of (kept ?desired p) i \<noteq> None" by simp
    with None tab(1) [of i] show ?thesis by simp
  next
    case (Some rc)
    with tab(1) [of i] show ?thesis by (cases rc) simp
  qed
  with tab(2,3) applied_stream [where configs = configs and lib = lib, OF p] show ?thesis unfolding table_ok_def by blast
qed

section \<open>Streams that are started twice\<close>

definition stream_running :: "('e, 'h) Pipeline \<Rightarrow> string \<Rightarrow> stream_ref \<Rightarrow> bool" where
  "stream_running p i r \<longleftrightarrow>
     (let c = pp_contexts p r
      in ctx_stream_id c = i \<and> ctx_publish_thread c \<and> pu_running (ctx_puller c) \<and> \<not> ctx_stop_flag c)"

lemma starts_twice:
  fixes configs defines "desired \<equiv> buildMergedStreams configs"
  assumes p: "table_ok p" and r: "map_of (pp_streams p) i = Some r" and cfg: "map_of desired i = Some cfg"
    and changed: "\<not> isSameTransportStreamConfig (ctx_transport_config (pp_contexts p r)) cfg"
  shows "\<exists>j1 j2. j1 < j2 \<and> j2 < length (starts desired p) \<and> starts desired p ! j1 = cfg \<and> starts desired p ! j2 = cfg"
proof -
  let ?first = "changed_configs desired (pp_contexts p) (pp_streams p)"
    and ?second = "map snd (filter (\<lambda>(i, cfg). map_of (kept desired p) i = None) desired)"
  have "(i, r) \<in> set (pp_streams p)" using table_okD(5) [OF p] r by simp
  moreover have out: "\<not> stays desired (pp_contexts p) (i, r)" using cfg changed by (simp add: stays_def)
  ultimately have "cfg \<in> set ?first" using cfg by (force simp: changed_configs_def)
  then obtain j1 where j1: "j1 < length ?first" "?first ! j1 = cfg" by (auto simp: in_set_conv_nth)
  have "map_of (kept desired p) i = None"
    using out r by (simp add: kept_def map_of_filter_distinct [OF table_okD(3) [OF p]])
  with map_of_SomeD [OF cfg] have "cfg \<in> set ?second" by force
  then obtain j2 where j2: "j2 < length ?second" "?second ! j2 = cfg" unfolding in_set_conv_nth by blast
  have "starts desired p = ?first @ ?second" by (simp add: starts_def)
  with j1 j2 show ?thesis
    by (intro exI [of _ j1] exI [of _ "length ?first + j2"]) (simp add: nth_append)
qed

lemma pp_stop_context:
  assumes "r \<notin> snd ` set (pp_streams p)" "r \<notin> set (pp_pending_stop_streams p)"
  shows "pp_contexts (pp_stop p) r = pp_contexts p r"
  using assms by (simp add: pp_stop_def Let_def modify_statistics_def modify_scheduler_def stop_foldD(6))

section \<open>Properties\<close>


text \<open>A pipeline that has been started, and its configurations: camera 1, then camera 1 with another url.\<close>

definition ex_lib :: "(unit, unit) pipeline_library" where
  "ex_lib =
     \<lparr>lb_edge = \<lparr>edge_init = \<lambda>path. Some (), edge_infer = \<lambda>e img filters. (Some [], e)\<rparr>,
      lb_tracker = \<lparr>ma_tracker_create = \<lambda>c. None, ma_tracker_process = \<lambda>h f ds. (None, h), ma_tracker_reset = \<lambda>h. h\<rparr>,
      lb_differencer = \<lparr>same_algorithm = (=), same_tracker = (=)\<rparr>,
      lb_av = \<lparr>av_rescale_q = \<lambda>v b c. v, av_packet_rescale_ts = \<lambda>p b c. p\<rparr>,
      lb_sei = \<lparr>pl_allocate = \<lambda>n. True, pl_copy_props = \<lambda>p. True\<rparr>,
      lb_protobuf = ex_protobuf, lb_ids = \<lparr>id_h264 = 27, id_hevc = 173, id_vp8 = 139, id_vp9 = 167\<rparr>\<rparr>"

definition ex_app :: AppConfig where
  "ex_app =
     \<lparr>app_log = \<lparr>lg_level = ''info'', lg_output = ''file'', lg_log_dir = ''log'', lg_max_file_mb = 50, lg_max_files = 5\<rparr>,
      app_socket = \<lparr>so_socket_path = ''/tmp/media_agent.sock'', so_send_queue_size = 100, so_heartbeat_interval_s = 10,
        so_agent_id = ''a''\<rparr>,
      app_pipeline = \<lparr>pl_num_infer_threads = 3, pl_frame_queue_size = 200, pl_statistics_interval_s = 5\<rparr>\<rparr>"

definition ex_pipeline :: "(unit, unit) Pipeline" where
  "ex_pipeline = snd (pp_start (new_Pipeline ex_app new_Statistics
     (\<lambda>r. new_StreamContext ex_lib default_StreamConfig r) (\<lambda>r. createStreamBuffer [])))"

definition ex_agent :: "string \<Rightarrow> (int \<times> AgentConfig) list" where
  "ex_agent url = [(1, \<lparr>ag_agent_id = ''a'', ag_config_id = 1, ag_streams = [ex_stream ''cam'' url []]\<rparr>)]"

lemma ex_pipeline_ok:
  "table_ok ex_pipeline" "pp_pending_stop_streams ex_pipeline = []" "pp_streams ex_pipeline = []"
  by (simp_all add: table_ok_def ex_pipeline_def pp_start_def new_Pipeline_def ipc_start_def ss_start_def new_SocketSender_def
      Let_def sched_entry_def createRoundRobinInferScheduler_def)

lemma ex_desired:
  "url \<noteq> [] \<Longrightarrow> map_of (buildMergedStreams (ex_agent url)) i = (if i = ''cam'' then Some (ex_stream ''cam'' url []) else None)"
  by (simp add: buildMergedStreams_refines(2) ex_agent_def ex_stream_def configs_of_def mergeable_def merged_spec_def
      latest_algorithms_def latest_some_def makeTransportStreamConfig_def default_StreamConfig_def)




end
