(* ===== verification/InferSchedulerProofs.thy ===== *)
theory InferSchedulerProofs
  imports InferScheduler StreamBufferProofs
begin

text \<open>
  Correctness of the scheduler: its invariant, one inference in flight per stream, and the
  bounded waiting of round-robin. The scheduling theorems are proved once for every buffer
  that keeps the contract \<open>inference_source\<close>, and the stream buffer is shown to keep it.
\<close>

section \<open>Vocabulary\<close>

definition rr_inv :: "RoundRobinInferScheduler \<Rightarrow> bool" where
  "rr_inv s \<longleftrightarrow>
     distinct_keys (rr_entries s) \<and> distinct (rr_order s) \<and>
     set (rr_order s) = dom (map_of (rr_entries s)) \<and>
     (if rr_order s = [] then rr_cursor s = 0 else rr_cursor s < length (rr_order s))"

text \<open>The stream the scan looks at \<open>k\<close> places after the cursor.\<close>

definition rr_at :: "RoundRobinInferScheduler \<Rightarrow> nat \<Rightarrow> string" where
  "rr_at s k = rr_order s ! ((rr_cursor s + k) mod length (rr_order s))"

text \<open>A stream that may be picked: not in flight, and its buffer has a frame to give.\<close>

definition rr_eligible ::
  "('b \<Rightarrow> bool) \<Rightarrow> RoundRobinInferScheduler \<Rightarrow> 'b buffer_heap \<Rightarrow> string \<Rightarrow> bool"
where
  "rr_eligible ready s heap i =
     (case map_of (rr_entries s) i of
        None \<Rightarrow> False
      | Some e \<Rightarrow> \<not> se_inflight e \<and>
                   (case se_buffer e of None \<Rightarrow> False | Some ref \<Rightarrow> ready (heap ref)))"

text \<open>
  What happens between two changes of the set of streams: workers try to acquire, complete or
  cancel, a known stream gets a new configuration, and the other threads change the buffers.
\<close>

datatype 'b rr_event =
  is_acquire: EvAcquire
| EvComplete string int
| EvCancel string int
| EvReconfigure string StreamConfig "buffer_ref option"
| EvBuffers "'b buffer_heap \<Rightarrow> 'b buffer_heap"

fun rr_event_step ::
  "('b \<Rightarrow> FrameBundle option \<times> 'b) \<Rightarrow> 'b rr_event \<Rightarrow> RoundRobinInferScheduler \<times> 'b buffer_heap \<Rightarrow>
   string list \<times> RoundRobinInferScheduler \<times> 'b buffer_heap"
where
  "rr_event_step select EvAcquire (s, heap) =
     (case rr_tryAcquireLocked select s heap of
        (Some (task, s'), heap') \<Rightarrow> ([it_stream_id task], s', heap')
      | (None, heap') \<Rightarrow> ([], s, heap'))"
| "rr_event_step select (EvComplete i f) (s, heap) = ([], rr_completeTask i f s, heap)"
| "rr_event_step select (EvCancel i f) (s, heap) = ([], rr_cancelTask i f s, heap)"
| "rr_event_step select (EvReconfigure i c r) (s, heap) =
     ([], if i \<in> set (rr_order s) then rr_upsertStream i c r s else s, heap)"
| "rr_event_step select (EvBuffers g) (s, heap) = ([], s, g heap)"

text \<open>The streams served along a sequence of events.\<close>

fun rr_served ::
  "('b \<Rightarrow> FrameBundle option \<times> 'b) \<Rightarrow> 'b rr_event list \<Rightarrow> RoundRobinInferScheduler \<times> 'b buffer_heap \<Rightarrow> string list"
where
  "rr_served select [] st = []"
| "rr_served select (ev # evs) st =
     (case rr_event_step select ev st of (served, st') \<Rightarrow> served @ rr_served select evs st')"

text \<open>The stream can be picked at every acquisition along the sequence.\<close>

fun rr_keeps_waiting ::
  "('b \<Rightarrow> FrameBundle option \<times> 'b) \<Rightarrow> ('b \<Rightarrow> bool) \<Rightarrow> string \<Rightarrow> 'b rr_event list \<Rightarrow>
   RoundRobinInferScheduler \<times> 'b buffer_heap \<Rightarrow> bool"
where
  "rr_keeps_waiting select ready i [] st = True"
| "rr_keeps_waiting select ready i (ev # evs) st =
     ((is_acquire ev \<longrightarrow> rr_eligible ready (fst st) (snd st) i) \<and>
      rr_keeps_waiting select ready i evs (snd (rr_event_step select ev st)))"

definition rr_acquisitions :: "'b rr_event list \<Rightarrow> nat" where
  "rr_acquisitions evs = length (filter is_acquire evs)"

text \<open>The state after the stream \<open>k\<close> places behind the cursor has been picked.\<close>

definition rr_picked :: "nat \<Rightarrow> SchedulerEntry \<Rightarrow> RoundRobinInferScheduler \<Rightarrow> RoundRobinInferScheduler" where
  "rr_picked k e s =
     s\<lparr>rr_entries := AList.update (rr_at s k) (e\<lparr>se_inflight := True\<rparr>) (rr_entries s),
       rr_cursor := ((rr_cursor s + k) mod length (rr_order s) + 1) mod length (rr_order s)\<rparr>"

section \<open>The invariant\<close>

lemma rr_inv_new: "rr_inv createRoundRobinInferScheduler"
  by (simp add: rr_inv_def createRoundRobinInferScheduler_def)

lemma rr_inv_upsert: "rr_inv s \<Longrightarrow> rr_inv (rr_upsertStream i c b s)"
  by (auto simp: rr_inv_def rr_upsertStream_def Let_def dict_simps intro: wf_intros split: if_splits)

lemma rr_inv_remove: "rr_inv s \<Longrightarrow> rr_inv (rr_removeStream i s)"
  by (auto simp: rr_inv_def rr_removeStream_def Let_def dict_simps distinct_removeAll
      intro: wf_intros split: if_splits)

lemma rr_inv_clear: "rr_inv s \<Longrightarrow> rr_inv (rr_clear_inflight i s)"
  by (auto simp: rr_inv_def rr_clear_inflight_def dict_simps insert_absorb domI
      intro: wf_intros split: option.splits if_splits)

lemma rr_inv_stop: "rr_inv s \<Longrightarrow> rr_inv (rr_stop s)"
  by (simp add: rr_inv_def rr_stop_def)

lemma rr_at_picked: "rr_at (rr_picked k e s) j = rr_at s (k + 1 + j)"
proof -
  have "(((c + k) mod n + 1) mod n + j) mod n = (c + (k + 1 + j)) mod n" for c n :: nat
    by (simp add: mod_simps ac_simps)
  then show ?thesis by (simp add: rr_at_def rr_picked_def)
qed

lemma rr_at_surj:
  assumes "i \<in> set (rr_order s)" "rr_cursor s < length (rr_order s)"
  shows "\<exists>k < length (rr_order s). i = rr_at s k"
proof -
  let ?n = "length (rr_order s)"
  from assms(1) obtain j where j: "j < ?n" "i = rr_order s ! j" by (auto simp: in_set_conv_nth)
  show ?thesis
  proof (cases "rr_cursor s \<le> j")
    case True
    with j have "j - rr_cursor s < ?n" "i = rr_at s (j - rr_cursor s)"
      by (auto simp: rr_at_def)
    then show ?thesis by blast
  next
    case False
    with j assms(2) have "j + ?n - rr_cursor s < ?n" "i = rr_at s (j + ?n - rr_cursor s)"
      by (auto simp: rr_at_def)
    then show ?thesis by blast
  qed
qed

lemma rr_inv_cursor: "rr_inv s \<Longrightarrow> i \<in> set (rr_order s) \<Longrightarrow> rr_cursor s < length (rr_order s)"
  by (cases "rr_order s = []") (simp_all add: rr_inv_def)

lemmas rr_event_defs = rr_completeTask_def rr_cancelTask_def rr_clear_inflight_def
  rr_upsertStream_def Let_def

section \<open>What the scheduler needs of a buffer\<close>

locale inference_source =
  fixes select :: "'b \<Rightarrow> FrameBundle option \<times> 'b"
    and ready :: "'b \<Rightarrow> bool"
  assumes select_not_ready: "\<not> ready b \<Longrightarrow> select b = (None, b)"
    and select_ready: "ready b \<Longrightarrow> \<exists>f b'. select b = (Some f, b')"
begin

lemma scan_skip:
  "\<not> rr_eligible ready s heap (rr_at s k) \<Longrightarrow> rr_scan select s (k # ks) heap = rr_scan select s ks heap"
  by (auto simp: Let_def rr_at_def rr_eligible_def select_not_ready split: option.splits prod.splits)

lemma scan_hit:
  assumes "rr_eligible ready s heap (rr_at s k)"
  shows "\<exists>e ref f b. map_of (rr_entries s) (rr_at s k) = Some e \<and>
     \<not> se_inflight e \<and> se_buffer e = Some ref \<and> select (heap ref) = (Some f, b) \<and>
     rr_scan select s (k # ks) heap =
       (Some (\<lparr>it_stream_id = rr_at s k, it_config = se_config e, it_buffer = Some ref,
               it_frame = Some f\<rparr>, rr_picked k e s), heap(ref := b))"
proof -
  from assms obtain e ref where e: "map_of (rr_entries s) (rr_at s k) = Some e"
    "\<not> se_inflight e" "se_buffer e = Some ref" "ready (heap ref)"
    by (auto simp: rr_eligible_def split: option.splits)
  from select_ready [OF e(4)] obtain f b where "select (heap ref) = (Some f, b)" by blast
  with e show ?thesis by (simp add: Let_def rr_at_def rr_picked_def)
qed

lemma scan_skip_all:
  "\<forall>k \<in> set ks. \<not> rr_eligible ready s heap (rr_at s k) \<Longrightarrow>
     rr_scan select s (ks @ js) heap = rr_scan select s js heap"
proof (induction ks)
  case Nil
  then show ?case by simp
next
  case (Cons k ks)
  then have "rr_scan select s (k # ks @ js) heap = rr_scan select s (ks @ js) heap"
    by (intro scan_skip) simp
  with Cons show ?case by simp
qed

lemma tryAcquire_cases:
  obtains (none) "\<forall>k < length (rr_order s). \<not> rr_eligible ready s heap (rr_at s k)"
      "rr_tryAcquireLocked select s heap = (None, heap)"
  | (hit) k e ref f b where "k < length (rr_order s)" "\<forall>j < k. \<not> rr_eligible ready s heap (rr_at s j)"
      "map_of (rr_entries s) (rr_at s k) = Some e" "\<not> se_inflight e" "se_buffer e = Some ref"
      "select (heap ref) = (Some f, b)"
      "rr_tryAcquireLocked select s heap =
        (Some (\<lparr>it_stream_id = rr_at s k, it_config = se_config e, it_buffer = Some ref,
                it_frame = Some f\<rparr>, rr_picked k e s), heap(ref := b))"
proof (cases "List.find (\<lambda>k. rr_eligible ready s heap (rr_at s k)) [0..<length (rr_order s)]")
  case None
  then have all: "\<forall>k < length (rr_order s). \<not> rr_eligible ready s heap (rr_at s k)"
    by (auto simp: find_None_iff)
  then have "rr_tryAcquireLocked select s heap = (None, heap)"
    using scan_skip_all [of "[0..<length (rr_order s)]" s heap "[]"]
    by (simp add: rr_tryAcquireLocked_def)
  with all show ?thesis by (rule none)
next
  case (Some k)
  from find_Some_split [OF Some] obtain ks js where
    split: "[0..<length (rr_order s)] = ks @ k # js" and el: "rr_eligible ready s heap (rr_at s k)"
    and skip: "\<forall>j \<in> set ks. \<not> rr_eligible ready s heap (rr_at s j)" by blast
  have k: "k < length (rr_order s)" "ks = [0..<k]"
    using upt_split_Cons [OF split] by simp_all
  have "rr_order s \<noteq> []" using k by auto
  then have "rr_tryAcquireLocked select s heap = rr_scan select s (k # js) heap"
    using scan_skip_all [OF skip, of "k # js"] by (simp add: rr_tryAcquireLocked_def split)
  with scan_hit [OF el, of js] k skip show ?thesis by (auto intro: hit)
qed

lemma rr_inv_picked:
  assumes "rr_inv s" "k < length (rr_order s)" "map_of (rr_entries s) (rr_at s k) = Some e"
  shows "rr_inv (rr_picked k e s)"
  using assms
  by (auto simp: rr_inv_def rr_picked_def dict_simps insert_absorb domI intro: wf_intros)

lemma tryAcquire_progress:
  assumes "d < length (rr_order s)" "rr_eligible ready s heap (rr_at s d)"
  shows "\<exists>k task s' heap'. rr_tryAcquireLocked select s heap = (Some (task, s'), heap') \<and> k \<le> d \<and>
     it_stream_id task = rr_at s k \<and> rr_order s' = rr_order s \<and>
     (k < d \<longrightarrow> rr_at s' (d - k - 1) = rr_at s d)"
proof (rule tryAcquire_cases [of s heap])
  assume "\<forall>k < length (rr_order s). \<not> rr_eligible ready s heap (rr_at s k)"
  with assms show ?thesis by blast
next
  fix k e ref f b
  assume hit: "k < length (rr_order s)" "\<forall>j < k. \<not> rr_eligible ready s heap (rr_at s j)"
    "rr_tryAcquireLocked select s heap =
        (Some (\<lparr>it_stream_id = rr_at s k, it_config = se_config e, it_buffer = Some ref,
                it_frame = Some f\<rparr>, rr_picked k e s), heap(ref := b))"
  have "k \<le> d" using hit(2) assms(2) by (meson leI)
  moreover have "rr_at (rr_picked k e s) (d - k - 1) = rr_at s d" if "k < d"
    using that by (simp add: rr_at_picked)
  ultimately show ?thesis using hit(3) by (auto simp: rr_picked_def)
qed

lemma served_in_time:
  assumes "d < rr_acquisitions evs" "d < length (rr_order s)" "rr_at s d = i"
    "rr_keeps_waiting select ready i evs (s, heap)"
  shows "i \<in> set (rr_served select evs (s, heap))"
  using assms
proof (induction evs arbitrary: d s heap)
  case Nil
  then show ?case by (simp add: rr_acquisitions_def)
next
  case (Cons ev evs)
  show ?case
  proof (cases "ev = EvAcquire")
    case True
    from Cons.prems True have "rr_eligible ready s heap (rr_at s d)" by simp
    from tryAcquire_progress [OF Cons.prems(2) this] obtain k task s' heap' where
      acq: "rr_tryAcquireLocked select s heap = (Some (task, s'), heap')" "k \<le> d"
      "it_stream_id task = rr_at s k" "rr_order s' = rr_order s"
      "k < d \<longrightarrow> rr_at s' (d - k - 1) = rr_at s d" by blast
    show ?thesis
    proof (cases "k = d")
      case True
      with acq Cons.prems(3) \<open>ev = EvAcquire\<close> show ?thesis by simp
    next
      case False
      with acq(2) have "k < d" by simp
      with acq Cons.prems \<open>ev = EvAcquire\<close> have "i \<in> set (rr_served select evs (s', heap'))"
        by (intro Cons.IH [of "d - k - 1"]) (auto simp: rr_acquisitions_def)
      with acq(1) \<open>ev = EvAcquire\<close> show ?thesis by simp
    qed
  next
    case False
    obtain out s' heap' where step: "rr_event_step select ev (s, heap) = (out, s', heap')"
      by (cases "rr_event_step select ev (s, heap)") auto
    have "rr_order s' = rr_order s" "rr_cursor s' = rr_cursor s"
      using step False by (cases ev; auto simp: rr_event_defs split: if_splits option.splits)+
    with Cons.prems False step have "i \<in> set (rr_served select evs (s', heap'))"
      by (intro Cons.IH [of d]) (auto simp: rr_at_def rr_acquisitions_def is_acquire_def)
    with step show ?thesis by simp
  qed
qed

end

section \<open>The stream buffer is an inference source\<close>

definition sb_ready :: "StreamBuffer \<Rightarrow> bool" where
  "sb_ready b \<longleftrightarrow> list_ex (sb_selectable (sb_frames b)) (sb_frame_order b)"

interpretation sb_source: inference_source sb_selectFrameForInference sb_ready
proof
  fix b
  assume "\<not> sb_ready b"
  then have "List.find (sb_selectable (sb_frames b)) (rev (sb_frame_order b)) = None"
    by (auto simp: sb_ready_def list_ex_iff find_None_iff)
  then show "sb_selectFrameForInference b = (None, b)"
    by (simp add: sb_selectFrameForInference_def)
next
  fix b
  assume "sb_ready b"
  then have "\<not> (\<forall>i \<in> set (sb_frame_order b). \<not> sb_selectable (sb_frames b) i)"
    by (auto simp: sb_ready_def list_ex_iff)
  then show "\<exists>f b'. sb_selectFrameForInference b = (Some f, b')"
    by (cases rule: select_cases [of b]) auto
qed

section \<open>Tasks in flight\<close>

text \<open>
  The system of one scheduler, the buffers and the list of streams whose task a worker holds.
  A worker completes or cancels only a task it holds. A stream is removed only while no worker
  holds a task of it.
\<close>

type_synonym 'b sched_state = "RoundRobinInferScheduler \<times> 'b buffer_heap \<times> string list"

inductive sched_step ::
  "('b \<Rightarrow> FrameBundle option \<times> 'b) \<Rightarrow> 'b sched_state \<Rightarrow> 'b sched_state \<Rightarrow> bool" for select
where
  upsert: "sched_step select (s, heap, held) (rr_upsertStream i c r s, heap, held)"
| remove: "i \<notin> set held \<Longrightarrow> sched_step select (s, heap, held) (rr_removeStream i s, heap, held)"
| acquire: "rr_tryAcquireLocked select s heap = (Some (task, s'), heap') \<Longrightarrow>
    sched_step select (s, heap, held) (s', heap', it_stream_id task # held)"
| complete: "i \<in> set held \<Longrightarrow>
    sched_step select (s, heap, held) (rr_completeTask i f s, heap, remove1 i held)"
| cancel: "i \<in> set held \<Longrightarrow>
    sched_step select (s, heap, held) (rr_cancelTask i f s, heap, remove1 i held)"
| buffers: "sched_step select (s, heap, held) (s, heap', held)"
| stop: "sched_step select (s, heap, held) (rr_stop s, heap, held)"

inductive sched_reachable ::
  "('b \<Rightarrow> FrameBundle option \<times> 'b) \<Rightarrow> 'b buffer_heap \<Rightarrow> 'b sched_state \<Rightarrow> bool" for select heap
where
  start: "sched_reachable select heap (createRoundRobinInferScheduler, heap, [])"
| step: "sched_reachable select heap st \<Longrightarrow> sched_step select st st' \<Longrightarrow> sched_reachable select heap st'"

definition held_inv :: "'b sched_state \<Rightarrow> bool" where
  "held_inv = (\<lambda>(s, heap, held). rr_inv s \<and> distinct held \<and> set held \<subseteq> dom (map_of (rr_entries s)) \<and>
     (\<forall>i e. map_of (rr_entries s) i = Some e \<longrightarrow> (se_inflight e \<longleftrightarrow> i \<in> set held)))"

lemma held_inv_clear:
  assumes "held_inv (s, heap, held)" "i \<in> set held"
  shows "held_inv (rr_clear_inflight i s, heap, remove1 i held)"
proof -
  from assms obtain e where e: "map_of (rr_entries s) i = Some e" by (auto simp: held_inv_def)
  from assms have "rr_inv (rr_clear_inflight i s)" by (simp add: held_inv_def rr_inv_clear)
  with assms e show ?thesis
    by (auto simp: held_inv_def rr_clear_inflight_def dict_simps)
qed

context inference_source
begin

lemma held_inv_acquire:
  assumes "held_inv (s, heap, held)" "rr_tryAcquireLocked select s heap = (Some (task, s'), heap')"
  shows "held_inv (s', heap', it_stream_id task # held)"
proof (rule tryAcquire_cases [of s heap])
  fix k e ref f b
  assume hit: "k < length (rr_order s)" "map_of (rr_entries s) (rr_at s k) = Some e" "\<not> se_inflight e"
    "rr_tryAcquireLocked select s heap =
        (Some (\<lparr>it_stream_id = rr_at s k, it_config = se_config e, it_buffer = Some ref,
                it_frame = Some f\<rparr>, rr_picked k e s), heap(ref := b))"
  have "rr_inv s'"
    using assms hit rr_inv_picked [of s k e] by (auto simp: held_inv_def)
  with assms hit show ?thesis
    by (auto simp: held_inv_def rr_picked_def dict_simps split: if_splits)
qed (use assms in simp)

lemma held_inv_step: "sched_step select st st' \<Longrightarrow> held_inv st \<Longrightarrow> held_inv st'"
proof (induction rule: sched_step.induct)
  case (upsert s heap held i c r)
  then have "rr_inv (rr_upsertStream i c r s)" by (simp add: held_inv_def rr_inv_upsert)
  with upsert show ?case
    by (auto simp: held_inv_def rr_upsertStream_def Let_def dict_simps split: option.splits if_splits)
next
  case (remove i held s heap)
  then have "rr_inv (rr_removeStream i s)" by (simp add: held_inv_def rr_inv_remove)
  with remove show ?case
    by (auto simp: held_inv_def rr_removeStream_def Let_def dict_simps split: if_splits)
next
  case (acquire s heap task s' heap' held)
  then show ?case by (blast intro: held_inv_acquire)
next
  case (complete i held s heap f)
  then show ?case by (simp add: rr_completeTask_def held_inv_clear)
next
  case (cancel i held s heap f)
  then show ?case by (simp add: rr_cancelTask_def held_inv_clear)
next
  case (buffers s heap held heap')
  then show ?case by (simp add: held_inv_def)
next
  case (stop s heap held)
  then show ?case by (simp add: held_inv_def rr_inv_stop) (simp add: rr_stop_def)
qed

lemma held_inv_reachable: "sched_reachable select heap0 st \<Longrightarrow> held_inv st"
proof (induction rule: sched_reachable.induct)
  case start
  show ?case
    by (simp add: held_inv_def rr_inv_new) (simp add: createRoundRobinInferScheduler_def)
next
  case (step st st')
  then show ?case by (blast intro: held_inv_step)
qed

end

section \<open>Example for the witnesses\<close>

definition ex_sched :: RoundRobinInferScheduler where
  "ex_sched = rr_upsertStream ''b'' default_StreamConfig (Some 1)
     (rr_upsertStream ''a'' default_StreamConfig (Some 0) createRoundRobinInferScheduler)"

definition ex_heap :: "StreamBuffer buffer_heap" where
  "ex_heap = (\<lambda>_. ex_buffer)"

lemma ex_sched_simps:
  "rr_order ex_sched = [''a'', ''b'']" "rr_cursor ex_sched = 0" "rr_stopped ex_sched = False"
  "rr_entries ex_sched =
     [(''a'', \<lparr>se_config = default_StreamConfig, se_buffer = Some 0, se_inflight = False\<rparr>),
      (''b'', \<lparr>se_config = default_StreamConfig, se_buffer = Some 1, se_inflight = False\<rparr>)]"
  by (simp_all add: ex_sched_def rr_upsertStream_def createRoundRobinInferScheduler_def)

lemma ex_sched_inv: "rr_inv ex_sched"
  unfolding ex_sched_def by (intro rr_inv_upsert rr_inv_new)

lemma ex_buffer_select:
  "fst (sb_selectFrameForInference ex_buffer) = Some (ex_frame 1\<lparr>fb_infer_state := Selected\<rparr>)"
  by (simp add: ex_defs sb_selectFrameForInference_def sb_selectable_def Let_def)

lemma ex_buffer_ready: "sb_ready ex_buffer"
  by (simp add: sb_ready_def ex_defs sb_selectable_def)

lemma ex_sched_acquire:
  "\<exists>task s' heap'. rr_tryAcquireLocked sb_selectFrameForInference ex_sched ex_heap = (Some (task, s'), heap') \<and>
     it_stream_id task = ''a'' \<and> rr_cursor s' = 1 \<and> rr_eligible sb_ready s' heap' ''b''"
  using ex_buffer_select
  by (cases "sb_selectFrameForInference ex_buffer")
    (simp add: rr_tryAcquireLocked_def upt_rec ex_sched_simps ex_heap_def Let_def rr_eligible_def
      ex_buffer_ready)

section \<open>Properties\<close>

text \<open>
  C9. \<open>tryAcquireLocked\<close> serves the first stream after the cursor, in cyclic order, that is not
  in flight and whose buffer has a decoded idle frame. It fails only when there is no such
  stream, and then changes nothing. On success it marks exactly that stream as in flight and moves
  the cursor one place behind it.
\<close>

theorem tryAcquire_round_robin:
  assumes "rr_inv s"
  shows "case rr_tryAcquireLocked sb_selectFrameForInference s heap of
      (None, heap') \<Rightarrow> heap' = heap \<and> (\<forall>i \<in> set (rr_order s). \<not> rr_eligible sb_ready s heap i)
    | (Some (task, s'), heap') \<Rightarrow>
        (\<exists>k < length (rr_order s). it_stream_id task = rr_at s k \<and>
           rr_eligible sb_ready s heap (rr_at s k) \<and>
           (\<forall>j < k. \<not> rr_eligible sb_ready s heap (rr_at s j)) \<and>
           rr_cursor s' = (rr_cursor s + k + 1) mod length (rr_order s)) \<and>
        rr_order s' = rr_order s \<and>
        (\<exists>e ref. map_of (rr_entries s) (it_stream_id task) = Some e \<and> se_buffer e = Some ref \<and>
           map_of (rr_entries s') = (map_of (rr_entries s))(it_stream_id task \<mapsto> e\<lparr>se_inflight := True\<rparr>) \<and>
           it_buffer task = Some ref \<and>
           (it_frame task, heap' ref) = sb_selectFrameForInference (heap ref) \<and>
           (\<forall>r. r \<noteq> ref \<longrightarrow> heap' r = heap r))"
proof (rule sb_source.tryAcquire_cases [of s heap])
  assume none: "\<forall>k < length (rr_order s). \<not> rr_eligible sb_ready s heap (rr_at s k)"
    "rr_tryAcquireLocked sb_selectFrameForInference s heap = (None, heap)"
  have "\<exists>k < length (rr_order s). i = rr_at s k" if "i \<in> set (rr_order s)" for i
    using that rr_inv_cursor [OF assms that] by (rule rr_at_surj)
  with none show ?thesis by auto
next
  fix k e ref f b
  assume hit: "k < length (rr_order s)" "\<forall>j < k. \<not> rr_eligible sb_ready s heap (rr_at s j)"
      "map_of (rr_entries s) (rr_at s k) = Some e" "\<not> se_inflight e" "se_buffer e = Some ref"
      "sb_selectFrameForInference (heap ref) = (Some f, b)"
      "rr_tryAcquireLocked sb_selectFrameForInference s heap =
        (Some (\<lparr>it_stream_id = rr_at s k, it_config = se_config e, it_buffer = Some ref,
                it_frame = Some f\<rparr>, rr_picked k e s), heap(ref := b))"
  have "sb_ready (heap ref)" using hit(6) sb_source.select_not_ready [of "heap ref"] by force
  then have "rr_eligible sb_ready s heap (rr_at s k)" using hit by (simp add: rr_eligible_def)
  with hit show ?thesis
    by (auto simp: rr_picked_def dict_simps mod_Suc_eq intro!: exI [of _ k])
qed

theorem tryAcquire_round_robin_witness:
  "rr_inv ex_sched \<and>
   (\<exists>task s' heap'. rr_tryAcquireLocked sb_selectFrameForInference ex_sched ex_heap = (Some (task, s'), heap') \<and>
      it_stream_id task = ''a'' \<and> it_buffer task = Some 0)"
proof -
  obtain task s' heap' where
    acq: "rr_tryAcquireLocked sb_selectFrameForInference ex_sched ex_heap = (Some (task, s'), heap')"
    "it_stream_id task = ''a''"
    using ex_sched_acquire by blast
  with tryAcquire_round_robin [OF ex_sched_inv, of ex_heap] have "it_buffer task = Some 0"
    by (auto simp: ex_sched_simps)
  with acq ex_sched_inv show ?thesis by blast
qed

text \<open>
  C7. Round-robin has bounded waiting: as long as the set of streams does not change, a
  stream that can be served whenever a worker acquires is served within as many
  acquisitions as there are streams, whatever the workers and the other threads do in between.
\<close>

theorem round_robin_bounded_waiting:
  assumes "rr_inv s" "i \<in> set (rr_order s)" "length (rr_order s) \<le> rr_acquisitions evs"
    "rr_keeps_waiting sb_selectFrameForInference sb_ready i evs (s, heap)"
  shows "i \<in> set (rr_served sb_selectFrameForInference evs (s, heap))"
proof -
  from rr_at_surj [OF assms(2) rr_inv_cursor [OF assms(1,2)]] obtain d
    where "d < length (rr_order s)" "i = rr_at s d" by blast
  with assms(3,4) show ?thesis by (intro sb_source.served_in_time [of d]) simp_all
qed

theorem round_robin_bounded_waiting_witness:
  "rr_inv ex_sched \<and>
   rr_keeps_waiting sb_selectFrameForInference sb_ready ''b'' [EvAcquire, EvAcquire] (ex_sched, ex_heap) \<and>
   ''b'' \<in> set (rr_served sb_selectFrameForInference [EvAcquire, EvAcquire] (ex_sched, ex_heap))"
proof -
  have "rr_eligible sb_ready ex_sched ex_heap ''b''"
    by (simp add: rr_eligible_def ex_sched_simps ex_heap_def ex_buffer_ready)
  then have wait: "rr_keeps_waiting sb_selectFrameForInference sb_ready ''b'' [EvAcquire, EvAcquire] (ex_sched, ex_heap)"
    using ex_sched_acquire by auto
  have "''b'' \<in> set (rr_order ex_sched)" "length (rr_order ex_sched) \<le> rr_acquisitions [EvAcquire, EvAcquire]"
    by (simp_all add: ex_sched_simps rr_acquisitions_def)
  with round_robin_bounded_waiting [OF ex_sched_inv _ _ wait] ex_sched_inv wait show ?thesis by simp
qed

text \<open>
  C8. One inference in flight per stream: as long as no stream is removed while a worker holds a
  task of it, in every reachable state the streams of the held tasks are pairwise distinct and
  an entry is marked in flight exactly when a worker holds its task.
\<close>

theorem single_flight:
  assumes "sched_reachable sb_selectFrameForInference heap0 (s, heap, held)"
  shows "distinct held \<and>
    (\<forall>i e. map_of (rr_entries s) i = Some e \<longrightarrow> (se_inflight e \<longleftrightarrow> i \<in> set held))"
  using sb_source.held_inv_reachable [OF assms] by (simp add: held_inv_def)

theorem single_flight_witness:
  "\<exists>s heap held. sched_reachable sb_selectFrameForInference ex_heap (s, heap, held) \<and>
     held = [''a''] \<and> distinct held"
proof -
  have "sched_reachable sb_selectFrameForInference ex_heap
      (rr_upsertStream ''a'' default_StreamConfig (Some 0) createRoundRobinInferScheduler, ex_heap, [])"
    by (rule sched_reachable.step [OF sched_reachable.start]) (rule sched_step.upsert)
  then have "sched_reachable sb_selectFrameForInference ex_heap (ex_sched, ex_heap, [])"
    unfolding ex_sched_def by (rule sched_reachable.step) (rule sched_step.upsert)
  moreover obtain task s' heap' where
    acq: "rr_tryAcquireLocked sb_selectFrameForInference ex_sched ex_heap = (Some (task, s'), heap')"
    "it_stream_id task = ''a''"
    using ex_sched_acquire by blast
  ultimately have "sched_reachable sb_selectFrameForInference ex_heap (s', heap', [''a''])"
    using sched_reachable.step sched_step.acquire [OF acq(1), of "[]"] by fastforce
  then show ?thesis using single_flight by blast
qed

text \<open>
  Without that condition the promise of \<open>InferScheduler.h\<close> (one in-flight inference per
  stream) fails: a stream that is removed and registered again while a worker holds its old
  task gets a fresh entry; the old task's \<open>completeTask\<close> then clears the flag of the new
  entry, and a second task of the same stream and buffer is handed out while the first is
  still held.
\<close>

theorem restart_breaks_single_flight:
  "\<exists>t1 s1 h1 t2 s2 h2 t3 s3 h3.
     rr_tryAcquireLocked sb_selectFrameForInference
       (rr_upsertStream ''a'' default_StreamConfig (Some 0) createRoundRobinInferScheduler)
       ex_heap = (Some (t1, s1), h1) \<and>
     rr_tryAcquireLocked sb_selectFrameForInference
       (rr_upsertStream ''a'' default_StreamConfig (Some 2) (rr_removeStream ''a'' s1))
       h1 = (Some (t2, s2), h2) \<and>
     rr_tryAcquireLocked sb_selectFrameForInference
       (rr_completeTask (it_stream_id t1) 1 s2)
       (h2(2 := snd (sb_enqueueFrame (Some (ex_frame 2)) (h2 2)))) = (Some (t3, s3), h3) \<and>
     it_stream_id t2 = ''a'' \<and> it_stream_id t3 = ''a'' \<and> it_buffer t2 = Some 2 \<and> it_buffer t3 = Some 2"
  by (simp add: rr_tryAcquireLocked_def upt_rec rr_upsertStream_def rr_removeStream_def
      rr_completeTask_def rr_clear_inflight_def createRoundRobinInferScheduler_def
      ex_heap_def ex_defs Let_def sb_selectFrameForInference_def sb_selectable_def sb_mark_done_def)

end
