(* ===== verification/DetectorProofs.thy ===== *)
theory DetectorProofs
  imports Detector
begin

text \<open>
  Properties of the detector: what one call of \<open>detect\<close> returns, and what the deduplication of alarms
  promises over a whole run of frames. The promise is stated with a reference that keeps
  the complete log of the alarms raised, where the code keeps one time per key and forgets it
  when it has expired.
\<close>

section \<open>One call of detect\<close>

text \<open>What a result that belongs to a frame has; the alternative is the empty result.\<close>

definition frame_result_ok :: "FrameBundle \<Rightarrow> StreamConfig \<Rightarrow> FrameInferenceResult \<Rightarrow> bool" where
  "frame_result_ok frame cfg out \<longleftrightarrow>
     fr_stream_id out = fb_stream_id frame \<and> fr_frame_id out = fb_frame_id frame \<and> fr_pts out = fb_pts frame \<and>
     fr_expire_at_mono_ms out = fr_infer_done_mono_ms out + 5000 \<and>
     fr_algorithm_id out \<in> set (map al_algorithm_id (sc_algorithms cfg)) \<and>
     list_all hasDetectionTarget (fr_objects out) \<and>
     subseq (fr_alarm_objects out) (fr_objects out)"

definition empty_result :: "FrameInferenceResult \<Rightarrow> bool" where
  "empty_result out \<longleftrightarrow>
     fr_frame_id out = -1 \<and> fr_objects out = [] \<and> fr_alarm_objects out = [] \<and> fr_expire_at_mono_ms out = 0"

lemma keep_objects_subseq: "keep_objects cfg now w objs s = (kept, s') \<Longrightarrow> subseq kept objs"
  by (induction objs arbitrary: s kept s') (auto split: prod.splits if_splits)

lemma run_dedup_fields:
  assumes "run_dedup ms cfg output s = (out, s')"
  shows "subseq (fr_alarm_objects out) (fr_objects out)"
    and "out = output\<lparr>fr_alarm_objects := fr_alarm_objects out\<rparr>"
  using assms by (auto simp: run_dedup_def Let_def split: if_splits prod.splits dest: keep_objects_subseq)

lemma run_tracking_fields:
  assumes "run_tracking lib pb frame cfg output s = (out, s')"
  shows "list_all2 same_but_id (fr_objects output) (fr_objects out)"
    and "out = output\<lparr>fr_objects := fr_objects out\<rparr>"
  using assms
  by (auto simp: run_tracking_def split: if_splits prod.splits option.splits bool.splits dest: bt_track_names)

lemma same_but_id_targets:
  "list_all2 same_but_id xs ys \<Longrightarrow> list_all hasDetectionTarget xs \<Longrightarrow> list_all hasDetectionTarget ys"
  by (induction rule: list_all2_induct) (auto simp: hasDetectionTarget_def dest: same_but_idD)

lemma active_algorithm_in:
  assumes "runPreprocessSteps now cfg new_AlgoDetectContext = (True, context)"
  shows "cx_has_alarm_config context" "cx_alarm_config context \<in> set (sc_algorithms cfg)"
proof -
  have "a \<in> set (sc_algorithms cfg)"
    if "map snd (filter P (enumerate 0 (sc_algorithms cfg))) = a # as" for P a as
  proof -
    from that have "a \<in> set (map snd (filter P (enumerate 0 (sc_algorithms cfg))))" by (simp del: set_map)
    then show ?thesis by (auto simp: in_set_enumerate_eq)
  qed
  note first = this
  have "b \<in> set (sc_algorithms cfg)"
    if "filter P (enumerate 0 (sc_algorithms cfg)) = (i, b) # zs" for P i b zs
    using first [of P b "map snd zs"] that by simp
  with assms show "cx_has_alarm_config context" "cx_alarm_config context \<in> set (sc_algorithms cfg)"
    by (auto simp: runPreprocessSteps_def createDefaultPreprocessSteps_def ActiveAlgorithmPreprocessStep_def InferFilterPreprocessStep_def
        Let_def split: list.splits prod.splits if_splits bool.splits)
qed

lemma postprocess_ok:
  assumes "cx_has_alarm_config context" "cx_alarm_config context \<in> set (sc_algorithms cfg)"
    and "fr_expire_at_mono_ms output = fr_infer_done_mono_ms output + 5000"
    and "runPostprocessSteps lib pb ms frame cfg context results output d = (out, d')"
  shows "frame_result_ok frame cfg out"
proof -
  let ?f = "FormatInferResultPostprocessStep frame context results output"
  obtain tracked ts dd where t: "run_tracking lib pb frame cfg ?f (ad_tracking d) = (tracked, ts)"
    and o: "run_dedup ms cfg tracked (ad_dedup d) = (out, dd)"
    using assms(4) by (auto simp: runPostprocessSteps_def createDefaultPostprocessSteps_def split: prod.splits)
  note T = run_tracking_fields [OF t] and D = run_dedup_fields [OF o]
  have objects: "fr_objects out = fr_objects tracked" by (subst D(2)) simp
  have "list_all hasDetectionTarget (fr_objects tracked)"
    by (rule same_but_id_targets [OF T(1)]) (simp add: FormatInferResultPostprocessStep_def list_all_iff)
  moreover have "fr_stream_id out = fr_stream_id ?f" "fr_frame_id out = fr_frame_id ?f" "fr_pts out = fr_pts ?f"
    "fr_algorithm_id out = fr_algorithm_id ?f" "fr_expire_at_mono_ms out = fr_expire_at_mono_ms output"
    "fr_infer_done_mono_ms out = fr_infer_done_mono_ms output"
    by (subst D(2), subst T(2), simp add: FormatInferResultPostprocessStep_def)+
  ultimately show ?thesis
    using assms(1-3) D(1) objects
    by (simp add: frame_result_ok_def FormatInferResultPostprocessStep_def)
qed

lemma empty_new_result [simp]:
  "empty_result new_FrameInferenceResult"
  "empty_result (new_FrameInferenceResult\<lparr>fr_infer_start_mono_ms := ms\<rparr>)"
  by (simp_all add: empty_result_def new_FrameInferenceResult_def)

lemma infer_frame_result:
  assumes "runPreprocessSteps now cfg new_AlgoDetectContext = (True, context)"
  shows "empty_result (fst (infer_frame elib tlib pb clock frame cfg context e img d)) \<or>
    frame_result_ok frame cfg (fst (infer_frame elib tlib pb clock frame cfg context e img d))"
  by (auto simp: infer_frame_def Let_def kDetectionTtlMs_def split: option.splits prod.splits
      intro: postprocess_ok [OF active_algorithm_in [OF assms] _ surjective_pairing])

section \<open>Deduplication over a run\<close>

datatype alarm_key = ByObject u32 | ByClass u32

definition alarm_key :: "StreamConfig \<Rightarrow> DetectionObject \<Rightarrow> alarm_key" where
  "alarm_key cfg object =
     (if tracker_enabled cfg \<and> ob_object_id object > 0 then ByObject (ob_object_id object)
      else ByClass (ob_class_id object))"

text \<open>The step on a sequence of results, each with the reading of the clock.\<close>

fun dedup_run ::
  "StreamConfig \<Rightarrow> (int \<times> FrameInferenceResult) list \<Rightarrow> DeduplicateAlarmPostprocessStep \<Rightarrow> DetectionObject list list"
where
  "dedup_run cfg [] s = []"
| "dedup_run cfg ((ms, output) # rest) s =
     (case run_dedup ms cfg output s of (out, s') \<Rightarrow> fr_alarm_objects out # dedup_run cfg rest s')"

definition dedup_time :: "int \<times> FrameInferenceResult \<Rightarrow> int" where
  "dedup_time p = (if fr_infer_done_mono_ms (snd p) > 0 then fr_infer_done_mono_ms (snd p) else fst p)"

text \<open>The reference: an alarm is raised unless the log holds one of its key within the window.\<close>

type_synonym alarm_log = "(alarm_key \<times> int) list"

definition alarmed_within :: "int \<Rightarrow> alarm_log \<Rightarrow> alarm_key \<Rightarrow> int \<Rightarrow> bool" where
  "alarmed_within w hist k now \<longleftrightarrow> list_ex (\<lambda>(k', t). k' = k \<and> now - t < w) hist"

fun ref_keep :: "StreamConfig \<Rightarrow> int \<Rightarrow> int \<Rightarrow> DetectionObject list \<Rightarrow> alarm_log \<Rightarrow> DetectionObject list \<times> alarm_log" where
  "ref_keep cfg now w [] hist = ([], hist)"
| "ref_keep cfg now w (object # objects) hist =
     (if alarmed_within w hist (alarm_key cfg object) now then ref_keep cfg now w objects hist
      else case ref_keep cfg now w objects (hist @ [(alarm_key cfg object, now)]) of
             (kept, hist') \<Rightarrow> (object # kept, hist'))"

fun ref_run :: "StreamConfig \<Rightarrow> (int \<times> FrameInferenceResult) list \<Rightarrow> alarm_log \<Rightarrow> DetectionObject list list \<times> alarm_log" where
  "ref_run cfg [] hist = ([], hist)"
| "ref_run cfg (p # rest) hist =
     (case ref_keep cfg (dedup_time p) (getAlarmDedupWindowMs cfg) (fr_objects (snd p)) hist of
        (kept, hist') \<Rightarrow> (case ref_run cfg rest hist' of (keeps, hist'') \<Rightarrow> (kept # keeps, hist'')))"

fun last_alarm :: "DeduplicateAlarmPostprocessStep \<Rightarrow> alarm_key \<Rightarrow> int option" where
  "last_alarm s (ByObject i) = map_of (dd_by_object s) i"
| "last_alarm s (ByClass c) = map_of (dd_by_class s) c"

definition dedup_wf :: "DeduplicateAlarmPostprocessStep \<Rightarrow> bool" where
  "dedup_wf s \<longleftrightarrow> distinct_keys (dd_by_object s) \<and> distinct_keys (dd_by_class s)"

text \<open>The state of the step against the log, at time \<open>T\<close>.\<close>

definition dedup_inv :: "int \<Rightarrow> int \<Rightarrow> DeduplicateAlarmPostprocessStep \<Rightarrow> alarm_log \<Rightarrow> bool" where
  "dedup_inv w T s hist \<longleftrightarrow> dedup_wf s \<and> (\<forall>k t. (k, t) \<in> set hist \<longrightarrow> t \<le> T) \<and>
     (\<forall>k t. last_alarm s k = Some t \<longrightarrow> (k, t) \<in> set hist \<and> (\<forall>t'. (k, t') \<in> set hist \<longrightarrow> t' \<le> t)) \<and>
     (\<forall>k. last_alarm s k = None \<longrightarrow> (\<forall>t'. (k, t') \<in> set hist \<longrightarrow> t' \<le> T - w))"

lemma shouldKeep_eq:
  "shouldKeepObject cfg object now w s =
     (if (case last_alarm s (alarm_key cfg object) of None \<Rightarrow> False | Some t \<Rightarrow> now - t < w) then (False, s)
      else (True, case alarm_key cfg object of
                    ByObject i \<Rightarrow> s\<lparr>dd_by_object := AList.update i now (dd_by_object s)\<rparr>
                  | ByClass c \<Rightarrow> s\<lparr>dd_by_class := AList.update c now (dd_by_class s)\<rparr>))"
  by (simp add: shouldKeepObject_def alarm_key_def recently_alarmed_def)

lemma last_alarm_update:
  "last_alarm (case k of ByObject i \<Rightarrow> s\<lparr>dd_by_object := AList.update i now (dd_by_object s)\<rparr>
     | ByClass c \<Rightarrow> s\<lparr>dd_by_class := AList.update c now (dd_by_class s)\<rparr>) = (last_alarm s)(k \<mapsto> now)"
proof
  fix k'
  show "last_alarm (case k of ByObject i \<Rightarrow> s\<lparr>dd_by_object := AList.update i now (dd_by_object s)\<rparr>
     | ByClass c \<Rightarrow> s\<lparr>dd_by_class := AList.update c now (dd_by_class s)\<rparr>) k' = ((last_alarm s)(k \<mapsto> now)) k'"
    by (cases k; cases k') (auto simp: dict_simps)
qed

lemma dedup_wf_update:
  "dedup_wf s \<Longrightarrow> dedup_wf (case k of ByObject i \<Rightarrow> s\<lparr>dd_by_object := AList.update i now (dd_by_object s)\<rparr>
     | ByClass c \<Rightarrow> s\<lparr>dd_by_class := AList.update c now (dd_by_class s)\<rparr>)"
  by (cases k) (auto simp: dedup_wf_def intro: wf_intros)

lemma last_alarm_prune:
  assumes "dedup_wf s"
  shows "last_alarm (pruneExpiredEntries now w s) k =
    (case last_alarm s k of None \<Rightarrow> None | Some t \<Rightarrow> if t \<le> now - w then None else Some t)"
  using assms
  by (cases k) (auto simp: pruneExpiredEntries_def Let_def dedup_wf_def map_of_filter_distinct split: option.splits)

lemma dedup_inv_prune:
  assumes "dedup_inv w T s hist" "T \<le> now"
  shows "dedup_inv w now (pruneExpiredEntries now w s) hist"
proof -
  have wf: "dedup_wf s" and wf': "dedup_wf (pruneExpiredEntries now w s)"
    using assms(1) by (auto simp: dedup_inv_def dedup_wf_def pruneExpiredEntries_def Let_def intro: wf_intros)
  have le: "t \<le> now" if "(k, t) \<in> set hist" for k t
    using assms that unfolding dedup_inv_def by force
  have known: "(k, t) \<in> set hist \<and> (\<forall>t'. (k, t') \<in> set hist \<longrightarrow> t' \<le> t)" if "last_alarm s k = Some t" for k t
    using assms(1) that unfolding dedup_inv_def by blast
  have gone: "t' \<le> now - w"
    if "last_alarm (pruneExpiredEntries now w s) k = None" "(k, t') \<in> set hist" for k t'
  proof (cases "last_alarm s k")
    case None
    with assms that(2) have "t' \<le> T - w" unfolding dedup_inv_def by blast
    with assms(2) show ?thesis by simp
  next
    case (Some t)
    with that known [OF Some] show ?thesis by (force simp: last_alarm_prune [OF wf] split: if_splits)
  qed
  have still: "last_alarm s k = Some t" if "last_alarm (pruneExpiredEntries now w s) k = Some t" for k t
    using that by (auto simp: last_alarm_prune [OF wf] split: option.splits if_splits)
  show ?thesis
    unfolding dedup_inv_def using wf' le known [OF still] gone by blast
qed

lemma dedup_inv_alarmed:
  assumes "dedup_inv w T s hist" "T \<le> now"
  shows "(case last_alarm s k of None \<Rightarrow> False | Some t \<Rightarrow> now - t < w) \<longleftrightarrow> alarmed_within w hist k now"
proof (cases "last_alarm s k")
  case None
  with assms have "now - t' \<ge> w" if "(k, t') \<in> set hist" for t'
    using that unfolding dedup_inv_def by force
  with None show ?thesis by (fastforce simp: alarmed_within_def list_ex_iff)
next
  case (Some t)
  with assms(1) have "(k, t) \<in> set hist" "\<And>t'. (k, t') \<in> set hist \<Longrightarrow> t' \<le> t"
    unfolding dedup_inv_def by blast+
  with Some show ?thesis by (force simp: alarmed_within_def list_ex_iff)
qed

lemma dedup_inv_raise:
  assumes "dedup_inv w now s hist" "0 \<le> w"
  shows "dedup_inv w now (case k of ByObject i \<Rightarrow> s\<lparr>dd_by_object := AList.update i now (dd_by_object s)\<rparr>
     | ByClass c \<Rightarrow> s\<lparr>dd_by_class := AList.update c now (dd_by_class s)\<rparr>) (hist @ [(k, now)])"
  using assms unfolding dedup_inv_def last_alarm_update
  by (auto simp: dedup_wf_update split: if_splits)

lemma keep_objects_refines:
  assumes "dedup_inv w now s hist" "0 \<le> w"
  shows "fst (keep_objects cfg now w objs s) = fst (ref_keep cfg now w objs hist) \<and>
    dedup_inv w now (snd (keep_objects cfg now w objs s)) (snd (ref_keep cfg now w objs hist))"
  using assms
proof (induction objs arbitrary: s hist)
  case Nil
  then show ?case by simp
next
  case (Cons object objs)
  note alarmed = dedup_inv_alarmed [OF Cons.prems(1) order_refl, of "alarm_key cfg object"]
  show ?case
  proof (cases "alarmed_within w hist (alarm_key cfg object) now")
    case True
    with alarmed have "shouldKeepObject cfg object now w s = (False, s)" by (simp add: shouldKeep_eq)
    with True Cons.IH [OF Cons.prems] show ?thesis by (simp add: case_prod_beta)
  next
    case False
    let ?s = "case alarm_key cfg object of
                ByObject i \<Rightarrow> s\<lparr>dd_by_object := AList.update i now (dd_by_object s)\<rparr>
              | ByClass c \<Rightarrow> s\<lparr>dd_by_class := AList.update c now (dd_by_class s)\<rparr>"
    from False alarmed have "shouldKeepObject cfg object now w s = (True, ?s)" by (simp add: shouldKeep_eq)
    with False Cons.IH [OF dedup_inv_raise [OF Cons.prems, of "alarm_key cfg object"] Cons.prems(2)] show ?thesis
      by (simp add: case_prod_beta)
  qed
qed

lemma dedup_window_pos: "0 < getAlarmDedupWindowMs cfg"
  by (simp add: getAlarmDedupWindowMs_def kDefaultAlarmDedupIntervalMs_def)

lemma dedup_inv_later: "dedup_inv w T s hist \<Longrightarrow> T \<le> T' \<Longrightarrow> dedup_inv w T' s hist"
  unfolding dedup_inv_def by (meson diff_right_mono order_trans)

lemma run_dedup_refines:
  assumes "dedup_inv (getAlarmDedupWindowMs cfg) T s hist" "T \<le> dedup_time p"
  shows "fr_alarm_objects (fst (run_dedup (fst p) cfg (snd p) s)) =
      fst (ref_keep cfg (dedup_time p) (getAlarmDedupWindowMs cfg) (fr_objects (snd p)) hist) \<and>
    dedup_inv (getAlarmDedupWindowMs cfg) (dedup_time p) (snd (run_dedup (fst p) cfg (snd p) s))
      (snd (ref_keep cfg (dedup_time p) (getAlarmDedupWindowMs cfg) (fr_objects (snd p)) hist))"
proof (cases "fr_objects (snd p) = []")
  case True
  with dedup_inv_later [OF assms] show ?thesis by (simp add: run_dedup_def)
next
  case False
  from keep_objects_refines [OF dedup_inv_prune [OF assms], of cfg "fr_objects (snd p)"] dedup_window_pos [of cfg]
  show ?thesis using False
    by (simp add: run_dedup_def dedup_time_def [symmetric] Let_def case_prod_beta)
qed

lemma dedup_run_refines:
  assumes "dedup_inv (getAlarmDedupWindowMs cfg) T s hist" "sorted_wrt (\<le>) (T # map dedup_time ps)"
  shows "dedup_run cfg ps s = fst (ref_run cfg ps hist)"
  using assms
proof (induction ps arbitrary: T s hist)
  case Nil
  then show ?case by simp
next
  case (Cons p ps)
  obtain ms out where p: "p = (ms, out)" by (cases p)
  from Cons.prems have T: "T \<le> dedup_time p" and sorted: "sorted_wrt (\<le>) (dedup_time p # map dedup_time ps)"
    by simp_all
  from run_dedup_refines [OF Cons.prems(1) T] Cons.IH [OF _ sorted] show ?case
    by (auto simp: p split: prod.splits)
qed

lemma dedup_inv_new: "dedup_inv w T new_DeduplicateAlarmPostprocessStep []"
proof -
  have "last_alarm new_DeduplicateAlarmPostprocessStep k = None" for k
    by (cases k) (simp_all add: new_DeduplicateAlarmPostprocessStep_def)
  then show ?thesis
    by (simp add: dedup_inv_def dedup_wf_def new_DeduplicateAlarmPostprocessStep_def)
qed

text \<open>What the log says about itself.\<close>

definition spaced :: "int \<Rightarrow> alarm_log \<Rightarrow> bool" where
  "spaced w hist \<longleftrightarrow> sorted_wrt (\<lambda>(k, t) (k', t'). k = k' \<longrightarrow> w \<le> t' - t) hist"

lemma spaced_raise: "spaced w hist \<Longrightarrow> \<not> alarmed_within w hist k now \<Longrightarrow> spaced w (hist @ [(k, now)])"
  by (fastforce simp: spaced_def sorted_wrt_append alarmed_within_def list_ex_iff)

lemma ref_keep_log:
  "ref_keep cfg now w objs hist = (kept, hist') \<Longrightarrow>
     hist' = hist @ map (\<lambda>object. (alarm_key cfg object, now)) kept \<and> (spaced w hist \<longrightarrow> spaced w hist') \<and>
     (0 < w \<longrightarrow> (\<forall>object \<in> set objs. alarmed_within w hist' (alarm_key cfg object) now))"
proof (induction objs arbitrary: hist kept hist')
  case Nil
  then show ?case by simp
next
  case (Cons object objs)
  have grow: "alarmed_within w (hist @ more') k now" if "alarmed_within w hist k now" for hist more' k
    using that by (simp add: alarmed_within_def)
  show ?case
  proof (cases "alarmed_within w hist (alarm_key cfg object) now")
    case True
    with Cons show ?thesis by (fastforce intro: grow)
  next
    case False
    let ?hist = "hist @ [(alarm_key cfg object, now)]"
    from False Cons.prems obtain rest where kept: "kept = object # rest"
      and rest: "ref_keep cfg now w objs ?hist = (rest, hist')" by (auto split: prod.splits)
    note IH = Cons.IH [OF rest]
    have "alarmed_within w hist' (alarm_key cfg object) now" if "0 < w"
      using IH that by (simp add: alarmed_within_def)
    moreover have "spaced w hist'" if "spaced w hist" using IH spaced_raise [OF that False] by blast
    ultimately show ?thesis using IH kept by auto
  qed
qed

lemma ref_run_spaced: "spaced (getAlarmDedupWindowMs cfg) hist \<Longrightarrow> spaced (getAlarmDedupWindowMs cfg) (snd (ref_run cfg ps hist))"
proof (induction ps arbitrary: hist)
  case Nil
  then show ?case by simp
next
  case (Cons p ps)
  obtain kept hist' where k: "ref_keep cfg (dedup_time p) (getAlarmDedupWindowMs cfg) (fr_objects (snd p)) hist = (kept, hist')"
    by (cases "ref_keep cfg (dedup_time p) (getAlarmDedupWindowMs cfg) (fr_objects (snd p)) hist")
  from ref_keep_log [OF k] Cons.prems have "spaced (getAlarmDedupWindowMs cfg) hist'" by blast
  from Cons.IH [OF this] k show ?case by (simp add: case_prod_beta)
qed

text \<open>The log of a run: the key and the time of every alarm, read off the results.\<close>

definition raised :: "StreamConfig \<Rightarrow> (int \<times> FrameInferenceResult) list \<Rightarrow> DetectionObject list list \<Rightarrow> alarm_log" where
  "raised cfg ps alarms =
     concat (map (\<lambda>(p, kept). map (\<lambda>object. (alarm_key cfg object, dedup_time p)) kept) (zip ps alarms))"

lemma ref_run_log:
  "ref_run cfg ps hist = (alarms, hist') \<Longrightarrow> hist' = hist @ raised cfg ps alarms"
proof (induction ps arbitrary: hist alarms hist')
  case Nil
  then show ?case by (simp add: raised_def)
next
  case (Cons p ps)
  then obtain kept hist1 rest where
    k: "ref_keep cfg (dedup_time p) (getAlarmDedupWindowMs cfg) (fr_objects (snd p)) hist = (kept, hist1)"
    and r: "ref_run cfg ps hist1 = (rest, hist')" and alarms: "alarms = kept # rest"
    by (auto split: prod.splits)
  from ref_keep_log [OF k] Cons.IH [OF r] show ?case by (simp add: alarms raised_def)
qed

lemma ref_run_complete:
  assumes "ref_run cfg ps hist = (alarms, hist')" "i < length ps" "object \<in> set (fr_objects (snd (ps ! i)))"
  shows "alarmed_within (getAlarmDedupWindowMs cfg) (hist @ raised cfg (take (Suc i) ps) (take (Suc i) alarms))
    (alarm_key cfg object) (dedup_time (ps ! i))"
  using assms
proof (induction ps arbitrary: hist alarms hist' i)
  case Nil
  then show ?case by simp
next
  case (Cons p ps)
  obtain kept log1 rest where
    k: "ref_keep cfg (dedup_time p) (getAlarmDedupWindowMs cfg) (fr_objects (snd p)) hist = (kept, log1)"
    and r: "ref_run cfg ps log1 = (rest, hist')" and alarms: "alarms = kept # rest"
    using Cons.prems(1) by (auto split: prod.splits)
  note log1 = ref_keep_log [OF k]
  show ?case
  proof (cases i)
    case 0
    with Cons.prems(3) log1 dedup_window_pos [of cfg] show ?thesis by (auto simp: alarms raised_def)
  next
    case (Suc j)
    with Cons.prems Cons.IH [OF r, of j] log1 show ?thesis by (simp add: alarms raised_def)
  qed
qed

definition ex_object :: DetectionObject where
  "ex_object = \<lparr>ob_object_id = 0, ob_class_id = 3, ob_class_name = ''fire'', ob_confidence = Fin 1,
     ob_bbox = \<lparr>bx_cx = Fin 0, bx_cy = Fin 0, bx_width = Fin 1, bx_height = Fin 1, bx_angle = Fin 0\<rparr>\<rparr>"

definition ex_results :: "(int \<times> FrameInferenceResult) list" where
  "ex_results = map (\<lambda>t. (0, new_FrameInferenceResult\<lparr>fr_infer_done_mono_ms := t, fr_objects := [ex_object]\<rparr>))
     [1000, 3000, 7000]"

lemma ex_results_sorted: "sorted_wrt (\<le>) (map dedup_time ex_results)"
  by (simp add: ex_results_def dedup_time_def new_FrameInferenceResult_def)

lemma ex_alarm_key: "alarm_key default_StreamConfig ex_object = ByClass 3"
  "getAlarmDedupWindowMs default_StreamConfig = 5000"
  by (simp_all add: alarm_key_def ex_object_def tracker_enabled_def default_StreamConfig_def
      getAlarmDedupWindowMs_def kDefaultAlarmDedupIntervalMs_def)

section \<open>Properties\<close>

text \<open>
  C23. Whatever the model, the tracker and the clocks return, \<open>detect\<close> gives either the empty result (frame id
  -1, no objects, no alarms) or a result for exactly this frame: its stream, frame id and presentation time,
  an algorithm of the configuration, an expiry 5 s after the inference, only objects with positive
  confidence, width and height, and alarms that are some of these objects in their order.
\<close>

theorem detection_well_formed:
  "empty_result (fst (ad_detect elib tlib pb clock frame cfg d)) \<or>
   frame_result_ok frame cfg (fst (ad_detect elib tlib pb clock frame cfg d))"
  using infer_frame_result [of "ck_system_ms clock" cfg _ elib tlib pb clock frame _ _ d]
  by (auto simp: ad_detect_def split: option.splits prod.splits bool.splits)

text \<open>
  C21. The deduplication is exactly the reference: over any sequence of results with a clock that does
  not go back, and one configuration, an object raises an alarm iff no alarm of its key (the
  tracked object, or else the class) was raised within the configured window before. Forgetting expired
  entries and keeping only one time per key change nothing.
\<close>

theorem dedup_equals_reference:
  assumes "sorted_wrt (\<le>) (map dedup_time ps)"
  shows "dedup_run cfg ps new_DeduplicateAlarmPostprocessStep = fst (ref_run cfg ps [])"
proof (cases ps)
  case Nil
  then show ?thesis by simp
next
  case (Cons p ps')
  show ?thesis
    by (rule dedup_run_refines [OF dedup_inv_new [of _ "dedup_time p"]]) (use assms Cons in auto)
qed

theorem dedup_equals_reference_witness:
  "dedup_run default_StreamConfig ex_results new_DeduplicateAlarmPostprocessStep = [[ex_object], [], [ex_object]]"
  using dedup_equals_reference [OF ex_results_sorted, of default_StreamConfig]
  by (simp add: ex_results_def dedup_time_def new_FrameInferenceResult_def ex_alarm_key alarmed_within_def)

text \<open>
  C22. Two alarms of one key are at least the window apart, and no detection gets lost: for every
  object of every result an alarm of its key is raised with this result or was raised
  less than the window before.
\<close>

theorem alarms_spaced_and_complete:
  assumes "sorted_wrt (\<le>) (map dedup_time ps)" "i < length ps" "object \<in> set (fr_objects (snd (ps ! i)))"
  shows "let alarms = dedup_run cfg ps new_DeduplicateAlarmPostprocessStep; w = getAlarmDedupWindowMs cfg
   in spaced w (raised cfg ps alarms) \<and>
      alarmed_within w (raised cfg (take (Suc i) ps) (take (Suc i) alarms)) (alarm_key cfg object) (dedup_time (ps ! i))"
proof -
  have run: "dedup_run cfg ps new_DeduplicateAlarmPostprocessStep = fst (ref_run cfg ps [])"
  proof (cases ps)
    case (Cons p ps')
    show ?thesis by (rule dedup_run_refines [OF dedup_inv_new [of _ "dedup_time p"]]) (use assms(1) Cons in auto)
  qed simp
  obtain alarms hist where r: "ref_run cfg ps [] = (alarms, hist)" by (cases "ref_run cfg ps []")
  from ref_run_spaced [of cfg "[]" ps] ref_run_log [OF r] r have "spaced (getAlarmDedupWindowMs cfg) (raised cfg ps alarms)"
    by (simp add: spaced_def)
  with ref_run_complete [OF r assms(2,3)] run r show ?thesis by (simp add: Let_def)
qed

theorem alarms_spaced_and_complete_witness:
  "alarmed_within 5000 (raised default_StreamConfig (take 2 ex_results)
     (take 2 (dedup_run default_StreamConfig ex_results new_DeduplicateAlarmPostprocessStep))) (ByClass 3) 3000"
proof -
  have "1 < length ex_results" "ex_object \<in> set (fr_objects (snd (ex_results ! 1)))"
    "dedup_time (ex_results ! 1) = 3000"
    by (simp_all add: ex_results_def dedup_time_def new_FrameInferenceResult_def)
  from alarms_spaced_and_complete [OF ex_results_sorted this(1,2), of default_StreamConfig] this(3) show ?thesis
    by (simp add: Let_def ex_alarm_key numeral_2_eq_2)
qed

end
