(* ===== verification/LoopProofs.thy ===== *)
theory LoopProofs
  imports ReconcileProofs InferSchedulerProofs DetectorProofs
begin

text \<open>
  The loops of the pipeline: one turn of \<open>inferLoop\<close> and of \<open>publishLoop\<close> touches a stream buffer only in ways
  the interleaved system of \<open>StreamFlow\<close> allows; what an inferred frame does to alarms, pictures and the frame
  itself; and how received configurations reach \<open>applyConfigBatch\<close>.
\<close>

section \<open>Turns as steps of the flow\<close>

text \<open>A state of the interleaved system with this buffer, in which the worker and the publisher wait.\<close>

definition waiting_view :: "StreamBuffer \<Rightarrow> flow \<Rightarrow> bool" where
  "waiting_view b fl \<longleftrightarrow> fl_buffer fl = b \<and> fl_inflight fl = None \<and> fl_publisher fl = PubWaiting"

definition buffer_follows :: "StreamBuffer \<Rightarrow> StreamBuffer \<Rightarrow> bool" where
  "buffer_follows b b' \<longleftrightarrow>
     (\<forall>fl. waiting_view b fl \<longrightarrow> (\<exists>fl'. flow_step\<^sup>*\<^sup>* fl fl' \<and> waiting_view b' fl' \<and>
        fl_pending fl' = fl_pending fl \<and> fl_next fl' = fl_next fl))"

lemma buffer_follows_refl: "buffer_follows b b"
  unfolding buffer_follows_def by blast

lemma infer_path_done:
  assumes "sb_selectFrameForInference b = (Some f, b1)" "fr_frame_id r = fb_frame_id f \<or> fr_frame_id r = -1"
  shows "buffer_follows b (sb_updateCachedInferenceResult r (sb_markInferenceDone r (sb_markInferenceRunning (fb_frame_id f) b1)))"
  unfolding buffer_follows_def
proof (intro allI impI)
  fix fl
  assume fl: "waiting_view b fl"
  let ?i = "fb_frame_id f"
  let ?s1 = "fl\<lparr>fl_buffer := b1, fl_inflight := Some ?i\<rparr>"
  let ?s2 = "?s1\<lparr>fl_buffer := sb_markInferenceRunning ?i (fl_buffer ?s1)\<rparr>"
  let ?s3 = "?s2\<lparr>fl_buffer := sb_markInferenceDone r (fl_buffer ?s2), fl_inflight := None\<rparr>"
  let ?s4 = "?s3\<lparr>fl_buffer := sb_updateCachedInferenceResult r (fl_buffer ?s3)\<rparr>"
  have "flow_step fl ?s1" using fl assms(1) by (intro flow_step.select) (simp_all add: waiting_view_def)
  moreover have "flow_step ?s1 ?s2" by (rule flow_step.running) simp
  moreover have "flow_step ?s2 ?s3" by (rule flow_step.finish [of _ ?i]) (use assms(2) in simp_all)
  moreover have "flow_step ?s3 ?s4" by (rule flow_step.cache)
  ultimately have "flow_step\<^sup>*\<^sup>* fl ?s4" by (meson converse_rtranclp_into_rtranclp rtranclp.rtrancl_refl)
  with fl show "\<exists>fl'. flow_step\<^sup>*\<^sup>* fl fl' \<and>
      waiting_view (sb_updateCachedInferenceResult r (sb_markInferenceDone r (sb_markInferenceRunning ?i b1))) fl' \<and>
      fl_pending fl' = fl_pending fl \<and> fl_next fl' = fl_next fl"
    by (intro exI [of _ ?s4]) (simp add: waiting_view_def)
qed

lemma infer_path_drop:
  assumes "sb_selectFrameForInference b = (Some f, b1)"
  shows "buffer_follows b (sb_clearInferenceSelection (fb_frame_id f) Dropped (sb_markInferenceRunning (fb_frame_id f) b1))"
  unfolding buffer_follows_def
proof (intro allI impI)
  fix fl
  assume fl: "waiting_view b fl"
  let ?i = "fb_frame_id f"
  let ?s1 = "fl\<lparr>fl_buffer := b1, fl_inflight := Some ?i\<rparr>"
  let ?s2 = "?s1\<lparr>fl_buffer := sb_markInferenceRunning ?i (fl_buffer ?s1)\<rparr>"
  let ?s3 = "?s2\<lparr>fl_buffer := sb_clearInferenceSelection ?i Dropped (fl_buffer ?s2), fl_inflight := None\<rparr>"
  have "flow_step fl ?s1" using fl assms(1) by (intro flow_step.select) (simp_all add: waiting_view_def)
  moreover have "flow_step ?s1 ?s2" by (rule flow_step.running) simp
  moreover have "flow_step ?s2 ?s3" by (rule flow_step.drop) simp
  ultimately have "flow_step\<^sup>*\<^sup>* fl ?s3" by (meson converse_rtranclp_into_rtranclp rtranclp.rtrancl_refl)
  with fl show "\<exists>fl'. flow_step\<^sup>*\<^sup>* fl fl' \<and>
      waiting_view (sb_clearInferenceSelection ?i Dropped (sb_markInferenceRunning ?i b1)) fl' \<and>
      fl_pending fl' = fl_pending fl \<and> fl_next fl' = fl_next fl"
    by (intro exI [of _ ?s3]) (simp add: waiting_view_def)
qed

text \<open>The publisher: through the gates, perhaps taking a cached result, then pop and release.\<close>

definition published_buffer :: "EncodedPacket \<Rightarrow> int option \<Rightarrow> StreamBuffer \<Rightarrow> StreamBuffer" where
  "published_buffer packet take_at b =
     (let b1 = (case take_at of None \<Rightarrow> b
                | Some now \<Rightarrow> snd (sb_takeCachedInferenceResult (ep_frame_id packet) (ep_pts packet) now b));
          b2 = sb_popPacket b1
      in if ep_media_type packet = Video \<and> ep_frame_id packet \<ge> 0 then sb_releaseFrame (ep_frame_id packet) b2 else b2)"

lemma publish_path:
  assumes "sb_waitForPublishable kMinVideoWatermark 200 b = Some True" "sb_peekPacket b = Some packet"
  shows "buffer_follows b (published_buffer packet take_at b)"
  unfolding buffer_follows_def
proof (intro allI impI)
  fix fl
  assume fl: "waiting_view b fl"
  let ?s1 = "fl\<lparr>fl_publisher := PubHolding packet\<rparr>"
  let ?s2 = "?s1\<lparr>fl_buffer := (case take_at of None \<Rightarrow> fl_buffer ?s1
      | Some now \<Rightarrow> snd (sb_takeCachedInferenceResult (ep_frame_id packet) (ep_pts packet) now (fl_buffer ?s1)))\<rparr>"
  let ?rel = "ep_media_type packet = Video \<and> ep_frame_id packet \<ge> 0"
  let ?s3 = "?s2\<lparr>fl_buffer := sb_popPacket (fl_buffer ?s2),
      fl_publisher := (if ?rel then PubReleasing (ep_frame_id packet) else PubWaiting)\<rparr>"
  let ?s4 = "if ?rel then ?s3\<lparr>fl_buffer := sb_releaseFrame (ep_frame_id packet) (fl_buffer ?s3), fl_publisher := PubWaiting\<rparr> else ?s3"
  have "flow_step fl ?s1" using fl assms by (intro flow_step.gate) (simp_all add: waiting_view_def)
  moreover have "flow_step\<^sup>*\<^sup>* ?s1 ?s2"
  proof (cases take_at)
    case None
    then show ?thesis by simp
  next
    case (Some now)
    have "flow_step ?s1 (?s1\<lparr>fl_buffer :=
        snd (sb_takeCachedInferenceResult (ep_frame_id packet) (ep_pts packet) now (fl_buffer ?s1))\<rparr>)"
      by (rule flow_step.take) simp
    with Some show ?thesis by auto
  qed
  moreover have "flow_step ?s2 ?s3" by (rule flow_step.pop) simp
  moreover have "flow_step\<^sup>*\<^sup>* ?s3 ?s4"
  proof (cases ?rel)
    case True
    then have "fl_publisher ?s3 = PubReleasing (ep_frame_id packet)" by simp
    from r_into_rtranclp [of flow_step, OF flow_step.release [OF this]] True show ?thesis by (simp only: if_P)
  next
    case False
    show ?thesis unfolding if_not_P [OF False] by (rule rtranclp.rtrancl_refl)
  qed
  ultimately have "flow_step\<^sup>*\<^sup>* fl ?s4"
    by (meson converse_rtranclp_into_rtranclp rtranclp.rtrancl_into_rtrancl rtranclp_trans)
  moreover have "waiting_view (published_buffer packet take_at b) ?s4" "fl_pending ?s4 = fl_pending fl" "fl_next ?s4 = fl_next fl"
    using fl by (cases take_at; simp add: waiting_view_def published_buffer_def Let_def)+
  ultimately show "\<exists>fl'. flow_step\<^sup>*\<^sup>* fl fl' \<and> waiting_view (published_buffer packet take_at b) fl' \<and>
      fl_pending fl' = fl_pending fl \<and> fl_next fl' = fl_next fl" by blast
qed

section \<open>What a turn does to the buffers\<close>

lemma detect_frame_id:
  "fr_frame_id (fst (ad_detect elib tlib pb clock frame cfg d)) = fb_frame_id frame \<or>
   fr_frame_id (fst (ad_detect elib tlib pb clock frame cfg d)) = -1"
  using infer_frame_result [of "ck_system_ms clock" cfg _ elib tlib pb clock frame _ _ d]
  by (auto simp: ad_detect_def empty_result_def frame_result_ok_def new_FrameInferenceResult_def
      split: option.splits prod.splits bool.splits)

lemma handle_result_buffers:
  assumes "handle_result lib w task frame ref buf result p = Some p'"
  shows "pp_buffers p' = (pp_buffers p)(buf := sb_updateCachedInferenceResult result (sb_markInferenceDone result (pp_buffers p buf)))"
  using assms by (auto simp: handle_result_def Let_def split: if_splits option.splits prod.splits)

definition task_outcome :: "FrameBundle \<Rightarrow> StreamBuffer \<Rightarrow> StreamBuffer \<Rightarrow> bool" where
  "task_outcome frame b b' \<longleftrightarrow>
     (let b1 = sb_markInferenceRunning (fb_frame_id frame) b
      in b' = sb_clearInferenceSelection (fb_frame_id frame) Dropped b1 \<or>
         (\<exists>r. (fr_frame_id r = fb_frame_id frame \<or> fr_frame_id r = -1) \<and>
            b' = sb_updateCachedInferenceResult r (sb_markInferenceDone r b1)))"

lemma run_task_buffers:
  assumes "run_task lib w task p = Some p'" "it_buffer task = Some buf" "it_frame task = Some frame"
  shows "\<exists>b'. pp_buffers p' = (pp_buffers p)(buf := b') \<and> task_outcome frame (pp_buffers p buf) b'"
proof -
  let ?drop = "sb_clearInferenceSelection (fb_frame_id frame) Dropped (sb_markInferenceRunning (fb_frame_id frame) (pp_buffers p buf))"
  have drop: "\<exists>b'. pp_buffers (drop_task task frame buf (modify_buffer buf (sb_markInferenceRunning (fb_frame_id frame)) p)) =
      (pp_buffers p)(buf := b') \<and> task_outcome frame (pp_buffers p buf) b'"
    by (intro exI [of _ ?drop]) (simp add: drop_task_def task_outcome_def Let_def)
  have handled: "\<exists>b'. pp_buffers q = (pp_buffers p)(buf := b') \<and> task_outcome frame (pp_buffers p buf) b'"
    if "handle_result lib w task frame ref buf r (modify_ctx ref f (modify_buffer buf (sb_markInferenceRunning (fb_frame_id frame)) p)) = Some q"
      and "fr_frame_id r = fb_frame_id frame \<or> fr_frame_id r = -1" for q r ref f
    using handle_result_buffers [OF that(1)] that(2)
    by (intro exI [of _ "sb_updateCachedInferenceResult r (sb_markInferenceDone r (sb_markInferenceRunning (fb_frame_id frame) (pp_buffers p buf)))"])
      (auto simp: task_outcome_def Let_def)
  let ?p1 = "modify_buffer buf (sb_markInferenceRunning (fb_frame_id frame)) p"
  show ?thesis
  proof (cases "p' = drop_task task frame buf ?p1")
    case True
    with drop show ?thesis by simp
  next
    case False
    with assms obtain ref detector where fs: "findStream (it_stream_id task) ?p1 = Some ref"
      and det: "de_detector (ctx_detector_runtime (pp_contexts p ref)) = Some detector"
      "\<not> (ctx_stop_flag (pp_contexts p ref) \<or> fb_decoded_image frame = None)"
      by (auto simp: run_task_def Let_def split: option.splits if_splits)
    let ?detect = "ad_detect (lb_edge lib) (lb_tracker lib) (lb_differencer lib) (iw_detect w) frame
        (de_config (ctx_detector_runtime (pp_contexts p ref))) detector"
    obtain r d where rd: "?detect = (r, d)" by (cases ?detect)
    have id: "fr_frame_id r = fb_frame_id frame \<or> fr_frame_id r = -1"
      using detect_frame_id [of "lb_edge lib" "lb_tracker lib" "lb_differencer lib" "iw_detect w" frame
          "de_config (ctx_detector_runtime (pp_contexts p ref))" detector] by (simp add: rd)
    from assms fs det rd obtain f q where
      q: "handle_result lib w task frame ref buf r (modify_ctx ref f ?p1) = Some q"
      "p' = modify_scheduler (rr_completeTask (it_stream_id task) (fb_frame_id frame)) q"
      by (auto simp: run_task_def Let_def)
    from handled [OF q(1) id] q(2) show ?thesis by simp
  qed
qed

lemma acquired_task:
  assumes "rr_acquireTask sb_selectFrameForInference n s heap = (outcome, s', heap')"
  shows "case outcome of
      Acquired task \<Rightarrow> \<exists>buf frame b. it_buffer task = Some buf \<and> it_frame task = Some frame \<and>
        sb_selectFrameForInference (heap buf) = (Some frame, b) \<and> heap' = heap(buf := b)
    | _ \<Rightarrow> heap' = heap"
proof (cases "rr_stopped s")
  case True
  with assms show ?thesis by (auto simp: rr_acquireTask_def)
next
  case False
  show ?thesis
  proof (rule sb_source.tryAcquire_cases [of s heap])
    assume "rr_tryAcquireLocked sb_selectFrameForInference s heap = (None, heap)"
    with assms False show ?thesis by (auto simp: rr_acquireTask_def)
  next
    fix k e ref f b
    assume "sb_selectFrameForInference (heap ref) = (Some f, b)"
      "rr_tryAcquireLocked sb_selectFrameForInference s heap =
        (Some (\<lparr>it_stream_id = rr_at s k, it_config = se_config e, it_buffer = Some ref,
                it_frame = Some f\<rparr>, rr_picked k e s), heap(ref := b))"
    with assms False show ?thesis by (auto simp: rr_acquireTask_def)
  qed
qed

text \<open>One turn of a worker or of a publishing thread.\<close>

definition loop_turn :: "('e, 'h) pipeline_library \<Rightarrow> ('e, 'h) Pipeline \<Rightarrow> ('e, 'h) Pipeline \<Rightarrow> bool" where
  "loop_turn lib p p' \<longleftrightarrow>
     (\<exists>w. inferLoop_turn lib w p = Some p') \<or> (\<exists>w ref go. publishLoop_turn lib w ref p = Some (go, p'))"

lemma infer_turn_follows:
  assumes "inferLoop_turn lib w p = Some p'"
  shows "buffer_follows (pp_buffers p buf) (pp_buffers p' buf)"
proof (cases "pp_stop_flag p \<or> pp_infer_scheduler p = None")
  case True
  with assms have "p' = p" by (auto simp: inferLoop_turn_def split: if_splits option.splits)
  then show ?thesis by (simp add: buffer_follows_refl)
next
  case False
  then obtain s where s: "pp_infer_scheduler p = Some s" "\<not> pp_stop_flag p" by auto
  obtain outcome s' heap where acq: "rr_acquireTask sb_selectFrameForInference 200 s (pp_buffers p) = (outcome, s', heap)"
    by (cases "rr_acquireTask sb_selectFrameForInference 200 s (pp_buffers p)") auto
  note task = acquired_task [OF acq]
  let ?p = "p\<lparr>pp_infer_scheduler := Some s', pp_buffers := heap\<rparr>"
  show ?thesis
  proof (cases outcome)
    case (Acquired t)
    with assms s acq have run: "run_task lib w t ?p = Some p'" by (simp add: inferLoop_turn_def Let_def)
    from task Acquired obtain r frame b where t: "it_buffer t = Some r" "it_frame t = Some frame"
      "sb_selectFrameForInference (pp_buffers p r) = (Some frame, b)" "heap = (pp_buffers p)(r := b)" by auto
    from run_task_buffers [OF run t(1,2)] obtain b' where b': "pp_buffers p' = heap(r := b')" "task_outcome frame b b'"
      by (auto simp: t(4))
    have "buffer_follows (pp_buffers p r) b'"
      using b'(2) infer_path_drop [OF t(3)] infer_path_done [OF t(3)] by (auto simp: task_outcome_def Let_def)
    with b'(1) t(4) show ?thesis by (simp add: buffer_follows_refl)
  qed (use assms s acq task in \<open>auto simp: inferLoop_turn_def Let_def buffer_follows_refl\<close>)
qed

lemma inject_sei_buffers:
  assumes "inject_sei lib w ref packet p = Some (final, p')"
  shows "\<exists>take_at. pp_buffers p' = (pp_buffers p)(ctx_buffer (pp_contexts p ref) :=
      (case take_at of None \<Rightarrow> pp_buffers p (ctx_buffer (pp_contexts p ref))
       | Some now \<Rightarrow> snd (sb_takeCachedInferenceResult (ep_frame_id packet) (ep_pts packet) now
           (pp_buffers p (ctx_buffer (pp_contexts p ref)))))) \<and> pp_contexts p' = pp_contexts p"
proof (cases "ep_media_type packet = Video \<and> pp_sei_injector p")
  case True
  with assms show ?thesis
    by (intro exI [of _ "Some (pw_mono_ms w)"]) (auto simp: inject_sei_def Let_def split: option.splits prod.splits)
next
  case False
  with assms show ?thesis by (intro exI [of _ None]) (auto simp: inject_sei_def)
qed

lemma publish_packet_buffers:
  assumes "publish_packet lib w ref packet p = Some p'"
  shows "\<exists>take_at. pp_buffers p' = (pp_buffers p)(ctx_buffer (pp_contexts p ref) :=
    published_buffer packet take_at (pp_buffers p (ctx_buffer (pp_contexts p ref))))"
proof -
  let ?buf = "ctx_buffer (pp_contexts p ref)"
  from assms obtain final p1 where p1: "inject_sei lib w ref packet p = Some (final, p1)"
    by (auto simp: publish_packet_def split: option.splits)
  from inject_sei_buffers [OF this] obtain take_at where
    b: "pp_buffers p1 = (pp_buffers p)(?buf := (case take_at of None \<Rightarrow> pp_buffers p ?buf
       | Some now \<Rightarrow> snd (sb_takeCachedInferenceResult (ep_frame_id packet) (ep_pts packet) now (pp_buffers p ?buf))))"
    "pp_contexts p1 = pp_contexts p" by blast
  have out: "ctx_buffer (write_out av w a c) = ctx_buffer c" for av a c by (simp add: write_out_def)
  show ?thesis
    using assms b by (intro exI [of _ take_at])
      (cases final; auto simp: publish_packet_def p1 Let_def out published_buffer_def fun_eq_iff)
qed

lemma publish_turn_follows:
  assumes "publishLoop_turn lib w ref p = Some (go, p')"
  shows "buffer_follows (pp_buffers p buf) (pp_buffers p' buf)"
proof (cases "p' = p")
  case True
  then show ?thesis by (simp add: buffer_follows_refl)
next
  case False
  let ?buf = "ctx_buffer (pp_contexts p ref)"
  from False assms obtain packet where packet: "sb_waitForPublishable kMinVideoWatermark 200 (pp_buffers p ?buf) = Some True"
    "sb_peekPacket (pp_buffers p ?buf) = Some packet" "publish_packet lib w ref packet p = Some p'"
    by (auto simp: publishLoop_turn_def Let_def split: if_splits option.splits)
  from publish_packet_buffers [OF packet(3)] publish_path [OF packet(1,2)] show ?thesis
    by (auto simp: buffer_follows_refl)
qed

interpretation loop_threads: flow_thread "\<lambda>p. waiting_view (pp_buffers p buf)" "\<lambda>fl. (fl_pending fl, fl_next fl)"
  "loop_turn lib" for buf :: buffer_ref and lib :: "('e, 'h) pipeline_library"
proof
  fix p p' :: "('e, 'h) Pipeline" and fl
  assume "loop_turn lib p p'" and fl: "waiting_view (pp_buffers p buf) fl"
  then have "buffer_follows (pp_buffers p buf) (pp_buffers p' buf)"
    using infer_turn_follows publish_turn_follows by (auto simp: loop_turn_def)
  with fl show "\<exists>fl'. flow_step\<^sup>*\<^sup>* fl fl' \<and> waiting_view (pp_buffers p' buf) fl' \<and>
      (fl_pending fl', fl_next fl') = (fl_pending fl, fl_next fl)"
    unfolding buffer_follows_def by simp
qed

section \<open>Alarms of one frame\<close>

lemma group_fold:
  assumes "sorted_keys groups"
  shows "sorted_keys (fold group_object objects groups) \<and>
    map_of (fold group_object objects groups) k =
      (case (case map_of groups k of None \<Rightarrow> [] | Some ts \<Rightarrow> ts) @ filter (\<lambda>t. ob_class_id t = k) objects of
         [] \<Rightarrow> map_of groups k | ts \<Rightarrow> Some ts)"
  using assms
proof (induction objects arbitrary: groups)
  case Nil
  then show ?case by (auto split: option.splits list.splits)
next
  case (Cons t objects)
  have "sorted_keys (group_object t groups)" using Cons.prems by (simp add: group_object_def sorted_keys_omap_put)
  with Cons.IH [OF this] Cons.prems show ?case
    by (auto simp: group_object_def map_of_omap_put split: option.splits list.splits)
qed

lemma group_alarm_objects:
  "sorted_keys (group_alarm_objects objects)"
  "map_of (group_alarm_objects objects) k =
     (if filter (\<lambda>t. ob_class_id t = k) objects = [] then None else Some (filter (\<lambda>t. ob_class_id t = k) objects))"
  using group_fold [of "[]" objects k] by (auto simp: group_alarm_objects_def split: list.splits)

lemma group_alarm_objects_length: "length (group_alarm_objects objects) \<le> length objects"
proof -
  have "fst ` set (group_alarm_objects objects) \<subseteq> ob_class_id ` set objects"
  proof
    fix k
    assume "k \<in> fst ` set (group_alarm_objects objects)"
    then have "map_of (group_alarm_objects objects) k \<noteq> None" by (simp add: map_of_eq_None_iff)
    then show "k \<in> ob_class_id ` set objects"
      by (auto simp: group_alarm_objects(2) filter_empty_conv split: if_splits)
  qed
  then have "card (fst ` set (group_alarm_objects objects)) \<le> length objects"
    by (meson List.finite_set card_image_le card_length card_mono finite_imageI le_trans)
  with sorted_keys_distinct [OF group_alarm_objects(1)] show ?thesis
    by (metis distinct_card distinct_keys_def length_map list.set_map)
qed

text \<open>The alarms of the groups, numbered from \<open>i\<close>.\<close>

definition group_alarms ::
  "infer_world \<Rightarrow> string \<Rightarrow> AlgorithmConfig \<Rightarrow> string \<Rightarrow> string \<Rightarrow> nat \<Rightarrow> (u32 \<times> DetectionObject list) list \<Rightarrow> AlarmInfo list"
where
  "group_alarms w stream_id cfg snapshot_name record_name i groups =
     map (\<lambda>(n, g). buildAlarmInfo (iw_random w n) (iw_alarm_ms w n) stream_id cfg (snd g) snapshot_name record_name)
       (enumerate i groups)"

lemma push_alarms_room:
  assumes "ic_sender c = Some s" "\<not> tsq_stopped (ss_queue s)"
    "length (tsq_queue (ss_queue s)) + length groups \<le> tsq_max_size (ss_queue s)"
  shows "\<exists>c' s'. push_alarms pb w stream_id cfg snapshot_name record_name i groups c = Some c' \<and> ic_sender c' = Some s' \<and>
    tsq_queue (ss_queue s') = tsq_queue (ss_queue s) @ map (pb_serialize pb)
      (numbered (ic_seq c) (map alarmEnvelope (group_alarms w stream_id cfg snapshot_name record_name i groups)))"
  using assms
proof (induction groups arbitrary: c s i)
  case Nil
  then show ?case by (simp add: group_alarms_def)
next
  case (Cons g groups)
  obtain k targets where g: "g = (k, targets)" by (cases g)
  let ?a = "buildAlarmInfo (iw_random w i) (iw_alarm_ms w i) stream_id cfg targets snapshot_name record_name"
  let ?q = "(ss_queue s)\<lparr>tsq_queue := tsq_queue (ss_queue s) @ [pb_serialize pb (alarmEnvelope ?a (ic_seq c))]\<rparr>"
  let ?c = "c\<lparr>ic_seq := ic_seq c + 1, ic_sender := Some (s\<lparr>ss_queue := ?q\<rparr>)\<rparr>"
  have "pushAlarm pb ?a c = Inr (True, ?c)"
    unfolding pushAlarm_def using ipc_send_room [OF Cons.prems(1,2), of pb "alarmEnvelope ?a"] Cons.prems(3) by simp
  with Cons.IH [of ?c "s\<lparr>ss_queue := ?q\<rparr>" "Suc i"] Cons.prems show ?case
    by (simp add: g group_alarms_def enumerate_simps)
qed

section \<open>Pictures of one stream\<close>

text \<open>A request for a picture, with what the world answers. The result lists the times at which one was saved.\<close>

record snapshot_request =
  rq_world :: infer_world
  rq_now :: int
  rq_frame :: FrameBundle
  rq_objects :: "DetectionObject list"

fun snapshot_run :: "snapshot_request list \<Rightarrow> ('e, 'h) StreamContext \<Rightarrow> (int list \<times> ('e, 'h) StreamContext) option" where
  "snapshot_run [] c = Some ([], c)"
| "snapshot_run (r # rs) c =
     (case triggerAlarmSnapshot (rq_world r) None (rq_now r) (rq_frame r) (rq_objects r) c of
        None \<Rightarrow> None
      | Some (name, c') \<Rightarrow>
          (case snapshot_run rs c' of
             None \<Rightarrow> None
           | Some (ts, c'') \<Rightarrow>
               Some (if length (sn_finished (ctx_snapshotter c)) < length (sn_finished (ctx_snapshotter c'))
                     then rq_now r # ts else ts, c'')))"

lemma ensureEncoder_finished: "sn_finished (snd (ensureEncoder r w h s)) = sn_finished s"
  by (simp add: ensureEncoder_def sn_close_def sn_releaseFrames_def Let_def split: option.splits)

lemma writeSnapshotFile_finished:
  "length (sn_finished (snd (writeSnapshotFile r path s))) =
     length (sn_finished s) + (if fst (writeSnapshotFile r path s) then 1 else 0)"
  by (simp add: writeSnapshotFile_def split: option.splits)

lemma draw_and_write_finished:
  assumes "draw_and_write r path objects s = Some (ok, s')"
  shows "length (sn_finished s') = length (sn_finished s) + (if ok then 1 else 0)"
proof (cases "sn_input_frame s")
  case None
  with assms writeSnapshotFile_finished [of r path s] show ?thesis by (simp add: draw_and_write_def)
next
  case (Some frame)
  with assms obtain frame' where "writeSnapshotFile r path (s\<lparr>sn_input_frame := Some frame'\<rparr>) = (ok, s')"
    by (auto simp: draw_and_write_def split: option.splits)
  with writeSnapshotFile_finished [of r path "s\<lparr>sn_input_frame := Some frame'\<rparr>"] show ?thesis by simp
qed

lemma saveJpeg_finished:
  assumes "saveJpeg er r stamp now frame objects s = Some (ok, s')"
  shows "length (sn_finished s') = length (sn_finished s) + (if ok then 1 else 0)"
proof (cases "(sn_isConfigured s \<and> objects \<noteq> []) \<and> (\<exists>img. fb_decoded_image frame = Some img \<and> image_usable img)")
  case False
  with assms show ?thesis by (auto simp: saveJpeg_def split: if_splits option.splits)
next
  case True
  then obtain img where img: "fb_decoded_image frame = Some img" "image_usable img" by blast
  obtain enc s1 where s1: "ensureEncoder er (di_width img) (di_height img) s = (enc, s1)"
    by (cases "ensureEncoder er (di_width img) (di_height img) s")
  have f1: "sn_finished s1 = sn_finished s" using ensureEncoder_finished [of er "di_width img" "di_height img" s] s1 by simp
  show ?thesis
  proof (cases enc)
    case False
    with assms True img s1 f1 show ?thesis by (simp add: saveJpeg_def)
  next
    case enc: True
    with assms True img s1 obtain c s2 where s2: "copyInputFrame r img s1 = Some (c, s2)"
      and rest: "(if c then draw_and_write r (buildSnapshotFileName stamp (sn_stream_id s2) now) objects s2 else Some (False, s2)) = Some (ok, s')"
      by (auto simp: saveJpeg_def split: option.splits bool.splits)
    have f2: "sn_finished s2 = sn_finished s1" using s2 by (auto simp: copyInputFrame_def split: option.splits if_splits)
    show ?thesis
    proof (cases c)
      case True
      with rest have dw: "draw_and_write r (buildSnapshotFileName stamp (sn_stream_id s2) now) objects s2 = Some (ok, s')" by simp
      from draw_and_write_finished [OF dw] f1 f2 show ?thesis by simp
    qed (use rest f1 f2 in simp)
  qed
qed

lemma triggerAlarmSnapshot_effect:
  assumes "triggerAlarmSnapshot w None now frame objects c = Some (name, c')"
  shows "(length (sn_finished (ctx_snapshotter c')) = length (sn_finished (ctx_snapshotter c)) \<and>
      ctx_last_snapshot_trigger_mono_ms c' = ctx_last_snapshot_trigger_mono_ms c) \<or>
    (length (sn_finished (ctx_snapshotter c)) < length (sn_finished (ctx_snapshotter c')) \<and>
      ctx_last_snapshot_trigger_mono_ms c' = now \<and> \<not> too_soon (ctx_last_snapshot_trigger_mono_ms c) now)"
  using assms saveJpeg_finished [of "iw_encoder w" "iw_snapshot w" "iw_timestamp w" "iw_system_ms w" frame objects "ctx_snapshotter c"]
  by (auto simp: triggerAlarmSnapshot_def split: if_splits option.splits prod.splits bool.splits)

lemma snapshot_run_spaced:
  "snapshot_run rs c = Some (ts, c') \<Longrightarrow>
     (\<forall>t \<in> set ts. 0 < ctx_last_snapshot_trigger_mono_ms c \<longrightarrow> ctx_last_snapshot_trigger_mono_ms c + kAlarmSnapshotMinIntervalMs \<le> t) \<and>
     sorted_wrt (\<lambda>a b. 0 < a \<longrightarrow> a + kAlarmSnapshotMinIntervalMs \<le> b) ts"
proof (induction rs arbitrary: c ts)
  case Nil
  then show ?case by simp
next
  case (Cons r rs)
  from Cons.prems obtain name c1 ts1 where
    trig: "triggerAlarmSnapshot (rq_world r) None (rq_now r) (rq_frame r) (rq_objects r) c = Some (name, c1)"
    and run: "snapshot_run rs c1 = Some (ts1, c')"
    and ts: "ts = (if length (sn_finished (ctx_snapshotter c)) < length (sn_finished (ctx_snapshotter c1)) then rq_now r # ts1 else ts1)"
    by (auto split: option.splits prod.splits)
  note ih = Cons.IH [OF run]
  have k: "0 < kAlarmSnapshotMinIntervalMs" by (simp add: kAlarmSnapshotMinIntervalMs_def)
  from triggerAlarmSnapshot_effect [OF trig] show ?case
  proof
    assume "length (sn_finished (ctx_snapshotter c1)) = length (sn_finished (ctx_snapshotter c)) \<and>
      ctx_last_snapshot_trigger_mono_ms c1 = ctx_last_snapshot_trigger_mono_ms c"
    with ih ts show ?thesis by simp
  next
    assume saved: "length (sn_finished (ctx_snapshotter c)) < length (sn_finished (ctx_snapshotter c1)) \<and>
      ctx_last_snapshot_trigger_mono_ms c1 = rq_now r \<and> \<not> too_soon (ctx_last_snapshot_trigger_mono_ms c) (rq_now r)"
    then have gap: "0 < ctx_last_snapshot_trigger_mono_ms c \<Longrightarrow> ctx_last_snapshot_trigger_mono_ms c + kAlarmSnapshotMinIntervalMs \<le> rq_now r"
      by (simp add: too_soon_def)
    have "ctx_last_snapshot_trigger_mono_ms c + kAlarmSnapshotMinIntervalMs \<le> t"
      if "t \<in> set ts1" "0 < ctx_last_snapshot_trigger_mono_ms c" for t
    proof -
      from gap [OF that(2)] k that(2) have "0 < rq_now r" by linarith
      with ih saved that(1) have "rq_now r + kAlarmSnapshotMinIntervalMs \<le> t" by simp
      with gap [OF that(2)] k show ?thesis by linarith
    qed
    with ih saved ts gap show ?thesis by auto
  qed
qed

section \<open>Received configurations\<close>

definition for_this_agent :: "('e, 'h) Pipeline \<Rightarrow> AgentConfig \<Rightarrow> bool" where
  "for_this_agent p cfg \<longleftrightarrow> ag_agent_id cfg = [] \<or> ag_agent_id cfg = so_agent_id (app_socket (pp_cfg p))"

lemma handle_fold:
  "fold handleSocketConfig msgs p =
     p\<lparr>pp_configs := fold (\<lambda>m. omap_put (ag_config_id m) m) (filter (for_this_agent p) msgs) (pp_configs p),
       pp_has_pending_config := (pp_has_pending_config p \<or> list_ex (for_this_agent p) msgs)\<rparr>"
proof (induction msgs arbitrary: p)
  case (Cons m msgs)
  have "for_this_agent (handleSocketConfig m p) = for_this_agent p"
    by (simp add: fun_eq_iff for_this_agent_def handleSocketConfig_def)
  with Cons show ?case by (simp add: handleSocketConfig_def for_this_agent_def)
qed simp

section \<open>Inputs of the witnesses\<close>

definition ex_open :: open_result where
  "ex_open = \<lparr>op_alloc = False, op_new_stream = \<lambda>n. False, op_mallocz = \<lambda>n. False, op_nofile = False, op_avio_open = False, op_header = None\<rparr>"

definition ex_infer_world :: infer_world where
  "ex_infer_world =
     \<lparr>iw_detect = \<lparr>ck_system_ms = \<lambda>n. 1, ck_start_ms = 1, ck_done_ms = 2, ck_dedup_ms = 3\<rparr>, iw_mono_ms = 10000,
      iw_timestamp = ''20260101120000'', iw_system_ms = 7, iw_record_open = ex_open,
      iw_record_writes = \<lambda>n. \<lparr>wr_ref = True, wr_write = True\<rparr>,
      iw_encoder = \<lparr>er_find = True, er_alloc = True, er_open = True, er_frames = True, er_input = Some ex_picture, er_output = True, er_sws = True\<rparr>,
      iw_snapshot = \<lparr>sr_writable_in = True, sr_writable_out = True, sr_scaled = True, sr_send = True, sr_packet = True, sr_receive = True,
        sr_file_open = True, sr_file_write = True, sr_rename = True\<rparr>,
      iw_random = \<lambda>n. replicate 16 0, iw_alarm_ms = \<lambda>n. 5\<rparr>"

text \<open>The worker takes a frame of a stream that is no longer in the table.\<close>

definition ex_orphaned :: "(unit, unit) Pipeline" where
  "ex_orphaned = ex_pipeline\<lparr>pp_buffers := (\<lambda>_. fl_buffer run_delivered),
     pp_infer_scheduler := Some (rr_upsertStream ''cam'' default_StreamConfig (Some 0) createRoundRobinInferScheduler)\<rparr>"

definition ex_task :: InferTask where
  "ex_task = \<lparr>it_stream_id = ''cam'', it_config = default_StreamConfig, it_buffer = Some 0, it_frame = Some (StreamBufferProofs.ex_frame 0)\<rparr>"

definition ex_alarm_object :: "u32 \<Rightarrow> DetectionObject" where
  "ex_alarm_object k = \<lparr>ob_object_id = 1, ob_class_id = k, ob_class_name = ''fire'', ob_confidence = Fin (1 / 2), ob_bbox = default_Box\<rparr>"

definition ex_alarm_result :: FrameInferenceResult where
  "ex_alarm_result = new_FrameInferenceResult\<lparr>fr_frame_id := 0, fr_alarm_objects := [ex_alarm_object 3, ex_alarm_object 1, ex_alarm_object 3]\<rparr>"

text \<open>A table whose only stream has a detector that never initialised.\<close>

definition ex_failing :: "(unit, unit) Pipeline" where
  "ex_failing = ex_pipeline\<lparr>pp_streams := [(''cam'', 0)], pp_buffers := (\<lambda>_. StreamBufferProofs.ex_buffer),
     pp_contexts := (\<lambda>r. (new_StreamContext ex_lib default_StreamConfig r)
       \<lparr>ctx_detector_runtime := \<lparr>de_config = default_StreamConfig, de_detector = Some (new_AlgoDetector default_StreamConfig)\<rparr>\<rparr>)\<rparr>"

section \<open>Properties\<close>

text \<open>
  C2. The pipeline's loops refine the interleaved system of one stream: whatever the detector, FFmpeg and the clocks return, any
  sequence of turns of the inference worker and of the publishing threads changes every stream buffer only by steps of
  \<open>flow_step\<close>, and ends with the worker and the publisher of that buffer waiting again. Together with the refinement of the puller,
  what is proved of the reachable states of that system holds for the buffers of the running pipeline.
\<close>

theorem loops_refine_flow:
  assumes "flow_reachable stream_id fl" "waiting_view (pp_buffers p buf) fl" "(loop_turn lib)\<^sup>*\<^sup>* p p'"
  shows "\<exists>fl'. flow_reachable stream_id fl' \<and> waiting_view (pp_buffers p' buf) fl' \<and>
    fl_pending fl' = fl_pending fl \<and> fl_next fl' = fl_next fl"
  using loop_threads.turns_reachable [OF assms] by simp

theorem loops_refine_flow_witness:
  "\<exists>p' fl'. inferLoop_turn ex_lib ex_infer_world ex_orphaned = Some p' \<and>
     flow_reachable ''cam'' fl' \<and> waiting_view (pp_buffers p' 0) fl'"
proof -
  have run: "\<exists>y. run_task ex_lib ex_infer_world t q = Some y" if "pp_streams q = []" for t q
    using that by (auto simp: run_task_def findStream_def Let_def split: option.splits)
  have "pp_streams ex_orphaned = []" by (simp add: ex_orphaned_def ex_pipeline_ok)
  then have "inferLoop_turn ex_lib ex_infer_world ex_orphaned \<noteq> None"
    by (auto simp: inferLoop_turn_def Let_def run split: option.splits prod.splits acquire_outcome.splits)
  then obtain p' where p': "inferLoop_turn ex_lib ex_infer_world ex_orphaned = Some p'" by blast
  then have "loop_turn ex_lib ex_orphaned p'" unfolding loop_turn_def by blast
  then have "(loop_turn ex_lib)\<^sup>*\<^sup>* ex_orphaned p'" by (rule r_into_rtranclp)
  moreover have "waiting_view (pp_buffers ex_orphaned 0) run_delivered"
    by (simp add: waiting_view_def ex_orphaned_def run_defs)
  ultimately show ?thesis using loops_refine_flow [OF reachable_delivered] p' by blast
qed

text \<open>
  C30. An inferred frame with alarm objects raises exactly one alarm per class of these objects, in the order of the class ids. With
  room in the queue the messages are appended and numbered in that order; each alarm carries all
  objects of its class in their order, the stream of the frame, and the same names of picture and recording.
\<close>

theorem one_alarm_per_class:
  assumes "handle_result lib w task frame ref buf result p = Some p'" "fr_alarm_objects result \<noteq> []"
    and "pp_ipc p = Some c" "ic_sender c = Some s" "\<not> tsq_stopped (ss_queue s)"
    and "length (tsq_queue (ss_queue s)) + length (fr_alarm_objects result) \<le> tsq_max_size (ss_queue s)"
  shows "\<exists>c' s' alarms classes snapshot_name record_name. pp_ipc p' = Some c' \<and> ic_sender c' = Some s' \<and>
    tsq_queue (ss_queue s') = tsq_queue (ss_queue s) @
      map (pb_serialize (lb_protobuf lib)) (numbered (ic_seq c) (map alarmEnvelope alarms)) \<and>
    sorted_wrt (<) classes \<and> set classes = ob_class_id ` set (fr_alarm_objects result) \<and>
    map ai_target alarms = map (\<lambda>k. filter (\<lambda>t. ob_class_id t = k) (fr_alarm_objects result)) classes \<and>
    (\<forall>a \<in> set alarms. ai_stream_id a = fb_stream_id frame \<and> ai_snapshot_name a = snapshot_name \<and> ai_record_name a = record_name)"
proof -
  let ?objects = "fr_alarm_objects result" and ?groups = "group_alarm_objects (fr_alarm_objects result)"
  from assms(1-3) obtain p3 cfg snap rec ipc where
    push: "push_alarms (lb_protobuf lib) w (fb_stream_id frame) cfg snap rec 0 ?groups c = Some ipc" "pp_ipc p' = Some ipc"
    by (auto simp: handle_result_def Let_def modify_ctx_def modify_statistics_def modify_buffer_def
        split: option.splits prod.splits)
  have "length (tsq_queue (ss_queue s)) + length ?groups \<le> tsq_max_size (ss_queue s)"
    using assms(6) group_alarm_objects_length [of ?objects] by linarith
  from push_alarms_room [OF assms(4,5) this, of "lb_protobuf lib" w "fb_stream_id frame" cfg snap rec 0] push obtain s' where
    s': "ic_sender ipc = Some s'" "tsq_queue (ss_queue s') = tsq_queue (ss_queue s) @ map (pb_serialize (lb_protobuf lib))
      (numbered (ic_seq c) (map alarmEnvelope (group_alarms w (fb_stream_id frame) cfg snap rec 0 ?groups)))" by auto
  let ?alarms = "group_alarms w (fb_stream_id frame) cfg snap rec 0 ?groups"
  have group: "map_of ?groups k = Some ts \<longleftrightarrow> (k, ts) \<in> set ?groups" for k ts
    by (rule map_of_distinct_iff) (rule sorted_keys_distinct [OF group_alarm_objects(1)])
  have snds: "snd g = filter (\<lambda>t. ob_class_id t = fst g) ?objects" if "g \<in> set ?groups" for g
    using that group [of "fst g" "snd g"] by (simp add: group_alarm_objects(2) split: if_splits)
  have "map ai_target ?alarms = map snd ?groups"
    by (simp add: group_alarms_def comp_def case_prod_beta buildAlarmInfo_def) (simp add: flip: map_map [unfolded comp_def])
  also have "\<dots> = map (\<lambda>k. filter (\<lambda>t. ob_class_id t = k) ?objects) (map fst ?groups)"
    using snds by (auto simp: comp_def)
  finally have targets: "map ai_target ?alarms = map (\<lambda>k. filter (\<lambda>t. ob_class_id t = k) ?objects) (map fst ?groups)" .
  have "k \<in> fst ` set ?groups \<longleftrightarrow> map_of ?groups k \<noteq> None" for k by (simp add: map_of_eq_None_iff)
  then have keys: "set (map fst ?groups) = ob_class_id ` set ?objects"
    by (auto simp: group_alarm_objects(2) filter_empty_conv image_iff set_eq_iff)
  have "\<forall>a \<in> set ?alarms. ai_stream_id a = fb_stream_id frame \<and> ai_snapshot_name a = snap \<and> ai_record_name a = rec"
    by (auto simp: group_alarms_def buildAlarmInfo_def)
  moreover have "sorted_wrt (<) (map fst ?groups)" using group_alarm_objects(1) by (simp add: sorted_keys_def)
  ultimately show ?thesis using push(2) s' targets keys by blast
qed

theorem one_alarm_per_class_witness:
  "\<exists>p' c s a b. handle_result ex_lib ex_infer_world ex_task (StreamBufferProofs.ex_frame 0) 0 0 ex_alarm_result ex_pipeline = Some p' \<and>
     pp_ipc p' = Some c \<and> ic_sender c = Some s \<and> length (tsq_queue (ss_queue s)) = 2"
proof -
  have dirs: "ctx_transport_config (pp_contexts ex_pipeline 0) = makeTransportStreamConfig default_StreamConfig"
    by (simp add: ex_pipeline_def pp_start_def new_Pipeline_def ipc_start_def ss_start_def Let_def new_StreamContext_def)
  obtain c s where c: "pp_ipc ex_pipeline = Some c" "ic_sender c = Some s" "\<not> tsq_stopped (ss_queue s)"
    "tsq_queue (ss_queue s) = []" "tsq_max_size (ss_queue s) = 100"
    by (simp add: ex_pipeline_def pp_start_def new_Pipeline_def ex_ipc_defs ex_app_def size_of_int_def Let_def)
  have alarms: "fr_alarm_objects ex_alarm_result = [ex_alarm_object 3, ex_alarm_object 1, ex_alarm_object 3]"
    by (simp add: ex_alarm_result_def)
  then have groups: "length (group_alarm_objects (fr_alarm_objects ex_alarm_result)) \<le> 3"
    using group_alarm_objects_length [of "fr_alarm_objects ex_alarm_result"] by simp
  have push: "\<exists>z. push_alarms pb w i cfg sn rec n (group_alarm_objects [ex_alarm_object 3, ex_alarm_object 1, ex_alarm_object 3]) c = Some z"
    for pb w i cfg sn rec n
    using push_alarms_room [OF c(2,3), of "group_alarm_objects (fr_alarm_objects ex_alarm_result)" pb w i cfg sn rec n] c(4,5) groups
    by (auto simp: alarms)
  have "\<exists>p'. handle_result ex_lib ex_infer_world ex_task (StreamBufferProofs.ex_frame 0) 0 0 ex_alarm_result ex_pipeline = Some p'"
    using push c(1) by (simp add: handle_result_def Let_def triggerAlarmRecording_def triggerAlarmSnapshot_def dirs alarms
        makeTransportStreamConfig_def default_StreamConfig_def modify_ctx_def modify_statistics_def modify_buffer_def)
  then obtain p' where p': "handle_result ex_lib ex_infer_world ex_task (StreamBufferProofs.ex_frame 0) 0 0 ex_alarm_result ex_pipeline = Some p'" ..
  from one_alarm_per_class [OF p' _ c(1-3)] c(4,5) obtain c' s' alarms classes where
    r: "pp_ipc p' = Some c'" "ic_sender c' = Some s'"
    "tsq_queue (ss_queue s') = map (pb_serialize (lb_protobuf ex_lib)) (numbered (ic_seq c) (map alarmEnvelope alarms))"
    "sorted_wrt (<) classes" "set classes = ob_class_id ` set (fr_alarm_objects ex_alarm_result)"
    "map ai_target alarms = map (\<lambda>k. filter (\<lambda>t. ob_class_id t = k) (fr_alarm_objects ex_alarm_result)) classes"
    by (auto simp: alarms)
  have "distinct classes" using r(4) by (simp add: strict_sorted_iff)
  moreover have "set classes = {3, 1}" by (simp add: r(5) alarms ex_alarm_object_def insert_commute)
  ultimately have "length classes = 2" using distinct_card [of classes] by simp
  with r(6) have "length alarms = 2" by (metis length_map)
  moreover have "length (numbered n es) = length es" for n es by (induction es arbitrary: n) auto
  ultimately show ?thesis using p' r(1-3) by auto
qed

text \<open>
  Pictures are rate limited: along any sequence of requests on a stream, with whatever results of the encoder and the file
  system, two pictures are at least 5 s apart (for readings of a clock that starts above 0).
\<close>

theorem snapshots_spaced:
  assumes "snapshot_run rs c = Some (ts, c')"
  shows "sorted_wrt (\<lambda>a b. 0 < a \<longrightarrow> a + 5000 \<le> b) ts"
  using snapshot_run_spaced [OF assms] by (simp add: kAlarmSnapshotMinIntervalMs_def)

definition ex_image4 :: DmaImage where
  "ex_image4 = \<lparr>di_fd = 3, di_virt_addr = Some (replicate 24 9), di_size = 24, di_width = 4, di_height = 4, di_width_stride = 4, di_height_stride = 4\<rparr>"

definition ex_request :: "int \<Rightarrow> snapshot_request" where
  "ex_request t = \<lparr>rq_world = ex_infer_world, rq_now = t, rq_frame = new_FrameBundle\<lparr>fb_decoded_image := Some ex_image4\<rparr>, rq_objects = [ex_boxed]\<rparr>"

definition ex_snapshot_context :: "(unit, unit) StreamContext" where
  "ex_snapshot_context = new_StreamContext ex_lib (default_StreamConfig\<lparr>sc_stream_id := ''cam'', sc_alarm_snapshot_dir := ''/tmp''\<rparr>) 0"

theorem snapshots_spaced_witness:
  "\<exists>c. snapshot_run [ex_request 10000, ex_request 12000, ex_request 16000] ex_snapshot_context = Some ([10000, 16000], c) \<and>
     sorted_wrt (\<lambda>a b. 0 < a \<longrightarrow> a + 5000 \<le> b) [10000, 16000 :: int]"
proof -
  have "map_option fst (snapshot_run [ex_request 10000, ex_request 12000, ex_request 16000] ex_snapshot_context) = Some [10000, 16000]"
    by code_simp
  then obtain c where "snapshot_run [ex_request 10000, ex_request 12000, ex_request 16000] ex_snapshot_context = Some ([10000, 16000], c)"
    by auto
  with snapshots_spaced [OF this] show ?thesis by blast
qed

text \<open>
  No received configuration is lost and none is applied twice: after any burst of messages of which at least one is for this
  agent, the next turn of the main loop applies one batch, which holds for every config id the last message received
  with it, and otherwise what was there before; messages for other agents have no effect.
\<close>

theorem configurations_reach_batch:
  assumes "sorted_keys (pp_configs p)" "\<not> pp_stop_flag p" "list_ex (for_this_agent p) msgs"
  shows "\<exists>configs. mainLoop_turn lib fails (fold handleSocketConfig msgs p) =
      Some (applyConfigBatch lib fails configs (fold stopStream (pp_pending_stop_streams p)
        (p\<lparr>pp_configs := configs, pp_has_pending_config := False, pp_pending_stop_streams := []\<rparr>))) \<and>
    sorted_keys configs \<and>
    map_of configs = map_of (pp_configs p) ++
      map_of (rev (map (\<lambda>m. (ag_config_id m, m)) (filter (for_this_agent p) msgs)))"
proof -
  let ?ms = "filter (for_this_agent p) msgs"
  let ?configs = "fold (\<lambda>m. omap_put (ag_config_id m) m) ?ms (pp_configs p)"
  have "sorted_keys ?configs" using omap.wf_fold_put [OF assms(1), of ag_config_id "\<lambda>m. m" ?ms] .
  moreover have "map_of ?configs = map_of (pp_configs p) ++ map_of (rev (map (\<lambda>m. (ag_config_id m, m)) ?ms))"
    using omap.look_fold_put [OF assms(1), of ag_config_id "\<lambda>m. m" ?ms] .
  ultimately show ?thesis
    using assms(2,3) by (intro exI [of _ ?configs]) (simp add: handle_fold mainLoop_turn_def Let_def)
qed

theorem configurations_reach_batch_witness:
  "\<exists>configs. mainLoop_turn ex_lib (\<lambda>_. False) (fold handleSocketConfig (map snd (ex_agent ''rtsp:1'')) ex_pipeline) =
      Some (applyConfigBatch ex_lib (\<lambda>_. False) configs
        (ex_pipeline\<lparr>pp_configs := configs, pp_has_pending_config := False, pp_pending_stop_streams := []\<rparr>)) \<and>
     map_of configs = map_of (ex_agent ''rtsp:1'')"
proof -
  have start: "pp_configs ex_pipeline = []" "\<not> pp_stop_flag ex_pipeline" "so_agent_id (app_socket (pp_cfg ex_pipeline)) = ''a''"
    by (simp_all add: ex_pipeline_def pp_start_def new_Pipeline_def ipc_start_def ss_start_def ex_app_def Let_def modify_statistics_def)
  let ?msgs = "map snd (ex_agent ''rtsp:1'')"
  have acc: "filter (for_this_agent ex_pipeline) ?msgs = ?msgs" "list_ex (for_this_agent ex_pipeline) ?msgs"
    by (simp_all add: for_this_agent_def ex_agent_def start)
  have "map_of (rev (map (\<lambda>m. (ag_config_id m, m)) ?msgs)) = map_of (ex_agent ''rtsp:1'')" by (simp add: ex_agent_def)
  with configurations_reach_batch [OF _ start(2) acc(2), of ex_lib "\<lambda>_. False"] show ?thesis
    unfolding acc(1) start(1) ex_pipeline_ok(2) by auto
qed

text \<open>
  C40. A frame whose detection gives no result stays marked as running. \<open>detect\<close> then returns a default result with frame id -1, the worker
  marks that id as done, which changes nothing, and reports success: the scheduler considers the stream idle while
  the frame is still in state \<open>Running\<close> and holds back its packet and all later ones until another frame is selected.
\<close>

theorem failed_detection_stays_running:
  assumes "run_task lib w task p = Some p'" "it_buffer task = Some buf" "it_frame task = Some frame"
    and "findStream (it_stream_id task) p = Some ref" "\<not> ctx_stop_flag (pp_contexts p ref)" "fb_decoded_image frame \<noteq> None"
    and "de_detector (ctx_detector_runtime (pp_contexts p ref)) = Some detector"
    and "fr_frame_id (fst (ad_detect (lb_edge lib) (lb_tracker lib) (lb_differencer lib) (iw_detect w) frame
           (de_config (ctx_detector_runtime (pp_contexts p ref))) detector)) = -1"
    and "sb_findFrame (fb_frame_id frame) (pp_buffers p buf) \<noteq> None" "0 \<le> fb_frame_id frame"
  shows "(\<exists>f. sb_findFrame (fb_frame_id frame) (pp_buffers p' buf) = Some f \<and> fb_infer_state f = Running) \<and>
    (\<forall>e. sched_entry p' (it_stream_id task) = Some e \<longrightarrow> \<not> se_inflight e)"
proof -
  let ?p1 = "modify_buffer buf (sb_markInferenceRunning (fb_frame_id frame)) p"
  let ?detect = "ad_detect (lb_edge lib) (lb_tracker lib) (lb_differencer lib) (iw_detect w) frame
        (de_config (ctx_detector_runtime (pp_contexts p ref))) detector"
  obtain r d where rd: "?detect = (r, d)" by (cases ?detect)
  have fs: "findStream (it_stream_id task) ?p1 = Some ref" using assms(4) by (simp add: findStream_def)
  from assms fs rd obtain f q where
    q: "handle_result lib w task frame ref buf r (modify_ctx ref f ?p1) = Some q"
    "p' = modify_scheduler (rr_completeTask (it_stream_id task) (fb_frame_id frame)) q"
    by (auto simp: run_task_def Let_def)
  have "fr_frame_id r = -1" using assms(8) by (simp add: rd)
  with handle_result_buffers [OF q(1)] q(2)
  have "sb_findFrame (fb_frame_id frame) (pp_buffers p' buf) = frame_at (sb_markInferenceDone r
      (sb_markInferenceRunning (fb_frame_id frame) (pp_buffers p buf))) (fb_frame_id frame)"
    by (simp add: sb_findFrame_def flip: frame_at_def)
  also have "\<dots> = map_option (\<lambda>f. f\<lparr>fb_infer_state := Running\<rparr>) (sb_findFrame (fb_frame_id frame) (pp_buffers p buf))"
    using \<open>fr_frame_id r = -1\<close> assms(10)
    by (simp add: sb_markInferenceDone_def sb_markInferenceRunning_def sb_findFrame_def option.map_comp comp_def flip: frame_at_def)
  finally have "\<exists>f. sb_findFrame (fb_frame_id frame) (pp_buffers p' buf) = Some f \<and> fb_infer_state f = Running"
    using assms(9) by auto
  moreover have "\<not> se_inflight e" if "sched_entry p' (it_stream_id task) = Some e" for e
    using that q(2) by (auto simp: sched_entry_def rr_completeTask_def rr_clear_inflight_def dict_simps split: option.splits)
  ultimately show ?thesis by blast
qed

theorem failed_detection_stays_running_witness:
  "\<exists>p' f. run_task ex_lib ex_infer_world ex_task ex_failing = Some p' \<and>
     sb_findFrame 0 (pp_buffers p' 0) = Some f \<and> fb_infer_state f = Running"
proof -
  let ?frame = "StreamBufferProofs.ex_frame 0"
  have task: "it_buffer ex_task = Some 0" "it_frame ex_task = Some ?frame" "fb_frame_id ?frame = 0" "fb_decoded_image ?frame \<noteq> None"
    by (simp_all add: ex_task_def ex_defs)
  have ctx: "findStream (it_stream_id ex_task) ex_failing = Some 0" "\<not> ctx_stop_flag (pp_contexts ex_failing 0)"
    "de_detector (ctx_detector_runtime (pp_contexts ex_failing 0)) = Some (new_AlgoDetector default_StreamConfig)"
    by (simp_all add: ex_failing_def ex_task_def findStream_def new_StreamContext_def Let_def)
  have det: "ad_detect el tl pb ck frame cfg (new_AlgoDetector default_StreamConfig) = (new_FrameInferenceResult, new_AlgoDetector default_StreamConfig)"
    for el tl pb ck frame cfg by (simp add: ad_detect_def new_AlgoDetector_def)
  have stored: "sb_findFrame (fb_frame_id ?frame) (pp_buffers ex_failing 0) \<noteq> None"
    by (simp add: task ex_failing_def sb_findFrame_def ex_defs)
  have "\<exists>p'. run_task ex_lib ex_infer_world ex_task ex_failing = Some p'"
    using ctx task by (simp add: run_task_def findStream_def Let_def det handle_result_def) (simp add: new_FrameInferenceResult_def)
  then obtain p' where p': "run_task ex_lib ex_infer_world ex_task ex_failing = Some p'" ..
  from failed_detection_stays_running [OF p' task(1,2) ctx(1,2) task(4) ctx(3) _ stored] task(3) p' show ?thesis
    by (simp add: det new_FrameInferenceResult_def)
qed

end
