(* ===== verification/Startup.thy ===== *)
theory Startup
  imports LoopProofs
begin

text \<open>
  \<open>src/main.cpp\<close> and \<open>src/common/CmdArgs.cpp\<close>: the command line, the life of the pipeline from its start to the
  signal that ends the program, the shutdown, and \<open>Logger::init\<close> of \<open>src/common/Logger.h\<close>.

  \<open>getopt_long\<close> belongs to the C library: the options it returns, each with its argument, are an argument of
  \<open>parseArgs\<close>. While the main thread sleeps, the other threads hand configurations to the pipeline, ask for streams to
  be stopped and run turns of the main loop; \<open>life_event\<close> is one of these, and a run is any sequence of them.
\<close>

section \<open>Command line\<close>

record CmdArgs =
  ca_config_path :: string

definition new_CmdArgs :: CmdArgs where
  "new_CmdArgs = \<lparr>ca_config_path = ''config/config.json''\<rparr>"

fun parseArgs :: "(char \<times> string) list \<Rightarrow> CmdArgs \<Rightarrow> bool \<times> CmdArgs" where
  "parseArgs [] args = (True, args)"
| "parseArgs ((opt, optarg) # opts) args =
     (if opt = CHR ''c'' then parseArgs opts (args\<lparr>ca_config_path := optarg\<rparr>)
      else if opt = CHR ''h'' then (False, args)
      else (False, args))"

section \<open>Logging\<close>

text \<open>
  \<open>Logger::init\<close> of \<open>src/common/Logger.h\<close>: the sink it installs. The constructor of the rotating sink refuses the size 0 and
  more than 200000 files, and fails if it cannot open the file; \<open>init\<close> catches this. What \<open>create_directories\<close> throws it does not catch.
\<close>

datatype log_sink = ConsoleSink | RotatingFileSink string nat nat

datatype log_result = LogInstalled log_sink string | LogFailed | LogThrows

definition ascii_lower :: "char \<Rightarrow> char" where
  "ascii_lower c = (if CHR ''A'' \<le> c \<and> c \<le> CHR ''Z'' then char_of (of_char c + (32 :: nat)) else c)"

definition strcasecmp_equal :: "string \<Rightarrow> string \<Rightarrow> bool" where
  "strcasecmp_equal a b \<longleftrightarrow>
     map ascii_lower (takeWhile (\<lambda>c. c \<noteq> CHR 0x00) a) = map ascii_lower (takeWhile (\<lambda>c. c \<noteq> CHR 0x00) b)"

definition logger_init :: "(string \<Rightarrow> bool) \<Rightarrow> (string \<Rightarrow> bool) \<Rightarrow> LogConfig \<Rightarrow> log_result" where
  "logger_init create_directories opens cfg =
     (if strcasecmp_equal (lg_output cfg) ''console'' then LogInstalled ConsoleSink (lg_level cfg)
      else if \<not> create_directories (lg_log_dir cfg) then LogThrows
      else let log_path = lg_log_dir cfg @ ''/media_agent.log'';
               max_size = size_of_int (lg_max_file_mb cfg) * 1024 * 1024 mod 2 ^ 64;
               max_files = size_of_int (lg_max_files cfg)
           in if max_size = 0 \<or> max_files > 200000 \<or> \<not> opens log_path then LogFailed
              else LogInstalled (RotatingFileSink log_path max_size max_files) (lg_level cfg))"

section \<open>The program\<close>

datatype life_event = Received AgentConfig | StopRequested stream_ref | Turn

fun life_step :: "('e, 'h) pipeline_library \<Rightarrow> life_event \<Rightarrow> ('e, 'h) Pipeline \<Rightarrow> ('e, 'h) Pipeline" where
  "life_step lib (Received cfg) p = handleSocketConfig cfg p"
| "life_step lib (StopRequested ref) p = (if ref < pp_next_ref p then requestAsyncStopStream ref p else p)"
| "life_step lib Turn p = (case mainLoop_turn lib (\<lambda>_. False) p of None \<Rightarrow> p | Some p' \<Rightarrow> p')"

abbreviation life_run :: "('e, 'h) pipeline_library \<Rightarrow> life_event list \<Rightarrow> ('e, 'h) Pipeline \<Rightarrow> ('e, 'h) Pipeline" where
  "life_run lib \<equiv> fold (life_step lib)"

text \<open>\<open>TERMINATED\<close>: an exception leaves \<open>main\<close>.\<close>

datatype exit_code = EXIT_SUCCESS | EXIT_FAILURE | TERMINATED

record ('e, 'h) program_world =
  wo_options :: "(char \<times> string) list"
  wo_open_file :: "string \<Rightarrow> string option"
  wo_read_json :: "string \<Rightarrow> json option"
  wo_create_directories :: "string \<Rightarrow> bool"
  wo_log_opens :: "string \<Rightarrow> bool"
  wo_library :: "('e, 'h) pipeline_library"
  wo_events :: "life_event list"
  wo_contexts :: "stream_ref \<Rightarrow> ('e, 'h) StreamContext"
  wo_buffers :: "StreamBuffer buffer_heap"

definition run_main :: "('e, 'h) program_world \<Rightarrow> exit_code \<times> ('e, 'h) Pipeline option" where
  "run_main w =
     (case parseArgs (wo_options w) new_CmdArgs of
        (False, args) \<Rightarrow> (EXIT_FAILURE, None)
      | (True, args) \<Rightarrow>
          (case loadFromFile (wo_open_file w) (wo_read_json w) (ca_config_path args) of
             Inl e \<Rightarrow> (EXIT_FAILURE, None)
           | Inr cfg \<Rightarrow>
               if logger_init (wo_create_directories w) (wo_log_opens w) (app_log cfg) = LogThrows then (TERMINATED, None)
               else
                 (case pp_start (new_Pipeline cfg new_Statistics (wo_contexts w) (wo_buffers w)) of
                    (False, p) \<Rightarrow> (EXIT_FAILURE, Some p)
                  | (True, p) \<Rightarrow> (EXIT_SUCCESS, Some (pp_stop (life_run (wo_library w) (wo_events w) p))))))"

section \<open>Every context is accounted for\<close>

definition stopped :: "('e, 'h) StreamContext \<Rightarrow> bool" where
  "stopped c \<longleftrightarrow> ctx_stop_flag c \<and> \<not> ctx_publish_thread c \<and> \<not> pu_running (ctx_puller c)"

text \<open>
  Between two events a context is in the table, waits to be stopped, or is stopped. The table holds running streams with
  distinct ids; the scheduler knows those and perhaps some that wait to be stopped.
\<close>

definition accounted :: "('e, 'h) Pipeline \<Rightarrow> bool" where
  "accounted p \<longleftrightarrow>
     pp_infer_scheduler p \<noteq> None \<and> sorted_keys (pp_streams p) \<and>
     (\<forall>i r. map_of (pp_streams p) i = Some r \<longrightarrow> stream_ok p i r) \<and>
     (\<forall>i. sched_entry p i \<noteq> None \<longrightarrow> map_of (pp_streams p) i \<noteq> None \<or>
        (\<exists>r \<in> set (pp_pending_stop_streams p). ctx_stream_id (pp_contexts p r) = i)) \<and>
     (\<forall>r \<in> set (pp_pending_stop_streams p). r < pp_next_ref p \<and> ctx_stop_flag (pp_contexts p r) \<and>
        map_of (pp_streams p) (ctx_stream_id (pp_contexts p r)) = None) \<and>
     (\<forall>r < pp_next_ref p. r \<in> snd ` set (pp_streams p) \<or> r \<in> set (pp_pending_stop_streams p) \<or> stopped (pp_contexts p r))"

lemma accountedD:
  assumes "accounted p"
  shows "pp_infer_scheduler p \<noteq> None" "sorted_keys (pp_streams p)"
    "map_of (pp_streams p) i = Some r \<Longrightarrow> stream_ok p i r"
    "sched_entry p i \<noteq> None \<Longrightarrow> map_of (pp_streams p) i \<noteq> None \<or>
        (\<exists>r \<in> set (pp_pending_stop_streams p). ctx_stream_id (pp_contexts p r) = i)"
    "r \<in> set (pp_pending_stop_streams p) \<Longrightarrow> r < pp_next_ref p \<and> ctx_stop_flag (pp_contexts p r) \<and>
        map_of (pp_streams p) (ctx_stream_id (pp_contexts p r)) = None"
    "r < pp_next_ref p \<Longrightarrow> r \<in> snd ` set (pp_streams p) \<or> r \<in> set (pp_pending_stop_streams p) \<or> stopped (pp_contexts p r)"
  using assms by (simp_all add: accounted_def)

lemma accounted_table_ok:
  "accounted p \<Longrightarrow> pp_pending_stop_streams p = [] \<Longrightarrow> table_ok p"
  by (auto simp: accounted_def table_ok_def)

lemma table_ok_accounted:
  assumes "table_ok p" "pp_pending_stop_streams p = []"
    "\<And>r. r < pp_next_ref p \<Longrightarrow> r \<in> snd ` set (pp_streams p) \<or> stopped (pp_contexts p r)"
  shows "accounted p"
  using assms by (simp add: accounted_def table_ok_def)

lemma accounted_receive: "accounted p \<Longrightarrow> accounted (handleSocketConfig cfg p)"
  by (simp add: handleSocketConfig_def accounted_def stream_ok_def sched_entry_def)

text \<open>Before it applies a configuration, a turn stops what waits.\<close>

definition drained :: "('e, 'h) Pipeline \<Rightarrow> ('e, 'h) Pipeline" where
  "drained p = fold stopStream (pp_pending_stop_streams p) (p\<lparr>pp_has_pending_config := False, pp_pending_stop_streams := []\<rparr>)"

lemma drained_accounted:
  assumes "accounted p"
  shows "accounted (drained p)" "pp_pending_stop_streams (drained p) = []"
proof -
  let ?p1 = "p\<lparr>pp_has_pending_config := False, pp_pending_stop_streams := []\<rparr>" and ?rs = "pp_pending_stop_streams p"
  show pend: "pp_pending_stop_streams (drained p) = []" using stop_foldD(3) [of ?rs ?p1] by (simp add: drained_def)
  have ent: "sched_entry (drained p) i = (if i \<in> (\<lambda>r. ctx_stream_id (pp_contexts p r)) ` set ?rs then None else sched_entry p i)" for i
    using stop_foldD(8) [of ?rs ?p1 i] by (simp add: drained_def sched_entry_def)
  have fields: "pp_streams (drained p) = pp_streams p" "pp_next_ref (drained p) = pp_next_ref p"
    "pp_infer_scheduler (drained p) \<noteq> None"
    using stop_foldD(1,2,4) [of ?rs ?p1] accountedD(1) [OF assms] by (simp_all add: drained_def)
  have out: "r \<notin> set ?rs" if "map_of (pp_streams p) i = Some r" for i r
    using accountedD(3) [OF assms that] accountedD(5) [OF assms, of r] by (auto simp: stream_ok_def Let_def)
  have same: "pp_contexts (drained p) r = pp_contexts p r" if "r \<notin> set ?rs" for r
    using stop_foldD(6) [OF that, of ?p1] by (simp add: drained_def)
  have ok: "stream_ok (drained p) i r" if "map_of (pp_streams p) i = Some r" for i r
  proof -
    have "i \<notin> (\<lambda>r. ctx_stream_id (pp_contexts p r)) ` set ?rs" using that accountedD(5) [OF assms] by auto
    with accountedD(3) [OF assms that] same [OF out [OF that]] fields ent show ?thesis by (simp add: stream_ok_def Let_def)
  qed
  have st: "r \<in> snd ` set (pp_streams p) \<or> stopped (pp_contexts (drained p) r)" if "r < pp_next_ref p" for r
    using accountedD(6) [OF assms that] same [of r] stop_foldD(7) [of r ?rs ?p1]
    by (cases "r \<in> set ?rs") (auto simp: drained_def stopped_def)
  have "map_of (pp_streams p) i \<noteq> None" if "sched_entry (drained p) i \<noteq> None" for i
    using that accountedD(4) [OF assms, of i] unfolding ent [of i] by (auto split: if_splits)
  with fields ok accountedD(2) [OF assms] have "table_ok (drained p)" unfolding table_ok_def by simp
  with st fields pend show "accounted (drained p)" by (intro table_ok_accounted) simp_all
qed

text \<open>A configuration that leaves the transport of the running streams as it is.\<close>

definition transport_kept :: "(int \<times> AgentConfig) list \<Rightarrow> ('e, 'h) Pipeline \<Rightarrow> bool" where
  "transport_kept configs p \<longleftrightarrow>
     list_all (\<lambda>(i, r). case map_of (buildMergedStreams configs) i of
          None \<Rightarrow> True
        | Some cfg \<Rightarrow> isSameTransportStreamConfig (ctx_transport_config (pp_contexts p r)) cfg) (pp_streams p)"

lemma transport_kept_starts:
  assumes "transport_kept configs p"
  shows "starts (buildMergedStreams configs) p =
    map snd (filter (\<lambda>(i, cfg). map_of (kept (buildMergedStreams configs) p) i = None) (buildMergedStreams configs))"
proof -
  have "changed_configs (buildMergedStreams configs) (pp_contexts p) (pp_streams p) = []"
    using assms by (auto simp: changed_configs_def filter_empty_conv stays_def transport_kept_def list_all_iff split: option.splits)
  then show ?thesis by (simp add: starts_def)
qed

lemma started_distinct:
  assumes "distinct (map sc_stream_id cfgs)" "j < length cfgs"
  shows "started n cfgs (sc_stream_id (cfgs ! j)) = Some (n + j, cfgs ! j)"
proof -
  have "started n cfgs (sc_stream_id (cfgs ! j)) \<noteq> None" using assms(2) by (auto simp: started_None)
  then obtain r c where s: "started n cfgs (sc_stream_id (cfgs ! j)) = Some (r, c)" by auto
  from started_Some [OF this] obtain k where k: "k < length cfgs" "r = n + k" "c = cfgs ! k"
    "sc_stream_id (cfgs ! k) = sc_stream_id (cfgs ! j)" by blast
  have "map sc_stream_id cfgs ! k = map sc_stream_id cfgs ! j" using k assms(2) by simp
  then have "k = j" using assms k(1) by (simp only: nth_eq_iff_index_eq length_map)
  with s k show ?thesis by simp
qed

lemma starts_distinct:
  assumes "transport_kept configs p"
  shows "distinct (map sc_stream_id (starts (buildMergedStreams configs) p))"
proof -
  let ?desired = "buildMergedStreams configs"
  have "sc_stream_id c = i" if "(i, c) \<in> set ?desired" for i c
    using that desired_id [of configs i c] map_of_distinct_iff [OF desired_distinct, of configs i c] by simp
  then have "map sc_stream_id (starts ?desired p) = map fst (filter (\<lambda>(i, cfg). map_of (kept ?desired p) i = None) ?desired)"
    unfolding transport_kept_starts [OF assms] by auto
  moreover have "distinct_keys (filter (\<lambda>(i, cfg). map_of (kept ?desired p) i = None) ?desired)"
    by (intro distinct_keys_filter desired_distinct)
  ultimately show ?thesis by (simp add: distinct_keys_def)
qed

lemma settled_other:
  assumes "table_ok p" "r \<notin> snd ` set (pp_streams p)"
  shows "pp_contexts (settled lib desired p) r = pp_contexts p r"
proof -
  let ?d = "lb_differencer lib"
  have "r \<notin> set (dropped desired p)" using assms(2) by (auto simp: dropped_def)
  moreover have "r \<notin> fst ` set (updates ?d desired p)"
    using assms(2) updates_refs [of ?d desired "pp_contexts p" "pp_streams p"] by (auto simp: updates_def)
  ultimately show ?thesis
    using stop_foldD(6) [of r "dropped desired p" "taken_over ?d desired p"]
    by (simp add: settled_def update_fold_contexts(2) with_runtime_other)
qed

lemma apply_accounted:
  assumes "accounted p" "pp_pending_stop_streams p = []" "transport_kept configs p"
  shows "accounted (applyConfigBatch lib (\<lambda>_. False) configs p)"
proof (rule table_ok_accounted)
  note tok = accounted_table_ok [OF assms(1,2)]
  let ?p' = "applyConfigBatch lib (\<lambda>_. False) configs p" and ?desired = "buildMergedStreams configs"
  note tab = applied_table [where configs = configs and lib = lib, OF tok]
  show ok': "table_ok ?p'" by (rule applied_table_ok [OF tok])
  show "pp_pending_stop_streams ?p' = []" using tab(5) assms(2) by simp
  have in_table: "r \<in> snd ` set (pp_streams ?p')" if "map_of (pp_streams ?p') i = Some r" for i r
    using map_of_SomeD [OF that] by force
  show "r \<in> snd ` set (pp_streams ?p') \<or> stopped (pp_contexts ?p' r)" if r: "r < pp_next_ref ?p'" for r
  proof (cases "r < pp_next_ref p")
    case False
    with r tab(4) obtain j where j: "r = pp_next_ref p + j" "j < length (starts ?desired p)"
      by (metis add_less_cancel_left le_Suc_ex not_less)
    from started_distinct [OF starts_distinct [OF assms(3)] j(2), of "pp_next_ref p"] j(1)
      tab(1) [of "sc_stream_id (starts ?desired p ! j)"] in_table show ?thesis by simp
  next
    case old: True
    show ?thesis
    proof (cases "r \<in> snd ` set (pp_streams p)")
      case False
      with settled_other [OF tok this] tab(6) [OF old] accountedD(6) [OF assms(1) old] assms(2) show ?thesis by simp
    next
      case True
      then obtain i where i: "map_of (pp_streams p) i = Some r" using table_okD(5) [OF tok] by auto
      show ?thesis
      proof (cases "map_of (kept ?desired p) i = Some r")
        case True
        have "started (pp_next_ref p) (starts ?desired p) i = None"
          using started_starts(1) [OF tok, of "pp_next_ref p" configs i] True
          by (cases "started (pp_next_ref p) (starts ?desired p) i") auto
        with True tab(1) [of i] in_table show ?thesis by simp
      next
        case False
        from settled_dropped [OF tok i this, of lib] tab(6) [OF old] show ?thesis by (simp add: stopped_def)
      qed
    qed
  qed
qed

text \<open>A request takes a running stream out of the table.\<close>

lemma running_in_table:
  assumes "accounted p" "ref < pp_next_ref p" "\<not> ctx_stop_flag (pp_contexts p ref)"
  shows "map_of (pp_streams p) (ctx_stream_id (pp_contexts p ref)) = Some ref"
proof -
  from assms(3) accountedD(5) [OF assms(1), of ref] accountedD(6) [OF assms(1,2)] obtain j where "(j, ref) \<in> set (pp_streams p)"
    by (auto simp: stopped_def)
  then have "map_of (pp_streams p) j = Some ref"
    using map_of_distinct_iff [OF sorted_keys_distinct [OF accountedD(2) [OF assms(1)]]] by blast
  with accountedD(3) [OF assms(1) this] show ?thesis by (simp add: stream_ok_def Let_def)
qed

lemma request_eq:
  fixes p ref defines "q \<equiv> requestAsyncStopStream ref p" and "i \<equiv> ctx_stream_id (pp_contexts p ref)"
  assumes "\<not> ctx_stop_flag (pp_contexts p ref)" "map_of (pp_streams p) i = Some ref"
  shows "pp_streams q = filter (\<lambda>(k, _). i \<noteq> k) (pp_streams p)" "map_of (pp_streams q) = (map_of (pp_streams p))(i := None)"
    "pp_pending_stop_streams q = pp_pending_stop_streams p @ [ref]"
    "pp_contexts q = (pp_contexts p)(ref := (pp_contexts p ref)\<lparr>ctx_stop_flag := True\<rparr>)" "pp_next_ref q = pp_next_ref p"
    "pp_infer_scheduler q = pp_infer_scheduler p" "sched_entry q = sched_entry p"
    "ctx_stream_id (pp_contexts q r) = ctx_stream_id (pp_contexts p r)"
  using assms(3,4) delete_conv' [of i "pp_streams p"]
  by (simp_all add: q_def i_def requestAsyncStopStream_def Let_def modify_ctx_def sched_entry_def fun_eq_iff AList.delete_eq)

text \<open>The clauses of the invariant after a request.\<close>

lemma request_streams:
  assumes "accounted p" "\<not> ctx_stop_flag (pp_contexts p ref)"
    "map_of (pp_streams p) (ctx_stream_id (pp_contexts p ref)) = Some ref" "map_of (pp_streams (requestAsyncStopStream ref p)) k = Some r"
  shows "stream_ok (requestAsyncStopStream ref p) k r"
proof -
  note q = request_eq [OF assms(2,3)]
  from assms(4) have k: "map_of (pp_streams p) k = Some r" "k \<noteq> ctx_stream_id (pp_contexts p ref)"
    by (simp_all add: q(2) split: if_splits)
  with accountedD(3) [OF assms(1) k(1)] have "stream_ok p k r" "r \<noteq> ref" by (auto simp: stream_ok_def Let_def)
  then show ?thesis by (simp add: q(4-7) stream_ok_def Let_def)
qed

lemma request_contexts:
  assumes "accounted p" "\<not> ctx_stop_flag (pp_contexts p ref)"
    "map_of (pp_streams p) (ctx_stream_id (pp_contexts p ref)) = Some ref" "r < pp_next_ref p" "q = requestAsyncStopStream ref p"
  shows "r \<in> snd ` set (pp_streams q) \<or> r \<in> set (pp_pending_stop_streams q) \<or> stopped (pp_contexts q r)"
proof (cases "r \<in> snd ` set (pp_streams p) \<and> r \<noteq> ref")
  case True
  note q = request_eq [OF assms(2,3), folded assms(5)]
  from True obtain k where k: "(k, r) \<in> set (pp_streams p)" "r \<noteq> ref" by auto
  moreover have "k \<noteq> ctx_stream_id (pp_contexts p ref)"
    using assms(3) k map_of_distinct_iff [OF sorted_keys_distinct [OF accountedD(2) [OF assms(1)]], of k r] by auto
  ultimately have "(k, r) \<in> set (pp_streams q)" by (simp add: q(1))
  then show ?thesis by force
next
  case False
  from False accountedD(6) [OF assms(1,4)]
  have "r = ref \<or> r \<in> set (pp_pending_stop_streams p) \<or> r \<noteq> ref \<and> stopped (pp_contexts p r)" by blast
  then show ?thesis unfolding request_eq(3,4) [OF assms(2,3), folded assms(5)] by auto
qed

lemma request_accounted:
  assumes "accounted p" "ref < pp_next_ref p"
  shows "accounted (requestAsyncStopStream ref p)"
proof (cases "ctx_stop_flag (pp_contexts p ref)")
  case True
  with assms show ?thesis by (simp add: requestAsyncStopStream_def)
next
  case False
  let ?i = "ctx_stream_id (pp_contexts p ref)" and ?q = "requestAsyncStopStream ref p"
  note i = running_in_table [OF assms False] and q = request_eq [OF False running_in_table [OF assms False]]
  show ?thesis unfolding accounted_def
  proof (intro conjI allI impI ballI)
    show "pp_infer_scheduler ?q \<noteq> None" using accountedD(1) [OF assms(1)] by (simp add: q(6))
    show "sorted_keys (pp_streams ?q)" using accountedD(2) [OF assms(1)] by (simp add: q(1) sorted_keys_filter)
    show "stream_ok ?q k r" if "map_of (pp_streams ?q) k = Some r" for k r
      by (rule request_streams [OF assms(1) False i that])
    show "map_of (pp_streams ?q) k \<noteq> None \<or> (\<exists>r \<in> set (pp_pending_stop_streams ?q). ctx_stream_id (pp_contexts ?q r) = k)"
      if "sched_entry ?q k \<noteq> None" for k
      using that accountedD(4) [OF assms(1), of k] unfolding q(2,3,7,8) by (cases "k = ?i") (simp_all add: bex_Un)
    fix r
    assume "r \<in> set (pp_pending_stop_streams ?q)"
    then have r: "r = ref \<or> r \<in> set (pp_pending_stop_streams p)" by (auto simp: q(3))
    then show "r < pp_next_ref ?q" using assms(2) accountedD(5) [OF assms(1), of r] by (auto simp: q(5))
    from r show "ctx_stop_flag (pp_contexts ?q r)" using accountedD(5) [OF assms(1), of r] by (auto simp: q(4))
    from r show "map_of (pp_streams ?q) (ctx_stream_id (pp_contexts ?q r)) = None"
      unfolding q(2,8) using accountedD(5) [OF assms(1), of r] by auto
  next
    show "r \<in> snd ` set (pp_streams ?q) \<or> r \<in> set (pp_pending_stop_streams ?q) \<or> stopped (pp_contexts ?q r)"
      if "r < pp_next_ref ?q" for r
      using request_contexts [OF assms(1) False i _ refl, of r] that by (simp add: q(5))
  qed
qed

section \<open>Runs\<close>

text \<open>No step touches the flags of the pipeline.\<close>

definition control :: "('e, 'h) Pipeline \<Rightarrow> bool \<times> bool" where
  "control p = (pp_running p, pp_stop_flag p)"

lemma control_modify [simp]:
  "control (modify_ctx r f p) = control p" "control (modify_buffer r g p) = control p"
  "control (modify_scheduler h p) = control p" "control (modify_statistics k p) = control p"
  by (simp_all add: control_def modify_ctx_def modify_buffer_def modify_scheduler_def modify_statistics_def)

lemma control_update [simp]:
  "control (p\<lparr>pp_streams := s\<rparr>) = control p" "control (p\<lparr>pp_contexts := c\<rparr>) = control p"
  "control (p\<lparr>pp_pending_stop_streams := x\<rparr>) = control p" "control (p\<lparr>pp_has_pending_config := b\<rparr>) = control p"
  "control (p\<lparr>pp_configs := cs\<rparr>) = control p" "control (p\<lparr>pp_next_ref := n\<rparr>) = control p" "control (p\<lparr>pp_buffers := bs\<rparr>) = control p"
  by (simp_all add: control_def)

lemma control_fold: "(\<And>x p. control (f x p) = control p) \<Longrightarrow> control (fold f xs p) = control p"
  by (induction xs arbitrary: p) simp_all

lemma control_steps [simp]:
  "control (stopStream r p) = control p" "control (updateStreamRuntime lib r cfg p) = control p"
  "control (requestAsyncStopStream r p) = control p" "control (handleSocketConfig c p) = control p"
  "control (snd (buildStreamContext lib cfg p)) = control p" "control (start_stream lib fails cfg p) = control p"
proof -
  show build: "control (snd (buildStreamContext lib cfg p)) = control p" for cfg p
    by (simp add: buildStreamContext_def Let_def case_prod_beta pu_start_def)
  show request: "control (requestAsyncStopStream r p) = control p" for r p
    by (simp add: requestAsyncStopStream_def Let_def)
  show stop: "control (stopStream r p) = control p" for r p by (simp add: stopStream_def Let_def)
  show "control (updateStreamRuntime lib r cfg p) = control p" by (simp add: updateStreamRuntime_def Let_def)
  show "control (handleSocketConfig c p) = control p" by (simp add: handleSocketConfig_def)
  show "control (start_stream lib fails cfg p) = control p"
    using build [of cfg p] by (auto simp: start_stream_def Let_def request stop split: prod.splits option.splits)
qed

lemma control_turn [simp]: "control (life_step lib e p) = control p"
  by (cases e) (simp_all add: mainLoop_turn_def applyConfigBatch_def Let_def control_fold case_prod_beta)

text \<open>Runs in which no configuration changes the transport of a running stream.\<close>

fun transports_kept :: "('e, 'h) pipeline_library \<Rightarrow> life_event list \<Rightarrow> ('e, 'h) Pipeline \<Rightarrow> bool" where
  "transports_kept lib [] p = True"
| "transports_kept lib (e # es) p =
     ((e = Turn \<longrightarrow> pp_has_pending_config p \<longrightarrow> transport_kept (pp_configs p) (drained p)) \<and>
      transports_kept lib es (life_step lib e p))"

lemma life_step_accounted:
  assumes "accounted p" "\<not> pp_stop_flag p" "e = Turn \<longrightarrow> pp_has_pending_config p \<longrightarrow> transport_kept (pp_configs p) (drained p)"
  shows "accounted (life_step lib e p)"
proof (cases e)
  case Turn
  have "life_step lib Turn p \<in> {p, drained p} \<or>
      pp_has_pending_config p \<and> life_step lib Turn p = applyConfigBatch lib (\<lambda>_. False) (pp_configs p) (drained p)"
    using assms(2) by (simp add: mainLoop_turn_def drained_def Let_def)
  with Turn assms(1,3) drained_accounted [OF assms(1)]
    apply_accounted [OF drained_accounted [OF assms(1)], of "pp_configs p" lib] show ?thesis by auto
qed (use assms in \<open>simp_all add: accounted_receive request_accounted\<close>)

lemma life_run_accounted:
  "accounted p \<Longrightarrow> \<not> pp_stop_flag p \<Longrightarrow> transports_kept lib es p \<Longrightarrow> accounted (life_run lib es p)"
proof (induction es arbitrary: p)
  case (Cons e es)
  have "\<not> pp_stop_flag (life_step lib e p)" using Cons.prems(2) control_turn [of lib e p] by (simp add: control_def)
  with Cons.prems life_step_accounted [of p e lib] Cons.IH [of "life_step lib e p"] show ?case by simp
qed simp

lemma stop_complete:
  assumes "accounted p" "pp_running p" "r < pp_next_ref p"
  shows "stopped (pp_contexts (pp_stop p) r)"
proof -
  let ?rs = "map snd (pp_streams p) @ pp_pending_stop_streams p"
  let ?p0 = "(modify_scheduler rr_stop (p\<lparr>pp_stop_flag := True\<rparr>))\<lparr>pp_streams := [], pp_pending_stop_streams := []\<rparr>"
  have "pp_contexts (pp_stop p) = pp_contexts (fold stopStream ?rs ?p0)"
    using assms(2) by (simp add: pp_stop_def Let_def modify_statistics_def)
  moreover have "pp_contexts ?p0 = pp_contexts p" by simp
  ultimately show ?thesis
    using accountedD(6) [OF assms(1,3)] stop_foldD(6) [of r ?rs ?p0] stop_foldD(7) [of r ?rs ?p0]
    by (cases "r \<in> set ?rs") (auto simp: stopped_def)
qed

lemma start_accounted:
  "accounted (snd (pp_start (new_Pipeline cfg st ctxs bufs)))"
  "fst (pp_start (new_Pipeline cfg st ctxs bufs))"
  "control (snd (pp_start (new_Pipeline cfg st ctxs bufs))) = (True, False)"
  by (simp_all add: accounted_def pp_start_def new_Pipeline_def ipc_start_def ss_start_def new_SocketSender_def Let_def
      sched_entry_def createRoundRobinInferScheduler_def control_def modify_statistics_def)

lemma stop_fields:
  assumes "pp_running p"
  shows "pp_next_ref (pp_stop p) = pp_next_ref p" "pp_streams (pp_stop p) = []" "pp_pending_stop_streams (pp_stop p) = []"
    "pp_infer_threads (pp_stop p) = 0" "\<not> pp_config_thread (pp_stop p)" "\<not> pp_heartbeat_thread (pp_stop p)"
    "\<not> pp_running (pp_stop p)" "pp_infer_scheduler (pp_stop p) = None"
  using assms by (simp_all add: pp_stop_def Let_def modify_statistics_def stop_foldD(1-3) modify_scheduler_def)

lemma parseArgs_eq:
  "fst (parseArgs opts args) = list_all (\<lambda>(opt, _). opt = CHR ''c'') opts"
  "fst (parseArgs opts args) \<Longrightarrow> ca_config_path (snd (parseArgs opts args)) = last (ca_config_path args # map snd opts)"
  by (induction opts args rule: parseArgs.induct) (auto split: if_splits)

section \<open>Properties\<close>

text \<open>The configuration file the program reads, and the pipeline it starts.\<close>

definition config_of :: "('e, 'h) program_world \<Rightarrow> config_error + AppConfig" where
  "config_of w = loadFromFile (wo_open_file w) (wo_read_json w) (last (''config/config.json'' # map snd (wo_options w)))"

definition started_pipeline :: "('e, 'h) program_world \<Rightarrow> AppConfig \<Rightarrow> ('e, 'h) Pipeline" where
  "started_pipeline w cfg = snd (pp_start (new_Pipeline cfg new_Statistics (wo_contexts w) (wo_buffers w)))"


definition ex_world :: "(unit, unit) program_world" where
  "ex_world = \<lparr>wo_options = [(CHR ''c'', ''a.json'')], wo_open_file = \<lambda>path. if path = ''a.json'' then Some ''{}'' else None,
     wo_read_json = \<lambda>text. Some (JObject []), wo_create_directories = \<lambda>_. True, wo_log_opens = \<lambda>_. True, wo_library = ex_lib,
     wo_events = [Received ((snd (hd (ex_agent ''rtsp:1'')))\<lparr>ag_agent_id := []\<rparr>), Turn, StopRequested 0],
     wo_contexts = \<lambda>r. new_StreamContext ex_lib default_StreamConfig r, wo_buffers = \<lambda>r. createStreamBuffer []\<rparr>"


text \<open>
  Without a section \<open>socket\<close> in the configuration file the agent id stays empty instead of \<open>agent_001\<close>, the default that an
  empty section gives, and the started pipeline then ignores every configuration that is addressed to an agent.
\<close>

theorem no_socket_section_deaf:
  assumes "parseJson doc = Inr cfg" "element ''socket'' doc = None" "ag_agent_id m \<noteq> []"
  shows "handleSocketConfig m (snd (pp_start (new_Pipeline cfg st ctxs bufs))) = snd (pp_start (new_Pipeline cfg st ctxs bufs)) \<and>
    parseSocket (JObject []) = Inr (new_SocketConfig\<lparr>so_agent_id := ''agent_001''\<rparr>)"
proof -
  have "so_agent_id (app_socket cfg) = []"
    using assms(1,2) by (auto simp: parseJson_def parse_section_def and_then_eq_Inr new_SocketConfig_def)
  moreover have "pp_cfg (snd (pp_start (new_Pipeline cfg st ctxs bufs))) = cfg"
    by (simp add: pp_start_def new_Pipeline_def ipc_start_def ss_start_def Let_def modify_statistics_def)
  ultimately show ?thesis using assms(3)
    by (simp add: handleSocketConfig_def parseSocket_def jget_def new_SocketConfig_def)
qed

theorem no_socket_section_deaf_witness:
  "\<exists>cfg. parseJson (JObject []) = Inr cfg \<and>
     handleSocketConfig \<lparr>ag_agent_id = ''agent_001'', ag_config_id = 1, ag_streams = []\<rparr> (started_pipeline ex_world cfg) =
       started_pipeline ex_world cfg"
proof -
  have doc: "parseJson (JObject []) = Inr new_AppConfig"
    by (simp add: parseJson_def parse_section_def new_AppConfig_def)
  from no_socket_section_deaf [OF doc, of "\<lparr>ag_agent_id = ''agent_001'', ag_config_id = 1, ag_streams = []\<rparr>"
      new_Statistics "wo_contexts ex_world" "wo_buffers ex_world"] doc show ?thesis
    by (simp add: started_pipeline_def)
qed

end
