(* ===== verification/SeiInjectorProofs.thy ===== *)
theory SeiInjectorProofs
  imports SeiInjector
begin

unbundle bit_operations_syntax

text \<open>
  Correctness of the SEI injector against a receiver written from the protocol document
  (\<open>docs/metadata-over-sei-protocol.txt\<close>, sections 4.3 to 4.4.8) and from the emulation
  prevention and SEI syntax of H.264/H.265.
\<close>

section \<open>The receiver\<close>

text \<open>Removal of emulation prevention bytes.\<close>

fun unescape :: "nat \<Rightarrow> u8 list \<Rightarrow> u8 list" where
  "unescape zeros [] = []"
| "unescape zeros (b # bs) =
     (if zeros \<ge> 2 \<and> b = 3 then unescape 0 bs
      else b # unescape (if b = 0 then zeros + 1 else 0) bs)"

text \<open>The type and the size of an SEI message: a run of \<open>0xFF\<close> bytes and a last byte.\<close>

fun read_sei_value :: "u8 list \<Rightarrow> (nat \<times> u8 list) option" where
  "read_sei_value [] = None"
| "read_sei_value (b # bs) =
     (if b = 0xFF then map_option (\<lambda>(v, rest). (255 + v, rest)) (read_sei_value bs)
      else Some (unat b, bs))"

text \<open>An RBSP with one SEI message: type, size, payload and the trailing bits.\<close>

definition read_sei :: "u8 list \<Rightarrow> (nat \<times> u8 list) option" where
  "read_sei rbsp =
     do {
       (payload_type, rest) \<leftarrow> read_sei_value rbsp;
       (payload_size, rest) \<leftarrow> read_sei_value rest;
       if drop payload_size rest = [0x80] then Some (payload_type, take payload_size rest) else None
     }"

text \<open>A NAL unit with its header bytes.\<close>

definition read_sei_nal :: "SeiCodecType \<Rightarrow> u8 list \<Rightarrow> (nat \<times> u8 list) option" where
  "read_sei_nal codec nal =
     (case codec of
        H264 \<Rightarrow> (case nal of
                   h # ebsp \<Rightarrow> if h AND 0x1F = 6 then read_sei (unescape 0 ebsp) else None
                 | _ \<Rightarrow> None)
      | H265 \<Rightarrow> (case nal of
                   h # _ # ebsp \<Rightarrow> if drop_bit 1 h AND 0x3F = 39 then read_sei (unescape 0 ebsp) else None
                 | _ \<Rightarrow> None))"

fun read_u16 :: "u8 list \<Rightarrow> u16" where
  "read_u16 (a # b # _) = word_cat a b"
| "read_u16 _ = 0"

fun read_u32 :: "u8 list \<Rightarrow> u32" where
  "read_u32 (a # b # c # d # _) = word_cat (word_cat a b :: u16) (word_cat c d :: u16)"
| "read_u32 _ = 0"

record msp_bbox =
  mb_id :: u16
  mb_confidence :: u8
  mb_cx :: u16
  mb_cy :: u16
  mb_w :: u16
  mb_h :: u16
  mb_angle :: u16
  mb_distance :: u32
  mb_type :: "u8 list"

record msp_text_osd =
  mt_flags :: u8
  mt_style :: u8
  mt_x :: u16
  mt_y :: u16
  mt_w :: u16
  mt_h :: u16
  mt_reserved :: u8
  mt_text_color :: u32
  mt_bg_color :: u32
  mt_text :: "u8 list"

datatype msp_item = MspBbox msp_bbox | MspTextOsd msp_text_osd | MspUnknown u8

definition read_bbox :: "u8 list \<Rightarrow> msp_item option" where
  "read_bbox p =
     (if length p < 18 \<or> length p \<noteq> 18 + unat (p ! 2) then None
      else Some (MspBbox
        \<lparr>mb_id = read_u16 p, mb_confidence = p ! 3, mb_cx = read_u16 (drop 4 p),
         mb_cy = read_u16 (drop 6 p), mb_w = read_u16 (drop 8 p), mb_h = read_u16 (drop 10 p),
         mb_angle = read_u16 (drop 12 p), mb_distance = read_u32 (drop 14 p), mb_type = drop 18 p\<rparr>))"

definition read_text_osd :: "u8 list \<Rightarrow> msp_item option" where
  "read_text_osd p =
     (if length p < 20 \<or> length p \<noteq> 20 + unat (p ! 10) then None
      else Some (MspTextOsd
        \<lparr>mt_flags = p ! 0, mt_style = p ! 1, mt_x = read_u16 (drop 2 p), mt_y = read_u16 (drop 4 p),
         mt_w = read_u16 (drop 6 p), mt_h = read_u16 (drop 8 p), mt_reserved = p ! 11,
         mt_text_color = read_u32 (drop 12 p), mt_bg_color = read_u32 (drop 16 p),
         mt_text = drop 20 p\<rparr>))"

fun read_items :: "nat \<Rightarrow> u8 list \<Rightarrow> (msp_item list \<times> u8 list) option" where
  "read_items 0 bs = Some ([], bs)"
| "read_items (Suc n) (t # s # bs) =
     (if length bs < unat s then None
      else case (if t = 1 then read_bbox (take (unat s) bs)
                 else if t = 2 then read_text_osd (take (unat s) bs) else Some (MspUnknown t)) of
             None \<Rightarrow> None
           | Some item \<Rightarrow>
               map_option (\<lambda>(items, rest). (item # items, rest)) (read_items n (drop (unat s) bs)))"
| "read_items (Suc n) _ = None"

definition read_msp :: "u8 list \<Rightarrow> msp_item list option" where
  "read_msp p =
     (if length p < 20 \<or> take 16 p \<noteq> kSeiUuid \<or> p ! 16 \<noteq> 1 then None
      else case read_items (unat (p ! 19)) (drop 20 p) of
             Some (items, []) \<Rightarrow> Some items
           | _ \<Rightarrow> None)"

section \<open>Bytes\<close>

lemma append_be:
  "appendBeU16 out v = out @ [byte_of 1 v, byte_of 0 v]"
  "appendBeU32 out w = out @ [byte_of 3 w, byte_of 2 w, byte_of 1 w, byte_of 0 w]"
  by (simp_all add: appendBeU16_def appendBeU32_def byte_of_def)

section \<open>Emulation prevention\<close>

lemma unescape_ebsp_loop: "unescape z (ebsp_loop z bs) = bs"
  by (induction z bs rule: ebsp_loop.induct) auto

fun emulation_free :: "nat \<Rightarrow> u8 list \<Rightarrow> bool" where
  "emulation_free z [] = True"
| "emulation_free z (b # bs) = (\<not> (z \<ge> 2 \<and> b \<le> 2) \<and> emulation_free (if b = 0 then z + 1 else 0) bs)"

lemma emulation_free_ebsp_loop: "emulation_free z (ebsp_loop z bs)"
proof (induction z bs rule: ebsp_loop.induct)
  case (2 z b bs)
  have "b \<le> 2 \<Longrightarrow> b \<le> 3" by (simp add: word_le_nat_alt)
  with 2 show ?case by auto
qed simp

lemma emulation_free_mono: "emulation_free z bs \<Longrightarrow> z' \<le> z \<Longrightarrow> emulation_free z' bs"
  by (induction z bs arbitrary: z' rule: emulation_free.induct) auto

lemma emulation_free_suffix: "emulation_free z (ys @ zs) \<Longrightarrow> emulation_free 0 zs"
proof (induction ys arbitrary: z)
  case Nil
  then show ?case by (auto intro: emulation_free_mono)
qed auto

definition has_start_code :: "u8 list \<Rightarrow> bool" where
  "has_start_code bs \<longleftrightarrow> (\<exists>ys zs b. bs = ys @ [0, 0, b] @ zs \<and> b \<le> 2)"

lemma emulation_free_no_start_code: "emulation_free z bs \<Longrightarrow> \<not> has_start_code bs"
  by (auto simp: has_start_code_def dest!: emulation_free_suffix)

section \<open>SEI message\<close>

lemma appendSeiLength_append: "appendSeiLength out v = out @ appendSeiLength [] v"
proof (induction v arbitrary: out rule: less_induct)
  case (less v)
  show ?case
  proof (cases "v \<ge> 0xFF")
    case True
    then have "appendSeiLength out v = (out @ [0xFF]) @ appendSeiLength [] (v - 0xFF)"
      using less [of "v - 255" "out @ [0xFF]"] by (simp add: appendSeiLength.simps [of out])
    moreover have "appendSeiLength [] v = [0xFF] @ appendSeiLength [] (v - 0xFF)"
      using less [of "v - 255" "[0xFF]"] True by (simp add: appendSeiLength.simps [of "[]" v])
    ultimately show ?thesis by simp
  next
    case False
    then show ?thesis by (simp add: appendSeiLength.simps)
  qed
qed

lemma read_sei_value_append: "read_sei_value (appendSeiLength [] v @ rest) = Some (v, rest)"
proof (induction v rule: less_induct)
  case (less v)
  show ?case
  proof (cases "v \<ge> 0xFF")
    case True
    have "appendSeiLength [] v = [0xFF] @ appendSeiLength [] (v - 0xFF)"
      using appendSeiLength_append [of "[0xFF]" "v - 255"] True by (simp add: appendSeiLength.simps [of "[]" v])
    with less [of "v - 255"] True show ?thesis by simp
  next
    case False
    then have u: "unat (of_nat v :: u8) = v" by (simp add: unat_of_nat)
    then have "(of_nat v :: u8) \<noteq> 0xFF" using False by auto
    with False u show ?thesis by (simp add: appendSeiLength.simps)
  qed
qed

lemma read_sei_rbsp: "read_sei (sei_rbsp payload) = Some (5, payload)"
  using read_sei_value_append [of 5 "appendSeiLength [] (length payload) @ payload @ [0x80]"]
    read_sei_value_append [of "length payload" "payload @ [0x80]"]
    appendSeiLength_append [of "appendSeiLength [] 5" "length payload"]
  by (simp add: read_sei_def sei_rbsp_def)

lemma read_sei_nal_built:
  "read_sei_nal H264 (buildH264SeiNal payload) = Some (5, payload)"
  "read_sei_nal H265 (buildH265SeiNal payload) = Some (5, payload)"
  by (simp_all add: read_sei_nal_def buildH264SeiNal_def buildH265SeiNal_def toEbsp_def
      unescape_ebsp_loop read_sei_rbsp)

section \<open>Items\<close>

text \<open>What a receiver should see of a detection and of an overlay text.\<close>

definition bbox_view :: "DetectionObject \<Rightarrow> msp_item option" where
  "bbox_view ob =
     do {
       confidence \<leftarrow> quantizeUnitToU8 (ob_confidence ob);
       cx \<leftarrow> quantizeUnitToU16 (bx_cx (ob_bbox ob));
       cy \<leftarrow> quantizeUnitToU16 (bx_cy (ob_bbox ob));
       width \<leftarrow> quantizeUnitToU16 (bx_width (ob_bbox ob));
       height \<leftarrow> quantizeUnitToU16 (bx_height (ob_bbox ob));
       angle \<leftarrow> quantizeAngleToU16 (bx_angle (ob_bbox ob));
       Some (MspBbox \<lparr>mb_id = of_nat (min (unat (ob_object_id ob)) 65535), mb_confidence = confidence,
         mb_cx = cx, mb_cy = cy, mb_w = width, mb_h = height, mb_angle = angle, mb_distance = 0,
         mb_type = map byte_of_char (take 237 (detectionTypeToUtf8 ob))\<rparr>)
     }"

definition text_osd_view :: "SeiTextOsdItem \<Rightarrow> msp_item option" where
  "text_osd_view st =
     do {
       x \<leftarrow> quantizeUnitToU16 (st_x st);
       y \<leftarrow> quantizeUnitToU16 (st_y st);
       width \<leftarrow> quantizeUnitToU16 (st_width st);
       height \<leftarrow> quantizeUnitToU16 (st_height st);
       Some (MspTextOsd \<lparr>mt_flags = st_flags st, mt_style = st_style st, mt_x = x, mt_y = y,
         mt_w = width, mt_h = height, mt_reserved = st_reserved st, mt_text_color = st_text_color st,
         mt_bg_color = st_bg_color st, mt_text = map byte_of_char (take 235 (st_text st))\<rparr>)
     }"

text \<open>An encoded item: type, size and a payload of that size which reads as the item.\<close>

definition encodes :: "u8 list \<Rightarrow> msp_item \<Rightarrow> bool" where
  "encodes bytes item \<longleftrightarrow>
     (\<exists>t s body. bytes = t # s # body \<and> length body = unat s \<and>
        (if t = 1 then read_bbox body = Some item else t = 2 \<and> read_text_osd body = Some item))"

lemma u8_of_nat: "n < 256 \<Longrightarrow> unat (of_nat n :: u8) = n"
  by (simp add: unat_of_nat)

lemma id_clamp: "(ucast (min (v :: u32) 65535) :: u16) = of_nat (min (unat v) 65535)"
  by (simp add: unsigned_eq_0_iff min_def word_le_nat_alt)

definition bbox_body :: "u16 \<Rightarrow> u8 \<Rightarrow> u8 \<Rightarrow> u16 \<Rightarrow> u16 \<Rightarrow> u16 \<Rightarrow> u16 \<Rightarrow> u16 \<Rightarrow> u8 list \<Rightarrow> u8 list" where
  "bbox_body i n c cx cy w h a t =
     byte_of 1 i # byte_of 0 i # n # c # byte_of 1 cx # byte_of 0 cx # byte_of 1 cy # byte_of 0 cy #
     byte_of 1 w # byte_of 0 w # byte_of 1 h # byte_of 0 h # byte_of 1 a # byte_of 0 a #
     byte_of 3 (0::u32) # byte_of 2 (0::u32) # byte_of 1 (0::u32) # byte_of 0 (0::u32) # t"

lemma read_bbox_body:
  "length t = unat n \<Longrightarrow> read_bbox (bbox_body i n c cx cy w h a t) =
     Some (MspBbox \<lparr>mb_id = i, mb_confidence = c, mb_cx = cx, mb_cy = cy, mb_w = w, mb_h = h,
       mb_angle = a, mb_distance = 0, mb_type = t\<rparr>)"
  by (simp add: read_bbox_def bbox_body_def)

definition text_body ::
  "u8 \<Rightarrow> u8 \<Rightarrow> u16 \<Rightarrow> u16 \<Rightarrow> u16 \<Rightarrow> u16 \<Rightarrow> u8 \<Rightarrow> u8 \<Rightarrow> u32 \<Rightarrow> u32 \<Rightarrow> u8 list \<Rightarrow> u8 list"
where
  "text_body fl st x y w h n r tc bc t =
     fl # st # byte_of 1 x # byte_of 0 x # byte_of 1 y # byte_of 0 y # byte_of 1 w # byte_of 0 w #
     byte_of 1 h # byte_of 0 h # n # r # byte_of 3 tc # byte_of 2 tc # byte_of 1 tc # byte_of 0 tc #
     byte_of 3 bc # byte_of 2 bc # byte_of 1 bc # byte_of 0 bc # t"

lemma read_text_body:
  "length t = unat n \<Longrightarrow> read_text_osd (text_body fl st x y w h n r tc bc t) =
     Some (MspTextOsd \<lparr>mt_flags = fl, mt_style = st, mt_x = x, mt_y = y, mt_w = w, mt_h = h,
       mt_reserved = r, mt_text_color = tc, mt_bg_color = bc, mt_text = t\<rparr>)"
  by (simp add: read_text_osd_def text_body_def)

lemma appendMspBboxItem_eq:
  assumes "n = min (length (detectionTypeToUtf8 ob)) 237"
  shows "appendMspBboxItem p ob =
    do {
      c \<leftarrow> quantizeUnitToU8 (ob_confidence ob);
      cx \<leftarrow> quantizeUnitToU16 (bx_cx (ob_bbox ob));
      cy \<leftarrow> quantizeUnitToU16 (bx_cy (ob_bbox ob));
      w \<leftarrow> quantizeUnitToU16 (bx_width (ob_bbox ob));
      h \<leftarrow> quantizeUnitToU16 (bx_height (ob_bbox ob));
      a \<leftarrow> quantizeAngleToU16 (bx_angle (ob_bbox ob));
      Some (p @ 1 # of_nat (18 + n) #
        bbox_body (ucast (min (ob_object_id ob) 65535)) (of_nat n) c cx cy w h a
          (map byte_of_char (take n (detectionTypeToUtf8 ob))))
    }"
  by (simp add: appendMspBboxItem_def Let_def assms append_be bbox_body_def kMspItemTypeBbox_def)

lemma appendMspTextOsdItem_eq:
  assumes "n = min (length (st_text st)) 235"
  shows "appendMspTextOsdItem p st =
    do {
      x \<leftarrow> quantizeUnitToU16 (st_x st);
      y \<leftarrow> quantizeUnitToU16 (st_y st);
      w \<leftarrow> quantizeUnitToU16 (st_width st);
      h \<leftarrow> quantizeUnitToU16 (st_height st);
      Some (p @ 2 # of_nat (20 + n) #
        text_body (st_flags st) (st_style st) x y w h (of_nat n) (st_reserved st) (st_text_color st)
          (st_bg_color st) (map byte_of_char (take n (st_text st))))
    }"
  by (simp add: appendMspTextOsdItem_def osdTextToUtf8_def Let_def assms append_be text_body_def
      kMspItemTypeTextOsd_def)

text \<open>An append function that adds the encoding of what the receiver should see.\<close>

definition item_codec ::
  "(u8 list \<Rightarrow> 'a \<Rightarrow> u8 list option) \<Rightarrow> ('a \<Rightarrow> msp_item option) \<Rightarrow> bool"
where
  "item_codec append_item view \<longleftrightarrow>
     (\<forall>p x. case view x of
        None \<Rightarrow> append_item p x = None
      | Some item \<Rightarrow> \<exists>bytes. append_item p x = Some (p @ bytes) \<and> encodes bytes item)"

lemma length_type_bytes:
  "length (map f (take n xs)) = unat (of_nat n :: u8)"
  "unat (18 + of_nat n :: u8) = 18 + n" if "n = min (length xs) 237" for xs :: "'b list"
  using u8_of_nat [of n] u8_of_nat [of "18 + n"] that by simp_all

lemma length_text_bytes:
  "length (map f (take n xs)) = unat (of_nat n :: u8)"
  "unat (20 + of_nat n :: u8) = 20 + n" if "n = min (length xs) 235" for xs :: "'b list"
  using u8_of_nat [of n] u8_of_nat [of "20 + n"] that by simp_all

lemma take_min_length: "take (min (length xs) k) xs = take k xs"
  by (simp add: min_def)

lemma bbox_item_codec: "item_codec appendMspBboxItem bbox_view"
  unfolding item_codec_def
proof (intro allI)
  fix p ob
  define n where "n = min (length (detectionTypeToUtf8 ob)) 237"
  note len = length_type_bytes(1) [OF n_def, of byte_of_char] length_type_bytes(2) [OF n_def]
  have enc: "encodes (1 # of_nat (18 + n) #
        bbox_body i (of_nat n) c cx cy w h a (map byte_of_char (take n (detectionTypeToUtf8 ob))))
      (MspBbox \<lparr>mb_id = i, mb_confidence = c, mb_cx = cx, mb_cy = cy, mb_w = w, mb_h = h, mb_angle = a,
         mb_distance = 0, mb_type = map byte_of_char (take n (detectionTypeToUtf8 ob))\<rparr>)"
    for i c cx cy w h a
    using read_bbox_body [OF len(1)] len(2) n_def
    by (simp add: encodes_def) (simp add: bbox_body_def)
  show "case bbox_view ob of None \<Rightarrow> appendMspBboxItem p ob = None
      | Some item \<Rightarrow> \<exists>bytes. appendMspBboxItem p ob = Some (p @ bytes) \<and> encodes bytes item"
    unfolding bbox_view_def appendMspBboxItem_eq [OF n_def]
    using enc
    by (cases "quantizeUnitToU8 (ob_confidence ob)"; cases "quantizeUnitToU16 (bx_cx (ob_bbox ob))";
        cases "quantizeUnitToU16 (bx_cy (ob_bbox ob))"; cases "quantizeUnitToU16 (bx_width (ob_bbox ob))";
        cases "quantizeUnitToU16 (bx_height (ob_bbox ob))"; cases "quantizeAngleToU16 (bx_angle (ob_bbox ob))";
        simp add: id_clamp take_min_length [of "detectionTypeToUtf8 ob" 237, folded n_def])
qed

lemma text_item_codec: "item_codec appendMspTextOsdItem text_osd_view"
  unfolding item_codec_def
proof (intro allI)
  fix p and st :: SeiTextOsdItem
  define n where "n = min (length (st_text st)) 235"
  note len = length_text_bytes(1) [OF n_def, of byte_of_char] length_text_bytes(2) [OF n_def]
  have enc: "encodes (2 # of_nat (20 + n) #
        text_body fl sty x y w h (of_nat n) r tc bc (map byte_of_char (take n (st_text st))))
      (MspTextOsd \<lparr>mt_flags = fl, mt_style = sty, mt_x = x, mt_y = y, mt_w = w, mt_h = h, mt_reserved = r,
         mt_text_color = tc, mt_bg_color = bc, mt_text = map byte_of_char (take n (st_text st))\<rparr>)"
    for fl sty x y w h r tc bc
    using read_text_body [OF len(1)] len(2) n_def
    by (simp add: encodes_def) (simp add: text_body_def)
  show "case text_osd_view st of None \<Rightarrow> appendMspTextOsdItem p st = None
      | Some item \<Rightarrow> \<exists>bytes. appendMspTextOsdItem p st = Some (p @ bytes) \<and> encodes bytes item"
    unfolding text_osd_view_def appendMspTextOsdItem_eq [OF n_def]
    using enc
    by (cases "quantizeUnitToU16 (st_x st)"; cases "quantizeUnitToU16 (st_y st)";
        cases "quantizeUnitToU16 (st_width st)"; cases "quantizeUnitToU16 (st_height st)";
        simp add: take_min_length [of "st_text st" 235, folded n_def])
qed

section \<open>The payload\<close>

lemma read_items_encodes:
  assumes "encodes bytes item"
  shows "read_items (Suc n) (bytes @ rest) =
    map_option (\<lambda>(items, r). (item # items, r)) (read_items n rest)"
  using assms by (auto simp: encodes_def split: if_splits)

text \<open>A list of item bytes and the items they encode.\<close>

definition all_encode :: "u8 list \<Rightarrow> msp_item list \<Rightarrow> bool" where
  "all_encode bytes items \<longleftrightarrow> (\<exists>bs. bytes = concat bs \<and> list_all2 encodes bs items)"

lemma all_encode_append:
  "all_encode b1 i1 \<Longrightarrow> all_encode b2 i2 \<Longrightarrow> all_encode (b1 @ b2) (i1 @ i2)"
  unfolding all_encode_def by (metis concat_append list_all2_appendI)

lemma all_encode_single: "encodes b i \<Longrightarrow> all_encode b [i]"
  unfolding all_encode_def by (rule exI [of _ "[b]"]) simp

lemma all_encode_Nil [simp]: "all_encode [] []"
  unfolding all_encode_def by (rule exI [of _ "[]"]) simp

lemma read_items_all:
  assumes "all_encode bytes items"
  shows "read_items (length items) (bytes @ rest) = Some (items, rest)"
proof -
  have "read_items (length items) (concat bs @ rest) = Some (items, rest)"
    if "list_all2 encodes bs items" for bs
    using that by (induction bs items rule: list_all2_induct) (simp_all add: read_items_encodes)
  with assms show ?thesis by (auto simp: all_encode_def)
qed

lemma u8_Suc: "unat (c :: u8) < 255 \<Longrightarrow> unat (c + 1) = Suc (unat c)"
  by (simp add: unat_plus_if')

lemma u8_less_255: "(c :: u8) < 255 \<longleftrightarrow> unat c < 255"
  by (simp add: word_less_nat_alt)

lemma item_codecD:
  assumes "item_codec append_item view"
  shows "view x = Some item \<Longrightarrow> \<exists>bytes. append_item p x = Some (p @ bytes) \<and> encodes bytes item"
    and "view x = None \<Longrightarrow> append_item p x = None"
  using assms [unfolded item_codec_def, rule_format, of p x] by simp_all

lemma append_msp_items_spec:
  assumes "item_codec append_item view" "those (map view (take (255 - unat c) xs)) = Some items"
  shows "\<exists>bytes. append_msp_items append_item xs (p, c) = Some (p @ bytes, of_nat (unat c + length items)) \<and>
    all_encode bytes items"
  using assms(2)
proof (induction xs arbitrary: p c items)
  case Nil
  then show ?case by (intro exI [of _ "[]"]) simp
next
  case (Cons x xs)
  show ?case
  proof (cases "c < 255")
    case False
    then have "255 - unat c = 0" by (simp add: u8_less_255)
    with False Cons.prems show ?thesis by (intro exI [of _ "[]"]) simp
  next
    case True
    then have c: "unat (c + 1) = Suc (unat c)" using u8_Suc [of c] by (simp add: u8_less_255)
    define k where "k = 255 - unat (c + 1)"
    have "255 - unat c = Suc k" using True c by (simp add: k_def u8_less_255)
    with Cons.prems obtain item items' where
      view: "view x = Some item" and items: "items = item # items'"
        "those (map view (take (255 - unat (c + 1)) xs)) = Some items'"
      unfolding k_def [symmetric] by (auto split: option.splits)
    from item_codecD(1) [OF assms(1) view]
    obtain bytes where b: "append_item p x = Some (p @ bytes)" "encodes bytes item" by blast
    from Cons.IH [OF items(2), of "p @ bytes"] obtain rest where
      r: "append_msp_items append_item xs (p @ bytes, c + 1) =
            Some (p @ bytes @ rest, of_nat (unat (c + 1) + length items'))" "all_encode rest items'"
      by auto
    have "all_encode (bytes @ rest) items"
      using all_encode_append [OF all_encode_single [OF b(2)] r(2)] items(1) by simp
    moreover have "append_msp_items append_item (x # xs) (p, c) =
        Some (p @ bytes @ rest, of_nat (unat c + length items))"
      using True b(1) r(1) c items(1) by simp
    ultimately show ?thesis by blast
  qed
qed

text \<open>What the receiver should see of a message: at most 255 items, detections first.\<close>

definition message_view :: "SeiMessageContext \<Rightarrow> msp_item list option" where
  "message_view context =
     do {
       bboxes \<leftarrow> those (map bbox_view (take 255 (sx_bbox_items context)));
       texts \<leftarrow> those (map text_osd_view (take (255 - length bboxes) (sx_text_osd_items context)));
       Some (bboxes @ texts)
     }"

lemma length_those: "those xs = Some ys \<Longrightarrow> length ys = length xs"
  by (induction xs arbitrary: ys) (auto split: option.splits)

lemma buildMsp_readable:
  assumes "message_view context = Some items"
  shows "\<exists>payload. buildMspV1UserDataPayload context = Some payload \<and> read_msp payload = Some items"
proof -
  let ?B = "sx_bbox_items context" and ?T = "sx_text_osd_items context"
  let ?p = "kSeiUuid @ [kVersion, 0, 0, 0]"
  from assms obtain bs ts where bs: "those (map bbox_view (take 255 ?B)) = Some bs"
    and ts: "those (map text_osd_view (take (255 - length bs) ?T)) = Some ts" and items: "items = bs @ ts"
    by (auto simp: message_view_def bind_eq_Some_conv)
  have len: "length bs \<le> 255" "length ts \<le> 255 - length bs"
    using length_those [OF bs] length_those [OF ts] by simp_all
  have c: "unat (of_nat (length bs) :: u8) = length bs" using len(1) by (intro u8_of_nat) simp
  from append_msp_items_spec [OF bbox_item_codec, of 0 "take 255 ?B" bs ?p] bs
  obtain b1 where b1: "append_msp_items appendMspBboxItem (take 255 ?B) (?p, 0) =
      Some (?p @ b1, of_nat (length bs))" "all_encode b1 bs"
    by auto
  have "take (255 - length bs) (take 255 ?T) = take (255 - length bs) ?T" by simp
  with append_msp_items_spec [OF text_item_codec, of "of_nat (length bs)" "take 255 ?T" ts "?p @ b1"] ts c
  obtain b2 where b2: "append_msp_items appendMspTextOsdItem (take 255 ?T)
      (?p @ b1, of_nat (length bs)) = Some (?p @ b1 @ b2, of_nat (length items))" "all_encode b2 ts"
    by (auto simp: items)
  define payload where "payload = kSeiUuid @ [kVersion, 0, 0, of_nat (length items)] @ b1 @ b2"
  have "buildMspV1UserDataPayload context = Some payload"
    using b1(1) b2(1)
    by (simp add: buildMspV1UserDataPayload_def Let_def payload_def kSeiUuid_def take_min_length)
  moreover have "unat (of_nat (length items) :: u8) = length items"
    using len by (intro u8_of_nat) (simp add: items)
  then have "read_msp payload = Some items"
    using read_items_all [OF all_encode_append [OF b1(2) b2(2)], of "[]"]
    by (simp add: read_msp_def payload_def kSeiUuid_def kVersion_def items)
  ultimately show ?thesis by blast
qed

section \<open>Quantisation\<close>

definition unit_clamp :: "rat \<Rightarrow> rat" where
  "unit_clamp v = max 0 (min 1 v)"

lemma f32_clamp_unit: "f32_clamp (Fin v) (Fin 0) (Fin 1) = Fin (unit_clamp v)"
  by (auto simp: f32_clamp_def unit_clamp_def)

lemma unit_clamp_bounds: "0 \<le> unit_clamp v" "unit_clamp v \<le> 1"
  by (simp_all add: unit_clamp_def)

text \<open>Multiply, round, convert: what the three quantisers share.\<close>

lemma scale_round_defined:
  assumes "0 \<le> x" "x \<le> of_nat n + 1 / 4" "1 \<le> n" "n \<le> 65535" "n < 2 ^ bits"
  shows "\<exists>q. f32_to_unsigned bits (f32_round (rnd32 x)) = Some q \<and> 0 \<le> q \<and> q \<le> int n \<and>
           \<bar>of_int q - x\<bar> \<le> 1 / 2 + (of_nat n + 1 / 4) / 2 ^ 24"
proof -
  have n: "(of_nat n :: rat) \<le> 65535" "1 \<le> (of_nat n :: rat)" using assms(3,4) by simp_all
  have p: "pow2 (-126) \<le> of_nat n + 1 / 4" using n by (simp add: pow2_def)
  obtain y where y: "rnd32 x = Fin y" "\<bar>y - x\<bar> \<le> (of_nat n + 1 / 4) / 2 ^ 24"
    using rnd32_error [OF _ p, of x] assms(1,2) n by (auto simp: abs_le_iff)
  have "0 \<le> y" by (rule rnd32_nonneg [OF assms(1) y(1)])
  moreover have "y < of_int (int n) + 1 / 2" using abs_le_D1 [OF y(2)] assms(2) n by simp
  ultimately have q: "0 \<le> rat_round y" "rat_round y \<le> int n"
    using rat_round_nonneg rat_round_le by blast+
  have "int n < 2 ^ bits" using assms(5) by (metis of_nat_less_iff of_nat_numeral of_nat_power)
  with q(2) have "rat_round y < 2 ^ bits" by (rule le_less_trans)
  with q(1) have "f32_to_unsigned bits (f32_round (rnd32 x)) = Some (rat_round y)" by (simp add: y(1))
  moreover have "\<bar>of_int (rat_round y) - x\<bar> \<le> 1 / 2 + (of_nat n + 1 / 4) / 2 ^ 24"
    using rat_round_error [of y] y(2) by (simp only: abs_le_iff) linarith
  ultimately show ?thesis using q by blast
qed

lemma quantizeUnitToU16_Fin:
  "\<exists>q. quantizeUnitToU16 (Fin v) = Some q \<and> \<bar>of_nat (unat q) - unit_clamp v * 65535\<bar> \<le> 1 / 2 + 1 / 128"
proof -
  have "0 \<le> unit_clamp v * 65535" "unit_clamp v * 65535 \<le> of_nat 65535 + 1 / 4"
    using unit_clamp_bounds [of v] by simp_all
  from scale_round_defined [OF this, of 16] obtain q where
    q: "f32_to_unsigned 16 (f32_round (rnd32 (unit_clamp v * 65535))) = Some q" "0 \<le> q" "q \<le> 65535"
      "\<bar>of_int q - unit_clamp v * 65535\<bar> \<le> 1 / 2 + (of_nat 65535 + 1 / 4) / 2 ^ 24"
    by auto
  have "quantizeUnitToU16 (Fin v) = Some (of_int q)"
    using q(1) by (simp add: quantizeUnitToU16_def f32_clamp_unit)
  moreover have "of_nat (unat (of_int q :: u16)) = (of_int q :: rat)"
    using q(2,3) by (simp add: unat_eq_nat_uint uint_word_of_int)
  moreover have "\<bar>of_int q - unit_clamp v * 65535\<bar> \<le> 1 / 2 + 1 / 128"
    by (rule order_trans [OF q(4)]) simp
  ultimately show ?thesis by auto
qed

lemma quantizeUnitToU8_Fin:
  "\<exists>q. quantizeUnitToU8 (Fin v) = Some q \<and> \<bar>of_nat (unat q) - unit_clamp v * 255\<bar> \<le> 1 / 2 + 1 / 128"
proof -
  have "0 \<le> unit_clamp v * 255" "unit_clamp v * 255 \<le> of_nat 255 + 1 / 4"
    using unit_clamp_bounds [of v] by simp_all
  from scale_round_defined [OF this, of 8] obtain q where
    q: "f32_to_unsigned 8 (f32_round (rnd32 (unit_clamp v * 255))) = Some q" "0 \<le> q" "q \<le> 255"
      "\<bar>of_int q - unit_clamp v * 255\<bar> \<le> 1 / 2 + (of_nat 255 + 1 / 4) / 2 ^ 24"
    by auto
  have "quantizeUnitToU8 (Fin v) = Some (of_int q)"
    using q(1) by (simp add: quantizeUnitToU8_def f32_clamp_unit)
  moreover have "of_nat (unat (of_int q :: u8)) = (of_int q :: rat)"
    using q(2,3) by (simp add: unat_eq_nat_uint uint_word_of_int)
  moreover have "\<bar>of_int q - unit_clamp v * 255\<bar> \<le> 1 / 2 + 1 / 128"
    by (rule order_trans [OF q(4)]) simp
  ultimately show ?thesis by auto
qed

lemma fmod_bounds: "f32_fmod_const (Fin a) 360 = Fin m \<Longrightarrow> -360 < m \<and> m < 360"
  using floor_correct [of "a / 360"] ceiling_correct [of "a / 360"]
  by (cases "0 \<le> a") (simp_all add: rat_trunc_def, linarith+)

lemma quantizeAngleToU16_Fin: "\<exists>q. quantizeAngleToU16 (Fin a) = Some q"
proof -
  obtain m where m: "f32_fmod_const (Fin a) 360 = Fin m" by simp
  note bounds = fmod_bounds [OF m]
  have p: "pow2 (-126) \<le> 360" "pow2 (-126) \<le> 2" by (simp_all add: pow2_def)
  obtain n where n: "(if f32_less (Fin m) (Fin 0) then f32_add_const (Fin m) 360 else Fin m) = Fin n"
    "0 \<le> n" "n \<le> 360 + 1 / 10000"
  proof (cases "m < 0")
    case True
    obtain y where "rnd32 (m + 360) = Fin y" "\<bar>y - (m + 360)\<bar> \<le> 360 / 2 ^ 24"
      using rnd32_error [OF _ p(1), of "m + 360"] True bounds by (auto simp: abs_le_iff)
    moreover from this have "0 \<le> y" using rnd32_nonneg [of "m + 360" y] bounds by simp
    moreover have "y \<le> 360 + 1 / 10000" using abs_le_D1 [OF calculation(2)] True by simp
    ultimately show ?thesis using True that [of y] by simp
  qed (use bounds that [of m] in auto)
  have "\<bar>n / 360\<bar> \<le> 2" using n(2,3) by simp
  from rnd32_error [OF this p(2)] obtain d where d: "rnd32 (n / 360) = Fin d" "\<bar>d - n / 360\<bar> \<le> 2 / 2 ^ 24"
    by auto
  have d0: "0 \<le> d" using rnd32_nonneg [OF _ d(1)] n(2) by simp
  have "d \<le> 1 + 1 / 1000000" using abs_le_D1 [OF d(2)] n(3) by simp
  with d0 have "0 \<le> d * 65535" "d * 65535 \<le> of_nat 65535 + 1 / 4" by simp_all
  from scale_round_defined [OF this, of 16] show ?thesis
    unfolding quantizeAngleToU16_def Let_def m n(1) by (auto simp: d(1))
qed

lemma quantize_NaN: "quantizeUnitToU8 NaN = None" "quantizeUnitToU16 NaN = None" "quantizeAngleToU16 NaN = None"
  by (simp_all add: quantizeUnitToU8_def quantizeUnitToU16_def quantizeAngleToU16_def f32_clamp_def)

section \<open>Length prefixes\<close>

text \<open>A big-endian number of \<open>n\<close> bytes.\<close>

fun read_be_nat :: "nat \<Rightarrow> u8 list \<Rightarrow> (nat \<times> u8 list) option" where
  "read_be_nat 0 bs = Some (0, bs)"
| "read_be_nat (Suc n) (b # bs) =
     map_option (\<lambda>(v, rest). (unat b * 256 ^ n + v, rest)) (read_be_nat n bs)"
| "read_be_nat (Suc n) [] = None"

lemma byte_at: "unat (of_nat (drop_bit (i * 8) v AND 0xFF) :: u8) = (v div 256 ^ i) mod 256"
proof -
  have "(0xFF :: nat) = mask 8" by (simp add: mask_eq_exp_minus_1)
  then have "drop_bit (i * 8) v AND 0xFF = take_bit 8 (drop_bit (i * 8) v)"
    by (simp only: take_bit_eq_mask)
  also have "\<dots> = (v div 2 ^ (8 * i)) mod 256"
    by (simp add: drop_bit_eq_div take_bit_eq_mod mult.commute)
  also have "(2 :: nat) ^ (8 * i) = 256 ^ i" by (simp add: power_mult)
  finally show ?thesis by (simp add: unat_of_nat)
qed

lemma read_be_nal_length:
  "read_be_nat n (appendNalLength [] v n @ rest) = Some (v mod 256 ^ n, rest)"
proof (induction n)
  case (Suc n)
  have "v mod (256 ^ n * 256) = 256 ^ n * (v div 256 ^ n mod 256) + v mod 256 ^ n"
    by (rule mod_mult2_eq)
  moreover have "appendNalLength [] v (Suc n) =
      of_nat (drop_bit (n * 8) v AND 0xFF) # appendNalLength [] v n"
    by (simp add: appendNalLength_def)
  ultimately show ?case using Suc byte_at [of n v] by (simp add: mult.commute)
qed (simp add: appendNalLength_def)

lemma read_be_nat_4:
  "read_be_nat 4 (a # b # c # d # rest) =
     Some (unat a * 256 ^ 3 + unat b * 256 ^ 2 + unat c * 256 + unat d, rest)"
proof -
  have "(4 :: nat) = Suc (Suc (Suc (Suc 0)))" by simp
  then show ?thesis by (simp only: read_be_nat.simps) simp
qed

lemma nal_length_4:
  "appendNalLength [] v 4 =
     [of_nat (drop_bit 24 v AND 0xFF), of_nat (drop_bit 16 v AND 0xFF),
      of_nat (drop_bit 8 v AND 0xFF), of_nat (v AND 0xFF)]"
proof -
  have "rev [0..<4] = [3, 2, 1, 0 :: nat]" by (simp add: upt_rec)
  then show ?thesis by (simp add: appendNalLength_def)
qed

text \<open>The NAL units of a stream with length prefixes of \<open>n\<close> bytes.\<close>

fun read_length_prefixed :: "nat \<Rightarrow> nat \<Rightarrow> u8 list \<Rightarrow> u8 list list option" where
  "read_length_prefixed fuel n [] = Some []"
| "read_length_prefixed 0 n (b # bs) = None"
| "read_length_prefixed (Suc fuel) n (b # bs) =
     (case read_be_nat n (b # bs) of
        None \<Rightarrow> None
      | Some (len, rest) \<Rightarrow>
          if length rest < len then None
          else map_option (\<lambda>nals. take len rest # nals) (read_length_prefixed fuel n (drop len rest)))"

lemma appendNalLength_nonempty: "0 < n \<Longrightarrow> appendNalLength [] value n \<noteq> []"
  by (simp add: appendNalLength_def)

lemma toLengthPrefixedNal_eq:
  assumes "1 \<le> n" "n \<le> 4"
  shows "toLengthPrefixedNal nal n =
    (if length nal < 256 ^ nat n then appendNalLength [] (length nal) (nat n) @ nal else [])"
proof -
  have "(256::nat) ^ nat n = (2 ^ 8) ^ nat n" by simp
  also have "\<dots> = 2 ^ (nat n * 8)" by (simp only: power_mult [symmetric] mult.commute)
  finally have "(256::nat) ^ nat n = 2 ^ (nat n * 8)" .
  moreover have "(if n = 4 then 2 ^ 32 - 1 else 2 ^ (nat n * 8) - 1 :: nat) = 2 ^ (nat n * 8) - 1" by simp
  moreover have "2 ^ (nat n * 8) - 1 < length nal \<longleftrightarrow> \<not> length nal < 2 ^ (nat n * 8)"
    using zero_less_power [of "2::nat" "nat n * 8"] by linarith
  ultimately show ?thesis using assms by (simp only: toLengthPrefixedNal_def Let_def) simp
qed

lemma read_length_prefixed_nal:
  assumes "1 \<le> n" "n \<le> 4" "length nal < 256 ^ nat n" "read_length_prefixed fuel (nat n) rest = Some nals"
  shows "read_length_prefixed (Suc fuel) (nat n) (toLengthPrefixedNal nal n @ rest) = Some (nal # nals)"
proof -
  have pre: "toLengthPrefixedNal nal n = appendNalLength [] (length nal) (nat n) @ nal"
    using assms(1-3) by (simp add: toLengthPrefixedNal_eq)
  then obtain b bs where bs: "toLengthPrefixedNal nal n @ rest = b # bs"
    using appendNalLength_nonempty [of "nat n" "length nal"] assms(1)
    by (cases "toLengthPrefixedNal nal n @ rest") auto
  have "read_be_nat (nat n) (b # bs) = Some (length nal, nal @ rest)"
    using read_be_nal_length [of "nat n" "length nal" "nal @ rest"] assms(3) bs pre by simp
  with assms(4) bs show ?thesis by simp
qed

section \<open>The injected packet\<close>

definition sei_nal :: "SeiCodecType \<Rightarrow> u8 list \<Rightarrow> u8 list" where
  "sei_nal codec payload = (if codec = H265 then buildH265SeiNal payload else buildH264SeiNal payload)"

lemma read_sei_nal: "read_sei_nal codec (sei_nal codec payload) = Some (5, payload)"
  by (cases codec) (simp_all add: sei_nal_def read_sei_nal_built)

lemma sei_nal_free: "\<not> has_start_code (sei_nal codec payload)"
proof (rule emulation_free_no_start_code [of 0])
  show "emulation_free 0 (sei_nal codec payload)"
    using emulation_free_ebsp_loop [of 0 "sei_rbsp payload"]
    by (cases codec) (simp_all add: sei_nal_def buildH264SeiNal_def buildH265SeiNal_def toEbsp_def)
qed

lemma sei_inject_eq:
  assumes "ep_packet p = Some source" "av_data source \<noteq> []" "hasItems context"
    "buildMspV1UserDataPayload context = Some payload"
    "\<And>n. pl_allocate lib n" "pl_copy_props lib source"
  shows "sei_inject lib p codec n context =
    (let nal = (if isAnnexB (av_data source) then toAnnexBNal (sei_nal codec payload)
                else toLengthPrefixedNal (sei_nal codec payload) n)
     in Some (if payload = [] \<or> nal = [] then (False, Some source)
              else (True, Some (source\<lparr>av_data := nal @ av_data source\<rparr>))))"
  using assms by (simp add: sei_inject_def sei_nal_def Let_def)

lemma payload_nonempty: "read_msp payload = Some items \<Longrightarrow> payload \<noteq> []"
  by (cases payload) (simp_all add: read_msp_def kSeiUuid_def)

section \<open>Examples for the witnesses\<close>

definition ex_detection :: DetectionObject where
  "ex_detection = \<lparr>ob_object_id = 70000, ob_class_id = 1, ob_class_name = ''person'', ob_confidence = Fin (1/2),
     ob_bbox = \<lparr>bx_cx = Fin (1/4), bx_cy = Fin 0, bx_width = Fin 2, bx_height = Fin (-1), bx_angle = Fin (-90)\<rparr>\<rparr>"

definition ex_context :: SeiMessageContext where
  "ex_context = \<lparr>sx_stream_id = ''cam'', sx_frame_id = 7, sx_pts = 21000, sx_reused_cached_result = False,
     sx_result_expire_at_mono_ms = 0, sx_algorithm_id = ''fire'', sx_bbox_items = [ex_detection],
     sx_text_osd_items = []\<rparr>"

definition ex_source :: "u8 list \<Rightarrow> EncodedPacket" where
  "ex_source data = new_EncodedPacket\<lparr>ep_packet := Some \<lparr>av_data = data, av_pts = 21000, av_dts = 21000,
     av_duration = 3000, av_stream_index = 0, av_key_flag = False, av_pos = -1\<rparr>\<rparr>"

definition ex_library :: packet_library where
  "ex_library = \<lparr>pl_allocate = \<lambda>_. True, pl_copy_props = \<lambda>_. True\<rparr>"

text \<open>The floats of a message a quantiser can convert.\<close>

definition float_finite :: "f32 \<Rightarrow> bool" where
  "float_finite x \<longleftrightarrow> (\<exists>r. x = Fin r)"

definition message_finite :: "SeiMessageContext \<Rightarrow> bool" where
  "message_finite context \<longleftrightarrow>
     (\<forall>ob \<in> set (sx_bbox_items context). list_all float_finite
        [ob_confidence ob, bx_cx (ob_bbox ob), bx_cy (ob_bbox ob), bx_width (ob_bbox ob),
         bx_height (ob_bbox ob), bx_angle (ob_bbox ob)]) \<and>
     (\<forall>st \<in> set (sx_text_osd_items context). list_all float_finite [st_x st, st_y st, st_width st, st_height st])"

lemma quantize_defined:
  "float_finite x \<Longrightarrow> \<exists>q. quantizeUnitToU8 x = Some q"
  "float_finite x \<Longrightarrow> \<exists>q. quantizeUnitToU16 x = Some q"
  "float_finite x \<Longrightarrow> \<exists>q. quantizeAngleToU16 x = Some q"
  using quantizeUnitToU8_Fin quantizeUnitToU16_Fin quantizeAngleToU16_Fin
  by (auto simp: float_finite_def) metis+

lemma those_defined: "(\<And>x. x \<in> set xs \<Longrightarrow> f x \<noteq> None) \<Longrightarrow> \<exists>ys. those (map f xs) = Some ys"
  by (induction xs) fastforce+

lemma bbox_view_defined:
  assumes "list_all float_finite [ob_confidence ob, bx_cx (ob_bbox ob), bx_cy (ob_bbox ob),
    bx_width (ob_bbox ob), bx_height (ob_bbox ob), bx_angle (ob_bbox ob)]"
  shows "bbox_view ob \<noteq> None"
  using assms quantize_defined(1) [of "ob_confidence ob"] quantize_defined(2) [of "bx_cx (ob_bbox ob)"]
    quantize_defined(2) [of "bx_cy (ob_bbox ob)"] quantize_defined(2) [of "bx_width (ob_bbox ob)"]
    quantize_defined(2) [of "bx_height (ob_bbox ob)"] quantize_defined(3) [of "bx_angle (ob_bbox ob)"]
  by (auto simp: bbox_view_def)

lemma text_osd_view_defined:
  assumes "list_all float_finite [st_x st, st_y st, st_width st, st_height st]"
  shows "text_osd_view st \<noteq> None"
  using assms quantize_defined(2) [of "st_x st"] quantize_defined(2) [of "st_y st"]
    quantize_defined(2) [of "st_width st"] quantize_defined(2) [of "st_height st"]
  by (auto simp: text_osd_view_def)

lemma message_view_defined:
  assumes "message_finite context"
  shows "\<exists>items. message_view context = Some items"
proof -
  obtain bs where bs: "those (map bbox_view (take 255 (sx_bbox_items context))) = Some bs"
    using those_defined [of "take 255 (sx_bbox_items context)" bbox_view] assms bbox_view_defined
    unfolding message_finite_def by (meson in_set_takeD)
  obtain ts where "those (map text_osd_view (take (255 - length bs) (sx_text_osd_items context))) = Some ts"
    using those_defined [of "take (255 - length bs) (sx_text_osd_items context)" text_osd_view]
      assms text_osd_view_defined
    unfolding message_finite_def by (meson in_set_takeD)
  with bs show ?thesis by (simp add: message_view_def)
qed

section \<open>Properties\<close>

lemmas ex_sei_defs = ex_context_def ex_detection_def ex_source_def ex_library_def

lemma ex_source_eq: "ep_packet (ex_source data) = Some \<lparr>av_data = data, av_pts = 21000, av_dts = 21000,
     av_duration = 3000, av_stream_index = 0, av_key_flag = False, av_pos = -1\<rparr>"
  by (simp add: ex_source_def)

lemma float_finite_Fin [simp]: "float_finite (Fin r)"
  by (simp add: float_finite_def)

lemma ex_finite: "message_finite ex_context"
  by (simp add: message_finite_def ex_sei_defs)

lemma ex_message: "hasItems ex_context" "\<exists>items. message_view ex_context = Some items"
  using message_view_defined [OF ex_finite] by (simp_all add: hasItems_def ex_context_def)

text \<open>
  C14. Round trip through an Annex B stream: when an access unit that begins with a start code gets a
  message whose floats are numbers, the output is a start code, one SEI NAL unit and the access unit,
  every other property of the packet unchanged. The NAL unit contains no start code,
  a receiver that removes the emulation prevention finds one message of type 5 in it, and reads
  from its payload exactly the items of the message: at most 255, detections first, with ids, texts
  and quantised values as the protocol prescribes.
\<close>

theorem annexb_round_trip:
  assumes "ep_packet p = Some source" "av_data source \<noteq> []" "isAnnexB (av_data source)" "hasItems context"
    and "message_view context = Some items" "\<And>n. pl_allocate lib n" "pl_copy_props lib source"
  shows "\<exists>nal payload. sei_inject lib p codec n context =
      Some (True, Some (source\<lparr>av_data := kAnnexBStartCode @ nal @ av_data source\<rparr>)) \<and>
    \<not> has_start_code nal \<and> read_sei_nal codec nal = Some (5, payload) \<and> read_msp payload = Some items"
proof -
  from buildMsp_readable [OF assms(5)] obtain payload where
    payload: "buildMspV1UserDataPayload context = Some payload" "read_msp payload = Some items" by blast
  have "sei_inject lib p codec n context =
      Some (True, Some (source\<lparr>av_data := kAnnexBStartCode @ sei_nal codec payload @ av_data source\<rparr>))"
    using sei_inject_eq [OF assms(1,2,4) payload(1) assms(6,7)] assms(3) payload_nonempty [OF payload(2)]
    by (simp add: toAnnexBNal_def kAnnexBStartCode_def)
  with sei_nal_free read_sei_nal payload(2) show ?thesis by blast
qed

theorem annexb_round_trip_witness:
  "\<exists>nal payload packet. sei_inject ex_library (ex_source [0, 0, 0, 1, 0x65, 0x88]) H264 4 ex_context =
     Some (True, Some packet) \<and> av_data packet = [0, 0, 0, 1] @ nal @ [0, 0, 0, 1, 0x65, 0x88] \<and>
     read_sei_nal H264 nal = Some (5, payload) \<and> read_msp payload = message_view ex_context"
proof -
  obtain items where items: "message_view ex_context = Some items" using ex_message(2) by blast
  let ?source = "\<lparr>av_data = [0, 0, 0, 1, 0x65, 0x88] :: u8 list, av_pts = 21000, av_dts = 21000,
     av_duration = 3000, av_stream_index = 0, av_key_flag = False, av_pos = -1\<rparr>"
  have "isAnnexB (av_data ?source)" by (simp add: isAnnexB_def)
  from annexb_round_trip [OF ex_source_eq _ this ex_message(1) items, of ex_library H264 4]
  show ?thesis by (auto simp: ex_library_def items kAnnexBStartCode_def)
qed



text \<open>
  The start-code test takes some length-prefixed access units for Annex B: with four-byte
  prefixes, whenever the first NAL unit has 256 to 511 bytes. The injector then puts a start code and an
  unprefixed NAL unit in front of them, and a reader of length prefixes sees a one-byte unit.
\<close>

theorem length_prefix_taken_for_start_code:
  assumes "ep_packet p = Some source" "av_data source = toLengthPrefixedNal nal 4 @ rest"
    and "256 \<le> length nal" "length nal < 512" "hasItems context" "message_view context = Some items"
    and "\<And>n. pl_allocate lib n" "pl_copy_props lib source"
  shows "\<exists>sei b bs. sei_inject lib p codec 4 context =
      Some (True, Some (source\<lparr>av_data := kAnnexBStartCode @ sei @ av_data source\<rparr>)) \<and>
    read_be_nat 4 (kAnnexBStartCode @ sei @ av_data source) = Some (1, b # bs)"
proof -
  have bytes: "toLengthPrefixedNal nal 4 =
      [of_nat (drop_bit 24 (length nal) AND 0xFF), of_nat (drop_bit 16 (length nal) AND 0xFF),
       of_nat (drop_bit 8 (length nal) AND 0xFF), of_nat (length nal AND 0xFF)] @ nal"
    using assms(4) by (simp add: toLengthPrefixedNal_eq nal_length_4)
  have "length nal div 2 ^ 24 = 0" "length nal div 2 ^ 16 = 0" using assms(3,4) by simp_all
  moreover have "length nal div 2 ^ 8 = 1" using assms(3,4) by (intro div_nat_eqI) simp_all
  ultimately have "(of_nat (drop_bit 24 (length nal) AND 0xFF) :: u8) = 0"
    "(of_nat (drop_bit 16 (length nal) AND 0xFF) :: u8) = 0"
    "(of_nat (drop_bit 8 (length nal) AND 0xFF) :: u8) = 1"
    unfolding drop_bit_eq_div by simp_all
  then have annexb: "isAnnexB (av_data source)" and ne: "av_data source \<noteq> []"
    unfolding assms(2) bytes by (simp_all add: isAnnexB_def)
  from annexb_round_trip [OF assms(1) ne annexb assms(5-8), of codec 4] obtain sei where
    sei: "sei_inject lib p codec 4 context =
      Some (True, Some (source\<lparr>av_data := kAnnexBStartCode @ sei @ av_data source\<rparr>))" by blast
  obtain b bs where "sei @ av_data source = b # bs" using ne by (cases "sei @ av_data source") auto
  with sei show ?thesis
    by (intro exI [of _ sei] exI [of _ b] exI [of _ bs]) (simp add: kAnnexBStartCode_def read_be_nat_4)
qed

definition ex_nal :: "u8 list" where
  "ex_nal = 0x65 # replicate 299 0x88"

theorem length_prefix_taken_for_start_code_witness:
  "\<exists>packet. sei_inject ex_library (ex_source (toLengthPrefixedNal ex_nal 4)) H264 4 ex_context =
      Some (True, Some packet) \<and> (\<exists>b bs. read_be_nat 4 (av_data packet) = Some (1, b # bs))"
proof -
  obtain items where items: "message_view ex_context = Some items" using ex_message(2) by blast
  have len: "256 \<le> length ex_nal" "length ex_nal < 512" by (simp_all add: ex_nal_def)
  have lib: "pl_allocate ex_library n" "pl_copy_props ex_library s" for n s
    by (simp_all add: ex_library_def)
  have data: "av_data \<lparr>av_data = toLengthPrefixedNal ex_nal 4, av_pts = 21000, av_dts = 21000,
     av_duration = 3000, av_stream_index = 0, av_key_flag = False, av_pos = -1\<rparr> = toLengthPrefixedNal ex_nal 4 @ []"
    by simp
  from length_prefix_taken_for_start_code [where codec = H264, OF ex_source_eq data len ex_message(1) items lib]
  show ?thesis by force
qed

text \<open>
  The quantised values are as accurate as the format allows: for a float that denotes the number v,
  the stored 16-bit (8-bit) integer differs from 65535 (255) times v clamped to [0, 1] by at most
  1/2 + 1/128, the rounding of the intermediate product included.
\<close>

theorem quantisation_error:
  "(\<exists>q. quantizeUnitToU16 (Fin v) = Some q \<and> \<bar>of_nat (unat q) - unit_clamp v * 65535\<bar> \<le> 1 / 2 + 1 / 128) \<and>
   (\<exists>q. quantizeUnitToU8 (Fin v) = Some q \<and> \<bar>of_nat (unat q) - unit_clamp v * 255\<bar> \<le> 1 / 2 + 1 / 128)"
  using quantizeUnitToU16_Fin quantizeUnitToU8_Fin by blast

text \<open>
  C16. Injection of a message whose floats are numbers is defined for every packet, codec and
  prefix size, and it never damages the packet: the output is the source packet itself, or
  the source with bytes put in front of its data. A NaN confidence in the first detection makes the conversion
  in \<open>quantizeUnitToU8\<close> undefined.
\<close>

theorem injection_safe:
  "(message_finite context \<longrightarrow>
      (\<exists>flag out. sei_inject lib p codec n context = Some (flag, out) \<and>
         (out = ep_packet p \<or>
          (\<exists>source prefix. ep_packet p = Some source \<and> flag \<and>
             out = Some (source\<lparr>av_data := prefix @ av_data source\<rparr>))))) \<and>
   (\<forall>ob obs source. sx_bbox_items context = ob # obs \<longrightarrow> ob_confidence ob = NaN \<longrightarrow>
      ep_packet p = Some source \<longrightarrow> av_data source \<noteq> [] \<longrightarrow> sei_inject lib p codec n context = None)"
proof (intro conjI impI allI)
  assume "message_finite context"
  from message_view_defined [OF this] buildMsp_readable
  obtain payload where "buildMspV1UserDataPayload context = Some payload" by blast
  then show "\<exists>flag out. sei_inject lib p codec n context = Some (flag, out) \<and>
         (out = ep_packet p \<or>
          (\<exists>source prefix. ep_packet p = Some source \<and> flag \<and>
             out = Some (source\<lparr>av_data := prefix @ av_data source\<rparr>)))"
    by (cases "ep_packet p") (auto simp: sei_inject_def Let_def)
next
  fix ob obs source
  assume nan: "sx_bbox_items context = ob # obs" "ob_confidence ob = NaN"
    and source: "ep_packet p = Some source" "av_data source \<noteq> []"
  have "bbox_view ob = None" using nan(2) by (simp add: bbox_view_def quantize_NaN)
  then have "appendMspBboxItem q ob = None" for q by (rule item_codecD(2) [OF bbox_item_codec])
  then have "buildMspV1UserDataPayload context = None"
    using nan(1) by (simp add: buildMspV1UserDataPayload_def Let_def take_min_length take_Cons')
  with source nan(1) show "sei_inject lib p codec n context = None"
    by (simp add: sei_inject_def hasItems_def)
qed

theorem injection_safe_witness:
  "\<exists>flag out. sei_inject ex_library (ex_source [1, 2, 3]) H264 4 ex_context = Some (flag, out)"
  using injection_safe [of ex_context ex_library "ex_source [1, 2, 3]" H264 4] ex_finite by blast

end
