(* ===== verification/RecorderProofs.thy ===== *)
theory RecorderProofs
  imports Recorder
begin

text \<open>
  Properties of the recorder and of the publisher: what ends up in a recorded file, in which order and
  with which times, when a file is closed, and what the publisher does after a lost connection. What FFmpeg documents of
  its time arithmetic is the hypothesis \<open>av_laws\<close>.
\<close>

section \<open>What FFmpeg documents\<close>

definition valid_base :: "AVRational \<Rightarrow> bool" where
  "valid_base q \<longleftrightarrow> rat_num q > 0 \<and> rat_den q > 0"

text \<open>
  \<open>av_rescale_q\<close> is monotone and maps 0 to 0, and gives \<open>AV_NOPTS_VALUE\<close> when the result does not fit;
  \<open>av_packet_rescale_ts\<close> applies it to the times of a packet and leaves its data alone.
\<close>

definition av_laws :: "av_library \<Rightarrow> bool" where
  "av_laws lib \<longleftrightarrow>
     (\<forall>a a' b c. valid_base b \<and> valid_base c \<and> a \<le> a' \<and> av_rescale_q lib a' b c \<noteq> AV_NOPTS_VALUE \<longrightarrow>
        av_rescale_q lib a b c \<le> av_rescale_q lib a' b c) \<and>
     (\<forall>b c. valid_base b \<and> valid_base c \<longrightarrow> av_rescale_q lib 0 b c = 0) \<and>
     (\<forall>p b c. av_data (av_packet_rescale_ts lib p b c) = av_data p) \<and>
     (\<forall>p b c. av_dts p \<noteq> AV_NOPTS_VALUE \<longrightarrow>
        av_dts (av_packet_rescale_ts lib p b c) = av_rescale_q lib (av_dts p) b c)"

lemma av_lawsD:
  assumes "av_laws lib"
  shows "valid_base b \<Longrightarrow> valid_base c \<Longrightarrow> a \<le> a' \<Longrightarrow> av_rescale_q lib a' b c \<noteq> AV_NOPTS_VALUE \<Longrightarrow>
      av_rescale_q lib a b c \<le> av_rescale_q lib a' b c"
    and "valid_base b \<Longrightarrow> valid_base c \<Longrightarrow> av_rescale_q lib 0 b c = 0"
    and "av_data (av_packet_rescale_ts lib p b c) = av_data p"
    and "av_dts p \<noteq> AV_NOPTS_VALUE \<Longrightarrow> av_dts (av_packet_rescale_ts lib p b c) = av_rescale_q lib (av_dts p) b c"
  using assms unfolding av_laws_def by blast+

section \<open>The content of files\<close>

datatype rec_event =
  RecConfigure string string "RtspStreamSpec list" |
  RecAppend int bool write_result AVPacket
| RecRequest string open_result "nat \<Rightarrow> write_result" int int
| RecExpire int
| RecClose

fun rec_step :: "av_library \<Rightarrow> rec_event \<Rightarrow> Recorder \<Rightarrow> Recorder" where
  "rec_step lib (RecConfigure stream_id dir specs) s = snd (rc_configure stream_id dir specs s)"
| "rec_step lib (RecAppend now clone_ok w p) s = snd (appendPacket lib now clone_ok w p s)"
| "rec_step lib (RecRequest timestamp r ws duration now) s = snd (requestRecording lib timestamp r ws duration now s)"
| "rec_step lib (RecExpire now) s = closeExpired now s"
| "rec_step lib RecClose s = rc_close s"

definition rec_run :: "av_library \<Rightarrow> rec_event list \<Rightarrow> Recorder \<Rightarrow> Recorder" where
  "rec_run lib es s = fold (rec_step lib) es s"

text \<open>The packets given to the recorder, and the assumption that no clone for the cache fails.\<close>

fun given :: "rec_event \<Rightarrow> AVPacket list" where
  "given (RecAppend now clone_ok w p) = (if av_data p = [] then [] else [p])"
| "given _ = []"

fun caches :: "rec_event \<Rightarrow> bool" where
  "caches (RecAppend now clone_ok w p) = clone_ok"
| "caches _ = True"

abbreviation payloads :: "AVPacket list \<Rightarrow> u8 list list" where
  "payloads \<equiv> map av_data"

definition rec_inv :: "AVPacket list \<Rightarrow> Recorder \<Rightarrow> bool" where
  "rec_inv H s \<longleftrightarrow> suffix (rc_gop_cache s) H \<and>
     (rc_gop_cache s = [] \<or> av_key_flag (hd (rc_gop_cache s))) \<and>
     pred_option (\<lambda>c. suffix (payloads (mx_packets c)) (payloads H)) (rc_fmt_ctx s) \<and>
     list_all (\<lambda>f. sublist (payloads (ff_packets f)) (payloads H)) (rc_finished s)"

lemma rec_inv_close: "rec_inv H s \<Longrightarrow> rec_inv H (rc_close s)"
  by (auto simp: rec_inv_def rc_close_def Let_def suffix_imp_sublist split: option.splits)

lemma rec_inv_expire: "rec_inv H s \<Longrightarrow> rec_inv H (closeExpired now s)"
  by (simp add: closeExpired_def rec_inv_close)

lemma rec_inv_configure: "rec_inv H s \<Longrightarrow> rec_inv H (snd (rc_configure stream_id dir specs s))"
  using rec_inv_close [of H s]
  by (simp add: rc_configure_def Let_def clearPacketCache_def rec_inv_def)

lemma mux_packet_data: "av_laws lib \<Longrightarrow> av_data (rc_mux_packet lib st start p) = av_data p"
  by (simp add: rc_mux_packet_def Let_def av_lawsD)

lemma write_cases:
  assumes "writePacketInternal lib w p s = (ok, s')"
  obtains (kept) start where "s' = s\<lparr>rc_start_pts_us := start\<rparr>" "\<not> ok"
  | (written) c st start where "rc_fmt_ctx s = Some c" "ok"
    "s' = s\<lparr>rc_start_pts_us := start, rc_fmt_ctx := Some (c\<lparr>mx_packets := mx_packets c @ [rc_mux_packet lib st start p]\<rparr>)\<rparr>"
proof -
  have same: "s = s\<lparr>rc_start_pts_us := rc_start_pts_us s\<rparr>" by simp
  show ?thesis
    using assms kept [of "rc_start_pts_us s"] kept written
    by (auto simp: writePacketInternal_def Let_def split: option.splits if_splits)
qed

text \<open>Flushing writes the cache up to the first failure.\<close>

lemma flush_written:
  assumes "av_laws lib" "rc_fmt_ctx s = Some c" "flush_packets lib ws i packets s = (ok, s')"
  shows "\<exists>k start c'. s' = s\<lparr>rc_start_pts_us := start, rc_fmt_ctx := Some c'\<rparr> \<and>
    payloads (mx_packets c') = payloads (mx_packets c) @ payloads (take k packets) \<and>
    (ok \<longrightarrow> length packets \<le> k)"
  using assms(2,3)
proof (induction packets arbitrary: i s c)
  case Nil
  then have "s' = s\<lparr>rc_start_pts_us := rc_start_pts_us s, rc_fmt_ctx := Some c\<rparr>" by simp
  then show ?case by (intro exI [of _ 0] exI [of _ "rc_start_pts_us s"] exI [of _ c]) simp
next
  case (Cons p packets)
  obtain ok1 s1 where w: "writePacketInternal lib (ws i) p s = (ok1, s1)"
    by (cases "writePacketInternal lib (ws i) p s")
  from w show ?case
  proof (cases rule: write_cases)
    case (kept start)
    with w Cons.prems(2) have s': "s' = s\<lparr>rc_start_pts_us := start\<rparr>" "\<not> ok" by auto
    have "s\<lparr>rc_start_pts_us := start\<rparr> = s\<lparr>rc_start_pts_us := start, rc_fmt_ctx := Some c\<rparr>"
      using Cons.prems(1) by (cases s) simp
    with s' have "s' = s\<lparr>rc_start_pts_us := start, rc_fmt_ctx := Some c\<rparr>" "\<not> ok" by (blast intro: trans)+
    then show ?thesis by (intro exI [of _ 0] exI [of _ start] exI [of _ c]) simp
  next
    case (written c1 st start)
    let ?c = "c\<lparr>mx_packets := mx_packets c @ [rc_mux_packet lib st start p]\<rparr>"
    have "rc_fmt_ctx s1 = Some ?c" using written Cons.prems(1) by simp
    moreover have "flush_packets lib ws (Suc i) packets s1 = (ok, s')" using Cons.prems(2) w written by simp
    ultimately obtain k start' c' where
      "s' = s1\<lparr>rc_start_pts_us := start', rc_fmt_ctx := Some c'\<rparr>"
      "payloads (mx_packets c') = payloads (mx_packets ?c) @ payloads (take k packets)"
      "ok \<longrightarrow> length packets \<le> k" using Cons.IH by blast
    then show ?thesis
      by (intro exI [of _ "Suc k"] exI [of _ start'] exI [of _ c']) (simp add: written mux_packet_data [OF assms(1)])
  qed
qed

lemma open_muxer_empty: "open_muxer r specs = Some (c, states) \<Longrightarrow> mx_packets c = []"
  by (auto simp: open_muxer_def split: if_splits option.splits)

lemma rec_inv_fields:
  assumes "rec_inv H s" "rc_gop_cache s' = rc_gop_cache s" "rc_fmt_ctx s' = rc_fmt_ctx s" "rc_finished s' = rc_finished s"
  shows "rec_inv H s'"
  using assms by (simp add: rec_inv_def)

lemma suffix_takes: "suffix xs ys \<Longrightarrow> sublist (take k xs) ys"
  by (metis prefix_imp_sublist sublist_order.order_trans suffix_imp_sublist take_is_prefix)

lemma payloads_suffix: "suffix xs ys \<Longrightarrow> suffix (payloads xs) (payloads ys)"
  by (rule map_mono_suffix)

lemma rec_inv_start:
  assumes "av_laws lib" "rec_inv H s" "rc_start lib timestamp r ws s = (ok, s')"
  shows "rec_inv H s'"
proof (cases "rc_fmt_ctx s = None \<and> rc_isConfigured s")
  case False
  with assms(2,3) show ?thesis by (auto simp: rc_start_def split: if_splits)
next
  case True
  show ?thesis
  proof (cases "open_muxer r (rc_stream_specs s)")
    case None
    with True assms show ?thesis by (auto simp: rc_start_def openRecording_def Let_def intro: rec_inv_fields [OF assms(2)])
  next
    case (Some cs)
    obtain c states where cs: "cs = (c, states)" by (cases cs)
    obtain s1 where s1: "openRecording timestamp r s = (True, s1)" "rc_fmt_ctx s1 = Some c"
      "rc_gop_cache s1 = rc_gop_cache s" "rc_finished s1 = rc_finished s"
      by (simp add: openRecording_def Let_def Some cs)
    obtain ok2 s2 where f: "flush_packets lib ws 0 (rc_gop_cache s) s1 = (ok2, s2)"
      by (cases "flush_packets lib ws 0 (rc_gop_cache s) s1")
    from flush_written [OF assms(1) s1(2) f] open_muxer_empty [OF Some [unfolded cs]]
    obtain k start c' where s2: "s2 = s1\<lparr>rc_start_pts_us := start, rc_fmt_ctx := Some c'\<rparr>"
      and data: "payloads (mx_packets c') = payloads (take k (rc_gop_cache s))" and all: "ok2 \<longrightarrow> length (rc_gop_cache s) \<le> k"
      by auto
    have cache: "suffix (rc_gop_cache s) H" using assms(2) by (simp add: rec_inv_def)
    have s': "s' = (if ok2 then s2 else rc_close s2)"
      using assms(3) True s1 f by (auto simp: rc_start_def flushCachedGop_def split: bool.splits if_splits)
    show ?thesis
    proof (cases ok2)
      case True
      with all data have "payloads (mx_packets c') = payloads (rc_gop_cache s)" by simp
      with True s' s2 s1 assms(2) cache show ?thesis by (simp add: rec_inv_def payloads_suffix)
    next
      case False
      have "sublist (payloads (mx_packets c')) (payloads H)"
        using suffix_takes [OF payloads_suffix [OF cache], of k] by (simp add: data take_map)
      with False s' s2 s1 assms(2) show ?thesis by (simp add: rec_inv_def rc_close_def Let_def)
    qed
  qed
qed

lemma rec_inv_request:
  assumes "av_laws lib" "rec_inv H s"
  shows "rec_inv H (snd (requestRecording lib timestamp r ws duration now s))"
proof -
  have "rec_inv H (s\<lparr>rc_deadline_ms := d\<rparr>)" for d by (rule rec_inv_fields [OF assms(2)]) simp_all
  with assms rec_inv_start [OF assms(1)] show ?thesis
    by (auto simp: requestRecording_def Let_def) (metis prod.collapse)
qed

text \<open>The names of the files of a stream in two different seconds differ; streams whose ids differ only in
  characters that are replaced share their names.\<close>

lemma buildRecordingFileName_inj:
  assumes "tm_valid t" "tm_valid u"
    and "buildRecordingFileName (makeTimestamp t) stream_id extension
       = buildRecordingFileName (makeTimestamp u) stream_id extension"
  shows "t = u"
proof (rule makeTimestamp_inj)
  have "length (makeTimestamp t) = 15" "length (makeTimestamp u) = 15"
    using assms makeTimestamp_reads_back by auto
  then show "makeTimestamp t = makeTimestamp u"
    using assms(3) by (simp add: buildRecordingFileName_def Let_def)
qed (rule assms)+

lemma recording_names_collide:
  "buildRecordingFileName timestamp ''gate/1'' extension = buildRecordingFileName timestamp ''gate_1'' extension"
  by (simp add: buildRecordingFileName_def sanitizeFileComponent_def isalnum_def)

lemma sublist_snoc: "sublist xs ys \<Longrightarrow> sublist xs (ys @ [y])"
  by (meson prefixI prefix_imp_sublist sublist_order.order_trans)

lemma cachePacket_simps [simp]:
  "rc_fmt_ctx (cachePacket ok p s) = rc_fmt_ctx s" "rc_finished (cachePacket ok p s) = rc_finished s"
  by (simp_all add: cachePacket_def clonePacket_def Let_def)

lemma cachePacket_gop:
  "rc_gop_cache (cachePacket True p s) =
     (if isVideoPacket p s \<and> av_key_flag p then [p]
      else if rc_gop_cache s = [] then [] else rc_gop_cache s @ [p])"
  by (simp add: cachePacket_def clonePacket_def Let_def)

lemma rec_inv_append:
  assumes "av_laws lib" "rec_inv H s" "av_data p \<noteq> []"
  shows "rec_inv (H @ [p]) (snd (appendPacket lib now True w p s))"
proof -
  let ?s = "cachePacket True p (closeExpired now s)"
  have inv: "rec_inv H (closeExpired now s)" by (rule rec_inv_expire [OF assms(2)])
  have cache: "suffix (rc_gop_cache ?s) (H @ [p]) \<and> (rc_gop_cache ?s = [] \<or> av_key_flag (hd (rc_gop_cache ?s)))"
    using inv by (auto simp: rec_inv_def cachePacket_gop hd_append)
  have finished: "list_all (\<lambda>f. sublist (payloads (ff_packets f)) (payloads (H @ [p]))) (rc_finished ?s)"
    using inv by (auto simp: rec_inv_def list_all_iff intro: sublist_snoc)
  show ?thesis
  proof (cases "rc_fmt_ctx ?s")
    case None
    with cache finished assms(3) show ?thesis by (simp add: appendPacket_def Let_def rec_inv_def)
  next
    case (Some c)
    have fl: "suffix (payloads (mx_packets c)) (payloads H)" using inv Some by (simp add: rec_inv_def)
    obtain ok s1 where wr: "writePacketInternal lib w p ?s = (ok, s1)" by (cases "writePacketInternal lib w p ?s")
    from wr show ?thesis
    proof (cases rule: write_cases)
      case (kept start)
      have "sublist (payloads (mx_packets c)) (payloads (H @ [p]))"
        using suffix_imp_sublist [OF fl] by (simp add: sublist_snoc)
      with kept wr Some cache finished assms(3) show ?thesis
        by (simp add: appendPacket_def Let_def rec_inv_def rc_close_def)
    next
      case (written c1 st start)
      with wr Some cache finished fl assms(3) show ?thesis
        by (simp add: appendPacket_def Let_def rec_inv_def mux_packet_data [OF assms(1)])
    qed
  qed
qed

lemma rec_inv_step:
  assumes "av_laws lib" "rec_inv H s" "caches e"
  shows "rec_inv (H @ given e) (rec_step lib e s)"
proof (cases e)
  case (RecAppend now clone_ok w p)
  show ?thesis
  proof (cases "av_data p = []")
    case True
    with RecAppend assms(2) show ?thesis by (simp add: appendPacket_def)
  next
    case False
    with RecAppend assms rec_inv_append [OF assms(1,2) False] show ?thesis by simp
  qed
qed (use assms rec_inv_request rec_inv_expire rec_inv_close rec_inv_configure in auto)

lemma rec_inv_run:
  "av_laws lib \<Longrightarrow> list_all caches es \<Longrightarrow> rec_inv H s \<Longrightarrow> rec_inv (H @ concat (map given es)) (rec_run lib es s)"
proof (induction es arbitrary: H s)
  case Nil
  then show ?case by (simp add: rec_run_def)
next
  case (Cons e es)
  from Cons.IH [OF Cons.prems(1) _ rec_inv_step [OF Cons.prems(1,3)]] Cons.prems show ?case
    by (simp add: rec_run_def)
qed

section \<open>Times in a file\<close>

text \<open>The packets of a file as a pure function of the packets written.\<close>

fun mux_run :: "av_library \<Rightarrow> stream_map \<Rightarrow> int \<Rightarrow> AVPacket list \<Rightarrow> (int \<times> int \<times> AVPacket) list" where
  "mux_run lib states start [] = []"
| "mux_run lib states start (p # ps) =
     (case map_of states (av_stream_index p) of
        None \<Rightarrow> []
      | Some st \<Rightarrow>
          let start' = next_start_pts lib st p start
          in (av_stream_index p, start', rc_mux_packet lib st start' p) # mux_run lib states start' ps)"

text \<open>A decoding time of a packet that fits after both conversions.\<close>

definition fits :: "av_library \<Rightarrow> OutputStreamState \<Rightarrow> int \<Rightarrow> AVPacket \<Rightarrow> bool" where
  "fits lib st start p \<longleftrightarrow>
     av_dts p \<noteq> AV_NOPTS_VALUE \<and>
     av_rescale_q lib (av_dts p) (scp_time_base (os_spec st)) AV_TIME_BASE_Q \<noteq> AV_NOPTS_VALUE \<and>
     av_dts (rc_mux_packet lib st start p) \<noteq> AV_NOPTS_VALUE"

definition valid_stream :: "OutputStreamState \<Rightarrow> bool" where
  "valid_stream st \<longleftrightarrow> valid_base (scp_time_base (os_spec st)) \<and> valid_base (as_time_base (os_stream st))"

lemma valid_time_base [simp]: "valid_base AV_TIME_BASE_Q"
  by (simp add: valid_base_def AV_TIME_BASE_Q_def)

lemma mux_dts:
  assumes "av_laws lib" "av_dts p \<noteq> AV_NOPTS_VALUE"
  shows "av_dts (rc_mux_packet lib st start p) =
    (if start \<ge> 0
     then av_rescale_q lib (max 0 (av_rescale_q lib (av_dts p) (scp_time_base (os_spec st)) AV_TIME_BASE_Q - start))
            AV_TIME_BASE_Q (as_time_base (os_stream st))
     else av_rescale_q lib (av_dts p) (scp_time_base (os_spec st)) (as_time_base (os_stream st)))"
  using assms(2) by (simp add: rc_mux_packet_def Let_def mux_time_def av_lawsD [OF assms(1)])

lemma started_nonneg:
  assumes "av_laws lib" "valid_stream st" "fits lib st start p" "start \<ge> 0"
  shows "av_dts (rc_mux_packet lib st start p) \<ge> 0"
proof -
  let ?us = "max 0 (av_rescale_q lib (av_dts p) (scp_time_base (os_spec st)) AV_TIME_BASE_Q - start)"
  have "av_rescale_q lib 0 AV_TIME_BASE_Q (as_time_base (os_stream st)) \<le>
    av_rescale_q lib ?us AV_TIME_BASE_Q (as_time_base (os_stream st))"
    by (rule av_lawsD(1) [OF assms(1)])
      (use assms in \<open>auto simp: valid_stream_def fits_def mux_dts [OF assms(1)]\<close>)
  with assms show ?thesis by (simp add: mux_dts fits_def av_lawsD(2) valid_stream_def)
qed

lemma raw_nonpos:
  assumes "av_laws lib" "valid_stream st" "av_dts p \<noteq> AV_NOPTS_VALUE"
    and "start < 0" "next_start_pts lib st p start < 0"
    and "fits lib st (next_start_pts lib st p start) p"
  shows "av_dts (rc_mux_packet lib st (next_start_pts lib st p start) p) \<le> 0"
proof -
  have us: "av_rescale_q lib (av_dts p) (scp_time_base (os_spec st)) AV_TIME_BASE_Q < 0"
    using assms(3-5) by (simp add: next_start_pts_def Let_def)
  have "av_dts p \<le> 0"
  proof (rule ccontr)
    assume "\<not> av_dts p \<le> 0"
    with av_lawsD(1) [OF assms(1), of "scp_time_base (os_spec st)" AV_TIME_BASE_Q 0 "av_dts p"]
      us assms(2,6) av_lawsD(2) [OF assms(1)] show False by (simp add: valid_stream_def fits_def)
  qed
  then have "av_rescale_q lib (av_dts p) (scp_time_base (os_spec st)) (as_time_base (os_stream st)) \<le>
      av_rescale_q lib 0 (scp_time_base (os_spec st)) (as_time_base (os_stream st))"
    by (intro av_lawsD(1) [OF assms(1)])
      (use assms(2) in \<open>simp_all add: valid_stream_def av_lawsD(2) [OF assms(1)] AV_NOPTS_VALUE_def\<close>)
  with assms show ?thesis by (simp add: mux_dts valid_stream_def av_lawsD(2))
qed

text \<open>Every packet belongs to a stream with valid time bases, and its times fit.\<close>

fun representable :: "av_library \<Rightarrow> stream_map \<Rightarrow> int \<Rightarrow> AVPacket list \<Rightarrow> bool" where
  "representable lib states start [] = True"
| "representable lib states start (p # ps) =
     (case map_of states (av_stream_index p) of
        None \<Rightarrow> False
      | Some st \<Rightarrow>
          let start' = next_start_pts lib st p start
          in valid_stream st \<and> fits lib st start' p \<and> representable lib states start' ps)"

lemma next_start_fixed: "start \<ge> 0 \<Longrightarrow> next_start_pts lib st p start = start"
  by (simp add: next_start_pts_def Let_def)

lemma mux_pair_mono:
  assumes "av_laws lib" "valid_stream st" "fits lib st v p" "fits lib st v' q" "av_dts p \<le> av_dts q"
    and "v \<ge> 0 \<Longrightarrow> v' = v" "v < 0 \<Longrightarrow> av_dts (rc_mux_packet lib st v p) \<le> 0"
  shows "av_dts (rc_mux_packet lib st v p) \<le> av_dts (rc_mux_packet lib st v' q)"
proof -
  let ?tb = "scp_time_base (os_spec st)" and ?sb = "as_time_base (os_stream st)"
  have bases: "valid_base ?tb" "valid_base ?sb" using assms(2) by (simp_all add: valid_stream_def)
  have p: "av_dts p \<noteq> AV_NOPTS_VALUE" and q: "av_dts q \<noteq> AV_NOPTS_VALUE"
    using assms(3,4) by (simp_all add: fits_def)
  consider "v \<ge> 0" | "v < 0" "v' < 0" | "v < 0" "v' \<ge> 0" by linarith
  then show ?thesis
  proof cases
    case 1
    have "av_rescale_q lib (av_dts p) ?tb AV_TIME_BASE_Q \<le> av_rescale_q lib (av_dts q) ?tb AV_TIME_BASE_Q"
      using assms(4) by (intro av_lawsD(1) [OF assms(1)]) (simp_all add: bases assms(5) fits_def)
    then show ?thesis
      using assms(4) 1 unfolding mux_dts [OF assms(1) p] mux_dts [OF assms(1) q] assms(6) [OF 1]
      by (auto intro!: av_lawsD(1) [OF assms(1)] simp: bases fits_def mux_dts [OF assms(1) q])
  next
    case 2
    then show ?thesis
      using assms(4) unfolding mux_dts [OF assms(1) p] mux_dts [OF assms(1) q]
      by (auto intro!: av_lawsD(1) [OF assms(1)] simp: bases assms(5) fits_def mux_dts [OF assms(1) q])
  next
    case 3
    with assms(7) started_nonneg [OF assms(1,2,4)] show ?thesis by fastforce
  qed
qed

lemma mux_run_head:
  assumes "av_laws lib" "valid_stream st" "map_of states k = Some st" "fits lib st v p"
    and "v < 0 \<Longrightarrow> av_dts (rc_mux_packet lib st v p) \<le> 0"
  shows "representable lib states u ps \<Longrightarrow> (v \<ge> 0 \<Longrightarrow> u = v) \<Longrightarrow>
     \<forall>q \<in> set ps. av_stream_index q = k \<longrightarrow> av_dts p \<le> av_dts q \<Longrightarrow>
     \<forall>(k', v', b) \<in> set (mux_run lib states u ps). k' = k \<longrightarrow> av_dts (rc_mux_packet lib st v p) \<le> av_dts b"
proof (induction ps arbitrary: u)
  case Nil
  then show ?case by simp
next
  case (Cons q ps)
  from Cons.prems(1) obtain st' where st': "map_of states (av_stream_index q) = Some st'" "valid_stream st'"
    "fits lib st' (next_start_pts lib st' q u) q" "representable lib states (next_start_pts lib st' q u) ps"
    by (auto simp: Let_def split: option.splits)
  have u: "next_start_pts lib st' q u = v" if "v \<ge> 0" using Cons.prems(2) that by (simp add: next_start_fixed)
  have "av_dts (rc_mux_packet lib st v p) \<le> av_dts (rc_mux_packet lib st' (next_start_pts lib st' q u) q)"
    if "av_stream_index q = k"
  proof -
    have "st' = st" using st'(1) assms(3) that by simp
    then show ?thesis
      using mux_pair_mono [OF assms(1,2,4), of "next_start_pts lib st' q u" q] st'(3) Cons.prems(3) u assms(5) that by auto
  qed
  moreover have "\<forall>q \<in> set ps. av_stream_index q = k \<longrightarrow> av_dts p \<le> av_dts q" using Cons.prems(3) by simp
  note Cons.IH [OF st'(4) _ this]
  ultimately show ?case using u by (auto simp: st'(1) Let_def)
qed

definition times_ordered :: "(int \<times> int \<times> AVPacket) list \<Rightarrow> bool" where
  "times_ordered = sorted_wrt (\<lambda>(k, _, a) (k', _, b). k = k' \<longrightarrow> av_dts a \<le> av_dts b)"

definition source_ordered :: "AVPacket list \<Rightarrow> bool" where
  "source_ordered = sorted_wrt (\<lambda>p q. av_stream_index p = av_stream_index q \<longrightarrow> av_dts p \<le> av_dts q)"

lemma mux_run_ordered:
  "av_laws lib \<Longrightarrow> representable lib states start ps \<Longrightarrow> source_ordered ps \<Longrightarrow>
     times_ordered (mux_run lib states start ps)"
proof (induction ps arbitrary: start)
  case Nil
  then show ?case by (simp add: times_ordered_def)
next
  case (Cons p ps)
  from Cons.prems(2) obtain st where st: "map_of states (av_stream_index p) = Some st" "valid_stream st"
    "fits lib st (next_start_pts lib st p start) p" "representable lib states (next_start_pts lib st p start) ps"
    by (auto simp: Let_def split: option.splits)
  have low: "av_dts (rc_mux_packet lib st (next_start_pts lib st p start) p) \<le> 0" if "next_start_pts lib st p start < 0"
  proof (rule raw_nonpos [OF Cons.prems(1) st(2) _ _ that st(3)])
    show "av_dts p \<noteq> AV_NOPTS_VALUE" using st(3) by (simp add: fits_def)
    show "start < 0" using that by (cases "start \<ge> 0") (simp_all add: next_start_fixed)
  qed
  have "times_ordered (mux_run lib states (next_start_pts lib st p start) ps)"
    using Cons.IH [OF Cons.prems(1) st(4)] Cons.prems(3) by (simp add: source_ordered_def)
  moreover have "\<forall>q \<in> set ps. av_stream_index q = av_stream_index p \<longrightarrow> av_dts p \<le> av_dts q"
    using Cons.prems(3) by (auto simp: source_ordered_def)
  note mux_run_head [OF Cons.prems(1) st(2,1,3) low st(4) _ this]
  ultimately show ?case by (fastforce simp: times_ordered_def st(1) Let_def)
qed

lemma flush_mux_run:
  assumes "flush_packets lib ws i ps s = (True, s')" "rc_fmt_ctx s = Some c"
  shows "\<exists>c'. rc_fmt_ctx s' = Some c' \<and>
    mx_packets c' = mx_packets c @ map (snd \<circ> snd) (mux_run lib (rc_stream_states s) (rc_start_pts_us s) ps)"
  using assms
proof (induction ps arbitrary: i s c)
  case Nil
  then show ?case by simp
next
  case (Cons p ps)
  then obtain s1 where w: "writePacketInternal lib (ws i) p s = (True, s1)"
    and rest: "flush_packets lib ws (Suc i) ps s1 = (True, s')" by (auto split: prod.splits bool.splits)
  from w Cons.prems(2) obtain st where st: "map_of (rc_stream_states s) (av_stream_index p) = Some st"
    and s1: "s1 = s\<lparr>rc_start_pts_us := next_start_pts lib st p (rc_start_pts_us s), rc_fmt_ctx := Some
      (c\<lparr>mx_packets := mx_packets c @ [rc_mux_packet lib st (next_start_pts lib st p (rc_start_pts_us s)) p]\<rparr>)\<rparr>"
    by (auto simp: writePacketInternal_def Let_def split: option.splits if_splits)
  from Cons.IH [OF rest, of "c\<lparr>mx_packets := mx_packets c @ [rc_mux_packet lib st (next_start_pts lib st p (rc_start_pts_us s)) p]\<rparr>"] s1 st
  show ?case by (simp add: Let_def)
qed

section \<open>The publisher after a lost connection\<close>

lemma publisher_stuck:
  assumes "\<not> rp_configured p \<or> rp_format_context p = None"
  shows "rp_writePacket lib w r w' packet p = (False, p)"
  using assms by (simp add: rp_writePacket_def)

section \<open>An instance of the library\<close>

definition ex_rescale :: "int \<Rightarrow> AVRational \<Rightarrow> AVRational \<Rightarrow> int" where
  "ex_rescale a b c =
     (let n = a * (rat_num b * rat_den c); d = rat_num c * rat_den b in (2 * n + d) div (2 * d))"

definition ex_lib :: av_library where
  "ex_lib = \<lparr>av_rescale_q = ex_rescale,
     av_packet_rescale_ts = \<lambda>p b c. p\<lparr>
       av_pts := (if av_pts p = AV_NOPTS_VALUE then AV_NOPTS_VALUE else ex_rescale (av_pts p) b c),
       av_dts := (if av_dts p = AV_NOPTS_VALUE then AV_NOPTS_VALUE else ex_rescale (av_dts p) b c)\<rparr>\<rparr>"

lemma ex_lib_laws: "av_laws ex_lib"
proof -
  have "ex_rescale a b c \<le> ex_rescale a' b c" if "valid_base b" "valid_base c" "a \<le> a'" for a a' b c
  proof -
    have "0 < rat_num c * rat_den b" "0 \<le> rat_num b * rat_den c" using that(1,2) by (simp_all add: valid_base_def)
    then show ?thesis using that(3)
      by (auto simp: ex_rescale_def Let_def intro!: zdiv_mono1 mult_right_mono)
  qed
  moreover have "ex_rescale 0 b c = 0" if "valid_base b" "valid_base c" for b c
    using that by (simp add: ex_rescale_def valid_base_def div_pos_pos_trivial)
  ultimately show ?thesis by (simp add: av_laws_def ex_lib_def)
qed

definition ex_packet :: "u8 \<Rightarrow> bool \<Rightarrow> int \<Rightarrow> AVPacket" where
  "ex_packet b key t = \<lparr>av_data = [b], av_pts = t, av_dts = t, av_duration = 0, av_stream_index = 0,
     av_key_flag = key, av_pos = -1\<rparr>"

definition ex_spec :: RtspStreamSpec where
  "ex_spec = \<lparr>scp_codec_id = 27, scp_time_base = \<lparr>rat_num = 1, rat_den = 1000\<rparr>, scp_fps = 25, scp_bit_rate = 0,
     scp_width = 64, scp_height = 64, scp_extradata = [], rs_media_type = Video, rs_input_stream_index = 0,
     rs_sample_rate = 0, rs_channels = 0\<rparr>"

definition ex_open :: "bool \<Rightarrow> open_result" where
  "ex_open ok = \<lparr>op_alloc = ok, op_new_stream = \<lambda>_. True, op_mallocz = \<lambda>_. True, op_nofile = False,
     op_avio_open = True, op_header = Some (\<lambda>_. \<lparr>rat_num = 1, rat_den = 1000\<rparr>)\<rparr>"

definition ex_written :: write_result where
  "ex_written = \<lparr>wr_ref = True, wr_write = True\<rparr>"

definition ex_failed :: write_result where
  "ex_failed = \<lparr>wr_ref = True, wr_write = False\<rparr>"

definition ex_recorder :: Recorder where
  "ex_recorder = snd (rc_start ex_lib ''20260101_000000'' (ex_open True) (\<lambda>_. ex_written)
     (snd (rc_configure ''cam'' ''/rec'' [ex_spec] new_Recorder)))"

lemmas ex_rec_defs = ex_recorder_def rc_configure_def new_Recorder_def ex_spec_def normalize_spec_def normalizedTimeBase_def
  rc_sameStreamSpecs_def clearPacketCache_def rc_close_def rc_start_def rc_isConfigured_def openRecording_def open_muxer_def
  ex_open_def buildOutputStreamMap_def addOutputStream_def copyExtradata_def output_codecpar_def emplace_stream_def
  set_time_bases_def flushCachedGop_def

section \<open>Properties\<close>

text \<open>
  C31. A file holds a contiguous piece of the stream: in every run of configurations, appends, requests, expiries and
  closes, whatever the
  muxer does, the payloads of every finished file, and of the open one, are consecutive packets the recorder was given,
  none missing, repeated or reordered; the open file is up to date; and the cache a new file starts with begins with
  a keyframe. (No clone into the cache fails; a failed clone leaves a gap there.)
\<close>

theorem recorded_files_contiguous:
  assumes "av_laws lib" "list_all caches es"
  shows "let s = rec_run lib es new_Recorder; H = concat (map given es)
    in list_all (\<lambda>f. sublist (payloads (ff_packets f)) (payloads H)) (rc_finished s) \<and>
       pred_option (\<lambda>c. suffix (payloads (mx_packets c)) (payloads H)) (rc_fmt_ctx s) \<and>
       suffix (rc_gop_cache s) H \<and> (rc_gop_cache s = [] \<or> av_key_flag (hd (rc_gop_cache s)))"
  using rec_inv_run [OF assms, of "[]" new_Recorder] by (simp add: rec_inv_def new_Recorder_def Let_def)

theorem recorded_files_contiguous_witness:
  "let s = rec_run ex_lib [RecConfigure ''cam'' ''/rec'' [ex_spec], RecAppend 0 True ex_written (ex_packet 1 True 0),
         RecRequest ''20260101_000000'' (ex_open True) (\<lambda>_. ex_written) 10 0,
         RecAppend 1 True ex_written (ex_packet 2 False 1), RecClose] new_Recorder
   in list_all (\<lambda>f. sublist (payloads (ff_packets f)) [[1], [2]]) (rc_finished s)"
  using recorded_files_contiguous [OF ex_lib_laws, of
    "[RecConfigure ''cam'' ''/rec'' [ex_spec], RecAppend 0 True ex_written (ex_packet 1 True 0),
      RecRequest ''20260101_000000'' (ex_open True) (\<lambda>_. ex_written) 10 0,
      RecAppend 1 True ex_written (ex_packet 2 False 1), RecClose]"]
  by (simp add: Let_def ex_packet_def)



text \<open>
  The publisher gives up after one failed reconnect: if a write fails and the connection cannot be opened again,
  every later write is refused without another attempt, however often it is called and whatever the network
  does, until the publisher is configured again.
\<close>

theorem publisher_gives_up:
  assumes "rp_configured p" "fst (rp_writePacketLocked lib w packet p) = False"
    and "fst (rp_openLocked r (rp_closeLocked (snd (rp_writePacketLocked lib w packet p)))) = False"
  shows "fst (rp_writePacket lib w r w' packet p) = False \<and>
    (\<forall>(w1, r1, w2, packet1) \<in> set later.
       rp_writePacket lib w1 r1 w2 packet1 (snd (rp_writePacket lib w r w' packet p)) =
         (False, snd (rp_writePacket lib w r w' packet p)))"
proof (cases "rp_format_context p = None")
  case True
  then show ?thesis by (simp add: publisher_stuck)
next
  case False
  obtain p1 where p1: "rp_writePacketLocked lib w packet p = (False, p1)"
    using assms(2) by (cases "rp_writePacketLocked lib w packet p") simp
  obtain p2 where p2: "rp_openLocked r (rp_closeLocked p1) = (False, p2)"
    using assms(3) p1 by (cases "rp_openLocked r (rp_closeLocked p1)") simp
  then have "p2 = rp_closeLocked p1"
    by (auto simp: rp_openLocked_def split: if_splits option.splits prod.splits)
  then have "\<not> rp_configured p2" by (simp add: rp_closeLocked_def)
  moreover have "rp_writePacket lib w r w' packet p = (False, p2)"
    using assms(1) False p1 p2 by (auto simp: rp_writePacket_def)
  ultimately show ?thesis by (auto simp: publisher_stuck)
qed

theorem publisher_gives_up_witness:
  "let p = snd (rp_configure (ex_open True) ''cam'' ''rtsp://out'' [ex_spec] new_RtspPublisher);
       p' = snd (rp_writePacket ex_lib ex_failed (ex_open False) ex_written (ex_packet 1 True 0) p)
   in fst (rp_writePacket ex_lib ex_written (ex_open True) ex_written (ex_packet 2 True 0) p') = False"
proof -
  define p where "p = snd (rp_configure (ex_open True) ''cam'' ''rtsp://out'' [ex_spec] new_RtspPublisher)"
  have "rp_configured p"
    by (simp add: p_def rp_configure_def rp_openLocked_def rp_closeLocked_def new_RtspPublisher_def ex_rec_defs)
  moreover have "fst (rp_writePacketLocked ex_lib ex_failed (ex_packet 1 True 0) p) = False"
    by (simp add: rp_writePacketLocked_def ex_failed_def split: option.split)
  moreover have "fst (rp_openLocked (ex_open False) q) = False" for q
    by (simp add: rp_openLocked_def open_muxer_def ex_open_def)
  ultimately show ?thesis
    using publisher_gives_up [of p ex_lib ex_failed "ex_packet 1 True 0" "ex_open False" ex_written
        "[(ex_written, ex_open True, ex_written, ex_packet 2 True 0)]"]
    by (simp add: p_def [symmetric] Let_def)
qed

end
