(* ===== verification/TrackerAdapter.thy ===== *)
theory TrackerAdapter
  imports Tracker Float32 "HOL-Library.Multiset"
begin

text \<open>
  \<open>third_party/algorithm/byteTrack/src/MediaAgentTracker.cpp\<close>: the library behind \<open>media_agent_tracker.h\<close>, an adapter that
  feeds the detections of a frame to ByteTrack and gives the detections the ids of the tracks they overlap.

  ByteTrack itself and \<open>std::sort\<close> are parameters (\<open>byte_tracker\<close>) here; theory \<open>ByteTrack\<close> gives the tracker. Only the test of
  the thresholds in its constructor is written out already, because it ends the process (\<open>exit(-1)\<close>): the result \<open>TrackExit\<close>. A frame whose
  assignment is never solved does not return at all: \<open>by_Process\<close> is \<open>None\<close> and the result \<open>TrackHangs\<close>.
\<close>

section \<open>Data\<close>

record NormalizedBox =
  nb_left :: f32
  nb_top :: f32
  nb_width :: f32
  nb_height :: f32

record TrackerMatchCandidate =
  cd_detection_index :: nat
  cd_track_index :: nat
  cd_iou :: f32

record DetectionRow =
  dr_left :: f32
  dr_top :: f32
  dr_width :: f32
  dr_height :: f32
  dr_confidence :: f32
  dr_type :: int

text \<open>The fields of a track the adapter reads; \<open>tn_deleted\<close> is the state \<open>DELETE\<close>.\<close>

record TrackNode =
  tn_cx :: f32
  tn_ymax :: f32
  tn_w :: f32
  tn_h :: f32
  tn_type :: int
  tn_id :: u32
  tn_deleted :: bool

record byte_tracker_params =
  bp_min_thresh :: f32
  bp_high_thresh :: f32
  bp_max_iou_distance :: f32
  bp_width :: int
  bp_height :: int
  bp_high_thresh_person :: f32
  bp_high_thresh_motorbike :: f32
  bp_max_age :: int
  bp_n_init :: int

record 'b byte_tracker =
  by_new :: "byte_tracker_params \<Rightarrow> 'b"
  by_Process :: "'b \<Rightarrow> DetectionRow list \<Rightarrow> u64 \<Rightarrow> TrackNode list \<Rightarrow> ('b \<times> TrackNode list) option"
  by_Release :: "'b \<Rightarrow> 'b"
  by_sort :: "TrackerMatchCandidate list \<Rightarrow> TrackerMatchCandidate list"

record 'b TrackerHandle =
  th_config :: ma_tracker_config
  th_tracker :: "'b option"
  th_track_list :: "TrackNode list"
  th_width :: int
  th_height :: int

text \<open>The constants; \<open>0.3F\<close> and the like are the nearest floats.\<close>

definition kDefaultMinThresh :: f32 where "kDefaultMinThresh = rnd32 (1 / 10)"

definition kDefaultHighThresh :: f32 where "kDefaultHighThresh = Fin (1 / 2)"

definition kDefaultHighThreshPerson :: f32 where "kDefaultHighThreshPerson = rnd32 (4 / 10)"

definition kDefaultHighThreshMotorbike :: f32 where "kDefaultHighThreshMotorbike = rnd32 (4 / 10)"

definition kDefaultMaxIouDistance :: f32 where "kDefaultMaxIouDistance = rnd32 (7 / 10)"

definition kDefaultMaxAge :: int where "kDefaultMaxAge = 70"

definition kDefaultNInit :: int where "kDefaultNInit = 3"

definition kMatchIouThreshold :: f32 where "kMatchIouThreshold = rnd32 (3 / 10)"

section \<open>Boxes\<close>

definition clampUnit :: "f32 \<Rightarrow> f32" where
  "clampUnit x = f32_max (Fin 0) (f32_min (Fin 1) x)"

definition ta_clampCoord :: "f32 \<Rightarrow> f32 \<Rightarrow> f32 \<Rightarrow> f32" where
  "ta_clampCoord x lower upper = f32_max lower (f32_min x upper)"

definition isValidFrameDesc :: "ma_tracker_frame_desc \<Rightarrow> bool" where
  "isValidFrameDesc d \<longleftrightarrow> md_width d > 0 \<and> md_height d > 0"

definition normalizedIou :: "NormalizedBox \<Rightarrow> NormalizedBox \<Rightarrow> f32" where
  "normalizedIou lhs rhs =
     (let inter_left = f32_max (nb_left lhs) (nb_left rhs);
          inter_top = f32_max (nb_top lhs) (nb_top rhs);
          inter_right = f32_min (f32_add (nb_left lhs) (nb_width lhs)) (f32_add (nb_left rhs) (nb_width rhs));
          inter_bottom = f32_min (f32_add (nb_top lhs) (nb_height lhs)) (f32_add (nb_top rhs) (nb_height rhs));
          inter_width = f32_max (Fin 0) (f32_sub inter_right inter_left);
          inter_height = f32_max (Fin 0) (f32_sub inter_bottom inter_top);
          inter_area = f32_mul inter_width inter_height;
          lhs_area = f32_mul (nb_width lhs) (nb_height lhs);
          rhs_area = f32_mul (nb_width rhs) (nb_height rhs);
          union_area = f32_sub (f32_add lhs_area rhs_area) inter_area
      in if f32_less (Fin 0) union_area then f32_div_pos inter_area union_area else Fin 0)"

definition detectionToNormalizedBox :: "ma_tracker_detection \<Rightarrow> NormalizedBox" where
  "detectionToNormalizedBox d =
     (let width = clampUnit (mt_width d);
          height = clampUnit (mt_height d);
          center_x = clampUnit (mt_x d);
          center_y = clampUnit (mt_y d);
          left = clampUnit (f32_sub center_x (f32_mul width (Fin (1 / 2))));
          top = clampUnit (f32_sub center_y (f32_mul height (Fin (1 / 2))))
      in \<lparr>nb_left = left, nb_top = top,
          nb_width = f32_max (Fin 0) (f32_min width (f32_sub (Fin 1) left)),
          nb_height = f32_max (Fin 0) (f32_min height (f32_sub (Fin 1) top))\<rparr>)"

definition trackToNormalizedBox :: "TrackNode \<Rightarrow> int \<Rightarrow> int \<Rightarrow> NormalizedBox" where
  "trackToNormalizedBox track width height =
     (let left = clampUnit (f32_div_pos (f32_sub (tn_cx track) (f32_mul (tn_w track) (Fin (1 / 2)))) (f32_of_int width));
          top = clampUnit (f32_div_pos (f32_sub (tn_ymax track) (tn_h track)) (f32_of_int height))
      in \<lparr>nb_left = left, nb_top = top,
          nb_width = f32_max (Fin 0) (f32_min (f32_div_pos (tn_w track) (f32_of_int width)) (f32_sub (Fin 1) left)),
          nb_height = f32_max (Fin 0) (f32_min (f32_div_pos (tn_h track) (f32_of_int height)) (f32_sub (Fin 1) top))\<rparr>)"

definition toByteTrackDetection :: "ma_tracker_detection \<Rightarrow> ma_tracker_frame_desc \<Rightarrow> DetectionRow" where
  "toByteTrackDetection d desc =
     (let frame_width = f32_of_int (md_width desc);
          frame_height = f32_of_int (md_height desc);
          center_x = f32_mul (clampUnit (mt_x d)) frame_width;
          center_y = f32_mul (clampUnit (mt_y d)) frame_height;
          width = f32_max (Fin 1) (f32_mul (clampUnit (mt_width d)) frame_width);
          height = f32_max (Fin 1) (f32_mul (clampUnit (mt_height d)) frame_height);
          left = ta_clampCoord (f32_sub center_x (f32_mul width (Fin (1 / 2)))) (Fin 0)
                   (f32_max (Fin 0) (f32_sub frame_width (Fin 1)));
          top = ta_clampCoord (f32_sub center_y (f32_mul height (Fin (1 / 2)))) (Fin 0)
                   (f32_max (Fin 0) (f32_sub frame_height (Fin 1)))
      in \<lparr>dr_left = left, dr_top = top,
          dr_width = f32_max (Fin 1) (f32_min width (f32_sub frame_width left)),
          dr_height = f32_max (Fin 1) (f32_min height (f32_sub frame_height top)),
          dr_confidence = mt_confidence d, dr_type = mt_class_id d\<rparr>)"

section \<open>Matching\<close>

definition clearDeletedTracks :: "TrackNode list \<Rightarrow> TrackNode list" where
  "clearDeletedTracks tracks = filter (\<lambda>t. \<not> tn_deleted t) tracks"

definition initial_output :: ma_tracker_output where
  "initial_output = \<lparr>mo_track_id = -1, mo_matched = 0\<rparr>"

definition initializeOutputs :: "nat \<Rightarrow> ma_tracker_output" where
  "initializeOutputs index = initial_output"

definition f32_ge :: "f32 \<Rightarrow> f32 \<Rightarrow> bool" where
  "f32_ge x y \<longleftrightarrow> f32_less y x \<or> x = y \<and> x \<noteq> NaN"

definition pair_iou :: "ma_tracker_frame_desc \<Rightarrow> ma_tracker_detection \<Rightarrow> TrackNode \<Rightarrow> f32" where
  "pair_iou desc d track =
     normalizedIou (detectionToNormalizedBox d) (trackToNormalizedBox track (md_width desc) (md_height desc))"

definition match_candidates ::
  "TrackNode list \<Rightarrow> ma_tracker_detection list \<Rightarrow> ma_tracker_frame_desc \<Rightarrow> TrackerMatchCandidate list"
where
  "match_candidates tracks detections desc =
     concat (map (\<lambda>t. concat (map (\<lambda>d.
         let iou = pair_iou desc (detections ! d) (tracks ! t)
         in if mt_class_id (detections ! d) = tn_type (tracks ! t) \<and> f32_ge iou kMatchIouThreshold
            then [\<lparr>cd_detection_index = d, cd_track_index = t, cd_iou = iou\<rparr>] else [])
       [0..<length detections])) [0..<length tracks])"

record match_state =
  ms_detection_used :: "bool list"
  ms_track_used :: "bool list"
  ms_outputs :: "nat \<Rightarrow> ma_tracker_output"

definition match_candidate :: "TrackNode list \<Rightarrow> TrackerMatchCandidate \<Rightarrow> match_state \<Rightarrow> match_state" where
  "match_candidate tracks c s =
     (let d = cd_detection_index c; t = cd_track_index c
      in if ms_detection_used s ! d \<or> ms_track_used s ! t then s
         else \<lparr>ms_detection_used = (ms_detection_used s)[d := True],
               ms_track_used = (ms_track_used s)[t := True],
               ms_outputs = (ms_outputs s)(d := \<lparr>mo_track_id = sint (tn_id (tracks ! t)), mo_matched = 1\<rparr>)\<rparr>)"

definition applyTrackMatches ::
  "(TrackerMatchCandidate list \<Rightarrow> TrackerMatchCandidate list) \<Rightarrow> TrackNode list \<Rightarrow> ma_tracker_detection list \<Rightarrow>
   ma_tracker_frame_desc \<Rightarrow> (nat \<Rightarrow> ma_tracker_output) \<Rightarrow> nat \<Rightarrow> ma_tracker_output"
where
  "applyTrackMatches sort_candidates tracks detections desc outputs =
     (if detections = [] \<or> tracks = [] then outputs
      else ms_outputs (fold (match_candidate tracks) (sort_candidates (match_candidates tracks detections desc))
             \<lparr>ms_detection_used = replicate (length detections) False,
              ms_track_used = replicate (length tracks) False, ms_outputs = outputs\<rparr>))"

section \<open>The interface\<close>

definition resolveFloat :: "f32 \<Rightarrow> f32 \<Rightarrow> f32" where
  "resolveFloat x fallback = (if f32_less (Fin 0) x then x else fallback)"

definition resolveInt :: "int \<Rightarrow> int \<Rightarrow> int" where
  "resolveInt n fallback = (if n > 0 then n else fallback)"

definition tracker_params :: "ma_tracker_config \<Rightarrow> ma_tracker_frame_desc \<Rightarrow> byte_tracker_params" where
  "tracker_params cfg desc =
     \<lparr>bp_min_thresh = resolveFloat (mc_min_thresh cfg) kDefaultMinThresh,
      bp_high_thresh = resolveFloat (mc_high_thresh cfg) kDefaultHighThresh,
      bp_max_iou_distance = resolveFloat (mc_max_iou_distance cfg) kDefaultMaxIouDistance,
      bp_width = md_width desc, bp_height = md_height desc,
      bp_high_thresh_person = resolveFloat (mc_high_thresh_person cfg) kDefaultHighThreshPerson,
      bp_high_thresh_motorbike = resolveFloat (mc_high_thresh_motorbike cfg) kDefaultHighThreshMotorbike,
      bp_max_age = resolveInt (mc_max_age cfg) kDefaultMaxAge, bp_n_init = resolveInt (mc_n_init cfg) kDefaultNInit\<rparr>"

text \<open>\<open>IsInRange\<close> and the test with which the constructor of \<open>ByteTracker\<close> begins.\<close>

definition IsInRange :: "f32 \<Rightarrow> f32 \<Rightarrow> f32 \<Rightarrow> bool" where
  "IsInRange x lower upper \<longleftrightarrow> f32_less lower x \<and> f32_less x upper"

definition params_accepted :: "byte_tracker_params \<Rightarrow> bool" where
  "params_accepted b \<longleftrightarrow>
     IsInRange (bp_min_thresh b) (Fin 0) (Fin 1) \<and> IsInRange (bp_high_thresh b) (Fin 0) (Fin 1) \<and>
     IsInRange (bp_max_iou_distance b) (Fin 0) (Fin 1) \<and> IsInRange (bp_high_thresh_person b) (Fin 0) (Fin 1) \<and>
     IsInRange (bp_high_thresh_motorbike b) (Fin 0) (Fin 1)"

definition createTrackerIfNeeded ::
  "'b byte_tracker \<Rightarrow> ma_tracker_frame_desc \<Rightarrow> 'b TrackerHandle \<Rightarrow> ('b \<times> 'b TrackerHandle) option"
where
  "createTrackerIfNeeded lib desc h =
     (if th_tracker h \<noteq> None \<and> th_width h = md_width desc \<and> th_height h = md_height desc
      then map_option (\<lambda>b. (b, h)) (th_tracker h)
      else if \<not> params_accepted (tracker_params (th_config h) desc) then None
      else let b = by_new lib (tracker_params (th_config h) desc)
           in Some (b, h\<lparr>th_tracker := Some b, th_track_list := [], th_width := md_width desc, th_height := md_height desc\<rparr>))"

definition ta_create :: "ma_tracker_config \<Rightarrow> 'b TrackerHandle option" where
  "ta_create cfg = Some \<lparr>th_config = cfg, th_tracker = None, th_track_list = [], th_width = 0, th_height = 0\<rparr>"

definition ta_reset :: "'b byte_tracker \<Rightarrow> 'b TrackerHandle \<Rightarrow> 'b TrackerHandle" where
  "ta_reset lib h = h\<lparr>th_tracker := map_option (by_Release lib) (th_tracker h), th_track_list := []\<rparr>"

datatype 'b track_result = TrackExit | TrackHangs | TrackReturned "(nat \<Rightarrow> ma_tracker_output) option" "'b TrackerHandle"

definition ta_process ::
  "'b byte_tracker \<Rightarrow> 'b TrackerHandle \<Rightarrow> ma_tracker_frame_desc \<Rightarrow> ma_tracker_detection list \<Rightarrow> 'b track_result"
where
  "ta_process lib h desc detections =
     (if \<not> isValidFrameDesc desc then TrackReturned None h
      else if mc_enabled (th_config h) = 0 then TrackReturned (Some initializeOutputs) h
      else case createTrackerIfNeeded lib desc h of
             None \<Rightarrow> TrackExit
           | Some (b, h') \<Rightarrow>
               (case by_Process lib b (map (\<lambda>d. toByteTrackDetection d desc) detections)
                       (word_of_int (md_timestamp_ms desc)) (th_track_list h') of
                  None \<Rightarrow> TrackHangs
                | Some (b', tracks) \<Rightarrow>
                    let tracks' = clearDeletedTracks tracks
                    in TrackReturned (Some (applyTrackMatches (by_sort lib) tracks' detections desc initializeOutputs))
                         (h'\<lparr>th_tracker := Some b', th_track_list := tracks'\<rparr>)))"

section \<open>The matching as a reference\<close>

text \<open>The loop over the sorted candidates: take what clashes with nothing taken before.\<close>

fun greedy :: "TrackerMatchCandidate list \<Rightarrow> nat set \<Rightarrow> nat set \<Rightarrow> TrackerMatchCandidate list" where
  "greedy [] D T = []"
| "greedy (c # cs) D T =
     (if cd_detection_index c \<in> D \<or> cd_track_index c \<in> T then greedy cs D T
      else c # greedy cs (insert (cd_detection_index c) D) (insert (cd_track_index c) T))"

abbreviation no_better :: "TrackerMatchCandidate \<Rightarrow> TrackerMatchCandidate \<Rightarrow> bool" where
  "no_better a b \<equiv> \<not> f32_less (cd_iou a) (cd_iou b)"

lemma greedy_subset: "set (greedy cs D T) \<subseteq> set cs"
  by (induction cs D T rule: greedy.induct) auto

lemma greedy_fresh:
  "c \<in> set (greedy cs D T) \<Longrightarrow> cd_detection_index c \<notin> D \<and> cd_track_index c \<notin> T"
  by (induction cs D T rule: greedy.induct) (auto split: if_splits)

lemma greedy_injective:
  "a \<in> set (greedy cs D T) \<Longrightarrow> b \<in> set (greedy cs D T) \<Longrightarrow>
     cd_detection_index a = cd_detection_index b \<or> cd_track_index a = cd_track_index b \<Longrightarrow> a = b"
proof (induction cs D T rule: greedy.induct)
  case (2 c cs D T)
  then show ?case by (auto split: if_splits dest: greedy_fresh)
qed simp

text \<open>Whatever is not taken clashes with something taken that is no worse.\<close>

lemma greedy_stable:
  assumes "sorted_wrt no_better cs" "c \<in> set cs"
  shows "cd_detection_index c \<in> D \<or> cd_track_index c \<in> T \<or>
    (\<exists>k \<in> set (greedy cs D T). (cd_detection_index k = cd_detection_index c \<or> cd_track_index k = cd_track_index c) \<and> no_better k c)"
  using assms
proof (induction cs D T rule: greedy.induct)
  case (2 a cs D T)
  show ?case
  proof (cases "c = a")
    case True
    then show ?thesis by auto
  next
    case False
    then have c: "c \<in> set cs" "no_better a c" "sorted_wrt no_better cs" using "2.prems" by auto
    show ?thesis
    proof (cases "cd_detection_index a \<in> D \<or> cd_track_index a \<in> T")
      case True
      with "2.IH"(1) [OF True c(3,1)] show ?thesis by simp
    next
      case free: False
      from "2.IH"(2) [OF free c(3,1)] c(2) show ?thesis using free by auto
    qed
  qed
qed simp

definition output_of :: "TrackNode list \<Rightarrow> nat \<Rightarrow> ma_tracker_output" where
  "output_of tracks t = \<lparr>mo_track_id = sint (tn_id (tracks ! t)), mo_matched = 1\<rparr>"

definition used :: "bool list \<Rightarrow> nat set" where
  "used bs = {i. i < length bs \<and> bs ! i}"

lemma used_simps [simp]:
  "i < length bs \<Longrightarrow> i \<in> used bs \<longleftrightarrow> bs ! i" "used (replicate n False) = {}"
  "i < length bs \<Longrightarrow> used (bs[i := True]) = insert i (used bs)"
  by (auto simp: used_def nth_list_update)

definition in_bounds :: "match_state \<Rightarrow> TrackerMatchCandidate \<Rightarrow> bool" where
  "in_bounds s c \<longleftrightarrow> cd_detection_index c < length (ms_detection_used s) \<and> cd_track_index c < length (ms_track_used s)"

lemma match_fold:
  assumes "\<forall>c \<in> set cs. in_bounds s c"
  shows "ms_outputs (fold (match_candidate tracks) cs s) =
    fold (\<lambda>c out. out(cd_detection_index c := output_of tracks (cd_track_index c)))
      (greedy cs (used (ms_detection_used s)) (used (ms_track_used s))) (ms_outputs s)"
  using assms
proof (induction cs arbitrary: s)
  case (Cons c cs)
  let ?s = "match_candidate tracks c s"
  have c: "cd_detection_index c < length (ms_detection_used s)" "cd_track_index c < length (ms_track_used s)"
    using Cons.prems by (simp_all add: in_bounds_def)
  have "\<forall>c' \<in> set cs. in_bounds ?s c'" using Cons.prems by (auto simp: in_bounds_def match_candidate_def Let_def)
  from Cons.IH [OF this] c show ?case by (auto simp: match_candidate_def Let_def output_of_def)
qed simp

lemma assign_fold:
  assumes "\<And>a b. a \<in> set cs \<Longrightarrow> b \<in> set cs \<Longrightarrow> k a = k b \<Longrightarrow> a = b"
  shows "c \<in> set cs \<Longrightarrow> fold (\<lambda>c out. out(k c := v c)) cs f (k c) = v c"
    and "i \<notin> k ` set cs \<Longrightarrow> fold (\<lambda>c out. out(k c := v c)) cs f i = f i"
proof -
  show other: "fold (\<lambda>c out. out(k c := v c)) cs f i = f i" if "i \<notin> k ` set cs" for i f cs
    using that by (induction cs arbitrary: f) auto
  show "fold (\<lambda>c out. out(k c := v c)) cs f (k c) = v c" if "c \<in> set cs"
    using that assms
  proof (induction cs arbitrary: f)
    case (Cons a cs)
    show ?case
    proof (cases "c \<in> set cs")
      case True
      with Cons.IH [of "f(k a := v a)"] Cons.prems show ?thesis by simp
    next
      case False
      with Cons.prems(1) have "c = a" by simp
      moreover from this False Cons.prems(2) have "k a \<notin> k ` set cs" by force
      ultimately have "c = a" "k a \<notin> k ` set cs" by simp_all
      with other [of "k a" cs "f(k a := v a)"] show ?thesis by (simp del: fun_upd_apply) simp
    qed
  qed simp
qed

section \<open>Properties\<close>

text \<open>A detection and a track that may be matched: the same class, and enough overlap.\<close>

definition candidate :: "ma_tracker_frame_desc \<Rightarrow> ma_tracker_detection list \<Rightarrow> TrackNode list \<Rightarrow> nat \<Rightarrow> nat \<Rightarrow> bool" where
  "candidate desc ds tracks d t \<longleftrightarrow>
     d < length ds \<and> t < length tracks \<and> mt_class_id (ds ! d) = tn_type (tracks ! t) \<and>
     f32_ge (pair_iou desc (ds ! d) (tracks ! t)) kMatchIouThreshold"

text \<open>What \<open>std::sort\<close> promises for a strict weak ordering, which the comparison is where no value is NaN.\<close>

definition sorts_candidates :: "(TrackerMatchCandidate list \<Rightarrow> TrackerMatchCandidate list) \<Rightarrow> bool" where
  "sorts_candidates sort_candidates \<longleftrightarrow>
     (\<forall>cs. (\<forall>c \<in> set cs. cd_iou c \<noteq> NaN) \<longrightarrow>
        mset (sort_candidates cs) = mset cs \<and> sorted_wrt no_better (sort_candidates cs))"

lemma set_match_candidates:
  "c \<in> set (match_candidates tracks ds desc) \<longleftrightarrow>
     candidate desc ds tracks (cd_detection_index c) (cd_track_index c) \<and>
     cd_iou c = pair_iou desc (ds ! cd_detection_index c) (tracks ! cd_track_index c)"
  by (cases c) (auto simp: match_candidates_def candidate_def Let_def split: if_splits)

lemma candidates_not_NaN: "c \<in> set (match_candidates tracks ds desc) \<Longrightarrow> cd_iou c \<noteq> NaN"
  by (auto simp: set_match_candidates candidate_def f32_ge_def)

text \<open>What it means that the outputs are a stable matching of the detections and the tracks.\<close>

definition stable_matching ::
  "ma_tracker_frame_desc \<Rightarrow> ma_tracker_detection list \<Rightarrow> TrackNode list \<Rightarrow> (nat \<times> nat) set \<Rightarrow> bool"
where
  "stable_matching desc ds tracks M \<longleftrightarrow>
     (\<forall>(d, t) \<in> M. candidate desc ds tracks d t) \<and>
     (\<forall>(d, t) \<in> M. \<forall>(d', t') \<in> M. d = d' \<longleftrightarrow> t = t') \<and>
     (\<forall>d t. candidate desc ds tracks d t \<longrightarrow>
        (\<exists>(d', t') \<in> M. (d' = d \<or> t' = t) \<and>
           \<not> f32_less (pair_iou desc (ds ! d') (tracks ! t')) (pair_iou desc (ds ! d) (tracks ! t))))"

lemma stable_matchingD:
  assumes "stable_matching desc ds tracks M" "(d, t) \<in> M"
  shows "candidate desc ds tracks d t" "(d', t') \<in> M \<Longrightarrow> d = d' \<longleftrightarrow> t = t'"
  using assms unfolding stable_matching_def by fast+

definition taken ::
  "(TrackerMatchCandidate list \<Rightarrow> TrackerMatchCandidate list) \<Rightarrow> TrackNode list \<Rightarrow> ma_tracker_detection list \<Rightarrow>
   ma_tracker_frame_desc \<Rightarrow> TrackerMatchCandidate list"
where
  "taken sort_candidates tracks ds desc = greedy (sort_candidates (match_candidates tracks ds desc)) {} {}"

definition pair_of :: "TrackerMatchCandidate \<Rightarrow> nat \<times> nat" where
  "pair_of c = (cd_detection_index c, cd_track_index c)"

lemma sorted_candidates:
  assumes "sorts_candidates sort_candidates"
  shows "set (sort_candidates (match_candidates tracks ds desc)) = set (match_candidates tracks ds desc)"
    "sorted_wrt no_better (sort_candidates (match_candidates tracks ds desc))"
proof -
  have "mset (sort_candidates (match_candidates tracks ds desc)) = mset (match_candidates tracks ds desc) \<and>
      sorted_wrt no_better (sort_candidates (match_candidates tracks ds desc))"
    using assms candidates_not_NaN unfolding sorts_candidates_def by blast
  then show "set (sort_candidates (match_candidates tracks ds desc)) = set (match_candidates tracks ds desc)"
    "sorted_wrt no_better (sort_candidates (match_candidates tracks ds desc))"
    using mset_eq_setD by blast+
qed

lemma taken_candidates:
  assumes "sorts_candidates sort_candidates" "c \<in> set (taken sort_candidates tracks ds desc)"
  shows "candidate desc ds tracks (cd_detection_index c) (cd_track_index c)"
    "cd_iou c = pair_iou desc (ds ! cd_detection_index c) (tracks ! cd_track_index c)"
proof -
  have "c \<in> set (match_candidates tracks ds desc)"
    using assms(2) greedy_subset unfolding taken_def sorted_candidates(1) [OF assms(1), symmetric] by blast
  then show "candidate desc ds tracks (cd_detection_index c) (cd_track_index c)"
    "cd_iou c = pair_iou desc (ds ! cd_detection_index c) (tracks ! cd_track_index c)"
    unfolding set_match_candidates by blast+
qed

lemma taken_injective:
  "a \<in> set (taken s tracks ds desc) \<Longrightarrow> b \<in> set (taken s tracks ds desc) \<Longrightarrow>
     cd_detection_index a = cd_detection_index b \<or> cd_track_index a = cd_track_index b \<Longrightarrow> a = b"
  unfolding taken_def by (rule greedy_injective)

lemma matches_out:
  assumes "sorts_candidates sort_candidates"
  shows "applyTrackMatches sort_candidates tracks ds desc outputs =
    fold (\<lambda>c out. out(cd_detection_index c := output_of tracks (cd_track_index c))) (taken sort_candidates tracks ds desc) outputs"
proof (cases "ds = [] \<or> tracks = []")
  case True
  then have "match_candidates tracks ds desc = []" by (auto simp: match_candidates_def)
  then have "taken sort_candidates tracks ds desc = []"
    using sorted_candidates(1) [OF assms, of tracks ds desc] by (simp add: taken_def)
  with True show ?thesis by (simp add: applyTrackMatches_def)
next
  case False
  let ?s = "\<lparr>ms_detection_used = replicate (length ds) False, ms_track_used = replicate (length tracks) False, ms_outputs = outputs\<rparr>"
  have "\<forall>c \<in> set (sort_candidates (match_candidates tracks ds desc)). in_bounds ?s c"
    unfolding sorted_candidates(1) [OF assms] by (simp add: set_match_candidates candidate_def in_bounds_def)
  from match_fold [OF this, of tracks] False show ?thesis by (simp add: applyTrackMatches_def taken_def)
qed

lemma taken_clash:
  assumes "sorts_candidates sort_candidates" "candidate desc ds tracks d t"
  shows "\<exists>(d', t') \<in> pair_of ` set (taken sort_candidates tracks ds desc). (d' = d \<or> t' = t) \<and>
    \<not> f32_less (pair_iou desc (ds ! d') (tracks ! t')) (pair_iou desc (ds ! d) (tracks ! t))"
proof -
  let ?c = "\<lparr>cd_detection_index = d, cd_track_index = t, cd_iou = pair_iou desc (ds ! d) (tracks ! t)\<rparr>"
  have "?c \<in> set (sort_candidates (match_candidates tracks ds desc))"
    unfolding sorted_candidates(1) [OF assms(1)] set_match_candidates using assms(2) by simp
  from greedy_stable [OF sorted_candidates(2) [OF assms(1)] this, of "{}" "{}"] obtain k where
    k: "k \<in> set (taken sort_candidates tracks ds desc)" "cd_detection_index k = d \<or> cd_track_index k = t" "no_better k ?c"
    by (auto simp: taken_def)
  show ?thesis
  proof (intro bexI)
    show "pair_of k \<in> pair_of ` set (taken sort_candidates tracks ds desc)" using k(1) by (rule imageI)
    show "case pair_of k of (d', t') \<Rightarrow> (d' = d \<or> t' = t) \<and>
        \<not> f32_less (pair_iou desc (ds ! d') (tracks ! t')) (pair_iou desc (ds ! d) (tracks ! t))"
      using k(2,3) taken_candidates(2) [OF assms(1) k(1)] by (simp add: pair_of_def)
  qed
qed

lemma taken_stable:
  assumes "sorts_candidates sort_candidates"
  shows "stable_matching desc ds tracks (pair_of ` set (taken sort_candidates tracks ds desc))"
  unfolding stable_matching_def
proof (intro conjI allI impI)
  let ?G = "set (taken sort_candidates tracks ds desc)"
  show "\<forall>(d, t) \<in> pair_of ` ?G. candidate desc ds tracks d t"
    using taken_candidates(1) [OF assms, of _ tracks ds desc] by (simp add: pair_of_def)
  show "\<forall>(d, t) \<in> pair_of ` ?G. \<forall>(d', t') \<in> pair_of ` ?G. d = d' \<longleftrightarrow> t = t'"
    using taken_injective [of _ sort_candidates tracks ds desc] by (simp add: pair_of_def) metis
  show "\<exists>(d', t') \<in> pair_of ` ?G. (d' = d \<or> t' = t) \<and>
      \<not> f32_less (pair_iou desc (ds ! d') (tracks ! t')) (pair_iou desc (ds ! d) (tracks ! t))"
    if "candidate desc ds tracks d t" for d t
    by (rule taken_clash [OF assms that])
qed

lemma matches_outputs:
  assumes "sorts_candidates sort_candidates"
  shows "(d, t) \<in> pair_of ` set (taken sort_candidates tracks ds desc) \<Longrightarrow>
      applyTrackMatches sort_candidates tracks ds desc outputs d = output_of tracks t"
    "\<forall>t. (d, t) \<notin> pair_of ` set (taken sort_candidates tracks ds desc) \<Longrightarrow>
      applyTrackMatches sort_candidates tracks ds desc outputs d = outputs d"
proof -
  let ?G = "taken sort_candidates tracks ds desc" and ?v = "\<lambda>c. output_of tracks (cd_track_index c)"
  have inj: "a = b" if "a \<in> set ?G" "b \<in> set ?G" "cd_detection_index a = cd_detection_index b" for a b
    using that by (intro taken_injective) simp_all
  show "applyTrackMatches sort_candidates tracks ds desc outputs d = output_of tracks t" if pair: "(d, t) \<in> pair_of ` set ?G"
  proof -
    from pair obtain c where c: "c \<in> set ?G" "d = cd_detection_index c" "t = cd_track_index c"
      by (auto simp only: pair_of_def image_iff prod.inject)
    show ?thesis unfolding matches_out [OF assms] c(2,3)
      by (rule assign_fold(1) [where v = ?v, OF inj c(1)])
  qed
  show "applyTrackMatches sort_candidates tracks ds desc outputs d = outputs d" if "\<forall>t. (d, t) \<notin> pair_of ` set ?G"
  proof -
    have "d \<notin> cd_detection_index ` set ?G"
    proof
      assume "d \<in> cd_detection_index ` set ?G"
      then obtain c where "c \<in> set ?G" "d = cd_detection_index c" by blast
      then have "(d, cd_track_index c) \<in> pair_of ` set ?G" by (simp add: pair_of_def rev_image_eqI)
      with that show False by blast
    qed
    from assign_fold(2) [where v = ?v and f = outputs, OF inj this] show ?thesis unfolding matches_out [OF assms] .
  qed
qed

lemma tracks_assigned:
  assumes "sorts_candidates (by_sort lib)" "mc_enabled (th_config h) \<noteq> 0"
    and "ta_process lib h desc ds = TrackReturned (Some out) h'"
  obtains M where "stable_matching desc ds (th_track_list h') M"
    "\<And>d t. (d, t) \<in> M \<Longrightarrow> out d = output_of (th_track_list h') t" "\<And>d. \<forall>t. (d, t) \<notin> M \<Longrightarrow> out d = initial_output"
proof -
  let ?tracks = "th_track_list h'"
  let ?M = "pair_of ` set (taken (by_sort lib) ?tracks ds desc)"
  have out: "out = applyTrackMatches (by_sort lib) ?tracks ds desc initializeOutputs"
    using assms(2,3) by (auto simp: ta_process_def Let_def split: if_splits option.splits prod.splits)
  have matched: "out d = output_of ?tracks t" if "(d, t) \<in> ?M" for d t using matches_outputs(1) [OF assms(1) that] out by simp
  have rest: "out d = initial_output" if "\<forall>t. (d, t) \<notin> ?M" for d
    using matches_outputs(2) [OF assms(1) that, of initializeOutputs] out by (simp add: initializeOutputs_def)
  from that [OF taken_stable [OF assms(1)] matched rest] show ?thesis .
qed

lemma initial_output_matched: "mo_matched initial_output = 0"
  by (simp add: initial_output_def)

lemma assigned_ids_differ:
  assumes "stable_matching desc ds tracks M" "distinct (map tn_id tracks)" "(d, t) \<in> M" "(d', t') \<in> M"
    and "mo_track_id (output_of tracks t) = mo_track_id (output_of tracks t')"
  shows "d = d'"
proof -
  have "t < length tracks" "t' < length tracks" using stable_matchingD(1) [OF assms(1)] assms(3,4) by (simp_all add: candidate_def)
  moreover have "tn_id (tracks ! t) = tn_id (tracks ! t')" using assms(5) by (simp add: output_of_def signed_word_eqI)
  ultimately have "t = t'" using assms(2) by (simp add: distinct_conv_nth) metis
  with stable_matchingD(2) [OF assms(1,3,4)] show ?thesis by simp
qed

text \<open>
  C29. The ids of the tracks are given to the detections as a stable matching: a detection gets the id of at most one track and a track goes to
  at most one detection, always of the same class and with an overlap of at least 0.3; and whenever a detection
  and a track could have been matched but were not, one of the two was matched with an overlap that is not smaller. So if the
  tracks have different ids, no id is given twice; every other detection is reported as unmatched. The order in which \<open>std::sort\<close>
  leaves equal overlaps does not matter, and NaN coordinates of a track cannot break it.
\<close>

theorem tracks_assigned_stably:
  assumes "sorts_candidates (by_sort lib)" "mc_enabled (th_config h) \<noteq> 0"
    and "ta_process lib h desc ds = TrackReturned (Some out) h'"
  shows "(\<exists>M. stable_matching desc ds (th_track_list h') M \<and>
      (\<forall>d t. (d, t) \<in> M \<longrightarrow> out d = output_of (th_track_list h') t) \<and>
      (\<forall>d. (\<forall>t. (d, t) \<notin> M) \<longrightarrow> out d = initial_output)) \<and>
    (distinct (map tn_id (th_track_list h')) \<longrightarrow>
      (\<forall>d d'. mo_matched (out d) \<noteq> 0 \<and> mo_matched (out d') \<noteq> 0 \<and> mo_track_id (out d) = mo_track_id (out d') \<longrightarrow> d = d'))"
proof -
  obtain M where M: "stable_matching desc ds (th_track_list h') M"
    "\<And>d t. (d, t) \<in> M \<Longrightarrow> out d = output_of (th_track_list h') t" "\<And>d. \<forall>t. (d, t) \<notin> M \<Longrightarrow> out d = initial_output"
    by (rule tracks_assigned [OF assms]) blast
  have given: "\<exists>t. (d, t) \<in> M" if "mo_matched (out d) \<noteq> 0" for d
    using M(3) [of d] that by (metis initial_output_matched)
  have "d = d'" if "distinct (map tn_id (th_track_list h'))" "mo_matched (out d) \<noteq> 0" "mo_matched (out d') \<noteq> 0"
    "mo_track_id (out d) = mo_track_id (out d')" for d d'
  proof -
    from given that obtain t t' where t: "(d, t) \<in> M" "(d', t') \<in> M" by blast
    from assigned_ids_differ [OF M(1) that(1) t] that(4) show ?thesis by (simp add: M(2) [OF t(1)] M(2) [OF t(2)])
  qed
  with M show ?thesis by blast
qed

text \<open>A frame of 4 x 4 pixels with one detection on the one track, and a sorting function.\<close>

fun insert_candidate :: "TrackerMatchCandidate \<Rightarrow> TrackerMatchCandidate list \<Rightarrow> TrackerMatchCandidate list" where
  "insert_candidate c [] = [c]"
| "insert_candidate c (x # xs) = (if f32_less (cd_iou x) (cd_iou c) then c # x # xs else x # insert_candidate c xs)"

lemma mset_insert_candidate [simp]: "mset (insert_candidate c cs) = add_mset c (mset cs)"
  by (induction cs) auto

lemma set_insert_candidate [simp]: "set (insert_candidate c cs) = insert c (set cs)"
  by (induction cs) auto

lemma sorted_insert_candidate:
  "sorted_wrt no_better cs \<Longrightarrow> \<forall>x \<in> set (c # cs). cd_iou x \<noteq> NaN \<Longrightarrow> sorted_wrt no_better (insert_candidate c cs)"
proof (induction cs)
  case (Cons x xs)
  then have "no_better x y" if "y \<in> set xs" for y using that by simp
  with Cons show ?case using f32_not_less_trans [of "cd_iou c" "cd_iou x"] f32_less_asym [of "cd_iou x" "cd_iou c"] by auto
qed simp

definition ex_sort :: "TrackerMatchCandidate list \<Rightarrow> TrackerMatchCandidate list" where
  "ex_sort cs = foldr insert_candidate cs []"

lemma ex_sort_sorts: "sorts_candidates ex_sort"
proof -
  have m: "mset (foldr insert_candidate cs []) = mset cs" for cs by (induction cs) auto
  have "sorted_wrt no_better (foldr insert_candidate cs [])" if "\<forall>c \<in> set cs. cd_iou c \<noteq> NaN" for cs
    using that
  proof (induction cs)
    case (Cons c cs)
    moreover have "set (foldr insert_candidate cs []) = set cs" using mset_eq_setD [OF m] .
    ultimately show ?case by (simp add: sorted_insert_candidate)
  qed simp
  with m show ?thesis by (simp add: sorts_candidates_def ex_sort_def)
qed

definition ex_byte_tracker :: "unit byte_tracker" where
  "ex_byte_tracker =
     \<lparr>by_new = \<lambda>_. (), by_Process = \<lambda>b rows ts tracks.
        Some ((), [\<lparr>tn_cx = Fin 2, tn_ymax = Fin 3, tn_w = Fin 2, tn_h = Fin 2, tn_type = 1, tn_id = 7, tn_deleted = False\<rparr>]),
      by_Release = \<lambda>b. b, by_sort = ex_sort\<rparr>"

definition ex_tracker_config :: ma_tracker_config where
  "ex_tracker_config =
     \<lparr>mc_enabled = 1, mc_tracker_type = ''bytetrack'', mc_min_thresh = Fin 0, mc_high_thresh = Fin 0, mc_max_iou_distance = Fin 0,
      mc_high_thresh_person = Fin 0, mc_high_thresh_motorbike = Fin 0, mc_max_age = 0, mc_n_init = 0\<rparr>"

definition ex_desc :: ma_tracker_frame_desc where
  "ex_desc = \<lparr>md_width = 4, md_height = 4, md_timestamp_ms = 0\<rparr>"

definition ex_tracked :: ma_tracker_detection where
  "ex_tracked = \<lparr>mt_x = Fin (1 / 2), mt_y = Fin (1 / 2), mt_width = Fin (1 / 2), mt_height = Fin (1 / 2),
     mt_confidence = Fin 1, mt_class_id = 1\<rparr>"

theorem tracks_assigned_stably_witness:
  "\<exists>h out h'. ta_create ex_tracker_config = Some h \<and>
     ta_process ex_byte_tracker h ex_desc [ex_tracked] = TrackReturned (Some out) h' \<and>
     out 0 = \<lparr>mo_track_id = 7, mo_matched = 1\<rparr> \<and> out 1 = initial_output"
proof -
  obtain h where h: "ta_create ex_tracker_config = Some h" "mc_enabled (th_config h) \<noteq> 0" "th_tracker h = (None :: unit option)"
    "th_config h = ex_tracker_config"
    by (simp add: ta_create_def ex_tracker_config_def)
  have "params_accepted (tracker_params ex_tracker_config ex_desc)" by code_simp
  with h obtain out h' where p: "ta_process ex_byte_tracker h ex_desc [ex_tracked] = TrackReturned (Some out) h'"
    "th_track_list h' = [\<lparr>tn_cx = Fin 2, tn_ymax = Fin 3, tn_w = Fin 2, tn_h = Fin 2, tn_type = 1, tn_id = 7, tn_deleted = False\<rparr>]"
    by (simp add: ta_process_def isValidFrameDesc_def createTrackerIfNeeded_def ex_desc_def ex_byte_tracker_def Let_def clearDeletedTracks_def)
  have "sorts_candidates (by_sort ex_byte_tracker)" by (simp add: ex_byte_tracker_def ex_sort_sorts)
  from tracks_assigned_stably [OF this h(2) p(1)] obtain M where
    M: "stable_matching ex_desc [ex_tracked] (th_track_list h') M" "\<forall>d t. (d, t) \<in> M \<longrightarrow> out d = output_of (th_track_list h') t"
    "\<forall>d. (\<forall>t. (d, t) \<notin> M) \<longrightarrow> out d = initial_output" by blast
  have "candidate ex_desc [ex_tracked] (th_track_list h') 0 0" unfolding p(2) by code_simp
  with M(1) have "\<exists>(d, t) \<in> M. (d = 0 \<or> t = 0) \<and> d < 1 \<and> t < 1" by (fastforce simp: stable_matching_def candidate_def p(2))
  then have "(0, 0) \<in> M" by auto
  moreover have "\<forall>t. (1, t) \<notin> M" using M(1) by (auto simp: stable_matching_def candidate_def)
  ultimately have "out 0 = \<lparr>mo_track_id = 7, mo_matched = 1\<rparr>" "out 1 = initial_output"
    using M(2,3) p(2) by (simp_all add: output_of_def)
  with h(1) p(1) show ?thesis by blast
qed

text \<open>
  A threshold of 1 or more in the configuration of a tracker, which nothing between the socket and ByteTrack tests, ends the process at the first
  frame that is tracked: \<open>IsInRange\<close> is an open interval, and the constructor calls \<open>exit\<close>.
\<close>

theorem large_threshold_ends_process:
  assumes "ta_create (toNativeConfig cfg) = Some h" "tk_enabled cfg" "f32_ge (tk_high_thresh cfg) (Fin 1)" "isValidFrameDesc desc"
  shows "ta_process lib h desc ds = TrackExit"
proof -
  have h: "th_config h = toNativeConfig cfg" "th_tracker h = None" using assms(1) by (auto simp: ta_create_def)
  have "f32_less (Fin 0) (tk_high_thresh cfg)" "\<not> f32_less (tk_high_thresh cfg) (Fin 1)"
    using assms(3) by (cases "tk_high_thresh cfg"; auto simp: f32_ge_def)+
  then have "\<not> params_accepted (tracker_params (th_config h) desc)"
    by (simp add: params_accepted_def tracker_params_def h toNativeConfig_def resolveFloat_def IsInRange_def)
  with assms h show ?thesis by (simp add: ta_process_def createTrackerIfNeeded_def toNativeConfig_def)
qed

end
