(* ===== verification/Float64.thy ===== *)
theory Float64
  imports Float32
begin

text \<open>
  The double-precision arithmetic of the assignment solver. A double is a value of the same type as a \<open>float\<close> (every \<open>float\<close> is a double,
  and the conversion is exact); only the rounding differs. \<open>rep64\<close> are the finite doubles. Rounding to the nearest double is
  monotone where one side is a double, which is all the solver needs.
\<close>

type_synonym f64 = f32

section \<open>Rounding\<close>

definition rnd_unit64 :: "rat \<Rightarrow> rat" where
  "rnd_unit64 x = pow2 (max (ilog2 \<bar>x\<bar>) (-1022) - 52)"

definition rnd64 :: "rat \<Rightarrow> rat" where
  "rnd64 x = (if x = 0 then 0 else of_int (rnd_even (x / rnd_unit64 x)) * rnd_unit64 x)"

text \<open>A result too large for a double is infinite.\<close>

definition f64_round :: "rat \<Rightarrow> f64" where
  "f64_round x = (if 2 ^ 1024 \<le> \<bar>rnd64 x\<bar> then (if 0 < x then PInf else NInf) else Fin (rnd64 x))"

fun f64_add :: "f64 \<Rightarrow> f64 \<Rightarrow> f64" where
  "f64_add (Fin a) (Fin b) = f64_round (a + b)"
| "f64_add (Fin a) y = y"
| "f64_add x (Fin b) = x"
| "f64_add PInf PInf = PInf"
| "f64_add NInf NInf = NInf"
| "f64_add _ _ = NaN"

definition f64_sub :: "f64 \<Rightarrow> f64 \<Rightarrow> f64" where
  "f64_sub x y = f64_add x (f32_neg y)"

lemma rnd64_error:
  assumes "\<bar>x\<bar> \<le> 2"
  shows "\<bar>rnd64 x - x\<bar> \<le> 1 / 2 ^ 52"
proof (cases "x = 0")
  case True
  then show ?thesis by (simp add: rnd64_def)
next
  case False
  have "pow2 (-1022) \<le> pow2 1" by (rule pow2_mono) simp
  then have "pow2 (max (ilog2 \<bar>x\<bar>) (-1022)) \<le> 2"
    using ilog2_lower [of "\<bar>x\<bar>"] False assms by (auto simp: max_def pow2_def [of 1])
  moreover have "rnd_unit64 x * 2 ^ 52 = pow2 (max (ilog2 \<bar>x\<bar>) (-1022))"
    using pow2_add [of "max (ilog2 \<bar>x\<bar>) (-1022) - 52" 52] by (simp add: rnd_unit64_def pow2_def [of 52])
  ultimately have "rnd_unit64 x / 2 \<le> 1 / 2 ^ 52" by (simp add: field_simps)
  moreover have "0 < rnd_unit64 x" by (simp add: rnd_unit64_def)
  ultimately show ?thesis using rnd_grid_error [of "rnd_unit64 x" x] False by (simp add: rnd64_def)
qed

section \<open>The finite doubles\<close>

definition rep64 :: "rat \<Rightarrow> bool" where
  "rep64 q \<longleftrightarrow> (\<exists>k e. q = of_int k * pow2 e \<and> -1074 \<le> e \<and> \<bar>k\<bar> \<le> 2 ^ 53)"

lemma rep64_0 [simp]: "rep64 0"
  unfolding rep64_def by (rule exI [of _ 0], rule exI [of _ 0]) simp

lemma ilog2_upper:
  assumes "0 < x"
  shows "x < pow2 (ilog2 x + 1)"
proof -
  obtain p q where pq: "quotient_of x = (p, q)" by (cases "quotient_of x")
  have q: "0 < q" and x: "x = of_int p / of_int q"
    using quotient_of_denom_pos [OF pq] quotient_of_div [OF pq] by simp_all
  have p: "0 < p" using assms x q by (simp add: zero_less_divide_iff)
  define a b where "a = int (floorlog 2 (nat p))" and "b = int (floorlog 2 (nat q))"
  have bounds: "of_int p < pow2 a" "pow2 (b - 1) \<le> of_int q"
    using floorlog_upper [of "nat p"] floorlog_lower [of "nat q"] p q by (simp_all add: a_def b_def)
  have "pow2 (a - b + 1) * pow2 (b - 1) = pow2 a" by (simp add: pow2_add [symmetric])
  moreover have "pow2 (a - b + 1) * pow2 (b - 1) \<le> pow2 (a - b + 1) * of_int q"
    using bounds(2) by (intro mult_left_mono) (simp_all add: less_imp_le)
  ultimately have "of_int p < pow2 (a - b + 1) * of_int q" using bounds(1) by linarith
  then have "x < pow2 (a - b + 1)" using q by (simp add: x pos_divide_less_eq)
  then show ?thesis by (auto simp: ilog2_def pq Let_def a_def b_def)
qed

lemma rnd_even_ge: "of_int k \<le> x \<Longrightarrow> k \<le> rnd_even x"
proof -
  assume "of_int k \<le> x"
  then have "k \<le> \<lfloor>x\<rfloor>" by (simp add: le_floor_iff)
  then show "k \<le> rnd_even x" by (simp add: rnd_even_def Let_def)
qed

lemma rnd_even_le: "x \<le> of_int k \<Longrightarrow> rnd_even x \<le> k"
proof -
  assume x: "x \<le> of_int k"
  show "rnd_even x \<le> k"
  proof (cases "\<lfloor>x\<rfloor> < k")
    case True
    then show ?thesis by (simp add: rnd_even_def Let_def)
  next
    case False
    then have "of_int k \<le> x" by (simp add: le_floor_iff not_less)
    with x have "x = of_int k" by simp
    then show ?thesis by (simp add: rnd_even_def Let_def)
  qed
qed

text \<open>The grid on which a positive number is rounded.\<close>

lemma rnd_grid64:
  assumes "0 < x"
  obtains g where "rnd_unit64 x = pow2 g" "-1074 \<le> g" "x < 2 ^ 53 * pow2 g" "-1074 < g \<Longrightarrow> 2 ^ 52 * pow2 g \<le> x"
proof
  let ?e = "max (ilog2 x) (-1022)"
  have two: "2 ^ 52 * pow2 (?e - 52) = pow2 ?e" "2 ^ 53 * pow2 (?e - 52) = pow2 (?e + 1)"
    using pow2_add [of 52 "?e - 52"] pow2_add [of 53 "?e - 52"] by (simp_all add: pow2_def [of 52] pow2_def [of 53] add.commute)
  show "rnd_unit64 x = pow2 (?e - 52)" using assms by (simp add: rnd_unit64_def)
  show "-1074 \<le> ?e - 52" by simp
  have "x < pow2 (ilog2 x + 1)" by (rule ilog2_upper [OF assms])
  also have "\<dots> \<le> pow2 (?e + 1)" by (rule pow2_mono) simp
  finally show "x < 2 ^ 53 * pow2 (?e - 52)" unfolding two .
  show "2 ^ 52 * pow2 (?e - 52) \<le> x" if "-1074 < ?e - 52"
    using that ilog2_lower [OF assms] unfolding two by (simp add: max_def split: if_splits)
qed

lemma rep64_rnd64:
  assumes "0 \<le> x"
  shows "rep64 (rnd64 x)" "0 \<le> rnd64 x"
proof -
  have "rep64 (rnd64 x) \<and> 0 \<le> rnd64 x"
  proof (cases "x = 0")
    case True
    then show ?thesis by (simp add: rnd64_def)
  next
    case False
    with assms have x: "0 < x" by simp
    from rnd_grid64 [OF x] obtain g where g: "rnd_unit64 x = pow2 g" "-1074 \<le> g" "x < 2 ^ 53 * pow2 g" by blast
    define k where "k = rnd_even (x / pow2 g)"
    have "x / pow2 g \<le> of_int (2 ^ 53)" using g(3) by (simp add: pos_divide_le_eq less_imp_le)
    then have "k \<le> 2 ^ 53" unfolding k_def by (rule rnd_even_le)
    moreover have "0 \<le> k" unfolding k_def using x by (intro rnd_even_ge) (simp add: less_imp_le)
    moreover have "rnd64 x = of_int k * pow2 g" using x by (simp add: rnd64_def g(1) k_def)
    moreover from calculation have "\<bar>k\<bar> \<le> 2 ^ 53" by simp
    ultimately show ?thesis using g(2) unfolding rep64_def
      by (intro conjI exI [of _ k] exI [of _ g]) (simp_all add: less_imp_le)
  qed
  then show "rep64 (rnd64 x)" "0 \<le> rnd64 x" by simp_all
qed

text \<open>A double is on the grid of any positive number, or below the binade of the number.\<close>

lemma rep64_on_grid:
  assumes "rep64 h" "0 \<le> h" "-1074 \<le> g"
  shows "(\<exists>k. h = of_int k * pow2 g) \<or> h \<le> 2 ^ 52 * pow2 g \<and> -1074 < g"
proof -
  from assms(1) obtain k e where h: "h = of_int k * pow2 e" "-1074 \<le> e" "\<bar>k\<bar> \<le> 2 ^ 53" by (auto simp: rep64_def)
  show ?thesis
  proof (cases "g \<le> e")
    case True
    have "pow2 e = pow2 (e - g) * pow2 g" using pow2_add [of "e - g" g] by simp
    moreover have "pow2 (e - g) = of_int (2 ^ nat (e - g))" using True by (simp add: pow2_def)
    ultimately have "h = of_int (k * 2 ^ nat (e - g)) * pow2 g" using h(1) by simp
    then show ?thesis by blast
  next
    case False
    have "h \<le> 2 ^ 53 * pow2 e"
    proof -
      have "of_int k \<le> (2 ^ 53 :: rat)" using h(3) by (metis abs_le_D1 of_int_le_iff of_int_numeral of_int_power)
      then show ?thesis unfolding h(1) by (intro mult_right_mono) (simp_all add: less_imp_le)
    qed
    also have "\<dots> \<le> 2 ^ 53 * pow2 (g - 1)" using False by (intro mult_left_mono pow2_mono) simp_all
    also have "\<dots> = 2 ^ 52 * pow2 g" using pow2_add [of 1 "g - 1"] by (simp add: pow2_def [of 1])
    finally show ?thesis using False h(2) by simp
  qed
qed

lemma rnd64_ge:
  assumes "rep64 h" "0 \<le> h" "h \<le> x"
  shows "h \<le> rnd64 x"
proof (cases "x = 0")
  case True
  with assms show ?thesis by (simp add: rnd64_def)
next
  case False
  with assms have x: "0 < x" by simp
  from rnd_grid64 [OF x] obtain g where g: "rnd_unit64 x = pow2 g" "-1074 \<le> g" "-1074 < g \<Longrightarrow> 2 ^ 52 * pow2 g \<le> x" by blast
  have up: "of_int k * pow2 g \<le> rnd64 x" if "of_int k * pow2 g \<le> x" for k
  proof -
    have "of_int k \<le> x / pow2 g" using that by (simp add: pos_le_divide_eq)
    then have "k \<le> rnd_even (x / pow2 g)" by (rule rnd_even_ge)
    then have "(of_int k :: rat) \<le> of_int (rnd_even (x / pow2 g))" by (simp only: of_int_le_iff)
    then have "of_int k * pow2 g \<le> of_int (rnd_even (x / pow2 g)) * pow2 g" by (rule mult_right_mono) (simp add: less_imp_le)
    then show ?thesis using x by (simp add: rnd64_def g(1))
  qed
  from rep64_on_grid [OF assms(1,2) g(2)] show ?thesis
    using up assms(3) up [of "2 ^ 52"] g(3) by auto
qed

lemma rnd64_le:
  assumes "rep64 h" "0 \<le> x" "x \<le> h"
  shows "rnd64 x \<le> h"
proof (cases "x = 0")
  case True
  with assms show ?thesis by (simp add: rnd64_def)
next
  case False
  with assms have x: "0 < x" "0 \<le> h" by simp_all
  from rnd_grid64 [OF x(1)] obtain g where g: "rnd_unit64 x = pow2 g" "-1074 \<le> g" "-1074 < g \<Longrightarrow> 2 ^ 52 * pow2 g \<le> x" by blast
  have down: "rnd64 x \<le> of_int k * pow2 g" if "x \<le> of_int k * pow2 g" for k
  proof -
    have "x / pow2 g \<le> of_int k" using that by (simp add: pos_divide_le_eq)
    then have "rnd_even (x / pow2 g) \<le> k" by (rule rnd_even_le)
    then have "(of_int (rnd_even (x / pow2 g)) :: rat) \<le> of_int k" by (simp only: of_int_le_iff)
    then have "of_int (rnd_even (x / pow2 g)) * pow2 g \<le> of_int k * pow2 g" by (rule mult_right_mono) (simp add: less_imp_le)
    then show ?thesis using x by (simp add: rnd64_def g(1))
  qed
  from rep64_on_grid [OF assms(1) x(2) g(2)] show ?thesis
    using down assms(3) down [of "2 ^ 52"] g(3) by fastforce
qed

text \<open>Every finite \<open>float\<close> is a double.\<close>

lemma rnd32_rep64:
  assumes "rnd32 x = Fin y" "0 \<le> x"
  shows "rep64 y"
proof (cases "x = 0")
  case True
  with assms(1) show ?thesis by (simp add: rnd32_def)
next
  case False
  with assms(2) have x: "0 < x" by simp
  let ?e = "max (ilog2 x) (-126)"
  define k where "k = rnd_even (x / pow2 (?e - 23))"
  have y: "y = of_int k * pow2 (?e - 23)"
    using assms(1) x by (auto simp: rnd32_def rnd_unit_def k_def Let_def split: if_splits)
  have "2 ^ 24 * pow2 (?e - 23) = pow2 (?e + 1)" using pow2_add [of 24 "?e - 23"] by (simp add: pow2_def [of 24] add.commute)
  moreover have "x < pow2 (?e + 1)" using ilog2_upper [OF x] pow2_mono [of "ilog2 x + 1" "?e + 1"] by linarith
  ultimately have "x / pow2 (?e - 23) \<le> of_int (2 ^ 24)" by (simp add: pos_divide_le_eq less_imp_le)
  then have "k \<le> 2 ^ 24" unfolding k_def by (rule rnd_even_le)
  moreover have "0 \<le> k" unfolding k_def using x by (intro rnd_even_ge) (simp add: less_imp_le)
  moreover have "(2 :: int) ^ 24 \<le> 2 ^ 53" by simp
  ultimately have "\<bar>k\<bar> \<le> 2 ^ 53" by linarith
  then show ?thesis unfolding rep64_def using y by (intro exI [of _ k] exI [of _ "?e - 23"]) simp
qed

section \<open>Adding and subtracting doubles that are not negative\<close>

text \<open>A finite double that is not negative, or infinity.\<close>

fun nonneg64 :: "f64 \<Rightarrow> bool" where
  "nonneg64 (Fin q) \<longleftrightarrow> rep64 q \<and> 0 \<le> q"
| "nonneg64 PInf \<longleftrightarrow> True"
| "nonneg64 _ \<longleftrightarrow> False"

lemma f64_round_nonneg: "0 \<le> x \<Longrightarrow> nonneg64 (f64_round x)"
  using rep64_rnd64 [of x] by (auto simp: f64_round_def) (auto simp: rnd64_def)

lemma f64_add_nonneg: "nonneg64 x \<Longrightarrow> nonneg64 y \<Longrightarrow> nonneg64 (f64_add x y)"
  by (cases x; cases y) (auto intro: f64_round_nonneg)

lemma f64_sub_self: "f64_sub (Fin q) (Fin q) = Fin 0"
  by (simp add: f64_sub_def f64_round_def rnd64_def)

lemma f64_sub_nonneg: "nonneg64 x \<Longrightarrow> \<not> f32_less x (Fin h) \<Longrightarrow> nonneg64 (f64_sub x (Fin h))"
  by (cases x) (auto simp: f64_sub_def intro: f64_round_nonneg)

lemma f64_sub_finite:
  assumes "rep64 q" "0 \<le> h" "h \<le> q" "q < 2 ^ 1024"
  shows "\<exists>y. f64_sub (Fin q) (Fin h) = Fin y \<and> 0 \<le> y \<and> y \<le> q"
proof -
  have "rnd64 (q - h) \<le> q" using assms by (intro rnd64_le) simp_all
  moreover have "0 \<le> rnd64 (q - h)" using assms rep64_rnd64(2) [of "q - h"] by simp
  ultimately show ?thesis using assms(4) by (simp add: f64_sub_def f64_round_def)
qed

text \<open>What was added can be taken away again without going below zero.\<close>

lemma f64_add_ge:
  assumes "nonneg64 x" "rep64 h" "0 \<le> h"
  shows "\<not> f32_less (f64_add x (Fin h)) (Fin h)"
proof (cases x)
  case (Fin q)
  with assms have "h \<le> rnd64 (q + h)" by (intro rnd64_ge) simp_all
  moreover have "0 < q + h" if "2 ^ 1024 \<le> \<bar>rnd64 (q + h)\<bar>" using that Fin assms
    by (cases "q + h = 0") (auto simp: rnd64_def)
  ultimately show ?thesis using Fin by (auto simp: f64_round_def)
qed (use assms in auto)

end
