(* ===== verification/Munkres.thy ===== *)
theory Munkres
  imports Float64 "HOL-Library.While_Combinator"
begin

text \<open>
  \<open>third_party/algorithm/byteTrack/bytetrack/munkres_assignment\<close>: the assignment solver behind ByteTrack, that is \<open>Matrix\<close>
  (\<open>munkres/matrix.h\<close>), \<open>Munkres<double>\<close> (\<open>munkres/munkres.h\<close>) and \<open>HungarianOper::Solve\<close>.

  A matrix is its size and a function of the indices; only indices within the size are used. The five steps work on the matrix, the marks
  (\<open>NORMAL\<close>, \<open>STAR\<close>, \<open>PRIME\<close>) and the covers of rows and columns; the loop over the steps is \<open>while_option\<close>, so a solver that does
  not return is \<open>None\<close>. \<open>FindUncoveredInMatrix\<close> leaves indices out of range in \<open>saverow\<close>, \<open>savecol\<close> when it finds nothing; nobody reads them
  before the next success, and the model keeps the old ones.
\<close>

section \<open>Matrices\<close>

record 'a Matrix =
  m_rows :: nat
  m_columns :: nat
  m_at :: "nat \<Rightarrow> nat \<Rightarrow> 'a"

definition cells :: "nat \<Rightarrow> nat \<Rightarrow> (nat \<times> nat) list" where
  "cells rows columns = List.product [0..<rows] [0..<columns]"

definition m_resize :: "nat \<Rightarrow> nat \<Rightarrow> 'a \<Rightarrow> 'a Matrix \<Rightarrow> 'a Matrix" where
  "m_resize rows columns default_value m =
     \<lparr>m_rows = rows, m_columns = columns,
      m_at = (\<lambda>x y. if x < min rows (m_rows m) \<and> y < min columns (m_columns m) then m_at m x y else default_value)\<rparr>"

definition mmax :: "f64 Matrix \<Rightarrow> f64" where
  "mmax m = fold (\<lambda>(i, j) x. f32_max x (m_at m i j)) (cells (m_rows m) (m_columns m)) (m_at m 0 0)"

definition minsize :: "'a Matrix \<Rightarrow> nat" where
  "minsize m = (if m_rows m < m_columns m then m_rows m else m_columns m)"

section \<open>Preparing the costs\<close>

text \<open>\<open>XYZMAX\<close> and \<open>XYZMIN\<close>: the first argument only if it is strictly larger or smaller.\<close>

definition XYZMAX :: "f64 \<Rightarrow> f64 \<Rightarrow> f64" where
  "XYZMAX x y = (if f32_less y x then x else y)"

definition XYZMIN :: "f64 \<Rightarrow> f64 \<Rightarrow> f64" where
  "XYZMIN x y = (if f32_less x y then x else y)"

definition greatest_finite :: "f64 Matrix \<Rightarrow> f64" where
  "greatest_finite m = fold (\<lambda>(row, col) x.
     if m_at m row col \<noteq> PInf then (if x = PInf then m_at m row col else XYZMAX x (m_at m row col)) else x)
     (cells (m_rows m) (m_columns m)) (m_at m 0 0)"

definition ReplaceInfinites :: "f64 Matrix \<Rightarrow> f64 Matrix" where
  "ReplaceInfinites m =
     (let x = greatest_finite m; y = (if x = PInf then Fin 0 else f64_add x (Fin 1))
      in m\<lparr>m_at := \<lambda>row col. if m_at m row col = PInf then y else m_at m row col\<rparr>)"

text \<open>The least value of a line, searched for as long as it is positive.\<close>

definition line_min :: "nat \<Rightarrow> (nat \<Rightarrow> f64) \<Rightarrow> f64" where
  "line_min inner_size line =
     fold (\<lambda>j x. if f32_less (Fin 0) x then XYZMIN x (line j) else x) [1..<inner_size] (line 0)"

definition reduced :: "nat \<Rightarrow> (nat \<Rightarrow> f64) \<Rightarrow> nat \<Rightarrow> f64" where
  "reduced inner_size line j =
     (let x = line_min inner_size line in if f32_less (Fin 0) x then f64_sub (line j) x else line j)"

definition MinimizeAlongDirection :: "bool \<Rightarrow> f64 Matrix \<Rightarrow> f64 Matrix" where
  "MinimizeAlongDirection over_columns m =
     m\<lparr>m_at := \<lambda>row col. if over_columns then reduced (m_rows m) (\<lambda>j. m_at m j col) row
                         else reduced (m_columns m) (\<lambda>j. m_at m row j) col\<rparr>"

section \<open>The steps\<close>

datatype mark = NORMAL | STAR | PRIME

record Munkres =
  mu_matrix :: "f64 Matrix"
  mu_mask :: "mark Matrix"
  mu_row_mask :: "nat \<Rightarrow> bool"
  mu_col_mask :: "nat \<Rightarrow> bool"
  mu_saverow :: nat
  mu_savecol :: nat
  mu_step :: nat

definition set_mark :: "nat \<Rightarrow> nat \<Rightarrow> mark \<Rightarrow> mark Matrix \<Rightarrow> mark Matrix" where
  "set_mark row col x m = m\<lparr>m_at := (m_at m)(row := (m_at m row)(col := x))\<rparr>"

definition FindUncoveredInMatrix :: "f64 \<Rightarrow> Munkres \<Rightarrow> (nat \<times> nat) option" where
  "FindUncoveredInMatrix item s =
     find (\<lambda>(row, col). \<not> mu_row_mask s row \<and> \<not> mu_col_mask s col \<and> m_at (mu_matrix s) row col = item)
       (cells (m_rows (mu_matrix s)) (m_columns (mu_matrix s)))"

text \<open>Star the first zero of each row whose column has no star in a row above.\<close>

definition star_row :: "f64 Matrix \<Rightarrow> nat \<Rightarrow> mark Matrix \<Rightarrow> mark Matrix" where
  "star_row m row marks =
     (case find (\<lambda>col. m_at m row col = Fin 0 \<and> \<not> list_ex (\<lambda>nrow. m_at marks nrow col = STAR) [0..<row]) [0..<m_columns m] of
        None \<Rightarrow> marks
      | Some col \<Rightarrow> set_mark row col STAR marks)"

definition Step1 :: "Munkres \<Rightarrow> Munkres" where
  "Step1 s = s\<lparr>mu_mask := fold (star_row (mu_matrix s)) [0..<m_rows (mu_matrix s)] (mu_mask s), mu_step := 2\<rparr>"

definition Step2 :: "Munkres \<Rightarrow> Munkres" where
  "Step2 s =
     (let m = mu_matrix s;
          starred = filter (\<lambda>(row, col). m_at (mu_mask s) row col = STAR) (cells (m_rows m) (m_columns m))
      in s\<lparr>mu_col_mask := \<lambda>c. mu_col_mask s c \<or> c \<in> snd ` set starred,
           mu_step := if length starred \<ge> minsize m then 0 else 3\<rparr>)"

definition Step3 :: "Munkres \<Rightarrow> Munkres" where
  "Step3 s =
     (case FindUncoveredInMatrix (Fin 0) s of
        None \<Rightarrow> s\<lparr>mu_step := 5\<rparr>
      | Some (row, col) \<Rightarrow>
          let s' = s\<lparr>mu_saverow := row, mu_savecol := col, mu_mask := set_mark row col PRIME (mu_mask s)\<rparr>
          in (case find (\<lambda>ncol. m_at (mu_mask s') row ncol = STAR) [0..<m_columns (mu_matrix s)] of
                Some ncol \<Rightarrow>
                  s'\<lparr>mu_row_mask := (mu_row_mask s)(row := True), mu_col_mask := (mu_col_mask s)(ncol := False), mu_step := 3\<rparr>
              | None \<Rightarrow> s'\<lparr>mu_step := 4\<rparr>))"

text \<open>
  The alternating sequence: the star in the column of the last prime, the prime in the row of that star, and so on. A pair that is already in the
  sequence is passed over, so there are at most as many turns as cells.
\<close>

lemma find_SomeD: "find P xs = Some x \<Longrightarrow> x \<in> set xs \<and> P x"
  by (induction xs) (simp_all split: if_splits)

lemma fewer_cells_left:
  assumes "find P [0..<rows] = Some row" "find (\<lambda>c. Q c \<and> (row, c) \<notin> set (sequence @ [(row, col)])) [0..<columns] = Some c"
  shows "card ({..<rows} \<times> {..<columns} - set (sequence @ [(row, col), (row, c)])) < card ({..<rows} \<times> {..<columns} - set sequence)"
proof (rule psubset_card_mono)
  have "row < rows" "c < columns" and out: "(row, c) \<notin> set sequence"
    using find_SomeD [OF assms(1)] find_SomeD [OF assms(2)] by simp_all
  then have "(row, c) \<in> {..<rows} \<times> {..<columns} - set sequence" by simp
  moreover have "(row, c) \<in> set (sequence @ [(row, col), (row, c)])" "set sequence \<subseteq> set (sequence @ [(row, col), (row, c)])"
    by (simp_all add: subset_insertI2)
  ultimately show "{..<rows} \<times> {..<columns} - set (sequence @ [(row, col), (row, c)]) \<subset> {..<rows} \<times> {..<columns} - set sequence"
    by blast
qed simp

function alternating_sequence :: "mark Matrix \<Rightarrow> (nat \<times> nat) list \<Rightarrow> nat \<Rightarrow> (nat \<times> nat) list" where
  "alternating_sequence marks sequence col =
     (case find (\<lambda>row. m_at marks row col = STAR \<and> (row, col) \<notin> set sequence) [0..<m_rows marks] of
        None \<Rightarrow> sequence
      | Some row \<Rightarrow>
          (case find (\<lambda>c. m_at marks row c = PRIME \<and> (row, c) \<notin> set (sequence @ [(row, col)])) [0..<m_columns marks] of
             None \<Rightarrow> sequence @ [(row, col)]
           | Some c \<Rightarrow> alternating_sequence marks (sequence @ [(row, col), (row, c)]) c))"
  by (metis prod_cases3) simp

termination
proof (relation "measure (\<lambda>(marks, sequence, col). card ({..<m_rows marks} \<times> {..<m_columns marks} - set sequence))")
  fix marks :: "mark Matrix" and sequence col row c
  assume "find (\<lambda>row. m_at marks row col = STAR \<and> (row, col) \<notin> set sequence) [0..<m_rows marks] = Some row"
    "find (\<lambda>c. m_at marks row c = PRIME \<and> (row, c) \<notin> set (sequence @ [(row, col)])) [0..<m_columns marks] = Some c"
  from fewer_cells_left [OF this]
  show "((marks, sequence @ [(row, col), (row, c)], c), marks, sequence, col)
      \<in> measure (\<lambda>(marks, sequence, col). card ({..<m_rows marks} \<times> {..<m_columns marks} - set sequence))"
    by (simp only: in_measure prod.case)
qed (rule wf_measure)

text \<open>Stars of the sequence go, primes of the sequence become stars, all other primes go.\<close>

fun turned :: "mark \<Rightarrow> mark" where
  "turned STAR = NORMAL"
| "turned PRIME = STAR"
| "turned NORMAL = NORMAL"

definition turn_pair :: "nat \<times> nat \<Rightarrow> mark Matrix \<Rightarrow> mark Matrix" where
  "turn_pair z marks = set_mark (fst z) (snd z) (turned (m_at marks (fst z) (snd z))) marks"

definition erase_primes :: "mark Matrix \<Rightarrow> mark Matrix" where
  "erase_primes marks = marks\<lparr>m_at := \<lambda>row col. if m_at marks row col = PRIME then NORMAL else m_at marks row col\<rparr>"

definition Step4 :: "Munkres \<Rightarrow> Munkres" where
  "Step4 s =
     (let sequence = alternating_sequence (mu_mask s) [(mu_saverow s, mu_savecol s)] (mu_savecol s)
      in s\<lparr>mu_mask := erase_primes (fold turn_pair sequence (mu_mask s)),
           mu_row_mask := \<lambda>_. False, mu_col_mask := \<lambda>_. False, mu_step := 2\<rparr>)"

definition least_uncovered :: "Munkres \<Rightarrow> f64" where
  "least_uncovered s = fold (\<lambda>(row, col) h.
     let x = m_at (mu_matrix s) row col
     in if \<not> mu_row_mask s row \<and> \<not> mu_col_mask s col \<and> f32_less x h \<and> x \<noteq> Fin 0 then x else h)
     (cells (m_rows (mu_matrix s)) (m_columns (mu_matrix s))) (Fin 100000)"

definition Step5 :: "Munkres \<Rightarrow> Munkres" where
  "Step5 s =
     (let h = least_uncovered s; m = mu_matrix s;
          added = (\<lambda>row col. if mu_row_mask s row then f64_add (m_at m row col) h else m_at m row col);
          lowered = (\<lambda>row col. if mu_col_mask s col then added row col else f64_sub (added row col) h)
      in s\<lparr>mu_matrix := m\<lparr>m_at := lowered\<rparr>, mu_step := 3\<rparr>)"

definition munkres_step :: "Munkres \<Rightarrow> Munkres" where
  "munkres_step s =
     (if mu_step s = 1 then Step1 s else if mu_step s = 2 then Step2 s else if mu_step s = 3 then Step3 s
      else if mu_step s = 4 then Step4 s else if mu_step s = 5 then Step5 s else s)"

section \<open>The solver\<close>

definition squared :: "f64 Matrix \<Rightarrow> f64 Matrix" where
  "squared m = (let n = max (m_rows m) (m_columns m)
     in if m_rows m \<noteq> m_columns m then m_resize n n (mmax m) m else m)"

definition prepared :: "f64 Matrix \<Rightarrow> f64 Matrix" where
  "prepared m = MinimizeAlongDirection (m_rows m < m_columns m)
     (MinimizeAlongDirection (m_rows m \<ge> m_columns m) (ReplaceInfinites (squared m)))"

definition munkres_start :: "f64 Matrix \<Rightarrow> Munkres" where
  "munkres_start m = (let n = max (m_rows m) (m_columns m)
     in \<lparr>mu_matrix = prepared m, mu_mask = \<lparr>m_rows = n, m_columns = n, m_at = \<lambda>_ _. NORMAL\<rparr>,
         mu_row_mask = \<lambda>_. False, mu_col_mask = \<lambda>_. False, mu_saverow = 0, mu_savecol = 0, mu_step = 1\<rparr>)"

text \<open>The result replaces the matrix: 0 for an assignment, -1 for everything else, in the size of the input.\<close>

definition munkres_Solve :: "f64 Matrix \<Rightarrow> f64 Matrix option" where
  "munkres_Solve m =
     map_option (\<lambda>s. m_resize (m_rows m) (m_columns m) (Fin 0)
         ((mu_matrix s)\<lparr>m_at := \<lambda>row col. if m_at (mu_mask s) row col = STAR then Fin 0 else Fin (-1)\<rparr>))
       (while_option (\<lambda>s. mu_step s \<noteq> 0) munkres_step (munkres_start m))"

definition matrix_of :: "f32 list list \<Rightarrow> f64 Matrix" where
  "matrix_of costs = \<lparr>m_rows = length costs, m_columns = length (hd costs), m_at = \<lambda>row col. costs ! row ! col\<rparr>"

definition HungarianOper_Solve :: "f32 list list \<Rightarrow> (nat \<times> nat) list option" where
  "HungarianOper_Solve costs =
     map_option (\<lambda>m. filter (\<lambda>(row, col). f32_to_int32 (m_at m row col) = Some 0) (cells (length costs) (length (hd costs))))
       (munkres_Solve (matrix_of costs))"

end
