(* ===== verification/ByteTrack.thy ===== *)
theory ByteTrack
  imports TrackerAdapter Munkres
begin

text \<open>
  \<open>third_party/algorithm/byteTrack/bytetrack\<close>: the tracker behind the adapter, that is \<open>ByteTracker\<close> (\<open>byte_track.cpp\<close>), a single
  \<open>Track\<close> (\<open>kalman_filter/track.cpp\<close>) and the assignment of detections to tracks (\<open>linear_assignment.cpp\<close>).

  The arithmetic of the Kalman filter, which is that of Eigen, is a parameter (\<open>byte_library\<close>); of a filter only the box, the first four
  numbers of its mean, is read here. The solver of the assignment problem is that of theory \<open>Munkres\<close>; where it does not return, the operations
  that use it are \<open>None\<close>.

  The compile-time switches are those of the headers: \<open>USE_XYAH\<close> is 0, \<open>USE_AGE\<close> is 1 and \<open>WITHOUT_CLASS_TYPE_LOCKED\<close> is defined, so the
  lock of the class and the headings of a track are never used. Only the overload of \<open>Process\<close> the adapter calls is modelled.
\<close>

section \<open>Data\<close>

record Bbox =
  bb_0 :: f32
  bb_1 :: f32
  bb_2 :: f32
  bb_3 :: f32

record 'k byte_library =
  kf_Initiate :: "Bbox \<Rightarrow> 'k"
  kf_Predict :: "'k \<Rightarrow> 'k"
  kf_Update :: "'k \<Rightarrow> Bbox \<Rightarrow> 'k"
  kf_box :: "'k \<Rightarrow> Bbox"

record s_MatchResult =
  mr_matches :: "(nat \<times> nat) list"
  mr_unmatched_tracks :: "nat list"
  mr_unmatched_detections :: "nat list"

datatype e_TrackObjectType = MOTOR | NON_MOTOR | OTHERS

definition JudgeObjectType :: "int \<Rightarrow> e_TrackObjectType" where
  "JudgeObjectType k = (if k < 3 then MOTOR else if k \<ge> 3 \<and> k < 5 then NON_MOTOR else OTHERS)"

definition dr_tlwh :: "DetectionRow \<Rightarrow> Bbox" where
  "dr_tlwh d = \<lparr>bb_0 = dr_left d, bb_1 = dr_top d, bb_2 = dr_width d, bb_3 = dr_height d\<rparr>"

definition ToCxcywh :: "DetectionRow \<Rightarrow> Bbox" where
  "ToCxcywh d = (dr_tlwh d)\<lparr>bb_0 := f32_add (dr_left d) (f32_mul (dr_width d) (Fin (1 / 2))),
     bb_1 := f32_add (dr_top d) (f32_mul (dr_height d) (Fin (1 / 2)))\<rparr>"

definition dr_ToCxymax :: "DetectionRow \<Rightarrow> Bbox" where
  "dr_ToCxymax d = (dr_tlwh d)\<lparr>bb_0 := f32_add (dr_left d) (f32_mul (dr_width d) (Fin (1 / 2))),
     bb_1 := f32_add (dr_top d) (dr_height d)\<rparr>"

section \<open>A track\<close>

datatype TrackState = Tentative | Confirmed | Deleted

definition TIME_SINCE_UPDATE :: int where "TIME_SINCE_UPDATE = 4"

definition MAX_TRACK_LIST_SIZE :: nat where "MAX_TRACK_LIST_SIZE = 20"

record 'k Track =
  tr_lastest_bbox_tlwh :: Bbox
  tr_filter :: 'k
  tr_type :: e_TrackObjectType
  tr_time_since_update :: int
  tr_track_id :: int
  tr_latest_detection :: DetectionRow
  tr_hits :: int
  tr_age :: u32
  tr_n_init :: int
  tr_max_age :: int
  tr_state :: TrackState
  tr_track_list :: "Bbox list"

definition new_Track :: "'k \<Rightarrow> int \<Rightarrow> int \<Rightarrow> int \<Rightarrow> DetectionRow \<Rightarrow> 'k Track" where
  "new_Track k track_id n_init max_age detection =
     \<lparr>tr_lastest_bbox_tlwh = dr_tlwh detection, tr_filter = k, tr_type = JudgeObjectType (dr_type detection),
      tr_time_since_update = 0, tr_track_id = track_id, tr_latest_detection = detection, tr_hits = 1, tr_age = 1,
      tr_n_init = n_init, tr_max_age = max_age, tr_state = Tentative, tr_track_list = []\<rparr>"

definition ToTlwh :: "'k byte_library \<Rightarrow> 'k Track \<Rightarrow> Bbox" where
  "ToTlwh lib t = (let b = kf_box lib (tr_filter t)
     in b\<lparr>bb_0 := f32_sub (bb_0 b) (f32_div_const (bb_2 b) 2), bb_1 := f32_sub (bb_1 b) (f32_div_const (bb_3 b) 2)\<rparr>)"

definition tr_ToCxymax :: "'k byte_library \<Rightarrow> 'k Track \<Rightarrow> Bbox" where
  "tr_ToCxymax lib t = (let b = kf_box lib (tr_filter t) in b\<lparr>bb_1 := f32_add (bb_1 b) (f32_div_const (bb_3 b) 2)\<rparr>)"

text \<open>A filtered box with a number that is not positive ends the track.\<close>

definition tr_Predict :: "'k byte_library \<Rightarrow> 'k Track \<Rightarrow> 'k Track" where
  "tr_Predict lib t =
     (let t1 = t\<lparr>tr_filter := kf_Predict lib (tr_filter t), tr_age := tr_age t + 1,
                 tr_time_since_update := tr_time_since_update t + 1\<rparr>;
          b = tr_ToCxymax lib t1
      in if f32_ge (Fin 0) (bb_0 b) \<or> f32_ge (Fin 0) (bb_1 b) \<or> f32_ge (Fin 0) (bb_2 b) \<or> f32_ge (Fin 0) (bb_3 b)
         then t1\<lparr>tr_state := Deleted\<rparr>
         else let trace = (if tr_state t1 = Tentative then tr_track_list t1 @ [b] else tr_track_list t1)
              in t1\<lparr>tr_track_list := if length trace > MAX_TRACK_LIST_SIZE then tl trace else trace\<rparr>)"

definition tr_Update :: "'k byte_library \<Rightarrow> DetectionRow \<Rightarrow> 'k Track \<Rightarrow> 'k Track" where
  "tr_Update lib detection t =
     (let t1 = t\<lparr>tr_filter := kf_Update lib (tr_filter t) (ToCxcywh detection), tr_hits := tr_hits t + 1,
                 tr_time_since_update := 0, tr_latest_detection := detection,
                 tr_type := JudgeObjectType (dr_type detection)\<rparr>
      in if tr_state t1 = Tentative \<and> tr_hits t1 \<ge> tr_n_init t1 then t1\<lparr>tr_state := Confirmed\<rparr> else t1)"

definition MarkMissed :: "'k Track \<Rightarrow> 'k Track" where
  "MarkMissed t =
     (if tr_state t = Tentative then t\<lparr>tr_state := Deleted\<rparr>
      else if tr_time_since_update t \<ge> tr_max_age t then t\<lparr>tr_state := Deleted\<rparr> else t)"

definition IsConfirmed :: "'k Track \<Rightarrow> bool" where
  "IsConfirmed t \<longleftrightarrow> tr_state t = Confirmed"

definition IsDeleted :: "'k Track \<Rightarrow> bool" where
  "IsDeleted t \<longleftrightarrow> tr_state t = Deleted"

definition InitTrackNode :: "'k byte_library \<Rightarrow> 'k Track \<Rightarrow> TrackNode \<Rightarrow> 'k Track \<times> TrackNode" where
  "InitTrackNode lib t obj =
     (let stale = tr_time_since_update t \<ge> TIME_SINCE_UPDATE;
          b = (if stale then tr_ToCxymax lib t else dr_ToCxymax (tr_latest_detection t))
      in (t\<lparr>tr_lastest_bbox_tlwh := (if stale then ToTlwh lib t else dr_tlwh (tr_latest_detection t))\<rparr>,
          obj\<lparr>tn_id := word_of_int (tr_track_id t), tn_type := dr_type (tr_latest_detection t),
              tn_cx := bb_0 b, tn_ymax := bb_1 b, tn_w := bb_2 b, tn_h := bb_3 b\<rparr>))"

section \<open>Assignment\<close>

text \<open>
  The quotient of two floats. A zero divisor is taken as positive: in \<open>CalculateIou\<close> the divisor is zero with a positive dividend only as
  the difference of equal numbers, which is the positive zero.
\<close>

definition f32_div :: "f32 \<Rightarrow> f32 \<Rightarrow> f32" where
  "f32_div x y =
     (if x = NaN \<or> y = NaN then NaN
      else if y = Fin 0 then (if x = Fin 0 then NaN else if f32_less x (Fin 0) then NInf else PInf)
      else if f32_less (Fin 0) y then f32_div_pos x y else f32_div_pos (f32_neg x) (f32_neg y))"

definition CalculateIou :: "Bbox \<Rightarrow> Bbox \<Rightarrow> f32" where
  "CalculateIou bbox cand =
     (let tl_1 = f32_max (bb_0 bbox) (bb_0 cand);
          tl_2 = f32_max (bb_1 bbox) (bb_1 cand);
          br_1 = f32_min (f32_add (bb_0 bbox) (bb_2 bbox)) (f32_add (bb_2 cand) (bb_0 cand));
          br_2 = f32_min (f32_add (bb_1 bbox) (bb_3 bbox)) (f32_add (bb_3 cand) (bb_1 cand));
          w = f32_sub br_1 tl_1;
          h = f32_sub br_2 tl_2;
          area_intersection = f32_mul (if f32_less w (Fin 0) then Fin 0 else w) (if f32_less h (Fin 0) then Fin 0 else h)
      in f32_div area_intersection
           (f32_sub (f32_add (f32_mul (bb_2 bbox) (bb_3 bbox)) (f32_mul (bb_2 cand) (bb_3 cand))) area_intersection))"

definition CalculateIouCostMatrix :: "'k Track list \<Rightarrow> DetectionRow list \<Rightarrow> nat list \<Rightarrow> nat list \<Rightarrow> f32 list list" where
  "CalculateIouCostMatrix tracks dets track_indices detection_indices =
     map (\<lambda>t. map (\<lambda>d. f32_sub (Fin 1) (CalculateIou (tr_lastest_bbox_tlwh (tracks ! t)) (dr_tlwh (dets ! d)))) detection_indices)
       track_indices"

text \<open>\<open>max_distance + 1e-5\<close>: a sum of doubles that becomes a float when it is stored.\<close>

fun gated :: "f32 \<Rightarrow> f32" where
  "gated (Fin m) = rnd32 (rnd64 (m + rnd64 (1 / 100000)))"
| "gated x = x"

definition gate_costs ::
  "f32 \<Rightarrow> 'k Track list \<Rightarrow> DetectionRow list \<Rightarrow> nat list \<Rightarrow> nat list \<Rightarrow> f32 list list \<Rightarrow> f32 list list"
where
  "gate_costs max_distance tracks detections track_indices detection_indices costs =
     map (\<lambda>(t, row). map (\<lambda>(d, tmp).
         if f32_less max_distance tmp \<or> tr_type (tracks ! t) \<noteq> JudgeObjectType (dr_type (detections ! d))
         then gated max_distance else tmp) (zip detection_indices row)) (zip track_indices costs)"

text \<open>What the pairs of the solver mean: a pair whose cost is over the limit is none, its track and its detection stay unmatched.\<close>

definition matching_result :: "f32 \<Rightarrow> f32 list list \<Rightarrow> nat list \<Rightarrow> nat list \<Rightarrow> (nat \<times> nat) list \<Rightarrow> s_MatchResult" where
  "matching_result max_distance costs track_indices detection_indices indices =
     (let costly = filter (\<lambda>(row, col). f32_less max_distance (costs ! row ! col)) indices
      in \<lparr>mr_matches = map (\<lambda>(row, col). (track_indices ! row, detection_indices ! col))
            (filter (\<lambda>(row, col). \<not> f32_less max_distance (costs ! row ! col)) indices),
          mr_unmatched_tracks =
            map ((!) track_indices) (filter (\<lambda>row. row \<notin> fst ` set indices) [0..<length track_indices]) @
            map (\<lambda>(row, col). track_indices ! row) costly,
          mr_unmatched_detections =
            map ((!) detection_indices) (filter (\<lambda>col. col \<notin> snd ` set indices) [0..<length detection_indices]) @
            map (\<lambda>(row, col). detection_indices ! col) costly\<rparr>)"

definition DoMinCostMatching ::
  "f32 \<Rightarrow> 'k Track list \<Rightarrow> DetectionRow list \<Rightarrow> nat list \<Rightarrow> nat list \<Rightarrow> s_MatchResult option"
where
  "DoMinCostMatching max_distance tracks detections track_indices detection_indices =
     (if detection_indices = [] \<or> track_indices = []
      then Some \<lparr>mr_matches = [], mr_unmatched_tracks = track_indices, mr_unmatched_detections = detection_indices\<rparr>
      else let costs = gate_costs max_distance tracks detections track_indices detection_indices
                 (CalculateIouCostMatrix tracks detections track_indices detection_indices)
           in map_option (matching_result max_distance costs track_indices detection_indices) (HungarianOper_Solve costs))"

section \<open>The tracker\<close>

definition MAX_OBJECT_ID :: u32 where "MAX_OBJECT_ID = 65533"

record 'k ByteTracker =
  bt_params :: byte_tracker_params
  bt_next_idx :: u32
  bt_tracks :: "'k Track list"

definition bt_new :: "byte_tracker_params \<Rightarrow> 'k ByteTracker" where
  "bt_new params = \<lparr>bt_params = params, bt_next_idx = 1, bt_tracks = []\<rparr>"

definition bt_Release :: "'k ByteTracker \<Rightarrow> 'k ByteTracker" where
  "bt_Release b = b\<lparr>bt_next_idx := 1, bt_tracks := []\<rparr>"

definition bt_Predict :: "'k byte_library \<Rightarrow> 'k ByteTracker \<Rightarrow> 'k ByteTracker" where
  "bt_Predict lib b = b\<lparr>bt_tracks := map (tr_Predict lib) (bt_tracks b)\<rparr>"

text \<open>
  The detections of high confidence are offered to all tracks, the others only to the confirmed tracks that got none; of the
  detections left over only those of high confidence are kept.
\<close>

definition bt_Match :: "DetectionRow list \<Rightarrow> 'k ByteTracker \<Rightarrow> s_MatchResult option" where
  "bt_Match detections b =
     (let high = filter (\<lambda>i. f32_ge (dr_confidence (detections ! i)) (bp_min_thresh (bt_params b))) [0..<length detections];
          low = filter (\<lambda>i. \<not> f32_ge (dr_confidence (detections ! i)) (bp_min_thresh (bt_params b))) [0..<length detections];
          candidates = filter (\<lambda>i. \<not> IsDeleted (bt_tracks b ! i)) [0..<length (bt_tracks b)]
      in case DoMinCostMatching (bp_max_iou_distance (bt_params b)) (bt_tracks b) detections candidates high of
           None \<Rightarrow> None
         | Some matcha \<Rightarrow>
             map_option (\<lambda>matchb.
                 \<lparr>mr_matches = mr_matches matcha @ mr_matches matchb,
                  mr_unmatched_tracks =
                    filter (\<lambda>i. \<not> IsConfirmed (bt_tracks b ! i)) (mr_unmatched_tracks matcha) @ mr_unmatched_tracks matchb,
                  mr_unmatched_detections = mr_unmatched_detections matcha\<rparr>)
               (DoMinCostMatching (bp_max_iou_distance (bt_params b)) (bt_tracks b) detections
                  (filter (\<lambda>i. IsConfirmed (bt_tracks b ! i)) (mr_unmatched_tracks matcha)) low))"

definition bt_InitTrack :: "'k byte_library \<Rightarrow> DetectionRow \<Rightarrow> 'k ByteTracker \<Rightarrow> 'k ByteTracker" where
  "bt_InitTrack lib detection b =
     b\<lparr>bt_tracks := bt_tracks b @ [new_Track (kf_Initiate lib (ToCxcywh detection)) (sint (bt_next_idx b))
         (bp_n_init (bt_params b)) (bp_max_age (bt_params b)) detection],
       bt_next_idx := bt_next_idx b mod MAX_OBJECT_ID + 1\<rparr>"

definition is_init :: "byte_tracker_params \<Rightarrow> DetectionRow \<Rightarrow> bool" where
  "is_init params d =
     (if dr_type d = 3 then f32_ge (dr_confidence d) (bp_high_thresh_person params)
      else if dr_type d = 4 \<or> dr_type d = 5 then f32_ge (dr_confidence d) (bp_high_thresh_motorbike params)
      else f32_ge (dr_confidence d) (bp_high_thresh params))"

definition mark_deleted :: "int \<Rightarrow> TrackNode list \<Rightarrow> TrackNode list" where
  "mark_deleted i tracklist = map (\<lambda>n. if sint (tn_id n) = i then n\<lparr>tn_deleted := True\<rparr> else n) tracklist"

text \<open>The rest of \<open>Update\<close> after the matching.\<close>

definition apply_matches ::
  "'k byte_library \<Rightarrow> DetectionRow list \<Rightarrow> s_MatchResult \<Rightarrow> 'k ByteTracker \<times> TrackNode list \<Rightarrow> 'k ByteTracker \<times> TrackNode list"
where
  "apply_matches lib detections res = (\<lambda>(b, tracklist).
     let matched = fold (\<lambda>(t, d) ts. ts[t := tr_Update lib (detections ! d) (ts ! t)]) (mr_matches res) (bt_tracks b);
         missed = fold (\<lambda>t ts. ts[t := MarkMissed (ts ! t)]) (mr_unmatched_tracks res) matched;
         b' = fold (\<lambda>d b. if is_init (bt_params b) (detections ! d) then bt_InitTrack lib (detections ! d) b else b)
           (mr_unmatched_detections res) (b\<lparr>bt_tracks := missed\<rparr>)
     in (b'\<lparr>bt_tracks := filter (\<lambda>t. \<not> IsDeleted t) (bt_tracks b')\<rparr>,
         fold (\<lambda>t. mark_deleted (tr_track_id t)) (filter IsDeleted (bt_tracks b')) tracklist))"

definition bt_Update ::
  "'k byte_library \<Rightarrow> DetectionRow list \<Rightarrow> 'k ByteTracker \<times> TrackNode list \<Rightarrow> ('k ByteTracker \<times> TrackNode list) option"
where
  "bt_Update lib detections s = map_option (\<lambda>res. apply_matches lib detections res s) (bt_Match detections (fst s))"

text \<open>Apply a function to the first entry of the list with an id, if there is one.\<close>

fun change_first :: "int \<Rightarrow> (TrackNode \<Rightarrow> TrackNode) \<Rightarrow> TrackNode list \<Rightarrow> TrackNode list option" where
  "change_first i f [] = None"
| "change_first i f (n # ns) = (if sint (tn_id n) = i then Some (f n # ns) else map_option ((#) n) (change_first i f ns))"

definition new_TrackNode :: TrackNode where
  "new_TrackNode = \<lparr>tn_cx = Fin 0, tn_ymax = Fin 0, tn_w = Fin 0, tn_h = Fin 0, tn_type = 0, tn_id = -1, tn_deleted = False\<rparr>"

definition report_track :: "'k byte_library \<Rightarrow> 'k Track \<Rightarrow> TrackNode list \<Rightarrow> 'k Track \<times> TrackNode list" where
  "report_track lib t tracklist =
     (if \<not> IsConfirmed t then (t, tracklist)
      else if tr_time_since_update t \<ge> TIME_SINCE_UPDATE
      then (t, case change_first (tr_track_id t) (\<lambda>n. n\<lparr>tn_deleted := True\<rparr>) tracklist of None \<Rightarrow> tracklist | Some l \<Rightarrow> l)
      else case change_first (tr_track_id t) (\<lambda>n. snd (InitTrackNode lib t n)) tracklist of
             Some l \<Rightarrow> (fst (InitTrackNode lib t new_TrackNode), l)
           | None \<Rightarrow> (case InitTrackNode lib t new_TrackNode of (t', obj) \<Rightarrow> (t', tracklist @ [obj])))"

fun report_tracks :: "'k byte_library \<Rightarrow> 'k Track list \<Rightarrow> TrackNode list \<Rightarrow> 'k Track list \<times> TrackNode list" where
  "report_tracks lib [] tracklist = ([], tracklist)"
| "report_tracks lib (t # ts) tracklist =
     (case report_track lib t tracklist of (t', l) \<Rightarrow> (case report_tracks lib ts l of (ts', l') \<Rightarrow> (t' # ts', l')))"

definition bt_Process ::
  "'k byte_library \<Rightarrow> 'k ByteTracker \<Rightarrow> DetectionRow list \<Rightarrow> u64 \<Rightarrow> TrackNode list \<Rightarrow> ('k ByteTracker \<times> TrackNode list) option"
where
  "bt_Process lib b detections timestamp tracklist =
     map_option (\<lambda>(b', l). case report_tracks lib (bt_tracks b') l of (ts, l') \<Rightarrow> (b'\<lparr>bt_tracks := ts\<rparr>, l'))
       (bt_Update lib detections (bt_Predict lib b, tracklist))"

text \<open>The tracker as the adapter uses it.\<close>

definition byte_tracker_of ::
  "'k byte_library \<Rightarrow> (TrackerMatchCandidate list \<Rightarrow> TrackerMatchCandidate list) \<Rightarrow> 'k ByteTracker byte_tracker"
where
  "byte_tracker_of lib sort_candidates =
     \<lparr>by_new = bt_new, by_Process = bt_Process lib, by_Release = bt_Release, by_sort = sort_candidates\<rparr>"

end
