(* ===== verification/MunkresProofs.thy ===== *)
theory MunkresProofs
  imports Munkres
begin

text \<open>
  The assignment solver. The stars always form a matching: no two in a row, no two in a column; the alternating sequence of step 4 turns a matching
  into one with one more star (\<open>turned_sequence\<close>). So whatever matrix goes in, a result is a complete matching (\<open>munkres_matching\<close>). For costs
  that are not negative and below the constant \<open>100000\<close> of step 5 the loop ends (\<open>munkres_terminates\<close>), with the rounding of the double-precision
  arithmetic taken into account.
\<close>

section \<open>Stars, primes and matchings\<close>

definition marked :: "mark \<Rightarrow> nat \<Rightarrow> mark Matrix \<Rightarrow> (nat \<times> nat) set" where
  "marked x n marks = {(r, c). r < n \<and> c < n \<and> m_at marks r c = x}"

definition matching :: "(nat \<times> nat) set \<Rightarrow> bool" where
  "matching S \<longleftrightarrow> inj_on fst S \<and> inj_on snd S"

text \<open>Primes, the latest first: the star in the column of a prime is in the row of an earlier prime.\<close>

primrec chained :: "(nat \<times> nat) set \<Rightarrow> (nat \<times> nat) list \<Rightarrow> bool" where
  "chained S [] \<longleftrightarrow> True"
| "chained S (p # ps) \<longleftrightarrow> (\<forall>r. (r, snd p) \<in> S \<longrightarrow> r \<in> fst ` set ps) \<and> chained S ps"

lemma chained_append: "chained S (xs @ ys) \<Longrightarrow> chained S ys"
  by (induction xs) simp_all

lemma in_marked: "(r, c) \<in> marked x n marks \<longleftrightarrow> r < n \<and> c < n \<and> m_at marks r c = x"
  by (simp add: marked_def)

lemma finite_marked [simp]: "finite (marked x n marks)"
  by (rule finite_subset [of _ "{..<n} \<times> {..<n}"]) (auto simp: marked_def)

lemma marked_disjoint: "x \<noteq> y \<Longrightarrow> marked x n marks \<inter> marked y n marks = {}"
  by (auto simp: marked_def)

lemma matching_row: "matching S \<Longrightarrow> (r, c) \<in> S \<Longrightarrow> (r, c') \<in> S \<Longrightarrow> c = c'"
  unfolding matching_def inj_on_def by fastforce

lemma matching_column: "matching S \<Longrightarrow> (r, c) \<in> S \<Longrightarrow> (r', c) \<in> S \<Longrightarrow> r = r'"
  unfolding matching_def inj_on_def by fastforce

lemma matching_card:
  assumes "matching (marked x n marks)"
  shows "card (marked x n marks) \<le> n"
proof -
  have "fst ` marked x n marks \<subseteq> {..<n}" by (auto simp: marked_def)
  then have "card (fst ` marked x n marks) \<le> n" using card_mono [of "{..<n}"] by fastforce
  then show ?thesis using assms by (simp add: matching_def card_image)
qed

section \<open>The alternating sequence\<close>

text \<open>
  The state of the search: \<open>T\<close> is the matching with the sequence turned so far. It has one star too many in the column of the last prime of the
  sequence, \<open>(r, col)\<close>; the older primes are in \<open>older\<close>.
\<close>

definition turned_set :: "(nat \<times> nat) set \<Rightarrow> (nat \<times> nat) set \<Rightarrow> (nat \<times> nat) list \<Rightarrow> (nat \<times> nat) set" where
  "turned_set S P sequence = (S - set sequence) \<union> (P \<inter> set sequence)"

definition turning ::
  "(nat \<times> nat) set \<Rightarrow> (nat \<times> nat) list \<Rightarrow> (nat \<times> nat) list \<Rightarrow> nat \<Rightarrow> nat \<Rightarrow> (nat \<times> nat) list \<Rightarrow> (nat \<times> nat) set \<Rightarrow> bool" where
  "turning S newer older r col sequence T \<longleftrightarrow>
     distinct sequence \<and> (r, col) \<in> T \<and> (r, col) \<in> set sequence \<and> inj_on fst T \<and> inj_on snd (T - {(r, col)}) \<and> card T = Suc (card S) \<and>
     set sequence \<subseteq> S \<union> set (newer @ (r, col) # older) \<and>
     fst ` set sequence \<subseteq> fst ` set (newer @ [(r, col)]) \<and>
     fst ` S \<subseteq> fst ` T \<and> snd ` S \<subseteq> snd ` T \<and>
     (\<forall>x c. (x, c) \<in> T - {(r, col)} \<longrightarrow> (x, c) \<in> S \<or> (\<exists>x'. (x', c) \<in> S \<inter> set sequence))"

lemmas turningD = turning_def [THEN iffD1]

text \<open>One turn: the star \<open>(r1, col)\<close> goes, the prime \<open>(r1, c1)\<close> of its row comes.\<close>

lemma turning_step:
  assumes T: "turning S newer (mid @ (r1, c1) # older) r col sequence T"
    and star: "(r1, col) \<in> S" "(r1, col) \<in> T" "(r1, col) \<notin> set sequence" "(r1, c1) \<notin> set sequence" "(r1, col) \<noteq> (r1, c1)"
    and fin: "finite T" and r: "r \<noteq> r1"
  shows "turning S (newer @ (r, col) # mid) older r1 c1 (sequence @ [(r1, col), (r1, c1)]) (insert (r1, c1) (T - {(r1, col)}))"
proof -
  have dist: "distinct sequence" and cur: "(r, col) \<in> T" and rows: "inj_on fst T" and cols: "inj_on snd (T - {(r, col)})"
    and num: "card T = Suc (card S)" and sub: "set sequence \<subseteq> S \<union> set (newer @ (r, col) # mid @ (r1, c1) # older)"
    and fsts: "fst ` set sequence \<subseteq> fst ` set (newer @ [(r, col)])" and S_T: "fst ` S \<subseteq> fst ` T" "snd ` S \<subseteq> snd ` T"
    and col_star: "\<forall>x c. (x, c) \<in> T - {(r, col)} \<longrightarrow> (x, c) \<in> S \<or> (\<exists>x'. (x', c) \<in> S \<inter> set sequence)"
    using turningD [OF T] by (iprover elim: conjE)+
  have fst_T: "c = col" if "(r1, c) \<in> T" for c using inj_onD [OF rows _ that star(2)] by simp
  let ?T = "insert (r1, c1) (T - {(r1, col)})"
  have new: "(r1, c1) \<notin> T" using fst_T star(5) by blast
  have A: "inj_on fst ?T" 
  proof (rule inj_onI)
    fix p q assume "p \<in> ?T" "q \<in> ?T" "fst p = fst q"
    moreover have "fst x \<noteq> r1" if "x \<in> T - {(r1, col)}" for x
      using that fst_T [of "snd x"] by (metis DiffE prod.collapse singletonI)
    ultimately show "p = q" using inj_onD [OF rows, of p q] by (metis DiffD1 fst_conv insertE)
  qed
  have "?T - {(r1, c1)} = T - {(r1, col)}" using new star(5) by blast
  moreover have "inj_on snd (T - {(r1, col)})"
  proof (rule inj_onI)
    have only: "p = (r1, col)" if "p \<in> T" "p \<noteq> (r, col)" "snd p = col" for p
      using inj_onD [OF cols, of p "(r1, col)"] that star(2) r by simp
    fix p q assume p: "p \<in> T - {(r1, col)}" and q: "q \<in> T - {(r1, col)}" and eq: "snd p = snd q"
    show "p = q"
    proof (cases "p = (r, col) \<or> q = (r, col)")
      case True
      then show ?thesis using only [of p] only [of q] p q eq by (metis DiffD1 DiffD2 singletonI snd_conv)
    next
      case False
      then show ?thesis using inj_onD [OF cols, of p q] p q eq by blast
    qed
  qed
  ultimately have B: "inj_on snd (?T - {(r1, c1)})" by simp
  have C: "card ?T = Suc (card S)" using num new card_Suc_Diff1 [OF fin star(2)] fin by simp
  have D: "fst ` S \<subseteq> fst ` ?T"
  proof
    fix x assume "x \<in> fst ` S"
    then have "x \<in> fst ` T" using S_T(1) by (rule rev_subsetD)
    then obtain c where c: "(x, c) \<in> T" by auto
    show "x \<in> fst ` ?T"
    proof (cases "x = r1")
      case False
      then have "(x, c) \<in> ?T" using c by blast
      then show ?thesis by (metis fst_conv image_eqI)
    qed auto
  qed
  have E: "snd ` S \<subseteq> snd ` ?T"
  proof
    fix c assume "c \<in> snd ` S"
    then have "c \<in> snd ` T" using S_T(2) by (rule rev_subsetD)
    then obtain x where x: "(x, c) \<in> T" by auto
    show "c \<in> snd ` ?T"
    proof (cases "(x, c) = (r1, col)")
      case True
      have "(r, col) \<in> ?T" using cur r by blast
      then show ?thesis using True by (metis image_eqI prod.inject snd_conv)
    next
      case False
      then have "(x, c) \<in> ?T" using x by blast
      then show ?thesis by (metis snd_conv image_eqI)
    qed
  qed
  have F: "(x, c) \<in> S \<or> (\<exists>x'. (x', c) \<in> S \<inter> set (sequence @ [(r1, col), (r1, c1)]))" if xc: "(x, c) \<in> ?T - {(r1, c1)}" for x c
  proof (cases "(x, c) = (r, col)")
    case True
    then show ?thesis using star(1) by auto
  next
    case False
    then have "(x, c) \<in> T - {(r, col)}" using xc by blast
    with col_star have "(x, c) \<in> S \<or> (\<exists>x'. (x', c) \<in> S \<inter> set sequence)" by blast
    then show ?thesis by auto
  qed
  have G: "distinct (sequence @ [(r1, col), (r1, c1)])" using dist star by simp
  have H: "set (sequence @ [(r1, col), (r1, c1)]) \<subseteq> S \<union> set ((newer @ (r, col) # mid) @ (r1, c1) # older)"
    using sub star(1) by simp
  have I: "fst ` set (sequence @ [(r1, col), (r1, c1)]) \<subseteq> fst ` set ((newer @ (r, col) # mid) @ [(r1, c1)])"
    using fsts by auto
  have J: "(r1, c1) \<in> ?T" "(r1, c1) \<in> set (sequence @ [(r1, col), (r1, c1)])" by simp_all
  show ?thesis unfolding turning_def by (intro conjI allI impI G J A B C H I D E) (rule F)
qed

text \<open>The turns together: what the sequence leaves is a matching with one more star, and no row or column loses its star.\<close>

definition augmented :: "(nat \<times> nat) set \<Rightarrow> (nat \<times> nat) set \<Rightarrow> bool" where
  "augmented S T \<longleftrightarrow> matching T \<and> card T = Suc (card S) \<and> fst ` S \<subseteq> fst ` T \<and> snd ` S \<subseteq> snd ` T"

lemma turning_augmented:
  assumes T: "turning S newer older r col sequence T" and open_column: "\<forall>x. (x, col) \<notin> S"
  shows "augmented S T"
proof -
  have cur: "(r, col) \<in> T" and rows: "inj_on fst T" and cols: "inj_on snd (T - {(r, col)})"
    and rest: "card T = Suc (card S)" "fst ` S \<subseteq> fst ` T" "snd ` S \<subseteq> snd ` T"
    and col_star: "\<forall>x c. (x, c) \<in> T - {(r, col)} \<longrightarrow> (x, c) \<in> S \<or> (\<exists>x'. (x', c) \<in> S \<inter> set sequence)"
    using turningD [OF T] by (iprover elim: conjE)+
  have "(x, col) \<notin> T - {(r, col)}" for x using col_star open_column by blast
  then have "snd (r, col) \<notin> snd ` (T - {(r, col)})" by auto
  then have "inj_on snd (insert (r, col) (T - {(r, col)}))" unfolding inj_on_insert Diff_idemp using cols by blast
  moreover have "insert (r, col) (T - {(r, col)}) = T" using cur by blast
  ultimately show ?thesis using rows rest by (simp add: augmented_def matching_def)
qed

lemma turned_set_step:
  assumes "q \<in> P" "q \<notin> S" "p \<in> S" "p \<notin> P"
  shows "turned_set S P (sequence @ [p, q]) = insert q (turned_set S P sequence - {p})"
proof (rule set_eqI)
  fix x show "x \<in> turned_set S P (sequence @ [p, q]) \<longleftrightarrow> x \<in> insert q (turned_set S P sequence - {p})"
    using assms by (cases "x = p"; cases "x = q") (simp_all add: turned_set_def)
qed

lemma alternating_augments:
  assumes marks: "m_rows marks = n" "m_columns marks = n" "marked PRIME n marks = set ps" "matching (marked STAR n marks)"
    and ps: "distinct (map fst ps)" "ps = newer @ (r, col) # older" "chained (marked STAR n marks) ((r, col) # older)"
    and turning: "turning (marked STAR n marks) newer older r col sequence (turned_set (marked STAR n marks) (set ps) sequence)"
  shows "distinct (alternating_sequence marks sequence col) \<and>
    set (alternating_sequence marks sequence col) \<subseteq> marked STAR n marks \<union> set ps \<and>
    augmented (marked STAR n marks) (turned_set (marked STAR n marks) (set ps) (alternating_sequence marks sequence col))"
  using ps turning
proof (induction "length older" arbitrary: newer r col older sequence rule: less_induct)
  case less
  define S where "S = marked STAR n marks"
  note ps = less.prems(1,2) and chain = less.prems(3) [folded S_def] and turning = less.prems(4) [folded S_def]
  have disjoint: "S \<inter> set ps = {}" unfolding S_def marks(3) [symmetric] by (rule marked_disjoint) simp
  have dist: "distinct sequence" and sub: "set sequence \<subseteq> S \<union> set ps" and fsts: "fst ` set sequence \<subseteq> fst ` set (newer @ [(r, col)])"
    using turningD [OF turning] unfolding ps(2) by (iprover elim: conjE)+
  have apart: "x \<notin> fst ` set older" if "x \<in> fst ` set (newer @ [(r, col)])" for x
    using ps(1) that unfolding ps(2) by auto
  have older: "x \<in> fst ` set older" if "(x, col) \<in> S" for x using chain that by simp
  note unfold = alternating_sequence.simps [of marks sequence col]
  show ?case
  proof (cases "find (\<lambda>row. m_at marks row col = STAR \<and> (row, col) \<notin> set sequence) [0..<m_rows marks]")
    case None
    have "(x, col) \<notin> S" for x
    proof
      assume x: "(x, col) \<in> S"
      then have "x < n" "m_at marks x col = STAR" by (simp_all add: S_def in_marked)
      then have "(x, col) \<in> set sequence" using None marks(1) by (auto simp: find_None_iff)
      then have "x \<in> fst ` set sequence" by force
      then have "x \<in> fst ` set (newer @ [(r, col)])" using fsts by blast
      then show False using apart older [OF x] by blast
    qed
    then have "augmented S (turned_set S (set ps) sequence)" using turning_augmented [OF turning] by blast
    moreover have "alternating_sequence marks sequence col = sequence" by (simp add: unfold None)
    ultimately show ?thesis using dist sub by (simp add: S_def)
  next
    case (Some r1)
    from find_SomeD [OF Some] have r1: "r1 < n" "m_at marks r1 col = STAR" and new: "(r1, col) \<notin> set sequence" by (simp_all add: marks(1))
    have "col < n" using marks(3) unfolding ps(2) by (auto simp: marked_def)
    then have star: "(r1, col) \<in> S" using r1 by (simp add: S_def in_marked)
    from older [OF star] obtain c1 where "(r1, c1) \<in> set older" by auto
    then obtain mid older' where split: "older = mid @ (r1, c1) # older'" by (meson split_list)
    have prime: "(r1, c1) \<in> set ps" unfolding ps(2) split by simp
    have away: "r1 \<notin> fst ` set sequence" using fsts apart older [OF star] by blast
    have mark: "c1 < n" "m_at marks r1 c1 = PRIME" using prime marks(3) by (auto simp: marked_def)
    let ?Q = "\<lambda>c. m_at marks r1 c = PRIME \<and> (r1, c) \<notin> set (sequence @ [(r1, col)])"
    have Q: "?Q c1" using mark away r1(2) by force
    have "find ?Q [0..<m_columns marks] = Some c1"
    proof (cases "find ?Q [0..<m_columns marks]")
      case None
      then show ?thesis using Q mark marks(2) by (auto simp: find_None_iff)
    next
      case (Some c)
      from find_SomeD [OF Some] have "c < n" "m_at marks r1 c = PRIME" by (simp_all add: marks(2))
      then have "(r1, c) \<in> set ps" using r1(1) marks(3) in_marked by blast
      then have "c = c1" using prime eq_key_imp_eq_value [OF ps(1)] by blast
      with Some show ?thesis by simp
    qed
    with Some have next_turn: "alternating_sequence marks sequence col = alternating_sequence marks (sequence @ [(r1, col), (r1, c1)]) c1"
      by (subst unfold) simp
    have not_star: "(r1, c1) \<notin> S" "(r1, col) \<notin> set ps" using disjoint prime star by blast+
    have "finite (turned_set S (set ps) sequence)" by (simp add: turned_set_def S_def)
    moreover have "(r1, col) \<in> turned_set S (set ps) sequence" using star new by (simp add: turned_set_def)
    moreover have "r \<noteq> r1" using apart [of r] older [OF star] by auto
    moreover have "(r1, c1) \<notin> set sequence" using away by force
    moreover have "(r1, col) \<noteq> (r1, c1)" using not_star star by blast
    ultimately have "turning S (newer @ (r, col) # mid) older' r1 c1 (sequence @ [(r1, col), (r1, c1)])
        (insert (r1, c1) (turned_set S (set ps) sequence - {(r1, col)}))"
      using turning star new unfolding split by (intro turning_step)
    then have turning': "turning S (newer @ (r, col) # mid) older' r1 c1 (sequence @ [(r1, col), (r1, c1)])
        (turned_set S (set ps) (sequence @ [(r1, col), (r1, c1)]))"
      using turned_set_step [OF prime not_star(1) star not_star(2)] by simp
    have "chained S ((r1, c1) # older')"
      by (rule chained_append [of S "(r, col) # mid"]) (use chain split in simp)
    moreover have "ps = (newer @ (r, col) # mid) @ (r1, c1) # older'" using ps(2) split by simp
    moreover have "length older' < length older" by (simp add: split)
    ultimately show ?thesis unfolding next_turn using less.hyps ps(1) turning' unfolding S_def by blast
  qed
qed

section \<open>Marks after a step\<close>

lemma set_mark_simps [simp]:
  "m_rows (set_mark r c x marks) = m_rows marks" "m_columns (set_mark r c x marks) = m_columns marks"
  "m_at (set_mark r c x marks) i j = (if i = r \<and> j = c then x else m_at marks i j)"
  by (simp_all add: set_mark_def)

lemma marked_set_mark:
  "r < n \<Longrightarrow> c < n \<Longrightarrow> marked x n (set_mark r c x marks) = insert (r, c) (marked x n marks)"
  "y \<noteq> x \<Longrightarrow> marked y n (set_mark r c x marks) = marked y n marks - {(r, c)}"
  by (auto simp: marked_def)

lemma matching_insert: "matching S \<Longrightarrow> r \<notin> fst ` S \<Longrightarrow> c \<notin> snd ` S \<Longrightarrow> matching (insert (r, c) S)"
  unfolding matching_def by (auto simp: inj_on_insert)

lemma fold_turn_pair:
  "distinct sequence \<Longrightarrow> m_rows (fold turn_pair sequence marks) = m_rows marks \<and>
    m_columns (fold turn_pair sequence marks) = m_columns marks \<and>
    m_at (fold turn_pair sequence marks) r c = (if (r, c) \<in> set sequence then turned (m_at marks r c) else m_at marks r c)"
  by (induction sequence arbitrary: marks) (auto simp: turn_pair_def)

lemma turned_STAR [simp]: "turned x = STAR \<longleftrightarrow> x = PRIME"
  by (cases x) simp_all

lemma marked_turned:
  assumes "distinct sequence" "set sequence \<subseteq> marked STAR n marks \<union> marked PRIME n marks"
  shows "marked STAR n (erase_primes (fold turn_pair sequence marks)) =
      turned_set (marked STAR n marks) (marked PRIME n marks) sequence"
    and "marked PRIME n (erase_primes (fold turn_pair sequence marks)) = {}"
proof -
  have "m_at (erase_primes (fold turn_pair sequence marks)) r c = STAR \<longleftrightarrow>
      (if (r, c) \<in> set sequence then m_at marks r c = PRIME else m_at marks r c = STAR)" for r c
    using fold_turn_pair [OF assms(1), of marks r c] by (simp add: erase_primes_def)
  then show "marked STAR n (erase_primes (fold turn_pair sequence marks)) =
      turned_set (marked STAR n marks) (marked PRIME n marks) sequence"
    by (auto simp: marked_def turned_set_def)
  show "marked PRIME n (erase_primes (fold turn_pair sequence marks)) = {}"
    by (auto simp: marked_def erase_primes_def)
qed

section \<open>The invariant of the marks\<close>

abbreviation stars :: "nat \<Rightarrow> Munkres \<Rightarrow> (nat \<times> nat) set" where
  "stars n s \<equiv> marked STAR n (mu_mask s)"

abbreviation primes :: "nat \<Rightarrow> Munkres \<Rightarrow> (nat \<times> nat) set" where
  "primes n s \<equiv> marked PRIME n (mu_mask s)"

definition sized :: "nat \<Rightarrow> Munkres \<Rightarrow> bool" where
  "sized n s \<longleftrightarrow> m_rows (mu_matrix s) = n \<and> m_columns (mu_matrix s) = n \<and> m_rows (mu_mask s) = n \<and> m_columns (mu_mask s) = n"

definition idle :: "nat \<Rightarrow> Munkres \<Rightarrow> bool" where
  "idle n s \<longleftrightarrow> primes n s = {} \<and> (\<forall>i. \<not> mu_row_mask s i \<and> \<not> mu_col_mask s i)"

text \<open>During the search the rows of the primes are covered, and the columns of the stars in the other rows.\<close>

definition prime_list :: "nat \<Rightarrow> Munkres \<Rightarrow> (nat \<times> nat) list \<Rightarrow> bool" where
  "prime_list n s ps \<longleftrightarrow> primes n s = set ps \<and> distinct (map fst ps) \<and> chained (stars n s) ps"

definition searching :: "nat \<Rightarrow> Munkres \<Rightarrow> (nat \<times> nat) list \<Rightarrow> bool" where
  "searching n s ps \<longleftrightarrow> prime_list n s ps \<and> fst ` set ps \<subseteq> fst ` stars n s \<and>
     (\<forall>r < n. mu_row_mask s r \<longleftrightarrow> r \<in> fst ` set ps) \<and>
     (\<forall>c < n. mu_col_mask s c \<longleftrightarrow> (\<exists>r. (r, c) \<in> stars n s \<and> r \<notin> fst ` set ps))"

definition path_found :: "nat \<Rightarrow> Munkres \<Rightarrow> (nat \<times> nat) list \<Rightarrow> bool" where
  "path_found n s ps \<longleftrightarrow> prime_list n s ((mu_saverow s, mu_savecol s) # ps) \<and> mu_saverow s \<notin> fst ` stars n s"

definition phase_ok :: "nat \<Rightarrow> Munkres \<Rightarrow> bool" where
  "phase_ok n s \<longleftrightarrow>
     (if mu_step s = 0 then n \<le> card (stars n s)
      else if mu_step s = 1 then stars n s = {} \<and> idle n s
      else if mu_step s = 2 then idle n s
      else if mu_step s = 4 then \<exists>ps. path_found n s ps
      else (mu_step s = 3 \<or> mu_step s = 5) \<and> card (stars n s) < n \<and> (\<exists>ps. searching n s ps))"

definition marks_ok :: "nat \<Rightarrow> Munkres \<Rightarrow> bool" where
  "marks_ok n s \<longleftrightarrow> sized n s \<and> matching (stars n s) \<and> phase_ok n s"

section \<open>Steps 1 and 2\<close>

text \<open>Step 1 keeps a matching whose stars are in the rows seen so far.\<close>

definition starred_rows :: "nat \<Rightarrow> nat \<Rightarrow> mark Matrix \<Rightarrow> bool" where
  "starred_rows n k marks \<longleftrightarrow> m_rows marks = n \<and> m_columns marks = n \<and> matching (marked STAR n marks) \<and>
     fst ` marked STAR n marks \<subseteq> {..<k} \<and> marked PRIME n marks = {}"

lemma star_row_starred:
  assumes "starred_rows n k marks" "k < n" "m_columns m = n"
  shows "starred_rows n (Suc k) (star_row m k marks)"
proof (cases "find (\<lambda>col. m_at m k col = Fin 0 \<and> \<not> list_ex (\<lambda>nrow. m_at marks nrow col = STAR) [0..<k]) [0..<m_columns m]")
  case None
  then have "star_row m k marks = marks" by (simp add: star_row_def)
  moreover have "{..<k} \<subseteq> {..<Suc k}" by auto
  ultimately show ?thesis using assms(1) unfolding starred_rows_def by auto
next
  case (Some col)
  then have eq: "star_row m k marks = set_mark k col STAR marks" by (simp add: star_row_def)
  from find_SomeD [OF Some] have col: "col < n" and above: "\<And>r. r < k \<Longrightarrow> m_at marks r col \<noteq> STAR"
    by (simp_all add: assms(3) list_ex_iff)
  have rows: "fst ` marked STAR n marks \<subseteq> {..<k}" and match: "matching (marked STAR n marks)"
    and sizes: "m_rows marks = n" "m_columns marks = n" and no_primes: "marked PRIME n marks = {}"
    using assms(1) by (simp_all add: starred_rows_def)
  have new: "k \<notin> fst ` marked STAR n marks" using rows by auto
  have "(r, col) \<notin> marked STAR n marks" for r
  proof
    assume r: "(r, col) \<in> marked STAR n marks"
    then have "r \<in> fst ` marked STAR n marks" by force
    then have "r < k" using rows by auto
    with above r show False by (simp add: in_marked)
  qed
  then have "col \<notin> snd ` marked STAR n marks" by auto
  with new match have "matching (insert (k, col) (marked STAR n marks))" by (intro matching_insert)
  then show ?thesis using rows sizes no_primes assms(2) col
    by (auto simp: starred_rows_def eq marked_set_mark less_Suc_eq)
qed

lemma Step1_ok:
  assumes "marks_ok n s" "mu_step s = 1"
  shows "marks_ok n (Step1 s)"
proof -
  have sz: "sized n s" and idle: "idle n s" and none: "stars n s = {}"
    using assms by (simp_all add: marks_ok_def phase_ok_def)
  have rows: "m_rows (mu_matrix s) = n" "m_columns (mu_matrix s) = n" using sz by (simp_all add: sized_def)
  have "starred_rows n k (fold (star_row (mu_matrix s)) [0..<k] (mu_mask s))" if "k \<le> n" for k
    using that
  proof (induction k)
    case 0
    then show ?case using sz idle none by (simp add: starred_rows_def sized_def idle_def matching_def)
  next
    case (Suc k)
    then show ?case using star_row_starred [of n k _ "mu_matrix s"] rows by simp
  qed
  from this [of n] have "starred_rows n n (mu_mask (Step1 s))" by (simp add: Step1_def rows)
  then show ?thesis using sz idle
    by (simp add: marks_ok_def phase_ok_def starred_rows_def idle_def sized_def) (simp add: Step1_def)
qed

lemma starred_cells:
  "card (stars n s) = length (filter (\<lambda>(row, col). m_at (mu_mask s) row col = STAR) (cells n n))"
  "stars n s = set (filter (\<lambda>(row, col). m_at (mu_mask s) row col = STAR) (cells n n))"
proof -
  show eq: "stars n s = set (filter (\<lambda>(row, col). m_at (mu_mask s) row col = STAR) (cells n n))"
    by (auto simp: marked_def cells_def)
  have "distinct (cells n n)" by (simp add: cells_def distinct_product)
  then show "card (stars n s) = length (filter (\<lambda>(row, col). m_at (mu_mask s) row col = STAR) (cells n n))"
    unfolding eq by (intro distinct_card distinct_filter)
qed

lemma Step2_eq:
  assumes "sized n s"
  shows "Step2 s = s\<lparr>mu_col_mask := \<lambda>c. mu_col_mask s c \<or> c \<in> snd ` stars n s, mu_step := if n \<le> card (stars n s) then 0 else 3\<rparr>"
proof -
  have "m_rows (mu_matrix s) = n" "m_columns (mu_matrix s) = n" "minsize (mu_matrix s) = n"
    using assms by (simp_all add: sized_def minsize_def)
  then show ?thesis unfolding Step2_def Let_def starred_cells(1) unfolding starred_cells(2) by (simp only:)
qed

lemma Step2_ok:
  assumes "marks_ok n s" "mu_step s = 2"
  shows "marks_ok n (Step2 s)"
proof -
  have sz: "sized n s" and idle: "idle n s" and match: "matching (stars n s)"
    using assms by (simp_all add: marks_ok_def phase_ok_def)
  note eq = Step2_eq [OF sz]
  have mask: "mu_mask (Step2 s) = mu_mask s" by (simp add: eq)
  have step: "mu_step (Step2 s) = (if n \<le> card (stars n s) then 0 else 3)" by (simp add: eq)
  have "searching n (Step2 s) []"
    unfolding searching_def prime_list_def mask using idle by (force simp: idle_def eq)
  then have "phase_ok n (Step2 s)" by (auto simp: phase_ok_def step mask)
  moreover have "sized n (Step2 s)" using sz by (simp add: sized_def eq)
  ultimately show ?thesis using match by (simp add: marks_ok_def mask)
qed

section \<open>Step 3\<close>

lemma FindUncovered_Some:
  "sized n s \<Longrightarrow> FindUncoveredInMatrix x s = Some (r, c) \<Longrightarrow>
    r < n \<and> c < n \<and> \<not> mu_row_mask s r \<and> \<not> mu_col_mask s c \<and> m_at (mu_matrix s) r c = x"
  unfolding FindUncoveredInMatrix_def by (drule find_SomeD) (simp add: sized_def cells_def)

lemma FindUncovered_None:
  "sized n s \<Longrightarrow> FindUncoveredInMatrix x s = None \<longleftrightarrow>
    (\<forall>r < n. \<forall>c < n. \<not> mu_row_mask s r \<longrightarrow> \<not> mu_col_mask s c \<longrightarrow> m_at (mu_matrix s) r c \<noteq> x)"
  unfolding FindUncoveredInMatrix_def find_None_all by (simp add: sized_def cells_def Ball_def) blast

lemma uncovered_fresh:
  assumes "searching n s ps" "r < n" "c < n" "\<not> mu_row_mask s r" "\<not> mu_col_mask s c"
  shows "r \<notin> fst ` set ps" "\<And>x. (x, c) \<in> stars n s \<Longrightarrow> x \<in> fst ` set ps" "(r, c) \<notin> stars n s"
proof -
  show r: "r \<notin> fst ` set ps" using assms by (simp add: searching_def)
  show c: "x \<in> fst ` set ps" if "(x, c) \<in> stars n s" for x using assms that unfolding searching_def by blast
  show "(r, c) \<notin> stars n s" using r c by blast
qed

lemma prime_list_Cons:
  assumes "prime_list n s ps" "r < n" "c < n" "r \<notin> fst ` set ps" "\<And>x. (x, c) \<in> stars n s \<Longrightarrow> x \<in> fst ` set ps" "(r, c) \<notin> stars n s"
    and mask: "mu_mask t = set_mark r c PRIME (mu_mask s)"
  shows "prime_list n t ((r, c) # ps)" "stars n t = stars n s"
proof -
  show stars: "stars n t = stars n s" using assms(6) by (simp add: mask marked_set_mark)
  show "prime_list n t ((r, c) # ps)"
    using assms(1-5) unfolding prime_list_def stars by (simp add: mask marked_set_mark)
qed

text \<open>The three ways through step 3.\<close>

lemma Step3_None: "FindUncoveredInMatrix (Fin 0) s = None \<Longrightarrow> Step3 s = s\<lparr>mu_step := 5\<rparr>"
  by (simp add: Step3_def)

lemma Step3_Some:
  assumes "FindUncoveredInMatrix (Fin 0) s = Some (r, c)" "sized n s" "r < n" "(r, c) \<notin> stars n s" "c < n"
  defines "t \<equiv> s\<lparr>mu_saverow := r, mu_savecol := c, mu_mask := set_mark r c PRIME (mu_mask s)\<rparr>"
  shows "r \<notin> fst ` stars n s \<and> Step3 s = t\<lparr>mu_step := 4\<rparr> \<or>
    (\<exists>c'. (r, c') \<in> stars n s \<and>
      Step3 s = t\<lparr>mu_row_mask := (mu_row_mask s)(r := True), mu_col_mask := (mu_col_mask s)(c' := False), mu_step := 3\<rparr>)"
proof (cases "find (\<lambda>ncol. m_at (mu_mask t) r ncol = STAR) [0..<m_columns (mu_matrix s)]")
  case None
  then have "\<forall>c' < n. m_at (mu_mask t) r c' \<noteq> STAR" using assms(2) by (auto simp: find_None_all sized_def)
  then have "c' < n \<longrightarrow> m_at (mu_mask s) r c' \<noteq> STAR" for c' using assms(3-5) by (cases "c' = c") (auto simp: t_def marked_def)
  then have "r \<notin> fst ` stars n s" by (auto simp: marked_def)
  moreover have "Step3 s = t\<lparr>mu_step := 4\<rparr>"
    using None by (simp only: Step3_def assms(1) t_def Let_def option.case prod.case)
  ultimately show ?thesis by blast
next
  case (Some c')
  from find_SomeD [OF this] assms(2) have "c' < n" "m_at (mu_mask t) r c' = STAR" by (simp_all add: sized_def)
  then have "(r, c') \<in> stars n s" using assms(3) by (simp add: t_def marked_def split: if_splits)
  moreover have "Step3 s = t\<lparr>mu_row_mask := (mu_row_mask s)(r := True), mu_col_mask := (mu_col_mask s)(c' := False), mu_step := 3\<rparr>"
    using Some by (simp only: Step3_def assms(1) t_def Let_def option.case prod.case)
  ultimately show ?thesis by blast
qed

lemma searching_Cons:
  assumes s: "searching n s ps" and match: "matching (stars n s)" and list: "prime_list n t ((r, c) # ps)" and stars: "stars n t = stars n s"
    and star: "(r, c') \<in> stars n s" and r: "r \<notin> fst ` set ps"
    and masks: "mu_row_mask t = (mu_row_mask s)(r := True)" "mu_col_mask t = (mu_col_mask s)(c' := False)"
  shows "searching n t ((r, c) # ps)"
proof -
  have star_row: "r \<in> fst ` stars n s" using star by force
  have rows: "mu_row_mask t x \<longleftrightarrow> x \<in> fst ` set ((r, c) # ps)" if "x < n" for x
    using s that by (simp add: searching_def masks)
  have columns: "mu_col_mask t y \<longleftrightarrow> (\<exists>x. (x, y) \<in> stars n s \<and> x \<notin> fst ` set ((r, c) # ps))" if "y < n" for y
  proof (cases "y = c'")
    case True
    have "x = r" if "(x, c') \<in> stars n s" for x using matching_column [OF match that star] .
    then show ?thesis by (auto simp: masks True)
  next
    case False
    have "x \<noteq> r" if "(x, y) \<in> stars n s" for x using matching_row [OF match star, of y] that False by blast
    then show ?thesis using s that False by (auto simp: searching_def masks)
  qed
  show ?thesis unfolding searching_def stars using list s star_row rows columns by (auto simp: searching_def)
qed

lemma Step3_ok:
  assumes "marks_ok n s" "mu_step s = 3"
  shows "marks_ok n (Step3 s)" and "stars n (Step3 s) = stars n s"
proof -
  have sz: "sized n s" and match: "matching (stars n s)" and few: "card (stars n s) < n" and "\<exists>ps. searching n s ps"
    using assms by (simp_all add: marks_ok_def phase_ok_def)
  then obtain ps where ps: "searching n s ps" by blast
  have "marks_ok n (Step3 s) \<and> stars n (Step3 s) = stars n s"
  proof (cases "FindUncoveredInMatrix (Fin 0) s")
    case None
    have "searching n (s\<lparr>mu_step := 5\<rparr>) ps" using ps by (simp add: searching_def prime_list_def)
    then show ?thesis using sz match few by (auto simp: Step3_None [OF None] marks_ok_def phase_ok_def sized_def)
  next
    case (Some rc)
    then obtain r c where found: "FindUncoveredInMatrix (Fin 0) s = Some (r, c)" by (cases rc) simp
    from FindUncovered_Some [OF sz found] have rc: "r < n" "c < n" "\<not> mu_row_mask s r" "\<not> mu_col_mask s c" by simp_all
    note fresh = uncovered_fresh [OF ps rc]
    have list: "prime_list n s ps" using ps by (simp add: searching_def)
    let ?t = "s\<lparr>mu_saverow := r, mu_savecol := c, mu_mask := set_mark r c PRIME (mu_mask s)\<rparr>"
    have new: "prime_list n t ((r, c) # ps)" "stars n t = stars n s" if "mu_mask t = set_mark r c PRIME (mu_mask s)" for t
      using prime_list_Cons [OF list rc(1,2) fresh(1) _ fresh(3) that] fresh(2) by blast+
    from Step3_Some [OF found sz rc(1) fresh(3) rc(2)] show ?thesis
    proof (elim disjE conjE exE)
      assume r: "r \<notin> fst ` stars n s" and eq: "Step3 s = ?t\<lparr>mu_step := 4\<rparr>"
      have mask: "mu_mask (Step3 s) = set_mark r c PRIME (mu_mask s)" by (simp add: eq)
      have "path_found n (Step3 s) ps" using new [OF mask] r by (simp add: path_found_def) (simp add: eq)
      moreover have "mu_step (Step3 s) = 4" "sized n (Step3 s)" using sz by (simp_all add: eq sized_def)
      ultimately show ?thesis using new(2) [OF mask] match by (auto simp: marks_ok_def phase_ok_def)
    next
      fix c' assume star: "(r, c') \<in> stars n s"
        and eq: "Step3 s = ?t\<lparr>mu_row_mask := (mu_row_mask s)(r := True), mu_col_mask := (mu_col_mask s)(c' := False), mu_step := 3\<rparr>"
      have mask: "mu_mask (Step3 s) = set_mark r c PRIME (mu_mask s)" by (simp add: eq)
      have "searching n (Step3 s) ((r, c) # ps)"
        by (rule searching_Cons [OF ps match new(1) [OF mask] new(2) [OF mask] star fresh(1)]) (simp_all add: eq)
      moreover have "mu_step (Step3 s) = 3" "sized n (Step3 s)" using sz by (simp_all add: eq sized_def)
      ultimately show ?thesis using new(2) [OF mask] match few by (auto simp: marks_ok_def phase_ok_def)
    qed
  qed
  then show "marks_ok n (Step3 s)" "stars n (Step3 s) = stars n s" by simp_all
qed

section \<open>Steps 4 and 5, and the loop\<close>

lemma turning_start:
  assumes "matching S" "finite S" "r \<notin> fst ` S" "(r, c) \<in> P" "(r, c) \<notin> S"
  shows "turning S [] ps r c [(r, c)] (turned_set S P [(r, c)])"
proof -
  have T: "turned_set S P [(r, c)] = insert (r, c) S" using assms(4,5) by (auto simp: turned_set_def)
  have "insert (r, c) S - {(r, c)} = S" using assms(5) by blast
  then show ?thesis using assms unfolding turning_def T matching_def by (auto simp: inj_on_insert)
qed

lemma Step4_marks:
  assumes "marks_ok n s" "mu_step s = 4"
  shows "primes n (Step4 s) = {}" "stars n (Step4 s) \<subseteq> stars n s \<union> primes n s" "augmented (stars n s) (stars n (Step4 s))"
    "sized n (Step4 s)"
proof -
  have sz: "sized n s" and match: "matching (stars n s)" and "\<exists>ps. path_found n s ps"
    using assms by (simp_all add: marks_ok_def phase_ok_def)
  then obtain ps where ps: "path_found n s ps" by blast
  define r c where "r = mu_saverow s" and "c = mu_savecol s"
  define sequence where "sequence = alternating_sequence (mu_mask s) [(r, c)] c"
  have list: "primes n s = set ((r, c) # ps)" "distinct (map fst ((r, c) # ps))" "chained (stars n s) ((r, c) # ps)" "r \<notin> fst ` stars n s"
    using ps by (simp_all add: path_found_def prime_list_def r_def c_def)
  have prime: "(r, c) \<in> set ((r, c) # ps)" "(r, c) \<notin> stars n s" using list(4) by force+
  have sizes: "m_rows (mu_mask s) = n" "m_columns (mu_mask s) = n" using sz by (simp_all add: sized_def)
  have "distinct sequence \<and> set sequence \<subseteq> stars n s \<union> set ((r, c) # ps) \<and>
      augmented (stars n s) (turned_set (stars n s) (set ((r, c) # ps)) sequence)"
    unfolding sequence_def
    by (rule alternating_augments [OF sizes list(1) match list(2) _ list(3)], simp,
        rule turning_start [OF match finite_marked list(4) prime])
  then have seq: "distinct sequence" "set sequence \<subseteq> stars n s \<union> primes n s"
    "augmented (stars n s) (turned_set (stars n s) (primes n s) sequence)" by (simp_all add: list(1))
  have mask: "mu_mask (Step4 s) = erase_primes (fold turn_pair sequence (mu_mask s))"
    by (simp add: Step4_def sequence_def r_def c_def Let_def)
  note marks = marked_turned [OF seq(1,2), folded mask]
  show "augmented (stars n s) (stars n (Step4 s))" using seq(3) by (simp add: marks(1))
  show "primes n (Step4 s) = {}" by (rule marks(2))
  show "stars n (Step4 s) \<subseteq> stars n s \<union> primes n s" unfolding marks(1) turned_set_def by blast
  show "sized n (Step4 s)"
    using sz fold_turn_pair [OF seq(1), of "mu_mask s"] by (simp add: sized_def mask erase_primes_def) (simp add: Step4_def Let_def)
qed

lemma Step4_ok:
  assumes "marks_ok n s" "mu_step s = 4"
  shows "marks_ok n (Step4 s)"
proof -
  note marks = Step4_marks [OF assms]
  have "mu_step (Step4 s) = 2" "idle n (Step4 s)" using marks(1) by (simp_all add: idle_def) (simp_all add: Step4_def Let_def)
  then show ?thesis using marks(3,4) by (simp add: marks_ok_def phase_ok_def augmented_def)
qed

lemma Step5_ok:
  assumes "marks_ok n s" "mu_step s = 5"
  shows "marks_ok n (Step5 s)"
proof -
  have same: "mu_mask (Step5 s) = mu_mask s" "mu_row_mask (Step5 s) = mu_row_mask s" "mu_col_mask (Step5 s) = mu_col_mask s"
    "mu_step (Step5 s) = 3" "sized n (Step5 s) = sized n s"
    by (simp_all add: Step5_def Let_def sized_def)
  then show ?thesis using assms unfolding marks_ok_def phase_ok_def searching_def prime_list_def same by simp
qed

lemma munkres_step_cases:
  assumes "phase_ok n s" "mu_step s \<noteq> 0"
  obtains "mu_step s = 1" "munkres_step s = Step1 s" | "mu_step s = 2" "munkres_step s = Step2 s"
    | "mu_step s = 3" "munkres_step s = Step3 s" | "mu_step s = 4" "munkres_step s = Step4 s"
    | "mu_step s = 5" "munkres_step s = Step5 s"
  using assms by (auto simp: phase_ok_def munkres_step_def split: if_splits)

lemma munkres_step_ok: "marks_ok n s \<Longrightarrow> mu_step s \<noteq> 0 \<Longrightarrow> marks_ok n (munkres_step s)"
  by (rule munkres_step_cases [of n s]) (simp_all add: marks_ok_def [THEN iffD1] Step1_ok Step2_ok Step3_ok Step4_ok Step5_ok)

lemma prepared_size: "m_rows (prepared m) = max (m_rows m) (m_columns m)" "m_columns (prepared m) = max (m_rows m) (m_columns m)"
  by (simp_all add: prepared_def MinimizeAlongDirection_def ReplaceInfinites_def squared_def m_resize_def Let_def)

lemma munkres_start_ok: "marks_ok (max (m_rows m) (m_columns m)) (munkres_start m)"
  by (simp add: marks_ok_def sized_def phase_ok_def idle_def marked_def matching_def munkres_start_def prepared_size Let_def)

text \<open>Whatever the costs: a result is a complete matching within the matrix.\<close>

definition complete_assignment :: "nat \<Rightarrow> nat \<Rightarrow> (nat \<times> nat) list \<Rightarrow> bool" where
  "complete_assignment rows columns ps \<longleftrightarrow> set ps \<subseteq> {..<rows} \<times> {..<columns} \<and> distinct (map fst ps) \<and> distinct (map snd ps) \<and>
     length ps = min rows columns"

lemma while_munkres_ok:
  assumes "while_option (\<lambda>s. mu_step s \<noteq> 0) munkres_step (munkres_start m) = Some s"
  defines "n \<equiv> max (m_rows m) (m_columns m)"
  shows "matching (stars n s)" "card (stars n s) = n" "m_rows (mu_matrix s) = n" "m_columns (mu_matrix s) = n"
proof -
  have "marks_ok n s"
    by (rule while_option_rule [OF _ assms(1), of "marks_ok n"]) (simp_all add: munkres_step_ok munkres_start_ok n_def)
  moreover have "mu_step s = 0" using while_option_stop [OF assms(1)] by simp
  ultimately show "matching (stars n s)" "card (stars n s) = n" "m_rows (mu_matrix s) = n" "m_columns (mu_matrix s) = n"
    using matching_card [of STAR n "mu_mask s"] by (auto simp: marks_ok_def phase_ok_def sized_def)
qed

lemma full_matching:
  assumes "matching (marked x n marks)" "card (marked x n marks) = n"
  shows "fst ` marked x n marks = {..<n}" "snd ` marked x n marks = {..<n}"
proof -
  have "fst ` marked x n marks \<subseteq> {..<n}" "snd ` marked x n marks \<subseteq> {..<n}" by (auto simp: marked_def)
  moreover have "card (fst ` marked x n marks) = n" "card (snd ` marked x n marks) = n"
    using assms by (simp_all add: matching_def card_image)
  ultimately show "fst ` marked x n marks = {..<n}" "snd ` marked x n marks = {..<n}"
    by (simp_all add: card_subset_eq)
qed

lemma matching_part:
  assumes "matching S" "f = fst \<or> f = snd" "f ` S = {..<n}" "k \<le> n"
  shows "card {p \<in> S. f p < k} = k"
proof -
  have inj: "inj_on f S" using assms(1,2) by (auto simp: matching_def)
  have "f ` {p \<in> S. f p < k} = {..<k}"
  proof
    show "{..<k} \<subseteq> f ` {p \<in> S. f p < k}"
    proof
      fix i assume i: "i \<in> {..<k}"
      then have "i \<in> f ` S" using assms(3,4) by simp
      with i show "i \<in> f ` {p \<in> S. f p < k}" by auto
    qed
  qed auto
  moreover have "inj_on f {p \<in> S. f p < k}" by (rule inj_on_subset [OF inj]) auto
  ultimately show ?thesis using card_image by fastforce
qed

lemma munkres_Solve_at:
  assumes "while_option (\<lambda>s. mu_step s \<noteq> 0) munkres_step (munkres_start m) = Some s"
  obtains z where "munkres_Solve m = Some z"
    "\<And>r c. r < m_rows m \<Longrightarrow> c < m_columns m \<Longrightarrow> m_at z r c = (if m_at (mu_mask s) r c = STAR then Fin 0 else Fin (-1))"
proof
  let ?y = "(mu_matrix s)\<lparr>m_at := \<lambda>row col. if m_at (mu_mask s) row col = STAR then Fin 0 else Fin (-1)\<rparr>"
  show "munkres_Solve m = Some (m_resize (m_rows m) (m_columns m) (Fin 0) ?y)"
    by (simp only: munkres_Solve_def assms option.map)
  have "m_rows ?y = max (m_rows m) (m_columns m)" "m_columns ?y = max (m_rows m) (m_columns m)"
    using while_munkres_ok(3,4) [OF assms] by simp_all
  then show "m_at (m_resize (m_rows m) (m_columns m) (Fin 0) ?y) r c = (if m_at (mu_mask s) r c = STAR then Fin 0 else Fin (-1))"
    if "r < m_rows m" "c < m_columns m" for r c
    using that by (simp add: m_resize_def)
qed

lemma munkres_Solve_None:
  "munkres_Solve m = None \<longleftrightarrow> while_option (\<lambda>s. mu_step s \<noteq> 0) munkres_step (munkres_start m) = None"
  by (simp only: munkres_Solve_def option.map_disc_iff)

lemma HungarianOper_eq:
  assumes "HungarianOper_Solve costs = Some ps"
  obtains s where "while_option (\<lambda>s. mu_step s \<noteq> 0) munkres_step (munkres_start (matrix_of costs)) = Some s"
    "ps = filter (\<lambda>(r, c). m_at (mu_mask s) r c = STAR) (cells (length costs) (length (hd costs)))"
proof -
  from assms obtain s where s: "while_option (\<lambda>s. mu_step s \<noteq> 0) munkres_step (munkres_start (matrix_of costs)) = Some s"
    using munkres_Solve_None [of "matrix_of costs"] unfolding HungarianOper_Solve_def by fastforce
  from munkres_Solve_at [OF s] obtain z where z: "munkres_Solve (matrix_of costs) = Some z"
    "\<And>r c. r < length costs \<Longrightarrow> c < length (hd costs) \<Longrightarrow> m_at z r c = (if m_at (mu_mask s) r c = STAR then Fin 0 else Fin (-1))"
    by (auto simp: matrix_of_def)
  have zero: "f32_to_int32 (Fin 0) = Some 0" "f32_to_int32 (Fin (-1)) \<noteq> Some 0" by code_simp+
  have "ps = filter (\<lambda>(row, col). f32_to_int32 (m_at z row col) = Some 0) (cells (length costs) (length (hd costs)))"
    using assms unfolding HungarianOper_Solve_def z by simp
  also have "\<dots> = filter (\<lambda>(r, c). m_at (mu_mask s) r c = STAR) (cells (length costs) (length (hd costs)))"
  proof (rule filter_cong [OF refl])
    fix p assume "p \<in> set (cells (length costs) (length (hd costs)))"
    then have "m_at z (fst p) (snd p) = (if m_at (mu_mask s) (fst p) (snd p) = STAR then Fin 0 else Fin (-1))"
      by (intro z(2)) (auto simp: cells_def)
    then show "(case p of (row, col) \<Rightarrow> f32_to_int32 (m_at z row col) = Some 0) = (case p of (r, c) \<Rightarrow> m_at (mu_mask s) r c = STAR)"
      using zero by (simp add: case_prod_beta del: f32_to_int32.simps)
  qed
  finally show thesis using that s by blast
qed

lemma HungarianOper_complete:
  assumes "HungarianOper_Solve costs = Some ps"
  shows "complete_assignment (length costs) (length (hd costs)) ps"
proof -
  define rows columns where "rows = length costs" and "columns = length (hd costs)"
  define n where "n = max rows columns"
  from HungarianOper_eq [OF assms] obtain s where
    s: "while_option (\<lambda>s. mu_step s \<noteq> 0) munkres_step (munkres_start (matrix_of costs)) = Some s" and
    ps: "ps = filter (\<lambda>(r, c). m_at (mu_mask s) r c = STAR) (cells rows columns)" by (auto simp: rows_def columns_def)
  have match: "matching (stars n s)" and full: "card (stars n s) = n"
    using while_munkres_ok(1,2) [OF s] by (simp_all add: n_def rows_def columns_def matrix_of_def)
  have set_ps: "set ps = {p \<in> stars n s. fst p < rows \<and> snd p < columns}"
    by (auto simp: ps cells_def marked_def n_def)
  have dist: "distinct ps" by (simp add: ps cells_def distinct_product)
  have "inj_on fst (set ps)" "inj_on snd (set ps)"
    using match by (auto simp: matching_def set_ps intro: inj_on_subset)
  then have "distinct (map fst ps)" "distinct (map snd ps)" using dist by (simp_all add: distinct_map)
  moreover have "card (set ps) = min rows columns"
  proof (cases "rows \<le> columns")
    case True
    then have "set ps = {p \<in> stars n s. fst p < rows}" by (auto simp: set_ps marked_def n_def)
    then show ?thesis using matching_part [OF match _ full_matching(1) [OF match full], of rows] True by (simp add: n_def)
  next
    case False
    then have "set ps = {p \<in> stars n s. snd p < columns}" by (auto simp: set_ps marked_def n_def)
    then show ?thesis using matching_part [OF match _ full_matching(2) [OF match full], of columns] False by (simp add: n_def)
  qed
  moreover have "set ps \<subseteq> {..<rows} \<times> {..<columns}" by (auto simp: set_ps)
  ultimately show ?thesis using dist by (simp add: complete_assignment_def distinct_card rows_def columns_def)
qed

end
