(* ===== verification/MunkresTermination.thy ===== *)
theory MunkresTermination
  imports MunkresProofs
begin

text \<open>
  The loop of the assignment solver ends. Step 5 takes the least uncovered value for a new zero, but only if it is below \<open>100000\<close>, and in double
  precision \<open>x + h - h\<close> need not be \<open>x\<close>. For costs in \<open>[0, 100000)\<close> the values stay non-negative, those in a row and a column without a star stay
  below the constant (\<open>values_ok\<close>), and one of these becomes a zero in step 5 (\<open>Step5_zero\<close>); \<open>progress\<close> counts down.
\<close>

section \<open>Values\<close>

definition small64 :: "f64 \<Rightarrow> bool" where
  "small64 x \<longleftrightarrow> (\<exists>q. x = Fin q \<and> rep64 q \<and> 0 \<le> q \<and> q < 100000)"

lemma small64_nonneg: "small64 x \<Longrightarrow> nonneg64 x"
  by (auto simp: small64_def)

definition values_ok :: "nat \<Rightarrow> Munkres \<Rightarrow> bool" where
  "values_ok n s \<longleftrightarrow> (\<forall>r < n. \<forall>c < n. nonneg64 (m_at (mu_matrix s) r c)) \<and>
     (\<forall>r < n. \<forall>c < n. r \<notin> fst ` stars n s \<longrightarrow> c \<notin> snd ` stars n s \<longrightarrow> small64 (m_at (mu_matrix s) r c))"

lemma values_ok_mono:
  "values_ok n s \<Longrightarrow> mu_matrix t = mu_matrix s \<Longrightarrow> fst ` stars n s \<subseteq> fst ` stars n t \<Longrightarrow> snd ` stars n s \<subseteq> snd ` stars n t \<Longrightarrow>
    values_ok n t"
  unfolding values_ok_def by (simp add: subset_iff) blast

lemma free_index:
  assumes "inj_on f S" "finite S" "card S < n"
  shows "\<exists>x < n. x \<notin> f ` S"
proof (rule ccontr)
  assume "\<not> ?thesis"
  then have "{..<n} \<subseteq> f ` S" by blast
  from card_mono [OF finite_imageI [OF assms(2)] this] have "n \<le> card (f ` S)" by simp
  then show False using assms(1,3) by (simp add: card_image)
qed

lemma free_row_column:
  assumes "matching S" "finite S" "card S < n"
  obtains r c where "r < n" "c < n" "r \<notin> fst ` S" "c \<notin> snd ` S"
  using free_index [of fst S n] free_index [of snd S n] assms unfolding matching_def by blast

section \<open>Step 5 makes a zero\<close>

lemma least_fold:
  assumes "\<forall>p \<in> set L. nonneg64 (g p)"
  shows "\<exists>h. fold (\<lambda>p h. if U p \<and> f32_less (g p) h \<and> g p \<noteq> Fin 0 then g p else h) L (Fin h0) = Fin h \<and> h \<le> h0 \<and>
    (h = h0 \<or> (\<exists>p \<in> set L. U p \<and> g p = Fin h \<and> h \<noteq> 0)) \<and>
    (\<forall>p \<in> set L. U p \<longrightarrow> g p \<noteq> Fin 0 \<longrightarrow> \<not> f32_less (g p) (Fin h))"
  using assms
proof (induction L arbitrary: h0)
  case (Cons a L)
  show ?case
  proof (cases "U a \<and> f32_less (g a) (Fin h0) \<and> g a \<noteq> Fin 0")
    case True
    with Cons.prems obtain q where q: "g a = Fin q" "q < h0" "q \<noteq> 0" by (cases "g a") auto
    from Cons.IH [of q] Cons.prems obtain h where h:
      "fold (\<lambda>p h. if U p \<and> f32_less (g p) h \<and> g p \<noteq> Fin 0 then g p else h) L (Fin q) = Fin h" "h \<le> q"
      "h = q \<or> (\<exists>p \<in> set L. U p \<and> g p = Fin h \<and> h \<noteq> 0)"
      "\<forall>p \<in> set L. U p \<longrightarrow> g p \<noteq> Fin 0 \<longrightarrow> \<not> f32_less (g p) (Fin h)" by auto
    have "\<not> f32_less (g a) (Fin h)" using h(2) q(1) by simp
    moreover have "h \<le> h0" using h(2) q(2) by simp
    ultimately show ?thesis using h True q by (intro exI [of _ h]) auto
  next
    case False
    from Cons.IH [of h0] Cons.prems obtain h where h:
      "fold (\<lambda>p h. if U p \<and> f32_less (g p) h \<and> g p \<noteq> Fin 0 then g p else h) L (Fin h0) = Fin h" "h \<le> h0"
      "h = h0 \<or> (\<exists>p \<in> set L. U p \<and> g p = Fin h \<and> h \<noteq> 0)"
      "\<forall>p \<in> set L. U p \<longrightarrow> g p \<noteq> Fin 0 \<longrightarrow> \<not> f32_less (g p) (Fin h)" by auto
    have "U a \<longrightarrow> g a \<noteq> Fin 0 \<longrightarrow> \<not> f32_less (g a) (Fin h)" using False h(2) by (cases "g a") auto
    moreover have "fold (\<lambda>p h. if U p \<and> f32_less (g p) h \<and> g p \<noteq> Fin 0 then g p else h) (a # L) (Fin h0) = Fin h"
      unfolding fold_simps if_not_P [OF False] by (rule h(1))
    ultimately show ?thesis using h by (intro exI [of _ h]) auto
  qed
qed simp

abbreviation uncovered :: "Munkres \<Rightarrow> nat \<Rightarrow> nat \<Rightarrow> bool" where
  "uncovered s r c \<equiv> \<not> mu_row_mask s r \<and> \<not> mu_col_mask s c"

lemma least_uncovered_zero:
  assumes sz: "sized n s" and nonneg: "\<forall>r < n. \<forall>c < n. nonneg64 (m_at (mu_matrix s) r c)"
    and no_zero: "FindUncoveredInMatrix (Fin 0) s = None"
    and free: "r0 < n" "c0 < n" "uncovered s r0 c0" "small64 (m_at (mu_matrix s) r0 c0)"
  obtains r c h where "least_uncovered s = Fin h" "r < n" "c < n" "uncovered s r c" "m_at (mu_matrix s) r c = Fin h"
    "\<And>r c. r < n \<Longrightarrow> c < n \<Longrightarrow> uncovered s r c \<Longrightarrow> \<not> f32_less (m_at (mu_matrix s) r c) (Fin h)"
proof -
  define g where "g = (\<lambda>(r, c). m_at (mu_matrix s) r c)"
  define U where "U = (\<lambda>(r, c). uncovered s r c)"
  have least: "least_uncovered s = fold (\<lambda>p h. if U p \<and> f32_less (g p) h \<and> g p \<noteq> Fin 0 then g p else h) (cells n n) (Fin 100000)"
    using sz unfolding least_uncovered_def sized_def g_def U_def by (auto intro!: fold_cong simp: Let_def)
  have "\<forall>p \<in> set (cells n n). nonneg64 (g p)" using nonneg by (auto simp: cells_def g_def)
  from least_fold [OF this, of U 100000] obtain h where h: "least_uncovered s = Fin h" "h \<le> 100000"
    "h = 100000 \<or> (\<exists>p \<in> set (cells n n). U p \<and> g p = Fin h \<and> h \<noteq> 0)"
    "\<forall>p \<in> set (cells n n). U p \<longrightarrow> g p \<noteq> Fin 0 \<longrightarrow> \<not> f32_less (g p) (Fin h)" unfolding least by blast
  have nz: "m_at (mu_matrix s) r c \<noteq> Fin 0" if "r < n" "c < n" "uncovered s r c" for r c
    using no_zero that unfolding FindUncovered_None [OF sz] by blast
  have lower: "\<not> f32_less (m_at (mu_matrix s) r c) (Fin h)" if "r < n" "c < n" "uncovered s r c" for r c
    using bspec [OF h(4), of "(r, c)"] that nz [OF that] by (simp add: cells_def U_def g_def)
  obtain q where "m_at (mu_matrix s) r0 c0 = Fin q" "q < 100000" using free(4) by (auto simp: small64_def)
  then have "h \<noteq> 100000" using lower [OF free(1-3)] by auto
  then obtain p where "p \<in> set (cells n n)" "U p" "g p = Fin h" using h(3) by blast
  then show thesis using that [of h "fst p" "snd p"] h(1) lower by (auto simp: cells_def U_def g_def)
qed

lemma Step5_same:
  "mu_mask (Step5 s) = mu_mask s" "mu_row_mask (Step5 s) = mu_row_mask s" "mu_col_mask (Step5 s) = mu_col_mask s"
  "mu_step (Step5 s) = 3" "sized n (Step5 s) = sized n s"
  by (simp_all add: Step5_def Let_def sized_def)

lemma Step5_at:
  "m_at (mu_matrix (Step5 s)) r c =
    (let x = if mu_row_mask s r then f64_add (m_at (mu_matrix s) r c) (least_uncovered s) else m_at (mu_matrix s) r c
     in if mu_col_mask s c then x else f64_sub x (least_uncovered s))"
  by (simp add: Step5_def Let_def)

lemma free_uncovered:
  assumes "searching n s ps" "r < n" "c < n" "r \<notin> fst ` stars n s" "c \<notin> snd ` stars n s"
  shows "uncovered s r c"
proof -
  have "r \<notin> fst ` set ps" using assms by (auto simp: searching_def)
  moreover have "(x, c) \<notin> stars n s" for x using assms(5) by force
  ultimately show ?thesis using assms(1-3) by (simp add: searching_def)
qed

lemma Step5_least:
  assumes ok: "marks_ok n s" "mu_step s = 5" "values_ok n s" and no_zero: "FindUncoveredInMatrix (Fin 0) s = None"
  obtains ps r c h where "searching n s ps" "least_uncovered s = Fin h" "r < n" "c < n" "uncovered s r c" "m_at (mu_matrix s) r c = Fin h"
    "\<And>r c. r < n \<Longrightarrow> c < n \<Longrightarrow> uncovered s r c \<Longrightarrow> \<not> f32_less (m_at (mu_matrix s) r c) (Fin h)" "h < 100000"
proof -
  have sz: "sized n s" and match: "matching (stars n s)" and few: "card (stars n s) < n" and "\<exists>ps. searching n s ps"
    using ok(1,2) by (simp_all add: marks_ok_def phase_ok_def)
  then obtain ps where ps: "searching n s ps" by blast
  have nonneg: "\<forall>r < n. \<forall>c < n. nonneg64 (m_at (mu_matrix s) r c)"
    and free: "\<And>r c. r < n \<Longrightarrow> c < n \<Longrightarrow> r \<notin> fst ` stars n s \<Longrightarrow> c \<notin> snd ` stars n s \<Longrightarrow> small64 (m_at (mu_matrix s) r c)"
    using ok(3) by (simp_all add: values_ok_def)
  obtain r0 c0 where rc0: "r0 < n" "c0 < n" "r0 \<notin> fst ` stars n s" "c0 \<notin> snd ` stars n s"
    using free_row_column [OF match finite_marked few] by blast
  note un = free_uncovered [OF ps rc0]
  obtain r c h where h: "least_uncovered s = Fin h" "r < n" "c < n" "uncovered s r c" "m_at (mu_matrix s) r c = Fin h"
    "\<And>r c. r < n \<Longrightarrow> c < n \<Longrightarrow> uncovered s r c \<Longrightarrow> \<not> f32_less (m_at (mu_matrix s) r c) (Fin h)"
    using least_uncovered_zero [OF sz nonneg no_zero rc0(1,2) un free [OF rc0]] by metis
  obtain q where "m_at (mu_matrix s) r0 c0 = Fin q" "q < 100000" using free [OF rc0] by (auto simp: small64_def)
  then have less: "h < 100000" using h(6) [OF rc0(1,2) un] by simp
  show thesis by (rule that [OF ps h less])
qed

lemma Step5_values:
  assumes ok: "marks_ok n s" "mu_step s = 5" "values_ok n s" and no_zero: "FindUncoveredInMatrix (Fin 0) s = None"
  shows "values_ok n (Step5 s)" "FindUncoveredInMatrix (Fin 0) (Step5 s) \<noteq> None"
proof -
  have sz: "sized n s" using ok(1) by (simp add: marks_ok_def)
  have nonneg: "\<forall>r < n. \<forall>c < n. nonneg64 (m_at (mu_matrix s) r c)"
    and free: "\<And>r c. r < n \<Longrightarrow> c < n \<Longrightarrow> r \<notin> fst ` stars n s \<Longrightarrow> c \<notin> snd ` stars n s \<Longrightarrow> small64 (m_at (mu_matrix s) r c)"
    using ok(3) by (simp_all add: values_ok_def)
  obtain ps r c h where ps: "searching n s ps" and
    h: "least_uncovered s = Fin h" "r < n" "c < n" "uncovered s r c" "m_at (mu_matrix s) r c = Fin h"
    "\<And>r c. r < n \<Longrightarrow> c < n \<Longrightarrow> uncovered s r c \<Longrightarrow> \<not> f32_less (m_at (mu_matrix s) r c) (Fin h)" "h < 100000"
    by (rule Step5_least [OF assms]) (rule that)
  have "nonneg64 (m_at (mu_matrix s) r c)" using nonneg h(2,3) by blast
  then have rep: "rep64 h" "0 \<le> h" by (simp_all add: h(5))
  have "m_at (mu_matrix (Step5 s)) r c = Fin 0" using h(4) by (simp add: Step5_at h(1,5) Let_def f64_sub_self)
  moreover have "sized n (Step5 s)" using sz by (simp only: Step5_same)
  ultimately show "FindUncoveredInMatrix (Fin 0) (Step5 s) \<noteq> None"
    using h(2-4) FindUncovered_None [of n "Step5 s"] by (auto simp: Step5_same)
  have "nonneg64 (m_at (mu_matrix (Step5 s)) i j)" if ij: "i < n" "j < n" for i j
  proof -
    have x: "nonneg64 (m_at (mu_matrix s) i j)" using nonneg ij by blast
    then have "nonneg64 (f64_add (m_at (mu_matrix s) i j) (Fin h))" using rep by (intro f64_add_nonneg) simp_all
    moreover have "\<not> f32_less (f64_add (m_at (mu_matrix s) i j) (Fin h)) (Fin h)" by (rule f64_add_ge [OF x rep])
    ultimately show ?thesis using x h(6) [OF ij] by (auto simp: Step5_at h(1) Let_def intro: f64_sub_nonneg)
  qed
  moreover have "small64 (m_at (mu_matrix (Step5 s)) i j)"
    if ij: "i < n" "j < n" "i \<notin> fst ` stars n s" "j \<notin> snd ` stars n s" for i j
  proof -
    have un: "uncovered s i j" by (rule free_uncovered [OF ps ij])
    from free [OF ij] obtain q where q: "m_at (mu_matrix s) i j = Fin q" "rep64 q" "0 \<le> q" "q < 100000" by (auto simp: small64_def)
    have hq: "h \<le> q" using h(6) [OF ij(1,2) un] by (simp add: q(1))
    have "q < 2 ^ 1024" using q(4) by (rule less_trans) simp
    from f64_sub_finite [OF q(2) rep(2) hq this] obtain y where y: "f64_sub (Fin q) (Fin h) = Fin y" "0 \<le> y" "y \<le> q" by blast
    have "nonneg64 (f64_sub (Fin q) (Fin h))" using q(2,3) hq by (intro f64_sub_nonneg) simp_all
    then show ?thesis using un y q(1,4) by (simp add: Step5_at h(1) Let_def small64_def)
  qed
  ultimately show "values_ok n (Step5 s)" by (simp add: values_ok_def Step5_same)
qed

section \<open>The loop ends\<close>

definition open_rows :: "nat \<Rightarrow> Munkres \<Rightarrow> nat" where
  "open_rows n s = card {r. r < n \<and> \<not> mu_row_mask s r}"

definition phase_left :: "nat \<Rightarrow> Munkres \<Rightarrow> nat" where
  "phase_left n s =
     (if mu_step s = 2 then 3 * n + 3 else if mu_step s = 5 then 3 * open_rows n s + 1
      else if mu_step s = 3 then (if FindUncoveredInMatrix (Fin 0) s = None then 3 * open_rows n s + 2 else 3 * open_rows n s)
      else 0)"

definition progress :: "nat \<Rightarrow> Munkres \<Rightarrow> nat" where
  "progress n s = (if mu_step s = 1 then Suc n * (3 * n + 4) else (n - card (stars n s)) * (3 * n + 4) + phase_left n s)"

definition solver_ok :: "nat \<Rightarrow> Munkres \<Rightarrow> bool" where
  "solver_ok n s \<longleftrightarrow> marks_ok n s \<and> values_ok n s \<and> (mu_step s = 5 \<longrightarrow> FindUncoveredInMatrix (Fin 0) s = None)"

lemma open_rows_le: "open_rows n s \<le> n"
  using card_mono [of "{..<n}" "{r. r < n \<and> \<not> mu_row_mask s r}"] by (auto simp: open_rows_def)

lemma phase_left_le: "phase_left n s \<le> 3 * n + 3"
  using open_rows_le [of n s] by (auto simp: phase_left_def)

lemma Step1_progress:
  assumes "solver_ok n s" "mu_step s = 1"
  shows "solver_ok n (Step1 s) \<and> progress n (Step1 s) < progress n s"
proof -
  have ok: "marks_ok n s" and vals: "values_ok n s" using assms(1) by (simp_all add: solver_ok_def)
  have none: "stars n s = {}" using ok assms(2) by (simp add: marks_ok_def phase_ok_def)
  have "mu_matrix (Step1 s) = mu_matrix s" and step: "mu_step (Step1 s) = 2" by (simp_all add: Step1_def)
  then have "values_ok n (Step1 s)" using values_ok_mono [OF vals] none by simp
  moreover have "progress n (Step1 s) < progress n s"
  proof -
    have "(n - card (stars n (Step1 s))) * (3 * n + 4) \<le> n * (3 * n + 4)" by (rule mult_right_mono) simp_all
    moreover have "progress n (Step1 s) = (n - card (stars n (Step1 s))) * (3 * n + 4) + (3 * n + 3)"
      using step by (simp add: progress_def phase_left_def)
    moreover have "progress n s = n * (3 * n + 4) + (3 * n + 4)" using assms(2) by (simp add: progress_def)
    ultimately show ?thesis by linarith
  qed
  ultimately show ?thesis using Step1_ok [OF ok assms(2)] step by (simp add: solver_ok_def)
qed

lemma Step2_progress:
  assumes "solver_ok n s" "mu_step s = 2"
  shows "solver_ok n (Step2 s) \<and> progress n (Step2 s) < progress n s"
proof -
  have ok: "marks_ok n s" and vals: "values_ok n s" using assms by (simp_all add: solver_ok_def)
  have sz: "sized n s" using ok by (simp add: marks_ok_def)
  have same: "mu_matrix (Step2 s) = mu_matrix s" "mu_mask (Step2 s) = mu_mask s" "mu_step (Step2 s) \<in> {0, 3}"
    by (simp_all add: Step2_eq [OF sz])
  have "values_ok n (Step2 s)" using values_ok_mono [OF vals] same by simp
  moreover have "phase_left n (Step2 s) < 3 * n + 3"
    using same(3) open_rows_le [of n "Step2 s"] by (auto simp: phase_left_def)
  then have "progress n (Step2 s) < progress n s" using same assms(2) by (auto simp: progress_def phase_left_def)
  ultimately show ?thesis using Step2_ok [OF ok assms(2)] same(3) by (auto simp: solver_ok_def)
qed

lemma FindUncovered_cong:
  "mu_matrix t = mu_matrix s \<Longrightarrow> mu_row_mask t = mu_row_mask s \<Longrightarrow> mu_col_mask t = mu_col_mask s \<Longrightarrow>
    FindUncoveredInMatrix x t = FindUncoveredInMatrix x s"
  by (simp add: FindUncoveredInMatrix_def)

lemma open_rows_cover:
  assumes "r < n" "\<not> mu_row_mask s r" "mu_row_mask t = (mu_row_mask s)(r := True)"
  shows "open_rows n s = Suc (open_rows n t)"
proof -
  have "{x. x < n \<and> \<not> mu_row_mask s x} = insert r {x. x < n \<and> \<not> mu_row_mask t x}" using assms by auto
  moreover have "r \<notin> {x. x < n \<and> \<not> mu_row_mask t x}" using assms(3) by simp
  ultimately show ?thesis by (simp add: open_rows_def)
qed

lemma Step3_matrix: "mu_matrix (Step3 s) = mu_matrix s"
  by (simp add: Step3_def Let_def split: option.split prod.split)

lemma open_rows_pos: "r < n \<Longrightarrow> \<not> mu_row_mask s r \<Longrightarrow> 0 < open_rows n s"
  by (auto simp: open_rows_def card_gt_0_iff)

lemma Step3_phase:
  assumes ok: "marks_ok n s" "mu_step s = 3"
  shows "mu_step (Step3 s) \<noteq> 1" "mu_step (Step3 s) = 5 \<Longrightarrow> FindUncoveredInMatrix (Fin 0) (Step3 s) = None"
    "phase_left n (Step3 s) < phase_left n s"
proof -
  have sz: "sized n s" and "\<exists>ps. searching n s ps" using ok by (simp_all add: marks_ok_def phase_ok_def)
  then obtain ps where ps: "searching n s ps" by blast
  have "mu_step (Step3 s) \<noteq> 1 \<and> (mu_step (Step3 s) = 5 \<longrightarrow> FindUncoveredInMatrix (Fin 0) (Step3 s) = None) \<and>
      phase_left n (Step3 s) < phase_left n s"
  proof (cases "FindUncoveredInMatrix (Fin 0) s")
    case None
    have same: "mu_matrix (Step3 s) = mu_matrix s" "mu_row_mask (Step3 s) = mu_row_mask s" "mu_col_mask (Step3 s) = mu_col_mask s"
      "mu_step (Step3 s) = 5"
      by (simp_all add: Step3_None [OF None])
    then show ?thesis using FindUncovered_cong [OF same(1-3)] None ok(2) by (simp add: phase_left_def open_rows_def)
  next
    case (Some rc)
    then obtain r c where found: "FindUncoveredInMatrix (Fin 0) s = Some (r, c)" by (cases rc) simp
    from FindUncovered_Some [OF sz found] have rc: "r < n" "c < n" "\<not> mu_row_mask s r" "\<not> mu_col_mask s c" by simp_all
    have left: "phase_left n s = 3 * open_rows n s" using found ok(2) by (simp add: phase_left_def)
    from Step3_Some [OF found sz rc(1) uncovered_fresh(3) [OF ps rc] rc(2)] consider
      "mu_step (Step3 s) = 4" | "mu_step (Step3 s) = 3" "mu_row_mask (Step3 s) = (mu_row_mask s)(r := True)" by fastforce
    then show ?thesis
    proof cases
      case 1
      then show ?thesis using left open_rows_pos [OF rc(1,3)] by (simp add: phase_left_def)
    next
      case 2
      have "phase_left n (Step3 s) \<le> 3 * open_rows n (Step3 s) + 2" by (simp add: phase_left_def 2(1))
      then show ?thesis using left open_rows_cover [OF rc(1,3) 2(2)] by (simp add: 2(1))
    qed
  qed
  then show "mu_step (Step3 s) \<noteq> 1" "mu_step (Step3 s) = 5 \<Longrightarrow> FindUncoveredInMatrix (Fin 0) (Step3 s) = None"
    "phase_left n (Step3 s) < phase_left n s" by blast+
qed

lemma Step3_progress:
  assumes "solver_ok n s" "mu_step s = 3"
  shows "solver_ok n (Step3 s) \<and> progress n (Step3 s) < progress n s"
proof -
  have ok: "marks_ok n s" and vals: "values_ok n s" using assms by (simp_all add: solver_ok_def)
  note new = Step3_ok [OF ok assms(2)] and phase = Step3_phase [OF ok assms(2)]
  have "values_ok n (Step3 s)" using values_ok_mono [OF vals Step3_matrix] new(2) by simp
  moreover have "progress n (Step3 s) < progress n s" using phase(1,3) assms(2) by (simp add: progress_def new(2))
  ultimately show ?thesis using new(1) phase(2) by (simp add: solver_ok_def)
qed

lemma Step4_progress:
  assumes "solver_ok n s" "mu_step s = 4"
  shows "solver_ok n (Step4 s) \<and> progress n (Step4 s) < progress n s"
proof -
  have ok: "marks_ok n s" and vals: "values_ok n s" using assms by (simp_all add: solver_ok_def)
  note new = Step4_ok [OF ok assms(2)] Step4_marks(3) [OF ok assms(2)]
  have "mu_matrix (Step4 s) = mu_matrix s" and step: "mu_step (Step4 s) = 2" by (simp_all add: Step4_def Let_def)
  then have "values_ok n (Step4 s)" using values_ok_mono [OF vals] new(2) by (simp add: augmented_def)
  moreover have "progress n (Step4 s) < progress n s"
  proof -
    have "matching (stars n (Step4 s))" "card (stars n (Step4 s)) = Suc (card (stars n s))"
      using new(2) by (simp_all add: augmented_def)
    moreover from this(1) have "card (stars n (Step4 s)) \<le> n" by (rule matching_card)
    ultimately have "card (stars n (Step4 s)) = Suc (card (stars n s))" "card (stars n (Step4 s)) \<le> n" by blast+
    then obtain k where "n - card (stars n s) = Suc k" "n - card (stars n (Step4 s)) = k" by (metis Suc_diff_le diff_Suc_Suc)
    then show ?thesis using step assms(2) by (simp add: progress_def phase_left_def)
  qed
  ultimately show ?thesis using new(1) step by (simp add: solver_ok_def)
qed

lemma Step5_progress:
  assumes "solver_ok n s" "mu_step s = 5"
  shows "solver_ok n (Step5 s) \<and> progress n (Step5 s) < progress n s"
proof -
  have ok: "marks_ok n s" and vals: "values_ok n s" and none: "FindUncoveredInMatrix (Fin 0) s = None"
    using assms by (simp_all add: solver_ok_def)
  note new = Step5_ok [OF ok assms(2)] and zero = Step5_values [OF ok assms(2) vals none]
  have "open_rows n (Step5 s) = open_rows n s" by (simp add: open_rows_def Step5_same)
  then have "progress n (Step5 s) < progress n s"
    using zero(2) assms(2) by (simp add: progress_def phase_left_def Step5_same)
  then show ?thesis using new zero(1) by (simp add: solver_ok_def Step5_same)
qed

lemma munkres_step_progress:
  assumes "solver_ok n s" "mu_step s \<noteq> 0"
  shows "solver_ok n (munkres_step s) \<and> progress n (munkres_step s) < progress n s"
proof -
  have "phase_ok n s" using assms(1) by (simp add: solver_ok_def marks_ok_def)
  from munkres_step_cases [OF this assms(2)] show ?thesis
    using Step1_progress [OF assms(1)] Step2_progress [OF assms(1)] Step3_progress [OF assms(1)] Step4_progress [OF assms(1)]
      Step5_progress [OF assms(1)] by metis
qed

theorem munkres_terminates:
  assumes "solver_ok n s"
  shows "\<exists>t. while_option (\<lambda>s. mu_step s \<noteq> 0) munkres_step s = Some t"
  by (rule measure_while_option_Some [of "solver_ok n" _ _ "progress n"]) (simp_all add: munkres_step_progress assms)

section \<open>The prepared costs\<close>

definition all_small :: "nat \<Rightarrow> nat \<Rightarrow> f64 Matrix \<Rightarrow> bool" where
  "all_small rows columns m \<longleftrightarrow> m_rows m = rows \<and> m_columns m = columns \<and> (\<forall>r < rows. \<forall>c < columns. small64 (m_at m r c))"

lemma all_small_at: "all_small rows columns m \<Longrightarrow> r < rows \<Longrightarrow> c < columns \<Longrightarrow> small64 (m_at m r c)"
  by (simp add: all_small_def)

lemma mmax_entry:
  assumes "\<And>r c. r < m_rows m \<Longrightarrow> c < m_columns m \<Longrightarrow> P (m_at m r c)" "0 < m_rows m" "0 < m_columns m"
  shows "P (mmax m)"
proof -
  have "P (fold (\<lambda>(i, j) x. f32_max x (m_at m i j)) L x)" if "P x" "set L \<subseteq> {..<m_rows m} \<times> {..<m_columns m}" for L x
    using that
  proof (induction L arbitrary: x)
    case (Cons p L)
    obtain i j where p: "p = (i, j)" by (cases p)
    have "P (f32_max x (m_at m i j))" using Cons.prems assms(1) [of i j] by (auto simp: p f32_max_def)
    then show ?case using Cons by (simp add: p)
  qed simp
  from this [of "m_at m 0 0" "cells (m_rows m) (m_columns m)"] assms show ?thesis
    by (simp add: mmax_def cells_def atLeast0LessThan)
qed

lemma mmax_small: "all_small rows columns m \<Longrightarrow> 0 < rows \<Longrightarrow> 0 < columns \<Longrightarrow> small64 (mmax m)"
  by (rule mmax_entry) (simp_all add: all_small_def)

lemma squared_small:
  assumes "all_small rows columns m" "0 < rows" "0 < columns"
  shows "all_small (max rows columns) (max rows columns) (squared m)"
  using assms mmax_small [OF assms] by (auto simp: all_small_def squared_def m_resize_def Let_def)

lemma ReplaceInfinites_small: "all_small rows columns m \<Longrightarrow> all_small rows columns (ReplaceInfinites m)"
  by (simp add: all_small_def ReplaceInfinites_def Let_def) (metis f32.distinct(1) small64_def)

lemma not_less_mono: "f32_less v (Fin y) \<Longrightarrow> y \<le> x \<Longrightarrow> f32_less v (Fin x)"
  by (cases v) simp_all

lemma line_min_small:
  assumes "\<forall>j < k. small64 (line j)" "0 < k"
  shows "\<exists>x. line_min k line = Fin x \<and> (\<exists>j < k. line j = Fin x) \<and> (0 < x \<longrightarrow> (\<forall>j < k. \<not> f32_less (line j) (Fin x)))"
proof -
  have "\<exists>x. fold (\<lambda>j x. if f32_less (Fin 0) x then XYZMIN x (line j) else x) [1..<i] (line 0) = Fin x \<and>
      (\<exists>j < k. line j = Fin x) \<and> (0 < x \<longrightarrow> (\<forall>j < i. \<not> f32_less (line j) (Fin x)))" if "0 < i" "i \<le> k" for i
    using that
  proof (induction i)
    case (Suc i)
    show ?case
    proof (cases i)
      case 0
      obtain x where "line 0 = Fin x" using assms by (auto simp: small64_def)
      then show ?thesis using 0 assms(2) by auto
    next
      case (Suc i')
      then obtain x j where x: "fold (\<lambda>j x. if f32_less (Fin 0) x then XYZMIN x (line j) else x) [1..<i] (line 0) = Fin x"
        "j < k" "line j = Fin x" "0 < x \<longrightarrow> (\<forall>j < i. \<not> f32_less (line j) (Fin x))" using Suc.IH Suc.prems by auto
      have "small64 (line i)" using assms(1) Suc.prems(2) by simp
      then obtain y where y: "line i = Fin y" by (auto simp: small64_def)
      define z where "z = (if 0 < x \<and> y \<le> x then y else x)"
      have "fold (\<lambda>j x. if f32_less (Fin 0) x then XYZMIN x (line j) else x) [1..<Suc i] (line 0) = Fin z"
        using x(1) Suc y by (auto simp: XYZMIN_def z_def)
      moreover have "\<not> f32_less (line l) (Fin z)" if "0 < z" "l < Suc i" for l
      proof -
        have "0 < x" "z \<le> x" "z \<le> y" using that(1) by (simp_all add: z_def split: if_splits)
        moreover from this(1) x(4) have "\<forall>j < i. \<not> f32_less (line j) (Fin x)" by blast
        ultimately show ?thesis using that(2) not_less_mono [of "line l" z x] y by (metis f32_less.simps(1) less_SucE not_less)
      qed
      moreover have "\<exists>l < k. line l = Fin z" 
        using x(2,3) y Suc.prems(2) by (cases "z = y") (auto simp: z_def intro: exI [of _ i])
      ultimately show ?thesis by blast
    qed
  qed simp
  from this [of k] assms(2) show ?thesis by (auto simp: line_min_def)
qed

lemma reduced_small:
  assumes "\<forall>j < k. small64 (line j)" "i < k"
  shows "small64 (reduced k line i)"
proof -
  obtain x j where x: "line_min k line = Fin x" "j < k" "line j = Fin x" "0 < x \<longrightarrow> (\<forall>j < k. \<not> f32_less (line j) (Fin x))"
    using line_min_small [OF assms(1)] assms(2) by auto
  from assms obtain q where q: "line i = Fin q" "rep64 q" "0 \<le> q" "q < 100000" by (auto simp: small64_def)
  show ?thesis
  proof (cases "0 < x")
    case True
    then have xq: "x \<le> q" using x(4) assms(2) q(1) by fastforce
    have "q < 2 ^ 1024" using q(4) by (rule less_trans) simp
    from f64_sub_finite [OF q(2) less_imp_le [OF True] xq this] obtain y where
      y: "f64_sub (Fin q) (Fin x) = Fin y" "0 \<le> y" "y \<le> q" by blast
    have "nonneg64 (f64_sub (Fin q) (Fin x))" using q(2,3) xq by (intro f64_sub_nonneg) simp_all
    then show ?thesis using y q True by (simp add: reduced_def x(1) Let_def small64_def)
  next
    case False
    then show ?thesis using assms by (simp add: reduced_def x(1) Let_def)
  qed
qed

lemma MinimizeAlongDirection_small: "all_small n n m \<Longrightarrow> all_small n n (MinimizeAlongDirection over_columns m)"
  by (auto simp: all_small_def MinimizeAlongDirection_def intro!: reduced_small)

lemma prepared_small:
  "all_small rows columns m \<Longrightarrow> 0 < rows \<Longrightarrow> 0 < columns \<Longrightarrow> all_small (max rows columns) (max rows columns) (prepared m)"
  unfolding prepared_def by (intro MinimizeAlongDirection_small ReplaceInfinites_small squared_small)

text \<open>The cost matrices the solver is made for: rectangular, not empty, costs in \<open>[0, 100000)\<close>.\<close>

definition bounded_costs :: "f32 list list \<Rightarrow> bool" where
  "bounded_costs costs \<longleftrightarrow> costs \<noteq> [] \<and> hd costs \<noteq> [] \<and>
     list_all (\<lambda>row. length row = length (hd costs) \<and>
       list_all (\<lambda>x. case x of Fin q \<Rightarrow> rnd32 q = x \<and> 0 \<le> q \<and> q < 100000 | _ \<Rightarrow> False) row) costs"

lemma bounded_costs_small:
  assumes "bounded_costs costs"
  shows "all_small (length costs) (length (hd costs)) (matrix_of costs)" "0 < length costs" "0 < length (hd costs)"
proof -
  show "0 < length costs" "0 < length (hd costs)" using assms by (simp_all add: bounded_costs_def)
  have "small64 (costs ! r ! c)" if "r < length costs" "c < length (hd costs)" for r c
  proof -
    from assms that have "case costs ! r ! c of Fin q \<Rightarrow> rnd32 q = costs ! r ! c \<and> 0 \<le> q \<and> q < 100000 | _ \<Rightarrow> False"
      by (simp add: bounded_costs_def list_all_length)
    then show ?thesis by (cases "costs ! r ! c") (auto simp: small64_def intro: rnd32_rep64)
  qed
  then show "all_small (length costs) (length (hd costs)) (matrix_of costs)" by (simp add: all_small_def matrix_of_def)
qed

lemma small_costs_terminate:
  assumes "all_small (length costs) (length (hd costs)) (matrix_of costs)" "0 < length costs" "0 < length (hd costs)"
  obtains ps where "HungarianOper_Solve costs = Some ps"
proof -
  define m n where "m = matrix_of costs" and "n = max (length costs) (length (hd costs))"
  have size: "max (m_rows m) (m_columns m) = n" by (simp add: m_def n_def matrix_of_def)
  have "all_small n n (prepared m)" using prepared_small [OF assms] by (simp add: m_def n_def)
  moreover have "mu_matrix (munkres_start m) = prepared m" by (simp add: munkres_start_def Let_def)
  ultimately have "values_ok n (munkres_start m)" by (simp add: values_ok_def all_small_def small64_nonneg)
  moreover have "mu_step (munkres_start m) = 1" by (simp add: munkres_start_def Let_def)
  ultimately have "solver_ok n (munkres_start m)" using munkres_start_ok [of m] by (simp add: solver_ok_def size)
  from munkres_terminates [OF this] have "munkres_Solve m \<noteq> None" using munkres_Solve_None [of m] by auto
  then show thesis using that by (auto simp: HungarianOper_Solve_def m_def)
qed

lemma HungarianOper_terminates:
  assumes "bounded_costs costs"
  obtains ps where "HungarianOper_Solve costs = Some ps"
  using small_costs_terminate [OF bounded_costs_small [OF assms]] by blast

section \<open>Outside these costs\<close>

text \<open>A single cost that is NaN is never a zero, and nothing that is subtracted changes it: the loop does not end.\<close>

definition nan_state :: "Munkres \<Rightarrow> bool" where
  "nan_state s \<longleftrightarrow> sized 1 s \<and> m_at (mu_matrix s) 0 0 = NaN \<and> m_at (mu_mask s) 0 0 = NORMAL \<and> mu_step s \<in> {1, 2, 3, 5}"

lemma f64_add_NaN: "f64_add NaN x = NaN" "f64_sub NaN x = NaN"
  by (cases x; simp add: f64_sub_def)+

lemma nan_state_step:
  assumes "nan_state s"
  shows "nan_state (munkres_step s)"
proof -
  have sz: "sized 1 s" and nan: "m_at (mu_matrix s) 0 0 = NaN" and mark: "m_at (mu_mask s) 0 0 = NORMAL" and step: "mu_step s \<in> {1, 2, 3, 5}"
    using assms by (simp_all add: nan_state_def)
  have size: "m_rows (mu_matrix s) = 1" "m_columns (mu_matrix s) = 1" using sz by (simp_all add: sized_def)
  have cells: "cells (Suc 0) (Suc 0) = [(0, 0)]" by (simp add: cells_def)
  have none: "FindUncoveredInMatrix (Fin 0) s = None" using nan by (simp add: FindUncovered_None [OF sz])
  have "star_row (mu_matrix s) 0 (mu_mask s) = mu_mask s" using nan by (simp add: star_row_def size)
  then have 1: "Step1 s = s\<lparr>mu_step := 2\<rparr>" by (simp add: Step1_def size)
  have 2: "mu_matrix (Step2 s) = mu_matrix s" "mu_mask (Step2 s) = mu_mask s" "mu_step (Step2 s) = 3"
    by (simp_all add: Step2_def Let_def size cells mark minsize_def)
  note 3 = Step3_None [OF none]
  have 5: "m_at (mu_matrix (Step5 s)) 0 0 = NaN" by (simp add: Step5_at nan f64_add_NaN Let_def)
  from step consider "munkres_step s = Step1 s" | "munkres_step s = Step2 s" | "munkres_step s = Step3 s" | "munkres_step s = Step5 s"
    by (auto simp: munkres_step_def)
  then show ?thesis
  proof cases
    case 1
    then show ?thesis using sz nan mark by (simp add: \<open>Step1 s = _\<close> nan_state_def sized_def)
  next
    case 2
    then show ?thesis using sz nan mark by (simp add: nan_state_def sized_def \<open>mu_matrix (Step2 s) = _\<close> \<open>mu_mask (Step2 s) = _\<close> \<open>mu_step (Step2 s) = _\<close>)
  next
    case 3
    then show ?thesis using sz nan mark by (simp add: \<open>Step3 s = _\<close> nan_state_def sized_def)
  next
    case 4
    then show ?thesis using sz mark 5 by (simp add: nan_state_def Step5_same)
  qed
qed

lemma nan_cost_hangs: "HungarianOper_Solve [[NaN]] = None"
proof (rule ccontr)
  define m where "m = matrix_of [[NaN]]"
  assume "HungarianOper_Solve [[NaN]] \<noteq> None"
  then obtain s where s: "while_option (\<lambda>s. mu_step s \<noteq> 0) munkres_step (munkres_start m) = Some s"
    using munkres_Solve_None [of m] by (auto simp: HungarianOper_Solve_def m_def)
  have "m_at (prepared m) 0 0 = NaN"
    by (simp add: m_def matrix_of_def prepared_def squared_def ReplaceInfinites_def MinimizeAlongDirection_def reduced_def line_min_def Let_def)
  then have "nan_state (munkres_start m)"
    using munkres_start_ok [of m] by (simp add: nan_state_def marks_ok_def munkres_start_def Let_def m_def matrix_of_def)
  from while_option_rule [OF nan_state_step s this] have "nan_state s" by simp
  then show False using while_option_stop [OF s] by (auto simp: nan_state_def)
qed

end
