(* ===== verification/ByteTrackProofs.thy ===== *)
theory ByteTrackProofs
  imports ByteTrack MunkresTermination
begin

text \<open>
  What ByteTrack guarantees, for any filter, about a frame whose assignments are solved: it offers every live track and every
  detection of high confidence to exactly one of the ways it can go; the ids of the tracks are different as long as the counter has not
  gone round; and the list the adapter keeps holds exactly the confirmed tracks that were seen within the last four frames.
\<close>

section \<open>Assignment\<close>

lemma complete_assignmentD:
  assumes "complete_assignment rows columns ps"
  shows "distinct (map fst ps)" "distinct (map snd ps)" "p \<in> set ps \<Longrightarrow> fst p < rows" "p \<in> set ps \<Longrightarrow> snd p < columns"
  using assms by (auto simp: complete_assignment_def)

lemma mset_map_filters: "mset (map g (filter P ys)) + mset (map g (filter (\<lambda>y. \<not> P y) ys)) = mset (map g ys)"
  by (induction ys) auto

lemma assignment_partition:
  assumes "distinct (map f ps)" "\<And>p. p \<in> set ps \<Longrightarrow> f p < length xs"
  shows "mset (map (\<lambda>p. xs ! f p) (filter P ps) @ map ((!) xs) (filter (\<lambda>i. i \<notin> f ` set ps) [0..<length xs]) @
      map (\<lambda>p. xs ! f p) (filter (\<lambda>p. \<not> P p) ps)) = mset xs"
proof -
  let ?used = "\<lambda>i. i \<in> f ` set ps"
  have "mset (filter ?used [0..<length xs]) = mset (map f ps)"
    using assms by (subst set_eq_iff_mset_eq_distinct [symmetric]) auto
  then have "mset (map ((!) xs) (filter ?used [0..<length xs])) = mset (map ((!) xs) (map f ps))"
    by (simp only: mset_map)
  also have "\<dots> = mset (map (\<lambda>p. xs ! f p) (filter P ps)) + mset (map (\<lambda>p. xs ! f p) (filter (\<lambda>p. \<not> P p) ps))"
    unfolding mset_map_filters by (simp only: map_map comp_def)
  finally show ?thesis
    using mset_map_filters [of "(!) xs" ?used "[0..<length xs]"] by (simp only: map_nth mset_append ac_simps)
qed

lemma gate_costs_shape:
  "length (gate_costs m tracks dets ts ds (CalculateIouCostMatrix tracks dets ts ds)) = length ts"
  "i < length ts \<Longrightarrow> length (gate_costs m tracks dets ts ds (CalculateIouCostMatrix tracks dets ts ds) ! i) = length ds"
  by (simp_all add: gate_costs_def CalculateIouCostMatrix_def)

abbreviation frame_costs :: "f32 \<Rightarrow> 'k Track list \<Rightarrow> DetectionRow list \<Rightarrow> nat list \<Rightarrow> nat list \<Rightarrow> f32 list list" where
  "frame_costs m tracks dets ts ds \<equiv> gate_costs m tracks dets ts ds (CalculateIouCostMatrix tracks dets ts ds)"

text \<open>The pairs behind a result: none if a side is empty, else those of the solver.\<close>

lemma matching_pairs:
  assumes "DoMinCostMatching m tracks dets ts ds = Some res"
  obtains ps where "complete_assignment (length ts) (length ds) ps" "res = matching_result m (frame_costs m tracks dets ts ds) ts ds ps"
proof (cases "ds = [] \<or> ts = []")
  case True
  then have "res = matching_result m (frame_costs m tracks dets ts ds) ts ds []"
    using assms by (auto simp: DoMinCostMatching_def matching_result_def Let_def map_nth)
  moreover have "complete_assignment (length ts) (length ds) []" using True by (auto simp: complete_assignment_def)
  ultimately show thesis using that by blast
next
  case False
  then obtain ps where ps: "HungarianOper_Solve (frame_costs m tracks dets ts ds) = Some ps"
    "res = matching_result m (frame_costs m tracks dets ts ds) ts ds ps" using assms by (auto simp: DoMinCostMatching_def Let_def)
  have "hd (frame_costs m tracks dets ts ds) = frame_costs m tracks dets ts ds ! 0"
    using False by (intro hd_conv_nth) (auto simp: gate_costs_def CalculateIouCostMatrix_def)
  then have "length (hd (frame_costs m tracks dets ts ds)) = length ds" using False by (simp add: gate_costs_shape)
  with HungarianOper_complete [OF ps(1)] show thesis using that ps(2) by (simp add: gate_costs_shape)
qed

lemma matching_partition:
  assumes "DoMinCostMatching m tracks dets ts ds = Some res"
  shows "mset (map fst (mr_matches res) @ mr_unmatched_tracks res) = mset ts"
    and "mset (map snd (mr_matches res) @ mr_unmatched_detections res) = mset ds"
proof -
  define costs where "costs = frame_costs m tracks dets ts ds"
  from matching_pairs [OF assms, folded costs_def] obtain ps where
    ps: "complete_assignment (length ts) (length ds) ps" and res: "res = matching_result m costs ts ds ps" by blast
  note b = complete_assignmentD [OF ps]
  note parts = assignment_partition [OF b(1) b(3), of "\<lambda>p. \<not> f32_less m (costs ! fst p ! snd p)"]
    assignment_partition [OF b(2) b(4), of "\<lambda>p. \<not> f32_less m (costs ! fst p ! snd p)"]
  show "mset (map fst (mr_matches res) @ mr_unmatched_tracks res) = mset ts"
    using parts(1) by (simp add: res matching_result_def Let_def case_prod_beta' image_mset.compositionality comp_def)
  show "mset (map snd (mr_matches res) @ mr_unmatched_detections res) = mset ds"
    using parts(2) by (simp add: res matching_result_def Let_def case_prod_beta' image_mset.compositionality comp_def)
qed

text \<open>A pair of different classes is over the limit, so it is never a match.\<close>

lemma gated_above:
  assumes "IsInRange m (Fin 0) (Fin 1)"
  shows "f32_less m (gated m)"
proof -
  from assms obtain r where r: "m = Fin r" "0 < r" "r < 1" by (cases m) (auto simp: IsInRange_def)
  have near: "\<bar>rnd64 x - x\<bar> \<le> 1 / 10000000" if "\<bar>x\<bar> \<le> 2" for x
    using rnd64_error [OF that] by (rule order_trans) simp
  define e where "e = rnd64 (1 / 100000)"
  have e: "9 / 1000000 \<le> e" "e \<le> 11 / 1000000" using near [of "1 / 100000"] unfolding e_def by linarith+
  define d where "d = rnd64 (r + e)"
  have d: "r + 8 / 1000000 \<le> d" "d \<le> 2" using near [of "r + e"] e r unfolding d_def by linarith+
  have "pow2 (-126) \<le> pow2 1" by (rule pow2_mono) simp
  then obtain y where y: "rnd32 d = Fin y" "\<bar>y - d\<bar> \<le> 2 / 2 ^ 24"
    using rnd32_error [of d 2] d r by (auto simp: pow2_def [of 1])
  have "(2 :: rat) / 2 ^ 24 \<le> 1 / 1000000" by simp
  with y(2) d(1) have "r < y" by linarith
  then show ?thesis by (simp add: r(1) y(1) e_def [symmetric] d_def [symmetric])
qed

lemma matches_same_class:
  assumes "DoMinCostMatching m tracks dets ts ds = Some res" "IsInRange m (Fin 0) (Fin 1)" "(t, d) \<in> set (mr_matches res)"
  shows "tr_type (tracks ! t) = JudgeObjectType (dr_type (dets ! d))"
proof (rule ccontr)
  assume other: "tr_type (tracks ! t) \<noteq> JudgeObjectType (dr_type (dets ! d))"
  define costs where "costs = frame_costs m tracks dets ts ds"
  from matching_pairs [OF assms(1), folded costs_def] obtain ps where
    ps: "complete_assignment (length ts) (length ds) ps" and res: "res = matching_result m costs ts ds ps" by blast
  from assms(3) obtain row col where p: "(row, col) \<in> set ps" "t = ts ! row" "d = ds ! col" "\<not> f32_less m (costs ! row ! col)"
    by (auto simp: res matching_result_def Let_def)
  have "row < length ts" "col < length ds" using complete_assignmentD(3,4) [OF ps p(1)] by simp_all
  with other p(2,3) have "costs ! row ! col = gated m"
    by (simp add: costs_def gate_costs_def CalculateIouCostMatrix_def)
  with p(4) gated_above [OF assms(2)] show False by simp
qed

text \<open>The two rounds together.\<close>

definition high_detections :: "byte_tracker_params \<Rightarrow> DetectionRow list \<Rightarrow> nat list" where
  "high_detections params ds = filter (\<lambda>i. f32_ge (dr_confidence (ds ! i)) (bp_min_thresh params)) [0..<length ds]"

definition live_tracks :: "'k ByteTracker \<Rightarrow> nat list" where
  "live_tracks b = filter (\<lambda>i. \<not> IsDeleted (bt_tracks b ! i)) [0..<length (bt_tracks b)]"

lemma bt_Match_rounds:
  assumes "bt_Match ds b = Some res"
  defines "m \<equiv> bp_max_iou_distance (bt_params b)"
    and "low \<equiv> filter (\<lambda>i. \<not> f32_ge (dr_confidence (ds ! i)) (bp_min_thresh (bt_params b))) [0..<length ds]"
  obtains A B where "DoMinCostMatching m (bt_tracks b) ds (live_tracks b) (high_detections (bt_params b) ds) = Some A"
    "DoMinCostMatching m (bt_tracks b) ds (filter (\<lambda>i. IsConfirmed (bt_tracks b ! i)) (mr_unmatched_tracks A)) low = Some B"
    "mr_matches res = mr_matches A @ mr_matches B" "mr_unmatched_detections res = mr_unmatched_detections A"
    "mr_unmatched_tracks res = filter (\<lambda>i. \<not> IsConfirmed (bt_tracks b ! i)) (mr_unmatched_tracks A) @ mr_unmatched_tracks B"
  using assms(1) unfolding bt_Match_def Let_def live_tracks_def [symmetric] high_detections_def [symmetric] low_def [symmetric] m_def [symmetric]
  by (auto split: option.splits)

lemma match_tracks_partition:
  assumes "bt_Match ds b = Some res"
  shows "mset (map fst (mr_matches res) @ mr_unmatched_tracks res) = mset (live_tracks b)"
proof -
  from bt_Match_rounds [OF assms] obtain A B where
    A: "DoMinCostMatching (bp_max_iou_distance (bt_params b)) (bt_tracks b) ds (live_tracks b) (high_detections (bt_params b) ds) = Some A" and
    B: "DoMinCostMatching (bp_max_iou_distance (bt_params b)) (bt_tracks b) ds
      (filter (\<lambda>i. IsConfirmed (bt_tracks b ! i)) (mr_unmatched_tracks A))
      (filter (\<lambda>i. \<not> f32_ge (dr_confidence (ds ! i)) (bp_min_thresh (bt_params b))) [0..<length ds]) = Some B" and
    res: "mr_matches res = mr_matches A @ mr_matches B"
      "mr_unmatched_tracks res = filter (\<lambda>i. \<not> IsConfirmed (bt_tracks b ! i)) (mr_unmatched_tracks A) @ mr_unmatched_tracks B" by metis
  have "mset (map fst (mr_matches B) @ mr_unmatched_tracks B) + mset (filter (\<lambda>i. \<not> IsConfirmed (bt_tracks b ! i)) (mr_unmatched_tracks A)) =
      mset (mr_unmatched_tracks A)"
    unfolding matching_partition(1) [OF B] by simp
  then show ?thesis using matching_partition(1) [OF A] by (simp add: res ac_simps)
qed

lemma match_detections_partition:
  assumes "bt_Match ds b = Some res"
  shows "\<exists>low. set low \<subseteq> {..<length ds} - set (high_detections (bt_params b) ds) \<and> distinct low \<and>
    mset (map snd (mr_matches res) @ mr_unmatched_detections res) = mset (high_detections (bt_params b) ds @ low)"
proof -
  define high where "high = high_detections (bt_params b) ds"
  define low where "low = filter (\<lambda>i. \<not> f32_ge (dr_confidence (ds ! i)) (bp_min_thresh (bt_params b))) [0..<length ds]"
  from bt_Match_rounds [OF assms, folded low_def high_def] obtain A B where
    A: "DoMinCostMatching (bp_max_iou_distance (bt_params b)) (bt_tracks b) ds (live_tracks b) high = Some A" and
    B: "DoMinCostMatching (bp_max_iou_distance (bt_params b)) (bt_tracks b) ds
      (filter (\<lambda>i. IsConfirmed (bt_tracks b ! i)) (mr_unmatched_tracks A)) low = Some B" and
    res: "mr_matches res = mr_matches A @ mr_matches B" "mr_unmatched_detections res = mr_unmatched_detections A" by metis
  note parts = matching_partition(2) [OF A] matching_partition(2) [OF B]
  have "distinct low" "set low \<subseteq> {..<length ds} - set high"
    by (simp add: low_def) (auto simp: low_def high_def high_detections_def)
  then have "distinct (map snd (mr_matches B))" "set (map snd (mr_matches B)) \<subseteq> {..<length ds} - set high"
    using mset_eq_imp_distinct_iff [OF parts(2)] mset_eq_setD [OF parts(2)] by auto
  moreover have "mset (map snd (mr_matches res) @ mr_unmatched_detections res) = mset (high @ map snd (mr_matches B))"
    using parts(1) by (simp add: res ac_simps)
  ultimately show ?thesis unfolding high_def by blast
qed

lemma high_detections_props:
  "distinct (high_detections params ds)" "set (high_detections params ds) \<subseteq> {..<length ds}"
  by (auto simp: high_detections_def)

lemma match_detections_once:
  assumes "bt_Match ds b = Some res"
  shows "distinct (map snd (mr_matches res) @ mr_unmatched_detections res)"
    and "set (map snd (mr_matches res) @ mr_unmatched_detections res) \<subseteq> {..<length ds}"
    and "set (high_detections (bt_params b) ds) \<subseteq> set (map snd (mr_matches res) @ mr_unmatched_detections res)"
proof -
  from match_detections_partition [OF assms] obtain low where
    low: "set low \<subseteq> {..<length ds} - set (high_detections (bt_params b) ds)" "distinct low"
    "mset (map snd (mr_matches res) @ mr_unmatched_detections res) = mset (high_detections (bt_params b) ds @ low)" by blast
  have "distinct (high_detections (bt_params b) ds @ low)"
    using low(1,2) high_detections_props(1) by auto
  with mset_eq_imp_distinct_iff [OF low(3)]
  show "distinct (map snd (mr_matches res) @ mr_unmatched_detections res)" by blast
  show "set (map snd (mr_matches res) @ mr_unmatched_detections res) \<subseteq> {..<length ds}"
    "set (high_detections (bt_params b) ds) \<subseteq> set (map snd (mr_matches res) @ mr_unmatched_detections res)"
    unfolding mset_eq_setD [OF low(3)] using low(1) high_detections_props(2) [of "bt_params b" ds] by auto
qed

lemma unmatched_detections_few:
  assumes "bt_Match ds b = Some res"
  shows "length (mr_unmatched_detections res) \<le> length ds"
proof -
  have "distinct (mr_unmatched_detections res)" "set (mr_unmatched_detections res) \<subseteq> {..<length ds}"
    using match_detections_once(1,2) [OF assms] by auto
  then show ?thesis using card_mono [of "{..<length ds}" "set (mr_unmatched_detections res)"] by (simp add: distinct_card)
qed

section \<open>What a frame does to the tracks\<close>

text \<open>A track keeps its id, and once confirmed it stays so until it is deleted.\<close>

definition kept :: "'k Track \<Rightarrow> 'k Track \<Rightarrow> bool" where
  "kept t t' \<longleftrightarrow> tr_track_id t' = tr_track_id t \<and> (IsConfirmed t \<longrightarrow> IsConfirmed t' \<or> IsDeleted t') \<and> (IsDeleted t \<longrightarrow> IsDeleted t')"

lemma kept_refl: "kept t t"
  by (simp add: kept_def)

lemma kept_trans: "kept a b \<Longrightarrow> kept b c \<Longrightarrow> kept a c"
  by (auto simp: kept_def)

lemma kept_steps: "kept t (tr_Predict lib t)" "kept t (tr_Update lib d t)" "kept t (MarkMissed t)"
  by (auto simp: kept_def tr_Predict_def tr_Update_def MarkMissed_def IsConfirmed_def IsDeleted_def Let_def)

lemma kept_fold:
  assumes "\<And>x t. kept t (g x t)"
  shows "list_all2 kept ts (fold (\<lambda>x ts. ts[k x := g x (ts ! k x)]) xs ts)"
proof (induction xs arbitrary: ts)
  case Nil
  then show ?case by (simp add: list.rel_refl kept_refl)
next
  case (Cons x xs)
  have "list_all2 kept ts (ts[k x := g x (ts ! k x)])"
    by (cases "k x < length ts") (auto simp: list_all2_conv_all_nth nth_list_update kept_refl assms)
  with Cons.IH show ?case by (auto intro: list_all2_trans [of kept kept kept, OF kept_trans])
qed

lemma kept_ids: "list_all2 kept ts ts' \<Longrightarrow> map tr_track_id ts' = map tr_track_id ts"
  by (induction rule: list_all2_induct) (simp_all add: kept_def)

section \<open>The ids\<close>

text \<open>After \<open>n\<close> tracks have been created.\<close>

definition ids_ok :: "nat \<Rightarrow> 'k ByteTracker \<Rightarrow> bool" where
  "ids_ok n b \<longleftrightarrow> sorted_wrt (<) (map tr_track_id (bt_tracks b)) \<and>
     (\<forall>t \<in> set (bt_tracks b). 1 \<le> tr_track_id t \<and> tr_track_id t \<le> int n) \<and> bt_next_idx b = of_nat (n mod 65533 + 1) \<and> n \<le> 65533"

lemma next_idx_step:
  assumes "n < 65533"
  shows "(of_nat (n mod 65533 + 1) :: u32) mod MAX_OBJECT_ID + 1 = of_nat (Suc n mod 65533 + 1)"
    and "sint (of_nat (n mod 65533 + 1) :: u32) = int (Suc n)"
proof -
  have unat: "unat (of_nat (Suc n) :: u32) = Suc n" using assms by (simp add: unat_of_nat take_bit_nat_eq_self del: of_nat_Suc)
  then have "unat ((of_nat (Suc n) :: u32) mod MAX_OBJECT_ID) = Suc n mod 65533"
    by (simp add: unat_mod_distrib MAX_OBJECT_ID_def del: of_nat_Suc)
  then have "(of_nat (Suc n) :: u32) mod MAX_OBJECT_ID = of_nat (Suc n mod 65533)"
    by (metis of_nat_unat ucast_id)
  then show "(of_nat (n mod 65533 + 1) :: u32) mod MAX_OBJECT_ID + 1 = of_nat (Suc n mod 65533 + 1)"
    using assms by simp
  show "sint (of_nat (n mod 65533 + 1) :: u32) = int (Suc n)"
    using assms by (simp add: sint_uint uint_nat unat signed_take_bit_int_eq_self del: of_nat_Suc of_nat_unat)
qed

text \<open>After 65533 tracks the next one gets the id of the first again, whether or not that track is still alive.\<close>

lemma ids_come_round: "((\<lambda>i. i mod MAX_OBJECT_ID + 1) ^^ 65533) (1 :: u32) = 1"
proof -
  have "((\<lambda>i. i mod MAX_OBJECT_ID + 1) ^^ n) (1 :: u32) = of_nat (n mod 65533 + 1)" if "n \<le> 65533" for n
    using that
  proof (induction n)
    case (Suc n)
    then show ?case using next_idx_step(1) [of n] by (simp only: funpow.simps comp_def)
  qed simp
  from this [of 65533] show ?thesis by simp
qed

lemma ids_ok_init:
  assumes "ids_ok n b" "n < 65533"
  shows "ids_ok (Suc n) (bt_InitTrack lib d b)"
  using assms next_idx_step [OF assms(2)]
  by (auto simp: ids_ok_def bt_InitTrack_def sorted_wrt_append new_Track_def intro: order_trans)

lemma init_fold:
  assumes "ids_ok n b" "n + length ds \<le> 65533"
  shows "\<exists>n' ts. ids_ok n' (fold (\<lambda>d b. if is_init (bt_params b) (f d) then bt_InitTrack lib (f d) b else b) ds b) \<and>
    n' \<le> n + length ds \<and>
    bt_tracks (fold (\<lambda>d b. if is_init (bt_params b) (f d) then bt_InitTrack lib (f d) b else b) ds b) = bt_tracks b @ ts"
  using assms
proof (induction ds arbitrary: n b)
  case Nil
  then show ?case by auto
next
  case (Cons d ds)
  show ?case
  proof (cases "is_init (bt_params b) (f d)")
    case True
    from Cons.IH [OF ids_ok_init [OF Cons.prems(1)], of lib "f d"] Cons.prems(2) True show ?thesis
      by (fastforce simp: bt_InitTrack_def)
  next
    case False
    from Cons.IH [OF Cons.prems(1)] Cons.prems(2) False show ?thesis by fastforce
  qed
qed

lemma ids_ok_same:
  assumes "ids_ok n b" "map tr_track_id ts = map tr_track_id (bt_tracks b)"
  shows "ids_ok n (b\<lparr>bt_tracks := ts\<rparr>)"
proof -
  have "tr_track_id ` set ts = tr_track_id ` set (bt_tracks b)" using assms(2) by (metis list.set_map)
  then have "\<forall>t \<in> set ts. 1 \<le> tr_track_id t \<and> tr_track_id t \<le> int n"
    using assms(1) unfolding ids_ok_def by (metis (no_types, lifting) image_iff)
  with assms show ?thesis by (simp add: ids_ok_def)
qed

lemma ids_ok_filter: "ids_ok n b \<Longrightarrow> ids_ok n (b\<lparr>bt_tracks := filter P (bt_tracks b)\<rparr>)"
  by (auto simp: ids_ok_def sorted_wrt_map sorted_wrt_filter)

lemma ids_ok_distinct: "ids_ok n b \<Longrightarrow> distinct (map tr_track_id (bt_tracks b))"
  by (simp add: ids_ok_def strict_sorted_iff)

section \<open>The list of the adapter\<close>

abbreviation node_id :: "TrackNode \<Rightarrow> int" where
  "node_id n \<equiv> sint (tn_id n)"

definition reported :: "'k Track \<Rightarrow> bool" where
  "reported t \<longleftrightarrow> IsConfirmed t \<and> tr_time_since_update t < TIME_SINCE_UPDATE"

text \<open>What is reported of a track: its id, and the box and the class of the last detection it got.\<close>

definition node_of :: "'k Track \<Rightarrow> TrackNode" where
  "node_of t = (let b = dr_ToCxymax (tr_latest_detection t)
     in \<lparr>tn_cx = bb_0 b, tn_ymax = bb_1 b, tn_w = bb_2 b, tn_h = bb_3 b, tn_type = dr_type (tr_latest_detection t),
         tn_id = word_of_int (tr_track_id t), tn_deleted = False\<rparr>)"

definition id_range :: "'k Track \<Rightarrow> bool" where
  "id_range t \<longleftrightarrow> 1 \<le> tr_track_id t \<and> tr_track_id t \<le> 65533"

lemma node_id_of: "id_range t \<Longrightarrow> node_id (node_of t) = tr_track_id t"
  by (simp add: node_of_def id_range_def Let_def sint_uint uint_word_of_int take_bit_int_eq_self signed_take_bit_int_eq_self)

lemma InitTrackNode_reported:
  "reported t \<Longrightarrow> snd (InitTrackNode lib t n) = (node_of t)\<lparr>tn_deleted := tn_deleted n\<rparr>"
  by (simp add: reported_def InitTrackNode_def node_of_def Let_def)

lemma change_first_map:
  "distinct (map node_id l) \<Longrightarrow> change_first i f l =
     (if i \<in> node_id ` set l then Some (map (\<lambda>n. if node_id n = i then f n else n) l) else None)"
proof (induction l)
  case Nil
  then show ?case by simp
next
  case (Cons n l)
  then have "map (\<lambda>n. if node_id n = i then f n else n) l = l" if "node_id n = i"
    using that by (intro map_idI) (auto simp: image_iff)
  with Cons show ?case by (auto simp: image_iff)
qed

definition refresh :: "'k byte_library \<Rightarrow> 'k Track \<Rightarrow> 'k Track" where
  "refresh lib t = (if reported t then fst (InitTrackNode lib t new_TrackNode) else t)"

lemma refresh_same [simp]:
  "tr_track_id (refresh lib t) = tr_track_id t" "tr_state (refresh lib t) = tr_state t"
  "node_of (refresh lib t) = node_of t" "reported (refresh lib t) = reported t"
  by (simp_all add: refresh_def InitTrackNode_def node_of_def reported_def IsConfirmed_def Let_def)

lemma report_tracks_fst: "fst (report_tracks lib ts l) = map (refresh lib) ts"
proof (induction ts arbitrary: l)
  case (Cons t ts)
  have "fst (report_track lib t l) = refresh lib t"
    by (auto simp: report_track_def refresh_def reported_def split: option.splits prod.splits)
  with Cons show ?case by (simp add: case_prod_beta)
qed simp

abbreviation change_all :: "int \<Rightarrow> (TrackNode \<Rightarrow> TrackNode) \<Rightarrow> TrackNode list \<Rightarrow> TrackNode list" where
  "change_all i f l \<equiv> map (\<lambda>n. if node_id n = i then f n else n) l"

lemma change_all_keys:
  assumes "\<And>n. node_id n = i \<Longrightarrow> node_id (f n) = i"
  shows "map node_id (change_all i f l) = map node_id l"
  using assms by simp

lemma change_all_set:
  "m \<in> set (change_all i f l) \<longleftrightarrow> (\<exists>n \<in> set l. node_id n = i \<and> m = f n) \<or> m \<in> set l \<and> node_id m \<noteq> i"
  by auto

lemma change_all_idle: "i \<notin> node_id ` set l \<Longrightarrow> change_all i f l = l"
  by (intro map_idI) (auto simp: image_iff)

text \<open>One turn of the loop over the tracks.\<close>

lemma report_track_cases:
  assumes "distinct (map node_id l)" "report_track lib t l = (t', l')"
  obtains (out) "\<not> IsConfirmed t" "l' = l"
  | (old) "IsConfirmed t" "\<not> reported t" "l' = change_all (tr_track_id t) (\<lambda>n. n\<lparr>tn_deleted := True\<rparr>) l"
  | (update) "reported t" "tr_track_id t \<in> node_id ` set l"
      "l' = change_all (tr_track_id t) (\<lambda>n. (node_of t)\<lparr>tn_deleted := tn_deleted n\<rparr>) l"
  | (add) "reported t" "tr_track_id t \<notin> node_id ` set l" "l' = l @ [node_of t]"
proof -
  consider "\<not> IsConfirmed t" | "IsConfirmed t" "\<not> reported t" | "reported t" by blast
  then show ?thesis
  proof cases
    case 1
    with assms(2) out show ?thesis by (simp add: report_track_def)
  next
    case 2
    then have "l' = change_all (tr_track_id t) (\<lambda>n. n\<lparr>tn_deleted := True\<rparr>) l"
      using assms(2) change_all_idle [of "tr_track_id t" l]
      by (auto simp: report_track_def reported_def change_first_map [OF assms(1)] split: if_splits)
    with 2 old show ?thesis by blast
  next
    case 3
    have new: "(node_of t)\<lparr>tn_deleted := tn_deleted new_TrackNode\<rparr> = node_of t"
      by (simp add: node_of_def new_TrackNode_def Let_def)
    note step = assms(2) [unfolded report_track_def change_first_map [OF assms(1)] InitTrackNode_reported [OF 3] case_prod_beta]
    have c: "IsConfirmed t" "\<not> tr_time_since_update t \<ge> TIME_SINCE_UPDATE" using 3 by (simp_all add: reported_def)
    show ?thesis
    proof (cases "tr_track_id t \<in> node_id ` set l")
      case True
      with step c 3 update show ?thesis by simp
    next
      case False
      with step c 3 new add show ?thesis by simp
    qed
  qed
qed

lemma report_track_keys:
  assumes "distinct (map node_id l)" "id_range t" "report_track lib t l = (t', l')"
  shows "distinct (map node_id l')"
  using assms(1,3)
proof (cases rule: report_track_cases)
  case old
  have "map node_id l' = map node_id l" unfolding old(3) by (rule change_all_keys) simp
  then show ?thesis using assms(1) by simp
next
  case update
  have "node_id ((node_of t)\<lparr>tn_deleted := x\<rparr>) = tr_track_id t" for x using node_id_of [OF assms(2)] by simp
  then have "map node_id l' = map node_id l" unfolding update(3) by (rule change_all_keys)
  then show ?thesis using assms(1) by simp
next
  case add
  with assms(1) node_id_of [OF assms(2)] show ?thesis by simp
qed (use assms(1) in simp)

lemma report_track_others:
  assumes "distinct (map node_id l)" "id_range t" "report_track lib t l = (t', l')" "n \<in> set l'" "node_id n \<noteq> tr_track_id t"
  shows "n \<in> set l"
  using assms(1,3)
proof (cases rule: report_track_cases)
  case old
  from assms(4,5) show ?thesis unfolding old(3) change_all_set by auto
next
  case update
  have "node_id ((node_of t)\<lparr>tn_deleted := x\<rparr>) = tr_track_id t" for x using node_id_of [OF assms(2)] by simp
  with assms(4,5) show ?thesis unfolding update(3) change_all_set by metis
next
  case add
  with assms(4,5) node_id_of [OF assms(2)] show ?thesis by auto
qed (use assms(4) in simp)

lemma report_track_list:
  assumes "distinct (map node_id l)" "id_range t" "\<forall>n \<in> set l. node_id n = tr_track_id t \<longrightarrow> \<not> tn_deleted n"
    and "report_track lib t l = (t', l')"
  shows "n \<in> set l' \<and> \<not> tn_deleted n \<longleftrightarrow> reported t \<and> n = node_of t \<or>
      n \<in> set l \<and> \<not> tn_deleted n \<and> (IsConfirmed t \<longrightarrow> node_id n \<noteq> tr_track_id t)"
  using assms(1,4)
proof (cases rule: report_track_cases)
  case out
  then show ?thesis by (auto simp: reported_def)
next
  case old
  then show ?thesis unfolding old(3) change_all_set by auto
next
  case update
  have same: "(node_of t)\<lparr>tn_deleted := False\<rparr> = node_of t" "\<not> tn_deleted (node_of t)" by (simp_all add: node_of_def Let_def)
  obtain m where m: "m \<in> set l" "node_id m = tr_track_id t" using update(2) by auto
  have "(\<exists>k \<in> set l. node_id k = tr_track_id t \<and> n = (node_of t)\<lparr>tn_deleted := tn_deleted k\<rparr>) \<longleftrightarrow> n = node_of t"
    using assms(3) m same by (metis (full_types))
  moreover have "IsConfirmed t" using update(1) by (simp add: reported_def)
  ultimately show ?thesis unfolding update(3) change_all_set using update(1) same(2) by blast
next
  case add
  then have "IsConfirmed t" by (simp add: reported_def)
  moreover have "\<not> tn_deleted (node_of t)" by (simp add: node_of_def Let_def)
  moreover have "n \<in> set l \<Longrightarrow> node_id n \<noteq> tr_track_id t" using add(2) by (metis imageI)
  ultimately show ?thesis unfolding add(3) using add(1) by (simp only: set_append set_simps Un_iff insert_iff empty_iff) blast
qed

text \<open>The whole loop: what is left unmarked is what is reported, and what belongs to no confirmed track.\<close>

lemma report_tracks_list:
  assumes "distinct (map node_id l)" "distinct (map tr_track_id ts)" "\<forall>t \<in> set ts. id_range t"
    and "\<forall>n \<in> set l. node_id n \<in> tr_track_id ` set ts \<longrightarrow> \<not> tn_deleted n"
  shows "distinct (map node_id (snd (report_tracks lib ts l))) \<and>
    (\<forall>n. n \<in> set (snd (report_tracks lib ts l)) \<and> \<not> tn_deleted n \<longleftrightarrow> n \<in> node_of ` {t \<in> set ts. reported t} \<or>
      n \<in> set l \<and> \<not> tn_deleted n \<and> node_id n \<notin> tr_track_id ` {t \<in> set ts. IsConfirmed t})"
  using assms
proof (induction ts arbitrary: l)
  case Nil
  then show ?case by simp
next
  case (Cons t ts)
  obtain t' l1 where step: "report_track lib t l = (t', l1)" by (cases "report_track lib t l")
  have snd: "snd (report_tracks lib (t # ts) l) = snd (report_tracks lib ts l1)" by (simp add: step case_prod_beta)
  have range: "id_range t" using Cons.prems(3) by simp
  have live: "\<forall>n \<in> set l. node_id n = tr_track_id t \<longrightarrow> \<not> tn_deleted n" using Cons.prems(4) by simp
  note keys1 = report_track_keys [OF Cons.prems(1) range step]
  have fresh: "tr_track_id t \<notin> tr_track_id ` set ts" using Cons.prems(2) by simp
  have live1: "\<forall>n \<in> set l1. node_id n \<in> tr_track_id ` set ts \<longrightarrow> \<not> tn_deleted n"
  proof (intro ballI impI)
    fix n
    assume n: "n \<in> set l1" "node_id n \<in> tr_track_id ` set ts"
    then have "node_id n \<noteq> tr_track_id t" using fresh by metis
    from report_track_others [OF Cons.prems(1) range step n(1) this] n(2) Cons.prems(4) show "\<not> tn_deleted n" by simp
  qed
  have rest: "distinct (map tr_track_id ts)" "\<forall>t \<in> set ts. id_range t" using Cons.prems(2,3) by simp_all
  note IH = Cons.IH [OF keys1 rest live1]
  note one = report_track_list [OF Cons.prems(1) range live step]
  let ?confirmed = "tr_track_id ` {x \<in> set ts. IsConfirmed x}" and ?nodes = "node_of ` {x \<in> set ts. reported x}"
  have new: "node_id (node_of t) \<notin> ?confirmed" using fresh node_id_of [OF range] by auto
  have sets: "tr_track_id ` {x \<in> set (t # ts). IsConfirmed x} = (if IsConfirmed t then insert (tr_track_id t) ?confirmed else ?confirmed)"
    "node_of ` {x \<in> set (t # ts). reported x} = (if reported t then insert (node_of t) ?nodes else ?nodes)"
    by auto
  have "n \<in> set (snd (report_tracks lib ts l1)) \<and> \<not> tn_deleted n \<longleftrightarrow>
      n \<in> ?nodes \<or> (reported t \<and> n = node_of t \<or> n \<in> set l \<and> \<not> tn_deleted n \<and> (IsConfirmed t \<longrightarrow> node_id n \<noteq> tr_track_id t)) \<and>
        node_id n \<notin> ?confirmed" for n
    using IH one [of n] by blast
  then show ?case unfolding snd sets using IH new by (cases "reported t"; cases "IsConfirmed t") auto
qed

lemma mark_fold: "fold (\<lambda>t. mark_deleted (tr_track_id t)) ts l =
    map (\<lambda>n. if node_id n \<in> tr_track_id ` set ts then n\<lparr>tn_deleted := True\<rparr> else n) l"
proof (induction ts arbitrary: l)
  case (Cons t ts)
  show ?case unfolding fold_simps comp_def Cons.IH by (simp add: mark_deleted_def)
qed simp

section \<open>A frame\<close>

definition tracker_inv :: "nat \<Rightarrow> 'k ByteTracker \<Rightarrow> TrackNode list \<Rightarrow> bool" where
  "tracker_inv n b l \<longleftrightarrow> ids_ok n b \<and> (\<forall>t \<in> set (bt_tracks b). \<not> IsDeleted t) \<and>
     distinct (map node_id l) \<and> set l = node_of ` {t \<in> set (bt_tracks b). reported t}"

lemma update_tracks:
  assumes "bt_Match ds (bt_Predict lib b) = Some res" "ids_ok n b" "n + length ds \<le> 65533"
  shows "\<exists>n' full ms b'. bt_Update lib ds (bt_Predict lib b, l) =
      Some (b'\<lparr>bt_tracks := filter (\<lambda>t. \<not> IsDeleted t) full\<rparr>,
       fold (\<lambda>t. mark_deleted (tr_track_id t)) (filter IsDeleted full) l) \<and>
    bt_tracks b' = full \<and> ids_ok n' b' \<and> n' \<le> n + length ds \<and> prefix ms full \<and> list_all2 kept (bt_tracks b) ms"
proof -
  define p where "p = bt_Predict lib b"
  define matched where "matched = fold (\<lambda>(t, d) ts. ts[t := tr_Update lib (ds ! d) (ts ! t)]) (mr_matches res) (bt_tracks p)"
  define missed where "missed = fold (\<lambda>t ts. ts[t := MarkMissed (ts ! t)]) (mr_unmatched_tracks res) matched"
  have 1: "list_all2 kept (bt_tracks b) (bt_tracks p)"
    by (simp add: p_def bt_Predict_def list_all2_conv_all_nth kept_steps)
  have 2: "list_all2 kept (bt_tracks p) matched"
    unfolding matched_def case_prod_beta' by (rule kept_fold) (rule kept_steps)
  have 3: "list_all2 kept matched missed"
    unfolding missed_def by (rule kept_fold) (rule kept_steps)
  note trans = list_all2_trans [of kept kept kept, OF kept_trans]
  have ms: "list_all2 kept (bt_tracks b) missed" by (rule trans [OF _ _ trans [OF _ _ 1 2] 3])
  have "ids_ok n (b\<lparr>bt_tracks := missed\<rparr>)" by (rule ids_ok_same [OF assms(2) kept_ids [OF ms]])
  then have ids: "ids_ok n (p\<lparr>bt_tracks := missed\<rparr>)" by (simp add: p_def bt_Predict_def)
  define b' where "b' = fold (\<lambda>d b. if is_init (bt_params b) (ds ! d) then bt_InitTrack lib (ds ! d) b else b)
      (mr_unmatched_detections res) (p\<lparr>bt_tracks := missed\<rparr>)"
  have few: "length (mr_unmatched_detections res) \<le> length ds" by (rule unmatched_detections_few [OF assms(1)])
  then have "n + length (mr_unmatched_detections res) \<le> 65533" using assms(3) by linarith
  from init_fold [OF ids this, of "(!) ds" lib, folded b'_def] obtain n' ts where
    b': "ids_ok n' b'" "n' \<le> n + length (mr_unmatched_detections res)" "bt_tracks b' = missed @ ts" by auto
  have "apply_matches lib ds res (p, l) = (b'\<lparr>bt_tracks := filter (\<lambda>t. \<not> IsDeleted t) (bt_tracks b')\<rparr>,
      fold (\<lambda>t. mark_deleted (tr_track_id t)) (filter IsDeleted (bt_tracks b')) l)"
    unfolding apply_matches_def Let_def b'_def missed_def matched_def by (rule prod.case)
  then have "bt_Update lib ds (p, l) = Some (b'\<lparr>bt_tracks := filter (\<lambda>t. \<not> IsDeleted t) (bt_tracks b')\<rparr>,
      fold (\<lambda>t. mark_deleted (tr_track_id t)) (filter IsDeleted (bt_tracks b')) l)"
    using assms(1) by (simp add: bt_Update_def p_def)
  moreover have "prefix missed (bt_tracks b')" unfolding b'(3) by simp
  moreover have "n' \<le> n + length ds" using b'(2) few by linarith
  ultimately show ?thesis using b'(1) ms unfolding p_def by blast
qed

lemma ids_range: "ids_ok n b \<Longrightarrow> t \<in> set (bt_tracks b) \<Longrightarrow> id_range t"
  unfolding ids_ok_def id_range_def by force

lemma tracker_inv_ids:
  assumes "tracker_inv n b l" "k \<in> set l"
  shows "\<exists>t \<in> set (bt_tracks b). reported t \<and> k = node_of t \<and> node_id k = tr_track_id t"
proof -
  from assms obtain t where t: "t \<in> set (bt_tracks b)" "reported t" "k = node_of t" by (auto simp: tracker_inv_def)
  moreover have "id_range t" using ids_range t(1) assms(1) by (auto simp: tracker_inv_def)
  ultimately show ?thesis using node_id_of by blast
qed

lemma kept_confirmed:
  assumes "list_all2 kept ts ms" "t \<in> set ts" "IsConfirmed t"
  shows "\<exists>t' \<in> set ms. tr_track_id t' = tr_track_id t \<and> (IsConfirmed t' \<or> IsDeleted t')"
  using assms by (induction rule: list_all2_induct) (auto simp: kept_def)

text \<open>An entry that survives a frame without being reported belongs to no track at all, so there is none.\<close>

lemma process_inv:
  assumes "tracker_inv n b l" "n + length ds \<le> 65533" "bt_Process lib b ds timestamp l = Some (b2, l2)"
  shows "\<exists>n' \<le> n + length ds. tracker_inv n' b2 (clearDeletedTracks l2)"
proof -
  from assms(3) obtain res where res: "bt_Match ds (bt_Predict lib b) = Some res"
    by (auto simp: bt_Process_def bt_Update_def)
  from assms(1) have ids: "ids_ok n b" and keys: "distinct (map node_id l)" by (simp_all add: tracker_inv_def)
  from update_tracks [OF res ids assms(2), of l] obtain n' full ms b' where
    up: "bt_Update lib ds (bt_Predict lib b, l) = Some (b'\<lparr>bt_tracks := filter (\<lambda>t. \<not> IsDeleted t) full\<rparr>,
       fold (\<lambda>t. mark_deleted (tr_track_id t)) (filter IsDeleted full) l)"
    and full: "bt_tracks b' = full" "ids_ok n' b'" "n' \<le> n + length ds" "prefix ms full" "list_all2 kept (bt_tracks b) ms"
    by blast
  define ts where "ts = filter (\<lambda>t. \<not> IsDeleted t) full"
  define l1 where "l1 = fold (\<lambda>t. mark_deleted (tr_track_id t)) (filter IsDeleted full) l"
  have l1: "l1 = map (\<lambda>n. if node_id n \<in> tr_track_id ` {t \<in> set full. IsDeleted t} then n\<lparr>tn_deleted := True\<rparr> else n) l"
    unfolding l1_def mark_fold set_filter ..
  have ids': "distinct (map tr_track_id full)" using ids_ok_distinct [OF full(2)] full(1) by simp
  have keys1: "map node_id l1 = map node_id l" unfolding l1 by simp
  have b2: "b2 = b'\<lparr>bt_tracks := map (refresh lib) ts\<rparr>" and l2: "l2 = snd (report_tracks lib ts l1)"
    using assms(3) report_tracks_fst [of lib ts l1] by (simp_all add: bt_Process_def up ts_def l1_def case_prod_beta)
  have none: "\<not> tn_deleted k" if "k \<in> set l" for k
    using assms(1) that by (auto simp: tracker_inv_def node_of_def Let_def)
  have apart: "tr_track_id t \<noteq> tr_track_id t'" if "t \<in> set full" "t' \<in> set full" "\<not> IsDeleted t" "IsDeleted t'" for t t'
    using that ids' by (metis distinct_map inj_onD)
  have live: "\<forall>k \<in> set l1. node_id k \<in> tr_track_id ` set ts \<longrightarrow> \<not> tn_deleted k"
    using none by (auto simp: l1 ts_def dest: apart [THEN notE, rotated 4, OF sym])
  have "\<forall>t \<in> set ts. id_range t" using ids_range [OF full(2)] full(1) by (simp add: ts_def)
  moreover have "distinct (map tr_track_id ts)" using ids' by (simp add: ts_def distinct_map_filter)
  ultimately have rep: "distinct (map node_id l2)" "\<And>k. k \<in> set l2 \<and> \<not> tn_deleted k \<longleftrightarrow> k \<in> node_of ` {t \<in> set ts. reported t} \<or>
      k \<in> set l1 \<and> \<not> tn_deleted k \<and> node_id k \<notin> tr_track_id ` {t \<in> set ts. IsConfirmed t}"
    using report_tracks_list [OF keys [folded keys1] _ _ live, of lib] unfolding l2 by blast+
  have gone: "node_id k \<in> tr_track_id ` {t \<in> set ts. IsConfirmed t}" if "k \<in> set l1" "\<not> tn_deleted k" for k
  proof -
    from that have k: "k \<in> set l" "node_id k \<notin> tr_track_id ` {t \<in> set full. IsDeleted t}" by (auto simp: l1 split: if_splits)
    from tracker_inv_ids [OF assms(1) k(1)] obtain t where "t \<in> set (bt_tracks b)" "IsConfirmed t" "node_id k = tr_track_id t"
      unfolding reported_def by blast
    with kept_confirmed [OF full(5)] set_mono_prefix [OF full(4)] obtain t' where
      t': "t' \<in> set full" "node_id k = tr_track_id t'" "IsConfirmed t' \<or> IsDeleted t'" by (metis subsetD)
    with k(2) show ?thesis by (auto simp: ts_def IsConfirmed_def IsDeleted_def)
  qed
  have "set (clearDeletedTracks l2) = node_of ` {t \<in> set ts. reported t}"
    using rep(2) gone unfolding clearDeletedTracks_def set_filter by blast
  moreover have "{t \<in> set (map (refresh lib) ts). reported t} = refresh lib ` {t \<in> set ts. reported t}" by auto
  then have "node_of ` {t \<in> set (map (refresh lib) ts). reported t} = node_of ` {t \<in> set ts. reported t}"
    by (simp only: image_image refresh_same)
  moreover have "distinct (map node_id (clearDeletedTracks l2))"
    using rep(1) by (simp add: clearDeletedTracks_def distinct_map_filter)
  moreover have "ids_ok n' b2"
    using ids_ok_same [OF ids_ok_filter [OF full(2), of "\<lambda>t. \<not> IsDeleted t"], of "map (refresh lib) ts"]
    by (simp add: b2 ts_def full(1))
  ultimately show ?thesis using full(3)
    by (auto simp: tracker_inv_def b2 ts_def IsDeleted_def)
qed

section \<open>Runs of the adapter\<close>

datatype track_event = TrackFrame ma_tracker_frame_desc "ma_tracker_detection list" | TrackReset

fun ta_run :: "'b byte_tracker \<Rightarrow> track_event list \<Rightarrow> 'b TrackerHandle \<Rightarrow> 'b TrackerHandle option" where
  "ta_run lib [] h = Some h"
| "ta_run lib (TrackFrame desc ds # es) h =
     (case ta_process lib h desc ds of TrackExit \<Rightarrow> None | TrackHangs \<Rightarrow> None | TrackReturned r h' \<Rightarrow> ta_run lib es h')"
| "ta_run lib (TrackReset # es) h = ta_run lib es (ta_reset lib h)"

fun event_detections :: "track_event \<Rightarrow> nat" where
  "event_detections (TrackFrame desc ds) = length ds"
| "event_detections TrackReset = 0"

definition handle_inv :: "nat \<Rightarrow> 'k ByteTracker TrackerHandle \<Rightarrow> bool" where
  "handle_inv n h \<longleftrightarrow>
     (case th_tracker h of None \<Rightarrow> th_track_list h = [] | Some b \<Rightarrow> \<exists>k \<le> n. tracker_inv k b (th_track_list h))"

lemma byte_tracker_of_simps [simp]:
  "by_new (byte_tracker_of lib srt) = bt_new" "by_Process (byte_tracker_of lib srt) = bt_Process lib"
  "by_Release (byte_tracker_of lib srt) = bt_Release" "by_sort (byte_tracker_of lib srt) = srt"
  by (simp_all add: byte_tracker_of_def)

lemma tracker_inv_empty:
  "tracker_inv 0 (bt_new params) []" "tracker_inv 0 (bt_Release b) []"
  by (simp_all add: tracker_inv_def ids_ok_def bt_new_def bt_Release_def)

lemma handle_inv_reset: "handle_inv n (ta_reset (byte_tracker_of lib srt) h)"
  by (auto simp: handle_inv_def ta_reset_def tracker_inv_empty split: option.splits)

lemma handle_inv_mono: "handle_inv m h \<Longrightarrow> m \<le> n \<Longrightarrow> handle_inv n h"
  unfolding handle_inv_def by (cases "th_tracker h") (auto intro: le_trans)

lemma handle_inv_process:
  assumes "handle_inv n h" "n + length ds \<le> 65533"
    and "ta_process (byte_tracker_of lib srt) h desc ds = TrackReturned r h'"
  shows "handle_inv (n + length ds) h' \<and> th_config h' = th_config h"
proof (cases "isValidFrameDesc desc \<and> mc_enabled (th_config h) \<noteq> 0")
  case False
  with assms(3) have "h' = h" by (auto simp: ta_process_def split: if_splits)
  with handle_inv_mono [OF assms(1), of "n + length ds"] show ?thesis by simp
next
  case True
  let ?rows = "map (\<lambda>d. toByteTrackDetection d desc) ds"
  from True assms(3) obtain b h1 where made: "createTrackerIfNeeded (byte_tracker_of lib srt) desc h = Some (b, h1)"
    by (cases "createTrackerIfNeeded (byte_tracker_of lib srt) desc h") (auto simp: ta_process_def)
  obtain b2 l2 where run: "bt_Process lib b ?rows (word_of_int (md_timestamp_ms desc)) (th_track_list h1) = Some (b2, l2)"
    using True assms(3) by (cases "bt_Process lib b ?rows (word_of_int (md_timestamp_ms desc)) (th_track_list h1)")
      (auto simp: ta_process_def made)
  have h': "h' = h1\<lparr>th_tracker := Some b2, th_track_list := clearDeletedTracks l2\<rparr>"
    using assms(3) True by (simp add: ta_process_def made Let_def run)
  have "th_config h1 = th_config h \<and> (\<exists>k \<le> n. tracker_inv k b (th_track_list h1))"
    using made assms(1) tracker_inv_empty(1) [of "tracker_params (th_config h) desc"]
    by (auto simp: createTrackerIfNeeded_def handle_inv_def Let_def split: if_splits option.splits)
  then obtain k where k: "k \<le> n" "tracker_inv k b (th_track_list h1)" and cfg: "th_config h1 = th_config h" by blast
  have "k + length ?rows \<le> 65533" using k(1) assms(2) by simp
  from process_inv [OF k(2) this run] obtain n' where n': "n' \<le> k + length ds" "tracker_inv n' b2 (clearDeletedTracks l2)"
    by auto
  have "n' \<le> n + length ds" using n'(1) k(1) by linarith
  with n'(2) cfg show ?thesis by (auto simp: h' handle_inv_def)
qed

lemma handle_inv_run:
  "handle_inv n h \<Longrightarrow> n + sum_list (map event_detections es) \<le> 65533 \<Longrightarrow> ta_run (byte_tracker_of lib srt) es h = Some h' \<Longrightarrow>
    handle_inv (n + sum_list (map event_detections es)) h' \<and> th_config h' = th_config h"
proof (induction es arbitrary: n h)
  case Nil
  then show ?case by simp
next
  case (Cons e es)
  show ?case
  proof (cases e)
    case (TrackFrame desc ds)
    with Cons.prems(3) obtain r h1 where one: "ta_process (byte_tracker_of lib srt) h desc ds = TrackReturned r h1"
      "ta_run (byte_tracker_of lib srt) es h1 = Some h'" by (auto split: track_result.splits)
    have "n + length ds \<le> 65533" using Cons.prems(2) TrackFrame by simp
    from handle_inv_process [OF Cons.prems(1) this one(1)] Cons.IH [OF _ _ one(2), of "n + length ds"] Cons.prems(2) TrackFrame
    show ?thesis by (simp add: ac_simps)
  next
    case TrackReset
    with Cons.IH [OF handle_inv_reset, of n] Cons.prems(2,3) show ?thesis by (simp add: ta_reset_def)
  qed
qed

section \<open>Inputs of the witnesses\<close>

text \<open>A filter that stands still.\<close>

definition ex_byte_library :: "unit byte_library" where
  "ex_byte_library = \<lparr>kf_Initiate = \<lambda>b. (), kf_Predict = \<lambda>k. k, kf_Update = \<lambda>k b. k,
     kf_box = \<lambda>k. \<lparr>bb_0 = Fin 2, bb_1 = Fin 2, bb_2 = Fin 2, bb_3 = Fin 2\<rparr>\<rparr>"

definition ex_ids_config :: ma_tracker_config where
  "ex_ids_config = ex_tracker_config\<lparr>mc_n_init := 1\<rparr>"

abbreviation ex_params :: byte_tracker_params where
  "ex_params \<equiv> tracker_params ex_ids_config ex_desc"

definition ex_row :: DetectionRow where
  "ex_row = \<lparr>dr_left = Fin 1, dr_top = Fin 1, dr_width = Fin 2, dr_height = Fin 2, dr_confidence = Fin 1, dr_type = 1\<rparr>"

text \<open>The track the first frame starts, the track after the second frame, and what is reported of it.\<close>

definition ex_track :: "unit Track" where
  "ex_track = new_Track () 1 1 70 ex_row"

definition ex_confirmed :: "unit Track" where
  "ex_confirmed = ex_track\<lparr>tr_hits := 2, tr_age := 2, tr_state := Confirmed,
     tr_track_list := [\<lparr>bb_0 = Fin 2, bb_1 = Fin 3, bb_2 = Fin 2, bb_3 = Fin 2\<rparr>]\<rparr>"

definition ex_node :: TrackNode where
  "ex_node = \<lparr>tn_cx = Fin 2, tn_ymax = Fin 3, tn_w = Fin 2, tn_h = Fin 2, tn_type = 1, tn_id = 1, tn_deleted = False\<rparr>"

definition ex_after :: "unit Track list \<Rightarrow> unit ByteTracker" where
  "ex_after ts = (bt_new ex_params)\<lparr>bt_tracks := ts, bt_next_idx := 2\<rparr>"

lemma ex_row_simps:
  "toByteTrackDetection ex_tracked ex_desc = ex_row" "is_init ex_params ex_row"
  "f32_ge (dr_confidence ex_row) (bp_min_thresh ex_params)" "params_accepted ex_params"
  "CalculateIou (dr_tlwh ex_row) (dr_tlwh ex_row) = Fin 1" "f32_sub (Fin 1) (Fin 1) = Fin 0"
  "\<not> f32_less (bp_max_iou_distance ex_params) (Fin 0)"
  by code_simp+

lemma ex_track_simps:
  "tr_Predict ex_byte_library ex_track = ex_track\<lparr>tr_age := 2, tr_time_since_update := 1,
     tr_track_list := [\<lparr>bb_0 = Fin 2, bb_1 = Fin 3, bb_2 = Fin 2, bb_3 = Fin 2\<rparr>]\<rparr>"
  "tr_Update ex_byte_library ex_row (tr_Predict ex_byte_library ex_track) = ex_confirmed"
  "InitTrackNode ex_byte_library ex_confirmed new_TrackNode = (ex_confirmed, ex_node)"
  "f32_ge (pair_iou ex_desc ex_tracked ex_node) kMatchIouThreshold"
  by code_simp+

lemma ex_first_match:
  "bt_Match [ex_row] (bt_new ex_params) = Some \<lparr>mr_matches = [], mr_unmatched_tracks = [], mr_unmatched_detections = [0]\<rparr>"
  using ex_row_simps(3) by (simp add: bt_Match_def Let_def DoMinCostMatching_def bt_new_def)

lemma ex_first: "bt_Process ex_byte_library (bt_new ex_params) [ex_row] ts [] = Some (ex_after [ex_track], [])"
proof -
  note m = ex_first_match
  have new: "bt_InitTrack ex_byte_library ex_row (bt_new ex_params) = ex_after [ex_track]"
    by (simp add: bt_InitTrack_def bt_new_def ex_after_def ex_track_def MAX_OBJECT_ID_def tracker_params_def resolveInt_def
        ex_ids_config_def ex_tracker_config_def kDefaultMaxAge_def new_Track_def)
  have b: "bt_Predict ex_byte_library (bt_new ex_params) = bt_new ex_params" "bt_params (bt_new ex_params) = ex_params"
    "(bt_new ex_params)\<lparr>bt_tracks := []\<rparr> = bt_new ex_params" "bt_tracks (bt_new ex_params) = []"
    by (simp_all add: bt_Predict_def bt_new_def)
  have t: "\<not> IsDeleted ex_track" "\<not> IsConfirmed ex_track" by (simp_all add: IsDeleted_def IsConfirmed_def ex_track_def new_Track_def)
  have a: "bt_tracks (ex_after ts) = ts" "ex_after ts\<lparr>bt_tracks := ts'\<rparr> = ex_after ts'" for ts ts' by (simp_all add: ex_after_def)
  show ?thesis by (simp add: bt_Process_def bt_Update_def apply_matches_def Let_def m b new ex_row_simps(2) t a report_track_def)
qed

lemma ex_solved: "HungarianOper_Solve [[Fin 0]] = Some [(0, 0)]"
proof -
  have "bounded_costs [[Fin 0]]" by code_simp
  then obtain ps where ps: "HungarianOper_Solve [[Fin 0]] = Some ps" by (rule HungarianOper_terminates)
  then have "length ps = 1" "set ps \<subseteq> {..<1} \<times> {..<1}" using HungarianOper_complete [OF ps] by (simp_all add: complete_assignment_def)
  then have "ps = [(0, 0)]" by (cases ps) auto
  with ps show ?thesis by simp
qed

lemma ex_match:
  "DoMinCostMatching (bp_max_iou_distance ex_params) [tr_Predict ex_byte_library ex_track] [ex_row] [0] [0] =
     Some \<lparr>mr_matches = [(0, 0)], mr_unmatched_tracks = [], mr_unmatched_detections = []\<rparr>"
proof -
  have "tr_lastest_bbox_tlwh ex_track = dr_tlwh ex_row" "tr_type ex_track = JudgeObjectType (dr_type ex_row)"
    by (simp_all add: ex_track_def new_Track_def)
  then have "CalculateIouCostMatrix [tr_Predict ex_byte_library ex_track] [ex_row] [0] [0] = [[Fin 0]]"
    "tr_type (tr_Predict ex_byte_library ex_track) = JudgeObjectType (dr_type ex_row)"
    by (simp_all add: CalculateIouCostMatrix_def ex_track_simps(1) ex_row_simps)
  then show ?thesis by (simp add: DoMinCostMatching_def matching_result_def gate_costs_def ex_row_simps(7) ex_solved)
qed

lemma ex_second: "bt_Process ex_byte_library (ex_after [ex_track]) [ex_row] ts [] = Some (ex_after [ex_confirmed], [ex_node])"
proof -
  let ?p = "ex_after [tr_Predict ex_byte_library ex_track]"
  have "\<not> IsDeleted (tr_Predict ex_byte_library ex_track)"
    unfolding ex_track_simps(1) by (simp add: IsDeleted_def ex_track_def new_Track_def)
  then have m: "bt_Match [ex_row] ?p = Some \<lparr>mr_matches = [(0, 0)], mr_unmatched_tracks = [], mr_unmatched_detections = []\<rparr>"
    using ex_row_simps(3) ex_match by (simp add: bt_Match_def Let_def ex_after_def bt_new_def) (simp add: DoMinCostMatching_def)
  have p: "bt_Predict ex_byte_library (ex_after [ex_track]) = ?p" by (simp add: bt_Predict_def ex_after_def bt_new_def)
  have t: "\<not> IsDeleted ex_confirmed" "IsConfirmed ex_confirmed" "tr_time_since_update ex_confirmed = 0"
    by (simp_all add: IsDeleted_def IsConfirmed_def ex_confirmed_def ex_track_def new_Track_def)
  have a: "bt_tracks (ex_after ts) = ts" "ex_after ts\<lparr>bt_tracks := ts'\<rparr> = ex_after ts'" for ts ts' by (simp_all add: ex_after_def)
  show ?thesis
    by (simp add: bt_Process_def bt_Update_def apply_matches_def Let_def p m a ex_track_simps(2,3) t report_track_def TIME_SINCE_UPDATE_def)
qed

abbreviation ex_tracker :: "unit ByteTracker byte_tracker" where
  "ex_tracker \<equiv> byte_tracker_of ex_byte_library ex_sort"

abbreviation ex_handle :: "unit ByteTracker option \<Rightarrow> TrackNode list \<Rightarrow> int \<Rightarrow> unit ByteTracker TrackerHandle" where
  "ex_handle b l n \<equiv> \<lparr>th_config = ex_ids_config, th_tracker = b, th_track_list = l, th_width = n, th_height = n\<rparr>"

lemma ex_process:
  "\<exists>r. ta_process ex_tracker (ex_handle None [] 0) ex_desc [ex_tracked] = TrackReturned r (ex_handle (Some (ex_after [ex_track])) [] 4)"
  "\<exists>out. ta_process ex_tracker (ex_handle (Some (ex_after [ex_track])) [] 4) ex_desc [ex_tracked] =
     TrackReturned (Some out) (ex_handle (Some (ex_after [ex_confirmed])) [ex_node] 4) \<and> out 0 = \<lparr>mo_track_id = 1, mo_matched = 1\<rparr>"
proof -
  have d: "isValidFrameDesc ex_desc" "md_width ex_desc = 4" "md_height ex_desc = 4" "mc_enabled ex_ids_config \<noteq> 0"
    by (simp_all add: isValidFrameDesc_def ex_desc_def ex_ids_config_def ex_tracker_config_def)
  have n: "\<not> tn_deleted ex_node" "mt_class_id ex_tracked = tn_type ex_node" "tn_id ex_node = 1" by (simp_all add: ex_node_def ex_tracked_def)
  show "\<exists>r. ta_process ex_tracker (ex_handle None [] 0) ex_desc [ex_tracked] = TrackReturned r (ex_handle (Some (ex_after [ex_track])) [] 4)"
    by (simp add: ta_process_def createTrackerIfNeeded_def d ex_row_simps(1,4) ex_first Let_def clearDeletedTracks_def)
  have "applyTrackMatches ex_sort [ex_node] [ex_tracked] ex_desc initializeOutputs 0 = \<lparr>mo_track_id = 1, mo_matched = 1\<rparr>"
    using ex_track_simps(4) by (simp add: applyTrackMatches_def match_candidates_def Let_def ex_sort_def match_candidate_def n)
  then show "\<exists>out. ta_process ex_tracker (ex_handle (Some (ex_after [ex_track])) [] 4) ex_desc [ex_tracked] =
     TrackReturned (Some out) (ex_handle (Some (ex_after [ex_confirmed])) [ex_node] 4) \<and> out 0 = \<lparr>mo_track_id = 1, mo_matched = 1\<rparr>"
    by (simp add: ta_process_def createTrackerIfNeeded_def d ex_row_simps(1) ex_second Let_def clearDeletedTracks_def n)
qed

section \<open>Properties\<close>

text \<open>
  C25. A frame whose assignments are solved disposes of everything exactly once: every track that is not deleted is either matched or reported as missed, and every detection of
  high confidence is either matched or left over, none of them twice. A detection of low
  confidence can only be matched, so it never starts a track; and a match never joins objects of different kinds.
\<close>

theorem frame_disposed_once:
  assumes "bt_Match ds b = Some res" "params_accepted (bt_params b)"
  shows "distinct (map fst (mr_matches res) @ mr_unmatched_tracks res) \<and>
    set (map fst (mr_matches res) @ mr_unmatched_tracks res) = {i. i < length (bt_tracks b) \<and> \<not> IsDeleted (bt_tracks b ! i)} \<and>
    distinct (map snd (mr_matches res) @ mr_unmatched_detections res) \<and>
    set (map snd (mr_matches res) @ mr_unmatched_detections res) \<subseteq> {..<length ds} \<and>
    set (high_detections (bt_params b) ds) \<subseteq> set (map snd (mr_matches res) @ mr_unmatched_detections res) \<and>
    set (mr_unmatched_detections res) \<subseteq> set (high_detections (bt_params b) ds) \<and>
    (\<forall>(t, d) \<in> set (mr_matches res). tr_type (bt_tracks b ! t) = JudgeObjectType (dr_type (ds ! d)))"
proof -
  note tracks = match_tracks_partition [OF assms(1)]
  have live: "distinct (live_tracks b)" "set (live_tracks b) = {i. i < length (bt_tracks b) \<and> \<not> IsDeleted (bt_tracks b ! i)}"
    by (auto simp: live_tracks_def)
  have "IsInRange (bp_max_iou_distance (bt_params b)) (Fin 0) (Fin 1)" using assms(2) by (simp add: params_accepted_def)
  note same = matches_same_class [OF _ this]
  from bt_Match_rounds [OF assms(1)] obtain A B xs ys where
    A: "DoMinCostMatching (bp_max_iou_distance (bt_params b)) (bt_tracks b) ds (live_tracks b) (high_detections (bt_params b) ds) = Some A" and
    B: "DoMinCostMatching (bp_max_iou_distance (bt_params b)) (bt_tracks b) ds xs ys = Some B" and
    res: "mr_matches res = mr_matches A @ mr_matches B" "mr_unmatched_detections res = mr_unmatched_detections A" by metis
  have "\<forall>(t, d) \<in> set (mr_matches res). tr_type (bt_tracks b ! t) = JudgeObjectType (dr_type (ds ! d))"
    using same [OF A] same [OF B] by (auto simp: res)
  moreover have "set (mr_unmatched_detections res) \<subseteq> set (high_detections (bt_params b) ds)"
    using mset_eq_setD [OF matching_partition(2) [OF A]] unfolding res by auto
  ultimately show ?thesis
    using mset_eq_imp_distinct_iff [OF tracks] mset_eq_setD [OF tracks] live
    by (intro conjI match_detections_once [OF assms(1)]) (simp_all only:)
qed

theorem frame_disposed_once_witness:
  "\<exists>res. bt_Match [ex_row] (bt_new ex_params :: unit ByteTracker) = Some res \<and> mr_matches res = [] \<and>
     set (mr_unmatched_detections res) = {0}"
proof -
  let ?b = "bt_new ex_params :: unit ByteTracker"
  obtain res where res: "bt_Match [ex_row] ?b = Some res" using ex_first_match by blast
  have b: "bt_params ?b = ex_params" "bt_tracks ?b = []" by (simp_all add: bt_new_def)
  have "params_accepted (bt_params ?b)" unfolding b(1) by (rule ex_row_simps(4))
  note frame = frame_disposed_once [OF res this]
  have high: "set (high_detections ex_params [ex_row]) = {0}" using ex_row_simps(3) by (simp add: high_detections_def)
  have "set (map fst (mr_matches res) @ mr_unmatched_tracks res) = {}" using frame b(2) by simp
  then have "mr_matches res = []" by simp
  moreover have "{0} \<subseteq> set (map snd (mr_matches res) @ mr_unmatched_detections res)" "set (mr_unmatched_detections res) \<subseteq> {0}"
    using frame high b(1) by simp_all
  ultimately show ?thesis using res by auto
qed

text \<open>
  C24. With the tracker this repository ships: over any sequence of frames and resets on one handle, in which fewer than 65534 detections are
  seen, the ids given to the detections of a frame are the ids of confirmed tracks of
  the same class that got a detection within the last four frames, and no id is given twice. (After 65533 tracks the counter starts again at
  1, and a track that is still alive may share its id with a new one.)
\<close>

theorem track_ids_unique:
  assumes "sorts_candidates srt"
    and "ta_create cfg = Some h0" "mc_enabled cfg \<noteq> 0" "ta_run (byte_tracker_of lib srt) es h0 = Some h"
    and "ta_process (byte_tracker_of lib srt) h desc ds = TrackReturned (Some out) h'"
    and "sum_list (map event_detections es) + length ds \<le> 65533"
  shows "\<forall>d. mo_matched (out d) \<noteq> 0 \<longrightarrow>
    (\<exists>b t. th_tracker h' = Some b \<and> t \<in> set (bt_tracks b) \<and> IsConfirmed t \<and> tr_time_since_update t < 4 \<and>
       tr_track_id t = mo_track_id (out d) \<and> dr_type (tr_latest_detection t) = mt_class_id (ds ! d)) \<and>
    (\<forall>d'. mo_matched (out d') \<noteq> 0 \<and> mo_track_id (out d') = mo_track_id (out d) \<longrightarrow> d' = d)"
proof -
  have "handle_inv 0 h0" "th_config h0 = cfg" using assms(2) by (auto simp: ta_create_def handle_inv_def)
  with handle_inv_run [OF _ _ assms(4), of 0] assms(6)
  have "handle_inv (sum_list (map event_detections es)) h" "th_config h = cfg" by simp_all
  with handle_inv_process [OF _ assms(6) assms(5)]
  have inv: "handle_inv (sum_list (map event_detections es) + length ds) h'" and on: "mc_enabled (th_config h) \<noteq> 0"
    using assms(3) by simp_all
  have "sorts_candidates (by_sort (byte_tracker_of lib srt))" using assms(1) by simp
  then obtain M where M: "stable_matching desc ds (th_track_list h') M"
    "\<And>d t. (d, t) \<in> M \<Longrightarrow> out d = output_of (th_track_list h') t" "\<And>d. \<forall>t. (d, t) \<notin> M \<Longrightarrow> out d = initial_output"
    by (rule tracks_assigned [OF _ on assms(5)]) blast
  have given: "\<exists>t. (d, t) \<in> M" if "mo_matched (out d) \<noteq> 0" for d
    using M(3) [of d] that by (metis initial_output_matched)
  show ?thesis
  proof (intro allI impI conjI)
    fix d
    assume "mo_matched (out d) \<noteq> 0"
    with given obtain t where t: "(d, t) \<in> M" by blast
    then have cand: "candidate desc ds (th_track_list h') d t" by (rule stable_matchingD(1) [OF M(1)])
    then have "th_track_list h' \<noteq> []" by (auto simp: candidate_def)
    with inv obtain b k where b: "th_tracker h' = Some b" "tracker_inv k b (th_track_list h')"
      by (auto simp: handle_inv_def split: option.splits)
    have "th_track_list h' ! t \<in> set (th_track_list h')" using cand by (simp add: candidate_def)
    from tracker_inv_ids [OF b(2) this] obtain tr where tr: "tr \<in> set (bt_tracks b)" "reported tr" "th_track_list h' ! t = node_of tr"
      "node_id (th_track_list h' ! t) = tr_track_id tr" by blast
    have "mo_track_id (out d) = tr_track_id tr" using M(2) [OF t] tr(4) by (simp add: output_of_def)
    moreover have "dr_type (tr_latest_detection tr) = mt_class_id (ds ! d)"
      using cand tr(3) by (simp add: candidate_def node_of_def Let_def)
    ultimately show "\<exists>b t. th_tracker h' = Some b \<and> t \<in> set (bt_tracks b) \<and> IsConfirmed t \<and> tr_time_since_update t < 4 \<and>
       tr_track_id t = mo_track_id (out d) \<and> dr_type (tr_latest_detection t) = mt_class_id (ds ! d)"
      using b(1) tr(1,2) by (auto simp: reported_def TIME_SINCE_UPDATE_def)
    fix d'
    assume d': "mo_matched (out d') \<noteq> 0 \<and> mo_track_id (out d') = mo_track_id (out d)"
    with given obtain t' where t': "(d', t') \<in> M" by blast
    have "map node_id (th_track_list h') = map sint (map tn_id (th_track_list h'))" by simp
    then have "distinct (map tn_id (th_track_list h'))" using b(2) unfolding tracker_inv_def by (metis distinct_map)
    from assigned_ids_differ [OF M(1) this t' t] d' show "d' = d" by (simp add: M(2) [OF t] M(2) [OF t'])
  qed
qed

theorem track_ids_unique_witness:
  "\<exists>h h' out b t. ta_run ex_tracker [TrackFrame ex_desc [ex_tracked]] (ex_handle None [] 0) = Some h \<and>
     ta_process ex_tracker h ex_desc [ex_tracked] = TrackReturned (Some out) h' \<and> th_tracker h' = Some b \<and>
     t \<in> set (bt_tracks b) \<and> IsConfirmed t \<and> tr_track_id t = 1 \<and> mo_track_id (out 0) = 1"
proof -
  let ?start = "ex_handle None [] 0" and ?h = "ex_handle (Some (ex_after [ex_track])) [] 4"
  let ?h' = "ex_handle (Some (ex_after [ex_confirmed])) [ex_node] 4"
  obtain out where out: "ta_process ex_tracker ?h ex_desc [ex_tracked] = TrackReturned (Some out) ?h'"
    "out 0 = \<lparr>mo_track_id = 1, mo_matched = 1\<rparr>" using ex_process(2) by blast
  have run: "ta_run ex_tracker [TrackFrame ex_desc [ex_tracked]] ?start = Some ?h" using ex_process(1) by auto
  have cfg: "ta_create ex_ids_config = Some ?start" "mc_enabled ex_ids_config \<noteq> 0"
    by (simp_all add: ta_create_def ex_ids_config_def ex_tracker_config_def)
  have "sum_list (map event_detections [TrackFrame ex_desc [ex_tracked]]) + length [ex_tracked] \<le> 65533" by simp
  from track_ids_unique [OF ex_sort_sorts cfg run out(1) this, rule_format, of 0] out(2)
  obtain b t where "th_tracker ?h' = Some b" "t \<in> set (bt_tracks b)" "IsConfirmed t" "tr_track_id t = 1" by auto
  moreover have "mo_track_id (out 0) = 1" using out(2) by simp
  ultimately show ?thesis using run out(1) by blast
qed

end
