(* ===== verification/ByteTrackLiveness.thy ===== *)
theory ByteTrackLiveness
  imports ByteTrackProofs
begin

text \<open>
  When a frame of ByteTrack returns. The costs of the assignment are \<open>1 - overlap\<close>, cut off at the limit; if every overlap is a number of
  \<open>[0, 1]\<close>, they are costs the solver ends on (\<open>frame_returns\<close>).
\<close>

section \<open>The costs of a frame\<close>

lemma small_rnd32:
  assumes "0 \<le> x" "x \<le> 2"
  shows "small64 (rnd32 x)"
proof -
  have "pow2 (-126) \<le> pow2 1" by (rule pow2_mono) simp
  then obtain y where y: "rnd32 x = Fin y" "\<bar>y - x\<bar> \<le> 2 / 2 ^ 24"
    using rnd32_error [of x 2] assms by (auto simp: pow2_def [of 1])
  have "(2 :: rat) / 2 ^ 24 \<le> 1" by simp
  then have "y < 100000" using y(2) assms(2) by linarith
  then show ?thesis using y(1) rnd32_nonneg [OF assms(1) y(1)] rnd32_rep64 [OF y(1) assms(1)] by (simp add: small64_def)
qed

lemma small_cost: "0 \<le> q \<Longrightarrow> q \<le> 1 \<Longrightarrow> small64 (f32_sub (Fin 1) (Fin q))"
  by (simp add: f32_sub_def small_rnd32)

lemma small_gated:
  assumes "IsInRange m (Fin 0) (Fin 1)"
  shows "small64 (gated m)"
proof -
  from assms obtain r where r: "m = Fin r" "0 < r" "r < 1" by (cases m) (auto simp: IsInRange_def)
  have near: "\<bar>rnd64 x - x\<bar> \<le> 1 / 10000000" if "\<bar>x\<bar> \<le> 2" for x
    using rnd64_error [OF that] by (rule order_trans) simp
  define e where "e = rnd64 (1 / 100000)"
  have e: "0 \<le> e" unfolding e_def by (rule rep64_rnd64(2)) simp
  have "\<bar>e - 1 / 100000\<bar> \<le> 1 / 10000000" unfolding e_def by (rule near) simp
  then have x: "0 \<le> r + e" "r + e \<le> 11 / 10" using e r by linarith+
  define d where "d = rnd64 (r + e)"
  have "0 \<le> d" unfolding d_def by (rule rep64_rnd64(2) [OF x(1)])
  moreover have "\<bar>d - (r + e)\<bar> \<le> 1 / 10000000" unfolding d_def by (rule near) (use x in linarith)
  then have "d \<le> 2" using x(2) by linarith
  ultimately have "small64 (rnd32 d)" by (rule small_rnd32)
  then show ?thesis by (simp add: r(1) d_def e_def)
qed

definition unit_overlap :: "Bbox \<Rightarrow> Bbox \<Rightarrow> bool" where
  "unit_overlap a b \<longleftrightarrow> (case CalculateIou a b of Fin q \<Rightarrow> 0 \<le> q \<and> q \<le> 1 | _ \<Rightarrow> False)"

lemma frame_costs_small:
  assumes "IsInRange m (Fin 0) (Fin 1)"
    and "\<And>t d. t \<in> set ts \<Longrightarrow> d \<in> set ds \<Longrightarrow> unit_overlap (tr_lastest_bbox_tlwh (tracks ! t)) (dr_tlwh (dets ! d))"
    and "r < length ts" "c < length ds"
  shows "small64 (frame_costs m tracks dets ts ds ! r ! c)"
proof -
  have "unit_overlap (tr_lastest_bbox_tlwh (tracks ! (ts ! r))) (dr_tlwh (dets ! (ds ! c)))" using assms(2-4) by simp
  then obtain q where "CalculateIou (tr_lastest_bbox_tlwh (tracks ! (ts ! r))) (dr_tlwh (dets ! (ds ! c))) = Fin q" "0 \<le> q" "q \<le> 1"
    by (auto simp: unit_overlap_def split: f32.splits)
  then show ?thesis using assms(3,4) small_cost small_gated [OF assms(1)] by (simp add: gate_costs_def CalculateIouCostMatrix_def)
qed

lemma matching_returns:
  assumes "IsInRange m (Fin 0) (Fin 1)"
    and "\<And>t d. t \<in> set ts \<Longrightarrow> d \<in> set ds \<Longrightarrow> unit_overlap (tr_lastest_bbox_tlwh (tracks ! t)) (dr_tlwh (dets ! d))"
  obtains res where "DoMinCostMatching m tracks dets ts ds = Some res"
proof (cases "ds = [] \<or> ts = []")
  case True
  then show thesis using that by (auto simp: DoMinCostMatching_def)
next
  case False
  let ?c = "frame_costs m tracks dets ts ds"
  have len: "length ?c = length ts" by (rule gate_costs_shape)
  have "hd ?c = ?c ! 0" using False len by (intro hd_conv_nth) auto
  then have width: "length (hd ?c) = length ds" using False by (simp add: gate_costs_shape)
  have "all_small (length ?c) (length (hd ?c)) (matrix_of ?c)"
    using frame_costs_small [OF assms] unfolding all_small_def matrix_of_def len width by simp
  moreover have "0 < length ?c" "0 < length (hd ?c)" using False len width by simp_all
  ultimately obtain ps where "HungarianOper_Solve ?c = Some ps" by (rule small_costs_terminate)
  then show thesis using that False by (simp add: DoMinCostMatching_def Let_def)
qed

lemma bt_Match_returns:
  assumes "params_accepted (bt_params b)"
    and "\<And>t d. t \<in> set (bt_tracks b) \<Longrightarrow> d \<in> set ds \<Longrightarrow> unit_overlap (tr_lastest_bbox_tlwh t) (dr_tlwh d)"
  obtains res where "bt_Match ds b = Some res"
proof -
  define m where "m = bp_max_iou_distance (bt_params b)"
  define low where "low = filter (\<lambda>i. \<not> f32_ge (dr_confidence (ds ! i)) (bp_min_thresh (bt_params b))) [0..<length ds]"
  have m: "IsInRange m (Fin 0) (Fin 1)" using assms(1) by (simp add: m_def params_accepted_def)
  have round: "\<exists>res. DoMinCostMatching m (bt_tracks b) ds xs ys = Some res"
    if "set xs \<subseteq> {..<length (bt_tracks b)}" "set ys \<subseteq> {..<length ds}" for xs ys
  proof (rule matching_returns [OF m])
    fix t d assume "t \<in> set xs" "d \<in> set ys"
    then show "unit_overlap (tr_lastest_bbox_tlwh (bt_tracks b ! t)) (dr_tlwh (ds ! d))" using that assms(2) by (auto simp: subset_iff)
  qed blast
  have live: "set (live_tracks b) \<subseteq> {..<length (bt_tracks b)}" by (auto simp: live_tracks_def)
  from round [OF live high_detections_props(2)] obtain A where
    A: "DoMinCostMatching m (bt_tracks b) ds (live_tracks b) (high_detections (bt_params b) ds) = Some A" by blast
  have "set (mr_unmatched_tracks A) \<subseteq> set (live_tracks b)" using mset_eq_setD [OF matching_partition(1) [OF A]] by auto
  then have "set (filter (\<lambda>i. IsConfirmed (bt_tracks b ! i)) (mr_unmatched_tracks A)) \<subseteq> {..<length (bt_tracks b)}" using live by auto
  moreover have "set low \<subseteq> {..<length ds}" by (auto simp: low_def)
  ultimately obtain B where
    "DoMinCostMatching m (bt_tracks b) ds (filter (\<lambda>i. IsConfirmed (bt_tracks b ! i)) (mr_unmatched_tracks A)) low = Some B"
    using round by blast
  with A show thesis
    using that unfolding bt_Match_def Let_def live_tracks_def [symmetric] high_detections_def [symmetric] low_def [symmetric] m_def [symmetric]
    by simp
qed

lemma tr_Predict_box: "tr_lastest_bbox_tlwh (tr_Predict lib t) = tr_lastest_bbox_tlwh t"
  by (simp add: tr_Predict_def Let_def)

section \<open>Properties\<close>

text \<open>
  C28. A frame of ByteTrack returns: for thresholds the constructor accepts and a frame in which the overlap of every track with every detection is
  a number between 0 and 1, both rounds of the assignment end, although the solver works in double precision and looks for
  its next zero only below 100000.
\<close>

theorem frame_returns:
  assumes "params_accepted (bt_params b)"
    and "\<And>t d. t \<in> set (bt_tracks b) \<Longrightarrow> d \<in> set ds \<Longrightarrow> unit_overlap (tr_lastest_bbox_tlwh t) (dr_tlwh d)"
  shows "\<exists>b' l'. bt_Process lib b ds timestamp l = Some (b', l')"
proof -
  have "unit_overlap (tr_lastest_bbox_tlwh t) (dr_tlwh d)" if "t \<in> set (bt_tracks (bt_Predict lib b))" "d \<in> set ds" for t d
    using that assms(2) by (auto simp: bt_Predict_def tr_Predict_box)
  moreover have "params_accepted (bt_params (bt_Predict lib b))" using assms(1) by (simp add: bt_Predict_def)
  ultimately obtain res where "bt_Match ds (bt_Predict lib b) = Some res" by (metis bt_Match_returns)
  then show ?thesis by (simp add: bt_Process_def bt_Update_def case_prod_beta)
qed

theorem frame_returns_witness:
  "\<exists>b' l'. bt_Process ex_byte_library (ex_after [ex_track]) [ex_row] 0 [] = Some (b', l')"
proof (rule frame_returns)
  show "params_accepted (bt_params (ex_after [ex_track]))" using ex_row_simps(4) by (simp add: ex_after_def bt_new_def)
  fix t d assume "t \<in> set (bt_tracks (ex_after [ex_track]))" "d \<in> set [ex_row]"
  then have "t = ex_track" "d = ex_row" by (simp_all add: ex_after_def)
  then show "unit_overlap (tr_lastest_bbox_tlwh t) (dr_tlwh d)"
    using ex_row_simps(5) by (simp add: unit_overlap_def ex_track_def new_Track_def)
qed

end
