(* ===== verification/MunkresOptimal.thy ===== *)
theory MunkresOptimal
  imports MunkresTermination
begin

text \<open>
  The result is the cheapest one where the arithmetic is exact. For whole costs the values stay whole numbers that a double holds: a turn
  of the loop adds less than \<open>100000\<close>, and \<open>progress\<close> bounds the turns (\<open>priced\<close>). Every value is the cost less a price of its row and
  one of its column, and is not negative, while stars and primes stand on zeros; so the stars cost as little as any assignment.
\<close>

section \<open>Whole numbers\<close>

lemma rep64_int: "\<bar>k\<bar> \<le> 2 ^ 53 \<Longrightarrow> rep64 (of_int k)"
  unfolding rep64_def by (rule exI [of _ k], rule exI [of _ 0]) (simp add: pow2_def)

lemma small64_int:
  assumes "0 \<le> k" "k < 100000"
  shows "small64 (Fin (of_int k))"
proof -
  have "(of_int k :: rat) < of_int 100000" using assms(2) by (simp only: of_int_less_iff)
  moreover have "rep64 (of_int k)" using assms by (intro rep64_int) simp
  ultimately show ?thesis using assms(1) by (simp add: small64_def)
qed

lemma f64_round_int:
  assumes "0 \<le> k" "k \<le> 2 ^ 53"
  shows "f64_round (of_int k) = Fin (of_int k)"
proof -
  have rep: "rep64 (of_int k)" "(0 :: rat) \<le> of_int k" using assms by (simp_all add: rep64_int)
  have "rnd64 (of_int k) = of_int k"
    using rnd64_ge [OF rep order_refl] rnd64_le [OF rep(1) rep(2) order_refl] by (rule order_antisym [rotated])
  moreover have "(of_int k :: rat) \<le> 2 ^ 53" using assms(2) by (metis of_int_le_iff of_int_numeral of_int_power)
  then have "(of_int k :: rat) < 2 ^ 1024" by (rule le_less_trans) simp
  ultimately show ?thesis using rep(2) by (simp add: f64_round_def)
qed

lemma f64_add_int: "0 \<le> a + b \<Longrightarrow> a + b \<le> 2 ^ 53 \<Longrightarrow> f64_add (Fin (of_int a)) (Fin (of_int b)) = Fin (of_int (a + b))"
  using f64_round_int [of "a + b"] by simp

lemma f64_sub_int: "0 \<le> a - b \<Longrightarrow> a - b \<le> 2 ^ 53 \<Longrightarrow> f64_sub (Fin (of_int a)) (Fin (of_int b)) = Fin (of_int (a - b))"
  using f64_round_int [of "a - b"] by (simp add: f64_sub_def)

section \<open>Prices\<close>

definition priced_with :: "nat \<Rightarrow> (nat \<Rightarrow> nat \<Rightarrow> int) \<Rightarrow> (nat \<Rightarrow> int) \<Rightarrow> (nat \<Rightarrow> int) \<Rightarrow> int \<Rightarrow> f64 Matrix \<Rightarrow> bool" where
  "priced_with n cost u v B m \<longleftrightarrow> m_rows m = n \<and> m_columns m = n \<and>
     (\<forall>r < n. \<forall>c < n. m_at m r c = Fin (of_int (cost r c - u r - v c)) \<and> 0 \<le> cost r c - u r - v c \<and> cost r c - u r - v c \<le> B)"

definition priced :: "nat \<Rightarrow> (nat \<Rightarrow> nat \<Rightarrow> int) \<Rightarrow> int \<Rightarrow> f64 Matrix \<Rightarrow> bool" where
  "priced n cost B m \<longleftrightarrow> (\<exists>u v. priced_with n cost u v B m)"

lemma priced_withD:
  assumes "priced_with n cost u v B m" "r < n" "c < n"
  shows "m_at m r c = Fin (of_int (cost r c - u r - v c))" "0 \<le> cost r c - u r - v c" "cost r c - u r - v c \<le> B"
  using assms by (simp_all add: priced_with_def)

lemma priced_with_mono: "priced_with n cost u v B m \<Longrightarrow> B \<le> B' \<Longrightarrow> priced_with n cost u v B' m"
  unfolding priced_with_def by (blast intro: order_trans)

lemma priced_mono: "priced n cost B m \<Longrightarrow> B \<le> B' \<Longrightarrow> priced n cost B' m"
  unfolding priced_def using priced_with_mono by blast

text \<open>Subtracting the least value of a line of whole numbers.\<close>

lemma reduced_int:
  assumes line: "\<And>j. j < k \<Longrightarrow> line j = Fin (of_int (f j)) \<and> 0 \<le> f j \<and> f j < 100000" and "0 < k"
  obtains y where "\<And>j. j < k \<Longrightarrow> reduced k line j = Fin (of_int (f j - y)) \<and> 0 \<le> f j - y" "0 \<le> y"
proof -
  have small: "\<forall>j < k. small64 (line j)"
  proof (intro allI impI)
    fix j assume "j < k"
    from line [OF this] have eq: "line j = Fin (of_int (f j))" and "0 \<le> f j" "f j < 100000" by blast+
    then show "small64 (line j)" unfolding eq by (intro small64_int)
  qed
  obtain x j0 where x: "line_min k line = Fin x" "j0 < k" "line j0 = Fin x" "0 < x \<longrightarrow> (\<forall>j < k. \<not> f32_less (line j) (Fin x))"
    using line_min_small [OF small assms(2)] by blast
  then have xf: "x = of_int (f j0)" using line [of j0] by simp
  show thesis
  proof (cases "0 < x")
    case True
    show thesis
    proof (rule that [of "f j0"])
      fix j assume j: "j < k"
      have "\<not> f32_less (line j) (Fin x)" using x(4) True j by blast
      then have le: "f j0 \<le> f j" using line [OF j] by (simp add: xf)
      have "f j < 100000" "0 \<le> f j0" using line [OF j] line [OF x(2)] by blast+
      then have "f j - f j0 \<le> 2 ^ 53" by simp
      then have "f64_sub (Fin (of_int (f j))) (Fin (of_int (f j0))) = Fin (of_int (f j - f j0))" using le by (intro f64_sub_int) simp_all
      then have "reduced k line j = Fin (of_int (f j - f j0))" using True line [OF j] unfolding reduced_def x(1) Let_def xf by simp
      then show "reduced k line j = Fin (of_int (f j - f j0)) \<and> 0 \<le> f j - f j0" using le by simp
    next
      show "0 \<le> f j0" using line [OF x(2)] by simp
    qed
  next
    case False
    then have "reduced k line j = line j" for j unfolding reduced_def x(1) Let_def by simp
    then show thesis using that [of 0] line by simp
  qed
qed

lemma priced_Minimize:
  assumes "priced n cost B m" "B < 100000"
  shows "priced n cost B (MinimizeAlongDirection over_columns m)"
proof (cases "n = 0")
  case True
  with assms show ?thesis by (simp add: priced_def priced_with_def MinimizeAlongDirection_def)
next
  case False
  from assms(1) obtain u v where m: "priced_with n cost u v B m" by (auto simp: priced_def)
  then have size: "m_rows m = n" "m_columns m = n" by (simp_all add: priced_with_def)
  let ?k = "\<lambda>r c. cost r c - u r - v c"
  note at = priced_withD [OF m]
  show ?thesis
  proof (cases over_columns)
    case True
    have "\<exists>y \<ge> 0. \<forall>r < n. reduced n (\<lambda>j. m_at m j c) r = Fin (of_int (?k r c - y)) \<and> 0 \<le> ?k r c - y" if c: "c < n" for c
    proof -
      have "m_at m j c = Fin (of_int (?k j c)) \<and> 0 \<le> ?k j c \<and> ?k j c < 100000" if "j < n" for j
        using at [OF that c] assms(2) by auto
      from reduced_int [where line = "\<lambda>j. m_at m j c" and f = "\<lambda>j. ?k j c" and k = n, OF this] False show ?thesis by (metis neq0_conv)
    qed
    then obtain y where y: "\<And>r c. r < n \<Longrightarrow> c < n \<Longrightarrow> 0 \<le> y c \<and> reduced n (\<lambda>j. m_at m j c) r = Fin (of_int (?k r c - y c)) \<and> 0 \<le> ?k r c - y c"
      by metis
    have "priced_with n cost u (\<lambda>c. v c + y c) B (MinimizeAlongDirection over_columns m)"
      unfolding priced_with_def
    proof (intro conjI allI impI)
      fix r c assume rc: "r < n" "c < n"
      have eq: "cost r c - u r - (v c + y c) = ?k r c - y c" by simp
      show "m_at (MinimizeAlongDirection over_columns m) r c = Fin (of_int (cost r c - u r - (v c + y c)))"
        using y [OF rc] True unfolding eq by (simp add: MinimizeAlongDirection_def size)
      show "0 \<le> cost r c - u r - (v c + y c)" "cost r c - u r - (v c + y c) \<le> B" using y [OF rc] at(3) [OF rc] unfolding eq by auto
    qed (simp_all add: MinimizeAlongDirection_def size)
    then show ?thesis by (auto simp: priced_def)
  next
    case False
    have "\<exists>y \<ge> 0. \<forall>c < n. reduced n (\<lambda>j. m_at m r j) c = Fin (of_int (?k r c - y)) \<and> 0 \<le> ?k r c - y" if r: "r < n" for r
    proof -
      have "m_at m r j = Fin (of_int (?k r j)) \<and> 0 \<le> ?k r j \<and> ?k r j < 100000" if "j < n" for j
        using at [OF r that] assms(2) by auto
      from reduced_int [where line = "\<lambda>j. m_at m r j" and f = "\<lambda>j. ?k r j" and k = n, OF this] \<open>n \<noteq> 0\<close> show ?thesis by (metis neq0_conv)
    qed
    then obtain y where y: "\<And>r c. r < n \<Longrightarrow> c < n \<Longrightarrow> 0 \<le> y r \<and> reduced n (\<lambda>j. m_at m r j) c = Fin (of_int (?k r c - y r)) \<and> 0 \<le> ?k r c - y r"
      by metis
    have "priced_with n cost (\<lambda>r. u r + y r) v B (MinimizeAlongDirection over_columns m)"
      unfolding priced_with_def
    proof (intro conjI allI impI)
      fix r c assume rc: "r < n" "c < n"
      have eq: "cost r c - (u r + y r) - v c = ?k r c - y r" by simp
      show "m_at (MinimizeAlongDirection over_columns m) r c = Fin (of_int (cost r c - (u r + y r) - v c))"
        using y [OF rc] False unfolding eq by (simp add: MinimizeAlongDirection_def size)
      show "0 \<le> cost r c - (u r + y r) - v c" "cost r c - (u r + y r) - v c \<le> B" using y [OF rc] at(3) [OF rc] unfolding eq by auto
    qed (simp_all add: MinimizeAlongDirection_def size)
    then show ?thesis by (auto simp: priced_def)
  qed
qed

section \<open>The invariant of the loop\<close>

definition on_zeros :: "nat \<Rightarrow> Munkres \<Rightarrow> bool" where
  "on_zeros n s \<longleftrightarrow> (\<forall>(r, c) \<in> stars n s \<union> primes n s. m_at (mu_matrix s) r c = Fin 0)"

lemma on_zerosD: "on_zeros n s \<Longrightarrow> (r, c) \<in> stars n s \<or> (r, c) \<in> primes n s \<Longrightarrow> m_at (mu_matrix s) r c = Fin 0"
  unfolding on_zeros_def by blast

lemma on_zerosI: "(\<And>r c. (r, c) \<in> stars n s \<or> (r, c) \<in> primes n s \<Longrightarrow> m_at (mu_matrix s) r c = Fin 0) \<Longrightarrow> on_zeros n s"
  unfolding on_zeros_def by blast

lemma star_row_zeros:
  assumes "\<forall>r c. m_at marks r c = STAR \<longrightarrow> m_at m r c = Fin 0"
  shows "\<forall>r c. m_at (star_row m k marks) r c = STAR \<longrightarrow> m_at m r c = Fin 0"
proof (cases "find (\<lambda>col. m_at m k col = Fin 0 \<and> \<not> list_ex (\<lambda>nrow. m_at marks nrow col = STAR) [0..<k]) [0..<m_columns m]")
  case None
  then show ?thesis using assms by (simp add: star_row_def)
next
  case (Some col)
  from find_SomeD [OF Some] have "m_at m k col = Fin 0" by simp
  then show ?thesis using assms Some by (simp add: star_row_def)
qed

lemma Step1_zeros:
  assumes "\<forall>r c. m_at (mu_mask s) r c \<noteq> STAR" "primes n s = {}" "marks_ok n s" "mu_step s = 1"
  shows "on_zeros n (Step1 s)"
proof -
  have "\<forall>r c. m_at (fold (star_row (mu_matrix s)) ks (mu_mask s)) r c = STAR \<longrightarrow> m_at (mu_matrix s) r c = Fin 0" for ks
    using assms(1)
  proof (induction ks rule: rev_induct)
    case (snoc k ks)
    then show ?case using star_row_zeros [of "fold (star_row (mu_matrix s)) ks (mu_mask s)" "mu_matrix s" k] by simp
  qed simp
  then have "m_at (mu_mask (Step1 s)) r c = STAR \<Longrightarrow> m_at (mu_matrix (Step1 s)) r c = Fin 0" for r c by (simp add: Step1_def)
  moreover have "primes n (Step1 s) = {}"
    using Step1_ok [OF assms(3,4)] by (simp add: marks_ok_def phase_ok_def idle_def Step1_def)
  ultimately show ?thesis by (intro on_zerosI) (auto simp: in_marked)
qed

lemma Step3_zeros:
  assumes "marks_ok n s" "mu_step s = 3" "on_zeros n s"
  shows "on_zeros n (Step3 s)"
proof (cases "FindUncoveredInMatrix (Fin 0) s")
  case None
  then show ?thesis using assms(3) by (simp add: Step3_None on_zeros_def)
next
  case (Some rc)
  then obtain r c where found: "FindUncoveredInMatrix (Fin 0) s = Some (r, c)" by (cases rc) simp
  have sz: "sized n s" using assms(1) by (simp add: marks_ok_def)
  have rc: "r < n" "c < n" "m_at (mu_matrix s) r c = Fin 0" using FindUncovered_Some [OF sz found] by simp_all
  have "mu_mask (Step3 s) = set_mark r c PRIME (mu_mask s)"
    by (simp add: Step3_def found Let_def split: option.split)
  then have "stars n (Step3 s) \<subseteq> stars n s" "primes n (Step3 s) = insert (r, c) (primes n s)"
    using rc by (simp_all add: marked_set_mark)
  then show ?thesis using rc(3) assms(3) by (intro on_zerosI) (auto simp: Step3_matrix dest: on_zerosD)
qed

lemma Step4_zeros:
  assumes "marks_ok n s" "mu_step s = 4" "on_zeros n s"
  shows "on_zeros n (Step4 s)"
proof -
  have matrix: "mu_matrix (Step4 s) = mu_matrix s" by (simp add: Step4_def Let_def)
  have "primes n (Step4 s) = {}" "stars n (Step4 s) \<subseteq> stars n s \<union> primes n s"
    using Step4_marks [OF assms(1,2)] by simp_all
  then show ?thesis using assms(3) by (intro on_zerosI) (auto simp: matrix dest: on_zerosD)
qed

lemma chained_star: "chained S ps \<Longrightarrow> (r, c) \<in> set ps \<Longrightarrow> (x, c) \<in> S \<Longrightarrow> x \<in> fst ` set ps"
  by (induction ps) auto

text \<open>The row of a star is covered or its column is, not both; the row of a prime is covered and its column is not.\<close>

lemma search_covers:
  assumes "searching n s ps" "matching (stars n s)"
  shows "(r, c) \<in> stars n s \<Longrightarrow> mu_col_mask s c \<longleftrightarrow> \<not> mu_row_mask s r"
    and "(r, c) \<in> primes n s \<Longrightarrow> mu_row_mask s r \<and> \<not> mu_col_mask s c"
proof -
  have rows: "x < n \<Longrightarrow> mu_row_mask s x \<longleftrightarrow> x \<in> fst ` set ps"
    and cols: "y < n \<Longrightarrow> mu_col_mask s y \<longleftrightarrow> (\<exists>x. (x, y) \<in> stars n s \<and> x \<notin> fst ` set ps)" for x y
    using assms(1) by (simp_all add: searching_def)
  have list: "primes n s = set ps" "chained (stars n s) ps" using assms(1) by (simp_all add: searching_def prime_list_def)
  show "mu_col_mask s c \<longleftrightarrow> \<not> mu_row_mask s r" if star: "(r, c) \<in> stars n s"
  proof -
    have "r < n" "c < n" using star by (simp_all add: in_marked)
    moreover have "x = r" if "(x, c) \<in> stars n s" for x by (rule matching_column [OF assms(2) that star])
    ultimately show ?thesis using rows [of r] cols [of c] star by blast
  qed
  show "mu_row_mask s r \<and> \<not> mu_col_mask s c" if prime: "(r, c) \<in> primes n s"
  proof -
    have "r < n" "c < n" using prime by (simp_all add: in_marked)
    moreover have p: "(r, c) \<in> set ps" using prime list(1) by simp
    then have "r \<in> fst ` set ps" by force
    moreover have "x \<in> fst ` set ps" if "(x, c) \<in> stars n s" for x by (rule chained_star [OF list(2) p that])
    ultimately show ?thesis using rows [of r] cols [of c] by blast
  qed
qed

lemma search_zeros:
  assumes "searching n s ps" "matching (stars n s)" "on_zeros n s" "(r, c) \<in> stars n s \<or> (r, c) \<in> primes n s"
  shows "m_at (mu_matrix s) r c = Fin 0" "mu_col_mask s c \<longleftrightarrow> \<not> mu_row_mask s r"
  using on_zerosD [OF assms(3,4)] search_covers [OF assms(1,2)] assms(4) by blast+

text \<open>Step 5 on whole numbers changes the prices only.\<close>

lemma Step5_priced:
  assumes m: "priced_with n cost u v B (mu_matrix s)" and B: "B + 100000 \<le> 2 ^ 53"
    and h: "least_uncovered s = Fin (of_int h)" "0 \<le> h" "h \<le> 100000"
    and below: "\<And>r c. r < n \<Longrightarrow> c < n \<Longrightarrow> uncovered s r c \<Longrightarrow> \<not> f32_less (m_at (mu_matrix s) r c) (Fin (of_int h))"
  shows "priced n cost (B + 100000) (mu_matrix (Step5 s))"
proof -
  define u' where "u' = (\<lambda>r. if mu_row_mask s r then u r - h else u r)"
  define v' where "v' = (\<lambda>c. if mu_col_mask s c then v c else v c + h)"
  have "priced_with n cost u' v' (B + 100000) (mu_matrix (Step5 s))"
    unfolding priced_with_def
  proof (intro conjI allI impI)
    fix r c assume rc: "r < n" "c < n"
    define k where "k = cost r c - u r - v c"
    have k: "m_at (mu_matrix s) r c = Fin (of_int k)" "0 \<le> k" "k \<le> B" using priced_withD [OF m rc] by (simp_all add: k_def)
    have hk: "h \<le> k" if "uncovered s r c" using below [OF rc that] by (simp add: k(1))
    have add: "f64_add (Fin (of_int k)) (Fin (of_int h)) = Fin (of_int (k + h))" using k h B by (intro f64_add_int) simp_all
    have sub: "f64_sub (Fin (of_int (k + h))) (Fin (of_int h)) = Fin (of_int k)" using f64_sub_int [of "k + h" h] k B by simp
    have dif: "f64_sub (Fin (of_int k)) (Fin (of_int h)) = Fin (of_int (k - h))" if "uncovered s r c"
      using hk [OF that] k h B by (intro f64_sub_int) simp_all
    have new: "cost r c - u' r - v' c = k + (if mu_row_mask s r then h else 0) - (if mu_col_mask s c then 0 else h)"
      by (simp add: k_def u'_def v'_def)
    show "m_at (mu_matrix (Step5 s)) r c = Fin (of_int (cost r c - u' r - v' c))"
      unfolding new Step5_at h(1) k(1) Let_def using add sub dif by (cases "mu_row_mask s r"; cases "mu_col_mask s c") simp_all
    show "0 \<le> cost r c - u' r - v' c" "cost r c - u' r - v' c \<le> B + 100000"
      unfolding new using k h hk by (cases "mu_row_mask s r"; cases "mu_col_mask s c"; simp)+
  qed (use m in \<open>simp_all add: priced_with_def Step5_def Let_def\<close>)
  then show ?thesis by (auto simp: priced_def)
qed

lemma Step5_zeros:
  assumes "searching n s ps" "matching (stars n s)" "on_zeros n s" "least_uncovered s = Fin (of_int h)" "0 \<le> h" "h \<le> 100000"
  shows "on_zeros n (Step5 s)"
proof (rule on_zerosI)
  fix r c assume "(r, c) \<in> stars n (Step5 s) \<or> (r, c) \<in> primes n (Step5 s)"
  then have "(r, c) \<in> stars n s \<or> (r, c) \<in> primes n s" by (simp add: Step5_same)
  note at = search_zeros [OF assms(1-3) this]
  have "f64_add (Fin 0) (Fin (of_int h)) = Fin (of_int h)" "f64_sub (Fin (of_int h)) (Fin (of_int h)) = Fin 0"
    using f64_add_int [of 0 h] f64_sub_self assms(5,6) by simp_all
  then show "m_at (mu_matrix (Step5 s)) r c = Fin 0"
    unfolding Step5_at at(1) assms(4) Let_def using at(2) by (cases "mu_row_mask s r") simp_all
qed

text \<open>What the values can have grown to by now.\<close>

definition value_bound :: "nat \<Rightarrow> Munkres \<Rightarrow> int" where
  "value_bound n s = 100000 * (int (Suc n * (3 * n + 4)) + 1 - int (progress n s))"

definition exact_ok :: "nat \<Rightarrow> (nat \<Rightarrow> nat \<Rightarrow> int) \<Rightarrow> Munkres \<Rightarrow> bool" where
  "exact_ok n cost s \<longleftrightarrow> solver_ok n s \<and> priced n cost (value_bound n s) (mu_matrix s) \<and> on_zeros n s \<and>
     (mu_step s = 1 \<longrightarrow> (\<forall>r c. m_at (mu_mask s) r c \<noteq> STAR))"

lemma value_bound_le:
  assumes "n \<le> 10000"
  shows "value_bound n s + 100000 \<le> 2 ^ 53"
proof -
  have "Suc n * (3 * n + 4) \<le> 10001 * 30004" using assms by (intro mult_le_mono) simp_all
  then have "int (Suc n * (3 * n + 4)) \<le> 10001 * 30004" by linarith
  then have "value_bound n s \<le> 100000 * (10001 * 30004 + 1)" unfolding value_bound_def by (intro mult_left_mono) simp_all
  also have "\<dots> + 100000 \<le> (2 :: int) ^ 53" by simp
  finally show ?thesis by simp
qed

lemma value_bound_step:
  assumes "progress n t < progress n s"
  shows "value_bound n s + 100000 \<le> value_bound n t"
  using assms by (simp add: value_bound_def algebra_simps)

lemma Step5_exact:
  assumes "exact_ok n cost s" "mu_step s = 5" "n \<le> 10000"
  shows "priced n cost (value_bound n s + 100000) (mu_matrix (Step5 s)) \<and> on_zeros n (Step5 s)"
proof -
  have ok: "marks_ok n s" "values_ok n s" and none: "FindUncoveredInMatrix (Fin 0) s = None" and zeros: "on_zeros n s"
    using assms(1,2) by (simp_all add: exact_ok_def solver_ok_def)
  have match: "matching (stars n s)" using ok(1) by (simp add: marks_ok_def)
  from assms(1) obtain u v where m: "priced_with n cost u v (value_bound n s) (mu_matrix s)" by (auto simp: exact_ok_def priced_def)
  obtain ps r c h where ps: "searching n s ps" and h: "least_uncovered s = Fin h" "r < n" "c < n" "uncovered s r c" "m_at (mu_matrix s) r c = Fin h"
    "\<And>r c. r < n \<Longrightarrow> c < n \<Longrightarrow> uncovered s r c \<Longrightarrow> \<not> f32_less (m_at (mu_matrix s) r c) (Fin h)" "h < 100000"
    by (rule Step5_least [OF ok(1) assms(2) ok(2) none]) (rule that)
  define k where "k = cost r c - u r - v c"
  have k: "h = of_int k" "0 \<le> k" using priced_withD(1,2) [OF m h(2,3)] h(5) by (simp_all add: k_def)
  have "(of_int k :: rat) < of_int 100000" using h(7) k(1) by simp
  then have k_le: "k \<le> 100000" by (simp only: of_int_less_iff)
  note least = h(1) [unfolded k(1)] and below = h(6) [unfolded k(1)]
  have "priced n cost (value_bound n s + 100000) (mu_matrix (Step5 s))"
    by (rule Step5_priced [OF m value_bound_le [OF assms(3)] least k(2) k_le below])
  moreover have "on_zeros n (Step5 s)" by (rule Step5_zeros [OF ps match zeros least k(2) k_le])
  ultimately show ?thesis by blast
qed

lemma exact_step:
  assumes "exact_ok n cost s" "mu_step s \<noteq> 0" "n \<le> 10000"
  shows "exact_ok n cost (munkres_step s)"
proof -
  have solver: "solver_ok n s" and marks: "marks_ok n s" and zeros: "on_zeros n s" and phase: "phase_ok n s"
    and priced: "priced n cost (value_bound n s) (mu_matrix s)"
    using assms(1) by (simp_all add: exact_ok_def solver_ok_def marks_ok_def)
  note new = munkres_step_progress [OF solver assms(2)]
  have grow: "value_bound n s + 100000 \<le> value_bound n (munkres_step s)" using new by (intro value_bound_step) blast
  have "mu_step (Step3 s) \<noteq> 1" if "mu_step s = 3" by (rule Step3_phase(1) [OF marks that])
  moreover have "mu_step (Step1 s) \<noteq> 1" "mu_step (Step2 s) \<noteq> 1" "mu_step (Step4 s) \<noteq> 1" "mu_step (Step5 s) \<noteq> 1"
    by (simp_all add: Step1_def Step2_def Step4_def Step5_def Let_def)
  ultimately have step: "mu_step (munkres_step s) \<noteq> 1" by (metis munkres_step_cases [OF phase assms(2)])
  have "priced n cost (value_bound n s + 100000) (mu_matrix (munkres_step s)) \<and> on_zeros n (munkres_step s)"
  proof (rule munkres_step_cases [OF phase assms(2)])
    assume 1: "mu_step s = 1" "munkres_step s = Step1 s"
    then have "\<forall>r c. m_at (mu_mask s) r c \<noteq> STAR" "primes n s = {}"
      using assms(1) phase by (simp_all add: exact_ok_def phase_ok_def idle_def)
    with Step1_zeros [OF this marks 1(1)] priced_mono [OF priced] show ?thesis by (simp add: 1(2)) (simp add: Step1_def)
  next
    assume 2: "mu_step s = 2" "munkres_step s = Step2 s"
    have same: "mu_matrix (Step2 s) = mu_matrix s" "mu_mask (Step2 s) = mu_mask s" by (simp_all add: Step2_def Let_def)
    then show ?thesis using zeros priced_mono [OF priced] by (simp add: 2(2) on_zeros_def)
  next
    assume 3: "mu_step s = 3" "munkres_step s = Step3 s"
    with Step3_zeros [OF marks 3(1) zeros] priced_mono [OF priced] show ?thesis by (simp add: 3(2) Step3_matrix)
  next
    assume 4: "mu_step s = 4" "munkres_step s = Step4 s"
    have "mu_matrix (Step4 s) = mu_matrix s" by (simp add: Step4_def Let_def)
    with Step4_zeros [OF marks 4(1) zeros] priced_mono [OF priced] show ?thesis by (simp add: 4(2))
  next
    assume 5: "mu_step s = 5" "munkres_step s = Step5 s"
    with Step5_exact [OF assms(1) 5(1) assms(3)] show ?thesis by simp
  qed
  then show ?thesis using new step priced_mono [OF _ grow] by (simp add: exact_ok_def)
qed

section \<open>Matchings and their costs\<close>

lemma perfect_sum:
  fixes u v :: "nat \<Rightarrow> int"
  assumes "matching S" "fst ` S = {..<n}" "snd ` S = {..<n}"
  shows "(\<Sum>p \<in> S. u (fst p) + v (snd p)) = (\<Sum>r < n. u r) + (\<Sum>c < n. v c)"
proof -
  have "(\<Sum>r < n. u r) = (\<Sum>p \<in> S. u (fst p))" "(\<Sum>c < n. v c) = (\<Sum>p \<in> S. v (snd p))"
    using assms sum.reindex [of fst S u] sum.reindex [of snd S v] by (simp_all add: matching_def comp_def)
  then show ?thesis by (simp add: sum.distrib)
qed

text \<open>A matching can be completed on the rows and columns it leaves free.\<close>

lemma extend_matching:
  assumes Q: "matching Q" "Q \<subseteq> {..<n} \<times> {..<n}"
  obtains E where "matching (Q \<union> E)" "fst ` (Q \<union> E) = {..<n}" "snd ` (Q \<union> E) = {..<n}"
    "\<And>r c. (r, c) \<in> E \<Longrightarrow> r < n \<and> c < n \<and> r \<notin> fst ` Q \<and> c \<notin> snd ` Q" "finite E" "card E = n - card Q"
proof -
  define A B where "A = {..<n} - fst ` Q" and "B = {..<n} - snd ` Q"
  have sub: "fst ` Q \<subseteq> {..<n}" "snd ` Q \<subseteq> {..<n}" using Q(2) by auto
  have "card (fst ` Q) = card Q" "card (snd ` Q) = card Q" using Q(1) by (simp_all add: matching_def card_image)
  then have card: "card A = n - card Q" "card B = n - card Q"
    using sub by (simp_all add: A_def B_def card_Diff_subset finite_subset)
  have fin: "finite A" "finite B" by (simp_all add: A_def B_def)
  obtain g where g: "bij_betw g A B" using finite_same_card_bij [OF fin] card by auto
  define E where "E = (\<lambda>r. (r, g r)) ` A"
  have fsts: "fst ` E = A" and snds: "snd ` E = B" using g by (simp_all add: E_def image_image bij_betw_def)
  have "inj_on fst E" "inj_on snd E" using g by (auto simp: E_def inj_on_def bij_betw_def)
  moreover have "fst ` (Q - E) \<inter> fst ` (E - Q) = {}" "snd ` (Q - E) \<inter> snd ` (E - Q) = {}"
    using fsts snds unfolding A_def B_def by blast+
  ultimately have "matching (Q \<union> E)" using Q(1) by (simp add: matching_def inj_on_Un)
  moreover have "fst ` (Q \<union> E) = {..<n}" "snd ` (Q \<union> E) = {..<n}"
    unfolding image_Un fsts snds A_def B_def using sub by blast+
  moreover have "r < n \<and> c < n \<and> r \<notin> fst ` Q \<and> c \<notin> snd ` Q" if "(r, c) \<in> E" for r c
  proof -
    have "r \<in> A" "c \<in> B" using that fsts snds by force+
    then show ?thesis by (simp add: A_def B_def)
  qed
  moreover have "finite E" using fin by (simp add: E_def)
  moreover have "card E = n - card Q" using card(1) by (simp add: E_def card_image inj_on_def)
  ultimately show thesis using that by blast
qed

section \<open>The cheapest assignment\<close>

definition whole :: "f64 \<Rightarrow> bool" where
  "whole x \<longleftrightarrow> (case x of Fin q \<Rightarrow> of_int \<lfloor>q\<rfloor> = q \<and> 0 \<le> q \<and> q < 100000 | _ \<Rightarrow> False)"

fun cost_value :: "f64 \<Rightarrow> int" where
  "cost_value (Fin q) = \<lfloor>q\<rfloor>"
| "cost_value _ = 0"

lemma wholeD:
  assumes "whole x"
  shows "x = Fin (of_int (cost_value x))" "0 \<le> cost_value x" "cost_value x < 100000" "x \<noteq> PInf" "small64 x"
proof -
  from assms obtain q where q: "x = Fin q" "of_int \<lfloor>q\<rfloor> = q" "0 \<le> q" "q < 100000" by (auto simp: whole_def split: f32.splits)
  from q(1,2) show x: "x = Fin (of_int (cost_value x))" by (simp only: cost_value.simps)
  from q(1,3) show nonneg: "0 \<le> cost_value x" and "x \<noteq> PInf" by simp_all
  have "(of_int \<lfloor>q\<rfloor> :: rat) < of_int 100000" using q by simp
  then show "cost_value x < 100000" by (simp only: of_int_less_iff q(1) cost_value.simps)
  with nonneg have "small64 (Fin (of_int (cost_value x)))" by (rule small64_int)
  then show "small64 x" by (simp only: x [symmetric])
qed

definition whole_costs :: "f32 list list \<Rightarrow> bool" where
  "whole_costs costs \<longleftrightarrow> costs \<noteq> [] \<and> hd costs \<noteq> [] \<and> length costs \<le> 10000 \<and> length (hd costs) \<le> 10000 \<and>
     list_all (\<lambda>row. length row = length (hd costs) \<and> list_all whole row) costs"

definition total_cost :: "f32 list list \<Rightarrow> (nat \<times> nat) list \<Rightarrow> int" where
  "total_cost costs ps = (\<Sum>(row, col) \<leftarrow> ps. cost_value (costs ! row ! col))"

lemma whole_costs_at: "whole_costs costs \<Longrightarrow> r < length costs \<Longrightarrow> c < length (hd costs) \<Longrightarrow> whole (m_at (matrix_of costs) r c)"
  by (simp add: whole_costs_def list_all_length matrix_of_def)

text \<open>The costs of the square matrix: those of the input, the largest of them outside.\<close>

definition square_cost :: "f64 Matrix \<Rightarrow> nat \<Rightarrow> nat \<Rightarrow> int" where
  "square_cost m r c = cost_value (if r < m_rows m \<and> c < m_columns m then m_at m r c else mmax m)"

lemma squared_at:
  "r < max (m_rows m) (m_columns m) \<Longrightarrow> c < max (m_rows m) (m_columns m) \<Longrightarrow>
    m_at (squared m) r c = (if r < m_rows m \<and> c < m_columns m then m_at m r c else mmax m)"
  by (cases "m_rows m = m_columns m") (simp_all add: squared_def m_resize_def Let_def)

lemma ReplaceInfinites_at: "m_at m r c \<noteq> PInf \<Longrightarrow> m_at (ReplaceInfinites m) r c = m_at m r c"
  by (simp add: ReplaceInfinites_def Let_def)

lemma prepared_priced:
  assumes "\<And>r c. r < m_rows m \<Longrightarrow> c < m_columns m \<Longrightarrow> whole (m_at m r c)" "0 < m_rows m" "0 < m_columns m"
  shows "priced (max (m_rows m) (m_columns m)) (square_cost m) 99999 (prepared m)"
proof -
  let ?n = "max (m_rows m) (m_columns m)"
  have "whole (mmax m)" using assms by (rule mmax_entry)
  then have w: "whole (m_at (squared m) r c)" if "r < ?n" "c < ?n" for r c using that assms(1) by (simp add: squared_at)
  have "priced_with ?n (square_cost m) (\<lambda>_. 0) (\<lambda>_. 0) 99999 (ReplaceInfinites (squared m))"
    unfolding priced_with_def
  proof (intro conjI allI impI)
    fix r c assume rc: "r < ?n" "c < ?n"
    have k: "square_cost m r c = cost_value (m_at (squared m) r c)" using rc by (simp add: square_cost_def squared_at)
    note d = wholeD [OF w [OF rc]]
    show "m_at (ReplaceInfinites (squared m)) r c = Fin (of_int (square_cost m r c - 0 - 0))"
      using ReplaceInfinites_at [OF d(4)] d(1) by (simp only: k diff_zero)
    show "0 \<le> square_cost m r c - 0 - 0" "square_cost m r c - 0 - 0 \<le> 99999" using d(2,3) by (simp_all add: k)
  qed (simp_all add: ReplaceInfinites_def squared_def m_resize_def Let_def)
  then have "priced ?n (square_cost m) 99999 (ReplaceInfinites (squared m))" by (auto simp: priced_def)
  then show ?thesis unfolding prepared_def by (intro priced_Minimize) simp_all
qed

lemma complete_matching:
  assumes "complete_assignment R C ps"
  defines "n \<equiv> max R C"
  shows "matching (set ps)" "set ps \<subseteq> {..<n} \<times> {..<n}" "card (set ps) = min R C" "distinct ps"
    "R \<le> C \<Longrightarrow> fst ` set ps = {..<R}" "C \<le> R \<Longrightarrow> snd ` set ps = {..<C}"
proof -
  have dist: "distinct (map fst ps)" "distinct (map snd ps)" and sub: "set ps \<subseteq> {..<R} \<times> {..<C}" and len: "length ps = min R C"
    using assms(1) by (simp_all add: complete_assignment_def)
  show d: "distinct ps" using dist(1) by (simp add: distinct_map)
  then show card: "card (set ps) = min R C" using len by (simp add: distinct_card)
  have inj: "inj_on fst (set ps)" "inj_on snd (set ps)" using dist by (simp_all add: distinct_map)
  then show "matching (set ps)" by (simp add: matching_def)
  show "set ps \<subseteq> {..<n} \<times> {..<n}" using sub by (auto simp: n_def)
  have "fst ` set ps \<subseteq> {..<R}" "snd ` set ps \<subseteq> {..<C}" using sub by auto
  moreover have "card (fst ` set ps) = min R C" "card (snd ` set ps) = min R C" using inj card by (simp_all add: card_image)
  ultimately show "R \<le> C \<Longrightarrow> fst ` set ps = {..<R}" "C \<le> R \<Longrightarrow> snd ` set ps = {..<C}"
    by (simp_all add: card_subset_eq)
qed

text \<open>The prices are a lower bound for every assignment.\<close>

lemma prices_below:
  fixes cost :: "nat \<Rightarrow> nat \<Rightarrow> int"
  assumes qs: "complete_assignment R C qs" and n: "n = max R C"
    and low: "\<And>r c. r < n \<Longrightarrow> c < n \<Longrightarrow> u r + v c \<le> cost r c"
    and pad: "\<And>r c. R \<le> r \<or> C \<le> c \<Longrightarrow> cost r c = x"
  shows "(\<Sum>r < n. u r) + (\<Sum>c < n. v c) \<le> (\<Sum>(r, c) \<in> set qs. cost r c) + int (n - min R C) * x"
proof -
  note qs = complete_matching [OF qs, folded n]
  obtain E where E: "matching (set qs \<union> E)" "fst ` (set qs \<union> E) = {..<n}" "snd ` (set qs \<union> E) = {..<n}"
    "\<And>r c. (r, c) \<in> E \<Longrightarrow> r < n \<and> c < n \<and> r \<notin> fst ` set qs \<and> c \<notin> snd ` set qs" "finite E" "card E = n - card (set qs)"
    by (rule extend_matching [OF qs(1,2)]) (rule that)
  have "cost r c = x" if "(r, c) \<in> E" for r c
  proof (rule pad)
    show "R \<le> r \<or> C \<le> c" using E(4) [OF that] qs(5,6) by (cases "R \<le> C") auto
  qed
  then have "(\<Sum>(r, c) \<in> E. cost r c) = (\<Sum>p \<in> E. x)" by (intro sum.cong) auto
  then have added: "(\<Sum>(r, c) \<in> E. cost r c) = int (n - min R C) * x" using E(6) qs(3) by simp
  have "set qs \<inter> E = {}" using E(4) by force
  then have "(\<Sum>(r, c) \<in> set qs \<union> E. cost r c) = (\<Sum>(r, c) \<in> set qs. cost r c) + (\<Sum>(r, c) \<in> E. cost r c)"
    using E(5) by (intro sum.union_disjoint) simp_all
  moreover have "(\<Sum>p \<in> set qs \<union> E. u (fst p) + v (snd p)) \<le> (\<Sum>(r, c) \<in> set qs \<union> E. cost r c)"
  proof (rule sum_mono)
    fix p assume "p \<in> set qs \<union> E"
    then have "fst p < n" "snd p < n" using qs(2) E(4) by (cases p; auto)+
    then show "u (fst p) + v (snd p) \<le> (case p of (r, c) \<Rightarrow> cost r c)" using low by (simp add: case_prod_beta)
  qed
  ultimately show ?thesis using perfect_sum [OF E(1-3), of u v] added by linarith
qed

lemma while_exact:
  assumes "while_option (\<lambda>s. mu_step s \<noteq> 0) munkres_step s0 = Some s" "exact_ok n cost s0" "n \<le> 10000"
  shows "exact_ok n cost s"
  by (rule while_option_rule [where P = "exact_ok n cost", OF _ assms(1,2)]) (rule exact_step [OF _ _ assms(3)])

lemma munkres_start_exact:
  fixes m
  defines "n \<equiv> max (m_rows m) (m_columns m)"
  assumes whole: "\<And>r c. r < m_rows m \<Longrightarrow> c < m_columns m \<Longrightarrow> whole (m_at m r c)" and "0 < m_rows m" "0 < m_columns m"
  shows "exact_ok n (square_cost m) (munkres_start m)"
proof -
  have small: "all_small (m_rows m) (m_columns m) m" using wholeD(5) [OF whole] by (simp add: all_small_def)
  have prep: "all_small n n (prepared m)" unfolding n_def by (rule prepared_small [OF small assms(3,4)])
  have matrix: "mu_matrix (munkres_start m) = prepared m" "mu_step (munkres_start m) = 1" "\<And>r c. m_at (mu_mask (munkres_start m)) r c = NORMAL"
    by (simp_all add: munkres_start_def Let_def)
  have "values_ok n (munkres_start m)" using prep by (simp add: matrix values_ok_def all_small_def small64_nonneg)
  then have "solver_ok n (munkres_start m)" using munkres_start_ok [of m] by (simp add: solver_ok_def matrix n_def)
  moreover have "value_bound n (munkres_start m) = 100000" by (simp add: value_bound_def progress_def matrix)
  then have "priced n (square_cost m) (value_bound n (munkres_start m)) (mu_matrix (munkres_start m))"
    using priced_mono [OF prepared_priced [OF whole assms(3,4)], of 100000] by (simp add: matrix n_def)
  moreover have "on_zeros n (munkres_start m)" by (simp add: on_zeros_def marked_def matrix)
  ultimately show ?thesis by (simp add: exact_ok_def matrix)
qed

text \<open>The stars of the last state are on zeros, so their costs are their prices.\<close>

lemma stars_cost:
  assumes "exact_ok n cost s" "matching (stars n s)" "card (stars n s) = n"
  obtains u v where "\<And>r c. r < n \<Longrightarrow> c < n \<Longrightarrow> u r + v c \<le> cost r c" "(\<Sum>(r, c) \<in> stars n s. cost r c) = (\<Sum>r < n. u r) + (\<Sum>c < n. v c)"
proof -
  from assms(1) obtain u v where m: "priced_with n cost u v (value_bound n s) (mu_matrix s)" by (auto simp: exact_ok_def priced_def)
  have zeros: "on_zeros n s" using assms(1) by (simp add: exact_ok_def)
  have price: "u r + v c \<le> cost r c" if "r < n" "c < n" for r c using priced_withD(2) [OF m that] by simp
  have "cost r c = u r + v c" if star: "(r, c) \<in> stars n s" for r c
  proof -
    have rc: "r < n" "c < n" using star by (simp_all add: in_marked)
    have "m_at (mu_matrix s) r c = Fin 0" using on_zerosD [OF zeros] star by blast
    then show ?thesis using priced_withD(1) [OF m rc] by simp
  qed
  then have "(\<Sum>(r, c) \<in> stars n s. cost r c) = (\<Sum>p \<in> stars n s. u (fst p) + v (snd p))" by (intro sum.cong) auto
  also have "\<dots> = (\<Sum>r < n. u r) + (\<Sum>c < n. v c)" by (rule perfect_sum [OF assms(2) full_matching [OF assms(2,3)]])
  finally have sum: "(\<Sum>(r, c) \<in> stars n s. cost r c) = (\<Sum>r < n. u r) + (\<Sum>c < n. v c)" .
  show thesis by (rule that [OF price sum])
qed

lemma total_cost_sum:
  "complete_assignment (length costs) (length (hd costs)) ps \<Longrightarrow> total_cost costs ps = (\<Sum>(r, c) \<in> set ps. square_cost (matrix_of costs) r c)"
proof -
  assume a: "complete_assignment (length costs) (length (hd costs)) ps"
  have "set ps \<subseteq> {..<length costs} \<times> {..<length (hd costs)}" using a by (simp add: complete_assignment_def)
  then have "total_cost costs ps = (\<Sum>(r, c) \<leftarrow> ps. square_cost (matrix_of costs) r c)"
    unfolding total_cost_def by (intro arg_cong [of _ _ sum_list] map_cong) (auto simp: square_cost_def matrix_of_def)
  then show ?thesis using complete_matching(4) [OF a] by (simp add: sum_list_distinct_conv_sum_set)
qed

lemma HungarianOper_minimal:
  assumes "whole_costs costs" "HungarianOper_Solve costs = Some ps" "complete_assignment (length costs) (length (hd costs)) qs"
  shows "total_cost costs ps \<le> total_cost costs qs"
proof -
  define R C n m where "R = length costs" and "C = length (hd costs)" and "n = max R C" and "m = matrix_of costs"
  have size: "m_rows m = R" "m_columns m = C" by (simp_all add: m_def matrix_of_def R_def C_def)
  have pos: "0 < m_rows m" "0 < m_columns m" and n: "n \<le> 10000"
    using assms(1) by (simp_all add: size R_def C_def n_def whole_costs_def)
  have nm: "max (m_rows m) (m_columns m) = n" by (simp add: size n_def)
  from HungarianOper_eq [OF assms(2)] obtain s where
    s: "while_option (\<lambda>s. mu_step s \<noteq> 0) munkres_step (munkres_start m) = Some s" and
    ps: "ps = filter (\<lambda>(r, c). m_at (mu_mask s) r c = STAR) (cells R C)" by (auto simp: m_def R_def C_def)
  have "whole (m_at m r c)" if "r < m_rows m" "c < m_columns m" for r c
    using whole_costs_at [OF assms(1)] that by (simp add: size) (simp add: m_def R_def C_def)
  from munkres_start_exact [OF this pos, unfolded nm] have "exact_ok n (square_cost m) (munkres_start m)" by blast
  from while_exact [OF s this n] have exact: "exact_ok n (square_cost m) s" .
  have match: "matching (stars n s)" and full: "card (stars n s) = n" using while_munkres_ok(1,2) [OF s] by (simp_all add: nm)
  obtain u v where price: "\<And>r c. r < n \<Longrightarrow> c < n \<Longrightarrow> u r + v c \<le> square_cost m r c"
    and stars: "(\<Sum>(r, c) \<in> stars n s. square_cost m r c) = (\<Sum>r < n. u r) + (\<Sum>c < n. v c)"
    by (rule stars_cost [OF exact match full]) (rule that)
  define x where "x = cost_value (mmax m)"
  have pad: "square_cost m r c = x" if "R \<le> r \<or> C \<le> c" for r c using that by (auto simp: square_cost_def size x_def)
  have comp: "complete_assignment R C ps" using HungarianOper_complete [OF assms(2)] by (simp add: R_def C_def)
  have sub: "set ps \<subseteq> stars n s" by (auto simp: ps cells_def marked_def n_def)
  have "square_cost m r c = x" if "(r, c) \<in> stars n s - set ps" for r c
    using that by (intro pad) (auto simp: ps cells_def marked_def)
  then have "(\<Sum>(r, c) \<in> stars n s - set ps. square_cost m r c) = (\<Sum>p \<in> stars n s - set ps. x)" by (intro sum.cong) auto
  then have "(\<Sum>(r, c) \<in> stars n s - set ps. square_cost m r c) = int (n - min R C) * x"
    using sub full complete_matching(3) [OF comp] by (simp add: card_Diff_subset)
  then have "(\<Sum>(r, c) \<in> stars n s. square_cost m r c) = (\<Sum>(r, c) \<in> set ps. square_cost m r c) + int (n - min R C) * x"
    using sum.subset_diff [OF sub, of "\<lambda>(r, c). square_cost m r c"] by simp
  moreover have "(\<Sum>r < n. u r) + (\<Sum>c < n. v c) \<le> (\<Sum>(r, c) \<in> set qs. square_cost m r c) + int (n - min R C) * x"
    by (rule prices_below [OF assms(3) [folded R_def C_def] n_def price pad])
  ultimately have "(\<Sum>(r, c) \<in> set ps. square_cost m r c) \<le> (\<Sum>(r, c) \<in> set qs. square_cost m r c)" using stars by linarith
  then show ?thesis using total_cost_sum comp assms(3) by (simp add: m_def R_def C_def)
qed

section \<open>Properties\<close>

text \<open>
  C27. The assignment solver returns: for costs of at least 0 and below 100000 the loop over the five steps ends, in spite of the rounding
  of the double-precision sums, and the pairs use every row or every column of the matrix (whichever are fewer) and none twice.
\<close>

theorem solver_returns:
  assumes "bounded_costs costs"
  shows "\<exists>ps. HungarianOper_Solve costs = Some ps \<and> complete_assignment (length costs) (length (hd costs)) ps"
proof -
  obtain ps where "HungarianOper_Solve costs = Some ps" by (rule HungarianOper_terminates [OF assms])
  with HungarianOper_complete [OF this] show ?thesis by blast
qed

theorem solver_returns_witness: "\<exists>ps. HungarianOper_Solve [[Fin (1 / 4), Fin 1, Fin 0], [Fin 0, Fin 1, Fin 5]] = Some ps \<and> length ps = 2"
proof -
  have "bounded_costs [[Fin (1 / 4), Fin 1, Fin 0], [Fin 0, Fin 1, Fin 5]]" by code_simp
  from solver_returns [OF this] show ?thesis by (auto simp: complete_assignment_def)
qed

text \<open>
  C26. The assignment is the cheapest: for whole costs below 100000, in a matrix of at most 10000 rows and columns, square or not, no complete
  assignment costs less than the one the solver returns.
\<close>

theorem solver_minimal:
  assumes "whole_costs costs"
  shows "\<exists>ps. HungarianOper_Solve costs = Some ps \<and> complete_assignment (length costs) (length (hd costs)) ps \<and>
    (\<forall>qs. complete_assignment (length costs) (length (hd costs)) qs \<longrightarrow> total_cost costs ps \<le> total_cost costs qs)"
proof -
  have "all_small (length costs) (length (hd costs)) (matrix_of costs)"
    using wholeD(5) [OF whole_costs_at [OF assms]] by (simp add: all_small_def) (simp add: matrix_of_def)
  moreover have "0 < length costs" "0 < length (hd costs)" using assms by (simp_all add: whole_costs_def)
  ultimately obtain ps where ps: "HungarianOper_Solve costs = Some ps" by (rule small_costs_terminate)
  with HungarianOper_complete [OF ps] HungarianOper_minimal [OF assms ps] show ?thesis by blast
qed

theorem solver_minimal_witness:
  "\<exists>ps. HungarianOper_Solve [[Fin 1, Fin 2], [Fin 2, Fin 5]] = Some ps \<and> total_cost [[Fin 1, Fin 2], [Fin 2, Fin 5]] ps \<le> 4"
proof -
  have "whole_costs [[Fin 1, Fin 2], [Fin 2, Fin 5]]" by code_simp
  from solver_minimal [OF this] obtain ps where ps: "HungarianOper_Solve [[Fin 1, Fin 2], [Fin 2, Fin 5]] = Some ps"
    "\<forall>qs. complete_assignment 2 2 qs \<longrightarrow> total_cost [[Fin 1, Fin 2], [Fin 2, Fin 5]] ps \<le> total_cost [[Fin 1, Fin 2], [Fin 2, Fin 5]] qs"
    by (auto simp: numeral_2_eq_2)
  have "complete_assignment 2 2 [(0, 1), (1, 0)]" by (auto simp: complete_assignment_def)
  with ps(2) have "total_cost [[Fin 1, Fin 2], [Fin 2, Fin 5]] ps \<le> total_cost [[Fin 1, Fin 2], [Fin 2, Fin 5]] [(0, 1), (1, 0)]" by blast
  also have "\<dots> = 4" by (simp add: total_cost_def)
  finally show ?thesis using ps(1) by blast
qed

end
