(* ===== verification/Spec2Isabelle.thy ===== *)
theory Spec2Isabelle
  imports Startup SeiInjectorProofs RecorderProofs ByteTrackLiveness MunkresOptimal
begin

text \<open>
  Verification of media-agent, the agent that pulls RTSP streams, detects and tracks objects in them, writes the detections into the
  streams as SEI messages, publishes the streams again and reports alarms with pictures and recordings to a server.

  \<^bold>\<open>The program and its parts.\<close>
  \<open>main\<close> reads the command line and a JSON configuration and starts one \<open>Pipeline\<close>. The pipeline receives configurations over a Unix
  socket, merges them and keeps one \<open>StreamContext\<close> per stream. Three kinds of threads share the buffer of a stream: the puller enqueues
  packets and decoded frames, the inference workers take one frame at a time from the round-robin scheduler and store the
  result, and the publisher lets a packet out once its result is there or no longer expected. A result with alarm objects
  triggers a recording, a picture and one message per class of object, sent through a bounded queue by the thread of the socket.

  \<^bold>\<open>Theories and sources\<close> (paths under \<open>src/src\<close> if nothing else is said). Each group of definitions follows the order of its file;
  records are the classes and structs, with a prefix per record on the fields; a method is a function from the state before
  to the state after; undefined behaviour and errors are values (\<open>None\<close>, \<open>Inl\<close>, a constructor).
  \<^item> \<open>Prelude\<close>, \<open>Float32\<close>, \<open>Float64\<close>: integers, dictionaries, runs; IEEE single and double precision as rounded rationals.
  \<^item> \<open>Messages\<close>: the protobuf files; \<open>StreamTypes\<close>: \<open>pipeline/StreamTypes.h\<close>, \<open>common/DmaImage.h\<close>.
  \<^item> \<open>Config\<close>: \<open>common/Config\<close>; \<open>Uuid\<close>: \<open>common/Uuid.h\<close>; \<open>Timestamps\<close>: \<open>common/Time.h\<close>; \<open>Statistics\<close>: \<open>common/Statistics.cpp\<close>; \<open>ThreadSafeQueue\<close>: its header.
  \<^item> \<open>StreamBuffer\<close>, \<open>StreamBufferProofs\<close>: \<open>pipeline/StreamBuffer.cpp\<close>, every method of the shared buffer.
  \<^item> \<open>InferScheduler\<close>, \<open>InferSchedulerProofs\<close>: \<open>pipeline/InferScheduler.cpp\<close>, over a heap of buffers.
  \<^item> \<open>StreamFlow\<close>: the three threads of one stream as the step relation \<open>flow_step\<close>, one rule per call on the buffer.
  \<^item> \<open>ConfigFilter\<close>: \<open>pipeline/ConfigFilter.cpp\<close>, the merge of the pushed configurations.
  \<^item> \<open>SocketSender\<close>, \<open>IpcClient\<close>: \<open>ipc/SocketSender.cpp\<close>, \<open>ipc/IpcClient.cpp\<close>, \<open>protocol/MessageMapper.cpp\<close>.
  \<^item> \<open>Tracker\<close>, \<open>Detector\<close>, \<open>DetectorProofs\<close>: \<open>tracker/\<close>, \<open>detector/\<close>.
  \<^item> \<open>TrackerAdapter\<close>, \<open>ByteTrack\<close>, \<open>ByteTrackProofs\<close>, \<open>ByteTrackLiveness\<close>: \<open>third_party/algorithm/byteTrack\<close>, the adapter
    (\<open>src/MediaAgentTracker.cpp\<close>) and the tracker behind it (\<open>bytetrack/byte_track.cpp\<close>, \<open>dataType.cpp\<close>, \<open>kalman_filter\<close>).
  \<^item> \<open>Munkres\<close>, \<open>MunkresProofs\<close>, \<open>MunkresTermination\<close>, \<open>MunkresOptimal\<close>: the Hungarian solver under it, \<open>bytetrack/munkres_assignment\<close>:
    the steps 1 to 5 on matrix, marks and covers, the loop over them, and \<open>HungarianOper::Solve\<close>.
  \<^item> \<open>SeiInjector\<close>, \<open>SeiInjectorProofs\<close>: \<open>stream/SeiInjector.cpp\<close>; \<open>Muxing\<close>: \<open>stream/Utils.cpp\<close>, \<open>stream/RtspPublisher.cpp\<close>;
    \<open>Recorder\<close>, \<open>RecorderProofs\<close>: \<open>stream/Recorder.cpp\<close>; \<open>Snapshotter\<close>, \<open>Decoder\<close>, \<open>Puller\<close>: \<open>stream/Snapshotter.cpp\<close>,
    \<open>stream/MppDecoder.cpp\<close>, \<open>stream/RTSPPuller.cpp\<close>.
  \<^item> \<open>PipelineUtils\<close>, \<open>Pipeline\<close>: \<open>pipeline/Utils.cpp\<close>, \<open>pipeline/Pipeline.cpp\<close>, with one turn per loop;
    \<open>ReconcileProofs\<close>, \<open>LoopProofs\<close>: applying configurations, and the loops.
  \<^item> \<open>Startup\<close>: \<open>main.cpp\<close>, \<open>common/CmdArgs.cpp\<close>, \<open>common/Logger.h\<close>.

  \<^bold>\<open>Interfaces.\<close> What one part relies on in another is a locale, interpreted for the definitions of the provider.
  \<^item> \<open>dictionary\<close>: lookups after updates; for \<open>std::unordered_map\<close> and \<open>std::map\<close>.
  \<^item> \<open>checked_run\<close>: an invariant of the events carries over to runs; for the queue and for the sender.
  \<^item> \<open>lossy_fifo\<close>: the order of what goes through a queue that may drop its oldest element; for \<open>ThreadSafeQueue\<close>, used by the sender.
  \<^item> \<open>inference_source\<close>: what the scheduler asks of a buffer; for \<open>StreamBuffer\<close>.
  \<^item> \<open>flow_thread\<close>: what a thread has to show to be part of \<open>flow_step\<close>; for the puller and for the loops of the pipeline.

  \<^bold>\<open>What is shown.\<close>
  \<^item> One stream: under every interleaving the frame being inferred is never released, packets leave in order, a frame is released only
    after it; the buffer keeps its invariant and is a FIFO of packets. The code of the puller, of the workers and of the publishers refines
    this system. A reconnection with frames pending stops the publishing for good.
  \<^item> Scheduling: at most one task per stream, and a bounded wait for every stream with a frame.
  \<^item> Configuration: the merge equals a declarative reference; after a batch the table of streams, the contexts, the scheduler and the
    detectors agree with it; \<open>main\<close> leaves no thread behind; reading a written configuration gives it back.
  \<^item> Transport: a receiver running the same code gets a prefix of what was sent, whatever fails; each message at most once and in order;
    configurations are acknowledged.
  \<^item> SEI: a receiver written from the protocol document reads back what was injected, for both kinds of framing; injection is memory-safe.
  \<^item> Detection: the deduplication equals a reference over the whole history; alarms of one kind are spaced and none is lost outside the window;
    one message per class. The ids of objects come from confirmed tracks and are unique; the matching of tracks and detections in the adapter is stable.
  \<^item> The solver: whatever it returns is a complete assignment; with its rounding it returns for costs in [0, 100000), and for whole costs
    no complete assignment is cheaper. So a frame of ByteTrack returns for overlaps between 0 and 1, and both of its rounds are solved.
  \<^item> Files and pictures: recordings are contiguous and begin with a key frame, their time stamps increase; drawing changes exactly the outlines. A time stamp
    has fifteen characters and reads back as its time, so the files of a stream in different seconds have different names.

  \<^bold>\<open>Bounds and fuel.\<close> Loops that wait for the network are driven by lists of events, so every finite run is an instance; \<open>recvLoop\<close> has a
  number of turns, and its completeness lemma shows that as many turns as there are frames suffice. \<open>drain_loop\<close> may run forever and
  is a \<open>partial_function\<close>; that it returns once the decoder runs dry is a theorem. The loop of the solver is a \<open>while_option\<close>, and not
  returning is \<open>None\<close> up to the adapter; the bound 100000 on the costs and 10000 on the rows and columns keep every rounded sum below the
  values the solver reserves, and its \<open>progress\<close>, from the rows without a star and the lines covered in the phase, counts down. The reader \<open>read_length_prefixed\<close> of
  the specification has fuel, and the round trip needs one unit more than before the injection. The ids of tracks are unique for
  65533 detections per handle, because the counter then starts again. Signed integers are unbounded, since their overflow is undefined and no
  counter comes near it; unsigned counters wrap.

  \<^bold>\<open>Parameters.\<close> FFmpeg, MPP, the inference engine, the protobuf serialiser, the JSON text, \<open>getopt_long\<close>, \<open>std::sort\<close>, the
  arithmetic of the Kalman filter in ByteTrack, the clocks, the random bytes and the results of system calls are arguments of the definitions.
  Where a theorem needs a law of one of them, the law is a named hypothesis with a witness.

  \<^bold>\<open>Not modelled.\<close> Log lines and usage texts, which are only output; the readings of the clocks in \<open>common/Time.h\<close>; the memory model below mutexes:
  what a mutex guards is one step. Inside \<open>third_party\<close>: JSON, spdlog, Eigen, EdgeDeploy and the headers of MPP,
  libraries the sources only call; in ByteTrack the overloads nobody calls, in the solver the memory management and the printing of \<open>Matrix\<close>.

  \<^bold>\<open>Open ends.\<close> The arithmetic of the Kalman filter, the composition of \<open>ByteTrackTracker\<close> with the adapter (each is shown for every
  partner). The calls of the recorder from publisher and worker are steps of \<open>rec_run\<close> in any order; \<open>recorder_mutex\<close> guards each.
\<close>

end
